(* ===== verification/Prelude.thy ===== *)
theory Prelude
  imports Main "HOL-Library.Word"
begin

section \<open>Shared vocabulary of the development\<close>

text \<open>
  What every component uses: the exceptions the service raises, sequencing of fallible
  steps, and the collections of simplification rules the component proofs pass around.

  A Python exception is a value of type \<open>exn\<close>; a call that may raise has type
  \<open>exn + 'a\<close>, with \<open>Inl\<close> for the exception. An operation on the database has type
  \<open>db \<Rightarrow> exn + ('a \<times> db)\<close>: on \<open>Inl\<close> nothing is committed, because the session is
  closed without a commit and PostgreSQL rolls the transaction back.
\<close>

named_theorems run_simps \<open>unfolding and inversion of fallible steps\<close>
named_theorems table_simps \<open>lookups after inserts and updates of database tables\<close>

subsection \<open>Exceptions\<close>

text \<open>
  One constructor per exception class of the service; the first string is the \<open>reason\<close>
  code of the classes that carry one, the last the detail text. The constructors from
  \<open>KeyError\<close> on are exceptions of Python, of the database driver and of FastAPI that the
  code lets through or raises itself.
\<close>

datatype exn =
    MoneyError string
  | ExciseError string
  | SerialError string
  | SamplingError string
  | CanonicalizationError string
  | JwsError string string
  | VCError string string
  | StatusListError string string
  | StatusListServiceError string
  | EnvelopeError string string
  | AssessmentError string string
  | PaymentError string string
  | JournalError string
  | IssuanceError string string
  | VerificationError string string
  | AuthError string string
  | PolicyError string
  | KeyError string
  | TypeError string
  | ValueError string
  | OverflowError string
  | AttributeError string
  | AssertionError
  | UnicodeEncodeError
  | RedisUnavailable string
  | CheckViolation string
  | UniqueViolation string
  | ForeignKeyViolation string
  | DataError string
  | NoResultFound
  | RuntimeError string
  | HTTPException int string

type_synonym 'a result = "exn + 'a"

subsection \<open>Sequencing fallible steps\<close>

definition rbind :: "'e + 'a \<Rightarrow> ('a \<Rightarrow> 'e + 'b) \<Rightarrow> 'e + 'b" where
  "rbind m f = (case m of Inl e \<Rightarrow> Inl e | Inr x \<Rightarrow> f x)"

lemma rbind_Inl [simp]: "rbind (Inl e) f = Inl e"
  by (simp add: rbind_def)

lemma rbind_Inr [simp]: "rbind (Inr x) f = f x"
  by (simp add: rbind_def)

lemma rbind_eq_Inr [run_simps]: "rbind m f = Inr y \<longleftrightarrow> (\<exists>x. m = Inr x \<and> f x = Inr y)"
  by (cases m) auto

lemma rbind_eq_Inl: "rbind m f = Inl e \<longleftrightarrow> m = Inl e \<or> (\<exists>x. m = Inr x \<and> f x = Inl e)"
  by (cases m) auto

lemma rbindE:
  assumes "rbind m f = Inr y"
  obtains x where "m = Inr x" "f x = Inr y"
  using assms by (auto simp: rbind_eq_Inr)

text \<open>A guard: the exception, or nothing.\<close>

definition check :: "bool \<Rightarrow> 'e \<Rightarrow> 'e + unit" where
  "check ok e = (if ok then Inr () else Inl e)"

lemma check_eq_Inr [run_simps]: "check ok e = Inr x \<longleftrightarrow> ok"
  by (simp add: check_def)

lemma check_True [simp]: "check True e = Inr ()"
  by (simp add: check_def)

lemma check_False [simp]: "check False e = Inl e"
  by (simp add: check_def)

definition succeeds :: "'e + 'a \<Rightarrow> bool" where
  "succeeds m = (case m of Inl _ \<Rightarrow> False | Inr _ \<Rightarrow> True)"

lemma succeeds_simps [simp]: "succeeds (Inr x)" "\<not> succeeds (Inl e)"
  by (simp_all add: succeeds_def)

lemma succeeds_iff: "succeeds m \<longleftrightarrow> (\<exists>x. m = Inr x)"
  by (cases m) auto

text \<open>An exception caught and raised again as another one.\<close>

definition map_error :: "('e \<Rightarrow> 'f) \<Rightarrow> 'e + 'a \<Rightarrow> 'f + 'a" where
  "map_error f m = (case m of Inl e \<Rightarrow> Inl (f e) | Inr x \<Rightarrow> Inr x)"

lemma map_error_simps [simp]: "map_error f (Inl e) = Inl (f e)" "map_error f (Inr x) = Inr x"
  by (simp_all add: map_error_def)

lemma map_error_eq_Inr [run_simps]: "map_error f m = Inr x \<longleftrightarrow> m = Inr x"
  by (cases m) auto

text \<open>A list of fallible steps, stopping at the first exception.\<close>

fun map_result :: "('a \<Rightarrow> 'e + 'b) \<Rightarrow> 'a list \<Rightarrow> 'e + 'b list" where
  "map_result f [] = Inr []"
| "map_result f (x # xs) = rbind (f x) (\<lambda>y. rbind (map_result f xs) (\<lambda>ys. Inr (y # ys)))"

lemma map_result_eq_Inr: "map_result f xs = Inr ys \<longleftrightarrow> list_all2 (\<lambda>x y. f x = Inr y) xs ys"
  by (induction xs arbitrary: ys) (auto simp: rbind_eq_Inr list_all2_Cons1)

lemma map_result_length: "map_result f xs = Inr ys \<Longrightarrow> length ys = length xs"
  by (auto simp: map_result_eq_Inr dest: list_all2_lengthD)

subsection \<open>Codecs\<close>

text \<open>
  The contract several encodings of the service have (base64url, base58btc, serial numbers,
  list positions): decoding an encoded value returns it. What the callers use of it, that
  an encoding loses nothing, is proved once here; each provider interprets the locale on
  its own functions.
\<close>

locale codec =
  fixes valid :: "'a \<Rightarrow> bool"
    and enc :: "'a \<Rightarrow> 'b"
    and dec :: "'b \<Rightarrow> 'e + 'a"
  assumes dec_enc: "valid x \<Longrightarrow> dec (enc x) = Inr x"
begin

lemma enc_inj: "valid x \<Longrightarrow> valid y \<Longrightarrow> enc x = enc y \<longleftrightarrow> x = y"
  by (metis dec_enc sum.inject(2))

lemma enc_inj_on: "inj_on enc (Collect valid)"
  by (auto simp: inj_on_def enc_inj)

lemma map_enc_inj: "list_all valid xs \<Longrightarrow> list_all valid ys \<Longrightarrow> map enc xs = map enc ys \<longleftrightarrow> xs = ys"
proof (induction xs arbitrary: ys)
  case Nil
  then show ?case by auto
next
  case (Cons x xs)
  then show ?case by (cases ys) (auto simp: enc_inj)
qed

lemma dec_map_enc: "list_all valid xs \<Longrightarrow> map_result dec (map enc xs) = Inr xs"
  by (induction xs) (auto simp: dec_enc)

end

subsection \<open>Lists\<close>

lemma find_append: "find P (xs @ ys) = (case find P xs of None \<Rightarrow> find P ys | Some x \<Rightarrow> Some x)"
  by (induction xs) auto

lemma find_SomeD: "find P xs = Some x \<Longrightarrow> x \<in> set xs \<and> P x"
  by (metis find_Some_iff nth_mem)

lemma find_None_set: "find P xs = None \<longleftrightarrow> (\<forall>x \<in> set xs. \<not> P x)"
  by (auto simp: find_None_iff)

lemma append3_eq_nth: "i < length xs \<Longrightarrow> xs = take i xs @ xs ! i # drop (Suc i) xs"
  by (simp add: id_take_nth_drop)

lemma sum_list_map_filter_split:
  "sum_list (map f (filter P xs)) + sum_list (map f (filter (\<lambda>x. \<not> P x) xs)) = sum_list (map f xs)"
  for f :: "'a \<Rightarrow> int"
  by (induction xs) auto

lemma insort_key_snoc: "f x < f y \<Longrightarrow> insort_key f x (zs @ [y]) = insort_key f x zs @ [y]"
  by (induction zs) auto

lemma sort_key_snoc: "\<forall>x \<in> set xs. f x < f y \<Longrightarrow> sort_key f (xs @ [y]) = sort_key f xs @ [y]"
  by (induction xs) (auto simp: insort_key_snoc)

end
