(* ===== verification/PyText.thy ===== *)
theory PyText
  imports Prelude
begin

section \<open>Python text\<close>

text \<open>
  The string operations of Python the service uses. Service text is a HOL \<open>string\<close>, whose
  256 characters are read as the Latin-1 code points U+0000 to U+00FF; JSON text, where the
  order of code points beyond U+FFFF matters, is a list of code points (\<open>ucs\<close>), and
  \<open>ucs_of\<close> embeds the one in the other.
\<close>

type_synonym ucs = "nat list"
type_synonym byte = "8 word"
type_synonym bytes = "byte list"

definition ucs_of :: "string \<Rightarrow> ucs" where
  "ucs_of s = map of_char s"

lemma ucs_of_inj [simp]: "ucs_of s = ucs_of t \<longleftrightarrow> s = t"
  by (simp add: ucs_of_def inj_map_eq_map inj_on_def)

lemma ucs_of_Nil_iff [simp]: "ucs_of s = [] \<longleftrightarrow> s = []"
  by (simp add: ucs_of_def)

lemma ucs_of_append [simp]: "ucs_of (s @ t) = ucs_of s @ ucs_of t"
  by (simp add: ucs_of_def)

lemma ucs_of_bound: "c \<in> set (ucs_of s) \<Longrightarrow> c < 256"
  by (auto simp: ucs_of_def)

subsection \<open>Character classes\<close>

definition is_ascii_digit :: "char \<Rightarrow> bool" where
  "is_ascii_digit c = (48 \<le> (of_char c :: nat) \<and> (of_char c :: nat) \<le> 57)"

text \<open>\<open>str.isdigit\<close> holds of the superscripts two, three and one as well.\<close>

definition is_digit :: "char \<Rightarrow> bool" where
  "is_digit c = (is_ascii_digit c \<or> (of_char c :: nat) \<in> {178, 179, 185})"

definition is_ascii_upper :: "char \<Rightarrow> bool" where
  "is_ascii_upper c = (65 \<le> (of_char c :: nat) \<and> (of_char c :: nat) \<le> 90)"

definition is_ascii_lower :: "char \<Rightarrow> bool" where
  "is_ascii_lower c = (97 \<le> (of_char c :: nat) \<and> (of_char c :: nat) \<le> 122)"

definition is_space :: "char \<Rightarrow> bool" where
  "is_space c = (let n = (of_char c :: nat) in
     (9 \<le> n \<and> n \<le> 13) \<or> (28 \<le> n \<and> n \<le> 32) \<or> n = 133 \<or> n = 160)"

subsection \<open>strip and upper\<close>

definition lstrip :: "string \<Rightarrow> string" where
  "lstrip s = dropWhile is_space s"

definition rstrip :: "string \<Rightarrow> string" where
  "rstrip s = rev (dropWhile is_space (rev s))"

definition strip :: "string \<Rightarrow> string" where
  "strip s = rstrip (lstrip s)"

text \<open>
  Upper case: the sharp s becomes two letters. The micro sign and y with diaeresis, whose
  capitals lie beyond Latin-1, stay as they are.
\<close>

definition upper_char :: "char \<Rightarrow> string" where
  "upper_char c = (let n = (of_char c :: nat) in
     if is_ascii_lower c then [char_of (n - 32)]
     else if n = 223 then ''SS''
     else if 224 \<le> n \<and> n \<le> 254 \<and> n \<noteq> 247 then [char_of (n - 32)]
     else [c])"

definition upper :: "string \<Rightarrow> string" where
  "upper s = concat (map upper_char s)"

lemma upper_append [simp]: "upper (s @ t) = upper s @ upper t"
  by (simp add: upper_def)

lemma upper_Nil [simp]: "upper [] = []"
  by (simp add: upper_def)

text \<open>A character that upper-casing leaves alone and stripping never removes.\<close>

definition plain_char :: "char \<Rightarrow> bool" where
  "plain_char c = (upper_char c = [c] \<and> \<not> is_space c)"

lemma plain_char_digit: "is_ascii_digit c \<Longrightarrow> plain_char c"
  by (auto simp: plain_char_def is_ascii_digit_def upper_char_def is_ascii_lower_def is_space_def Let_def)

lemma plain_char_upper: "is_ascii_upper c \<Longrightarrow> plain_char c"
  by (auto simp: plain_char_def is_ascii_upper_def upper_char_def is_ascii_lower_def is_space_def Let_def)

lemma upper_plain: "list_all plain_char s \<Longrightarrow> upper s = s"
  by (induction s) (auto simp: upper_def plain_char_def)

lemma dropWhile_plain: "list_all plain_char s \<Longrightarrow> dropWhile is_space s = s"
  by (cases s) (auto simp: plain_char_def)

lemma strip_plain: "list_all plain_char s \<Longrightarrow> strip s = s"
  by (simp add: strip_def lstrip_def rstrip_def dropWhile_plain list_all_rev)

lemma upper_char_nonempty: "upper_char c \<noteq> []"
  by (simp add: upper_char_def Let_def)

lemma upper_char_space: "is_space c \<Longrightarrow> upper_char c = [c]"
  by (auto simp: upper_char_def is_space_def is_ascii_lower_def Let_def)

text \<open>Upper-casing makes no white space, and doing it again changes nothing.\<close>

lemma upper_char_trimmed: "\<not> is_space c \<Longrightarrow> \<not> is_space (last (upper_char c))"
  by (auto simp: upper_char_def is_space_def is_ascii_lower_def Let_def)

lemma upper_char_plain: "\<not> is_space c \<Longrightarrow> upper_char c = [c'] \<Longrightarrow> plain_char c'"
  by (auto simp: plain_char_def upper_char_def is_space_def is_ascii_lower_def Let_def split: if_splits)

lemma dropWhile_no_space: "list_all (\<lambda>c. \<not> is_space c) s \<Longrightarrow> dropWhile is_space s = s"
  by (cases s) auto

lemma strip_no_space: "list_all (\<lambda>c. \<not> is_space c) s \<Longrightarrow> strip s = s"
  by (simp add: strip_def lstrip_def rstrip_def dropWhile_no_space list_all_rev)

lemma strip_space_left: "is_space c \<Longrightarrow> strip (c # s) = strip s"
  by (simp add: strip_def lstrip_def)

lemma strip_space_right: "is_space c \<Longrightarrow> list_all plain_char s \<Longrightarrow> strip (s @ [c]) = strip s"
  by (cases s) (auto simp: strip_def lstrip_def rstrip_def plain_char_def)

lemma strip_inner:
  assumes "list_all plain_char a" "list_all plain_char b" "a \<noteq> []" "b \<noteq> []"
  shows "strip (a @ x @ b) = a @ x @ b"
proof -
  have "dropWhile is_space (a @ x @ b) = a @ x @ b" using assms(1,3) by (cases a) (auto simp: plain_char_def)
  moreover have "dropWhile is_space (rev b @ rev (a @ x)) = rev b @ rev (a @ x)"
    using assms(2,4) by (cases b rule: rev_cases) (auto simp: plain_char_def)
  ultimately show ?thesis by (simp add: strip_def lstrip_def rstrip_def)
qed

subsection \<open>Decimal numbers\<close>

definition digit_char :: "nat \<Rightarrow> char" where
  "digit_char d = char_of (48 + d)"

definition digit_val :: "char \<Rightarrow> nat" where
  "digit_val c = of_char c - 48"

fun str_nat :: "nat \<Rightarrow> string" where
  "str_nat n = (if n < 10 then [digit_char n] else str_nat (n div 10) @ [digit_char (n mod 10)])"

declare str_nat.simps [simp del]

definition str_int :: "int \<Rightarrow> string" where
  "str_int i = (if i < 0 then ''-'' @ str_nat (nat (- i)) else str_nat (nat i))"

text \<open>The format \<open>0wd\<close> of a non-negative number, and \<open>int\<close> of a string of digits.\<close>

definition zfill :: "nat \<Rightarrow> nat \<Rightarrow> string" where
  "zfill w n = replicate (w - length (str_nat n)) (digit_char 0) @ str_nat n"

definition nat_of_digits :: "string \<Rightarrow> nat" where
  "nat_of_digits s = foldl (\<lambda>a c. a * 10 + digit_val c) 0 s"

lemma of_char_digit_char: "d < 10 \<Longrightarrow> (of_char (digit_char d) :: nat) = 48 + d"
  by (simp add: digit_char_def)

lemma digit_val_char [simp]: "d < 10 \<Longrightarrow> digit_val (digit_char d) = d"
  by (simp add: digit_val_def of_char_digit_char)

lemma is_ascii_digit_char [simp]: "d < 10 \<Longrightarrow> is_ascii_digit (digit_char d)"
  by (simp add: is_ascii_digit_def of_char_digit_char)

lemma digit_char_val: "is_ascii_digit c \<Longrightarrow> digit_char (digit_val c) = c"
  by (simp add: digit_char_def digit_val_def is_ascii_digit_def)

lemma str_nat_digits: "list_all is_ascii_digit (str_nat n)"
proof (induction n rule: str_nat.induct)
  case (1 n)
  then show ?case by (subst str_nat.simps) auto
qed

lemma nat_of_digits_snoc [simp]: "nat_of_digits (s @ [c]) = nat_of_digits s * 10 + digit_val c"
  by (simp add: nat_of_digits_def)

lemma nat_of_digits_str_nat [simp]: "nat_of_digits (str_nat n) = n"
proof (induction n rule: str_nat.induct)
  case (1 n)
  show ?case
  proof (cases "n < 10")
    case True
    then show ?thesis by (subst str_nat.simps) (simp add: nat_of_digits_def)
  next
    case False
    with 1 show ?thesis by (subst str_nat.simps) simp
  qed
qed

lemma str_nat_inj [simp]: "str_nat m = str_nat n \<longleftrightarrow> m = n"
  by (metis nat_of_digits_str_nat)

lemma length_str_nat: "n < 10 ^ k \<Longrightarrow> 0 < k \<Longrightarrow> length (str_nat n) \<le> k"
proof (induction n arbitrary: k rule: str_nat.induct)
  case (1 n)
  show ?case
  proof (cases "n < 10")
    case True
    with 1 show ?thesis by (subst str_nat.simps) simp
  next
    case False
    obtain j where j: "k = Suc j" using 1 by (cases k) auto
    have "n div 10 < 10 ^ j" using 1 j by (simp add: less_mult_imp_div_less mult.commute)
    moreover have "0 < j" using False 1 j by (cases j) auto
    ultimately have "length (str_nat (n div 10)) \<le> j" using False "1.IH" by blast
    with False j show ?thesis by (subst str_nat.simps) simp
  qed
qed

lemma length_zfill: "n < 10 ^ w \<Longrightarrow> 0 < w \<Longrightarrow> length (zfill w n) = w"
  using length_str_nat [of n w] by (simp add: zfill_def)

lemma zfill_digits: "list_all is_ascii_digit (zfill w n)"
  using str_nat_digits [of n] by (auto simp: zfill_def list_all_iff)

lemma foldl_digits_zeros:
  "foldl (\<lambda>a c. a * 10 + digit_val c) 0 (replicate k (digit_char 0) @ s) = nat_of_digits s"
  by (induction k) (auto simp: nat_of_digits_def)

lemma nat_of_digits_zfill [simp]: "nat_of_digits (zfill w n) = n"
  by (metis foldl_digits_zeros nat_of_digits_def nat_of_digits_str_nat zfill_def)

lemma zfill_inj: "zfill w m = zfill w n \<longleftrightarrow> m = n"
  by (metis nat_of_digits_zfill)

text \<open>Non-empty digits are never confused with a sign: printing integers loses nothing.\<close>

lemma str_nat_not_Nil [simp]: "str_nat n \<noteq> []"
  by (subst str_nat.simps) auto

lemma hd_str_nat_digit: "is_ascii_digit (hd (str_nat n))"
  by (metis str_nat_digits str_nat_not_Nil list.set_sel(1) list_all_iff)

lemma str_int_inj [simp]: "str_int i = str_int j \<longleftrightarrow> i = j"
proof -
  have "\<not> is_ascii_digit (CHR ''-'')" by (simp add: is_ascii_digit_def)
  then have neq: "str_nat m \<noteq> ''-'' @ t" for m t
    using hd_str_nat_digit [of m] by (cases "str_nat m") auto
  show ?thesis
    using neq neq [symmetric] by (auto simp: str_int_def split: if_splits)
qed

subsection \<open>repr and slices\<close>

definition hex_digit :: "nat \<Rightarrow> char" where
  "hex_digit d = ''0123456789abcdef'' ! d"

definition is_printable :: "char \<Rightarrow> bool" where
  "is_printable c = (let n = (of_char c :: nat) in (32 \<le> n \<and> n \<le> 126) \<or> (161 \<le> n \<and> n \<noteq> 173))"

definition repr_char :: "char \<Rightarrow> char \<Rightarrow> string" where
  "repr_char q c = (let n = (of_char c :: nat) in
     if c = q \<or> n = 92 then [char_of (92 :: nat), c]
     else if n = 9 then [char_of (92 :: nat), CHR ''t'']
     else if n = 10 then [char_of (92 :: nat), CHR ''n'']
     else if n = 13 then [char_of (92 :: nat), CHR ''r'']
     else if is_printable c then [c]
     else [char_of (92 :: nat), CHR ''x'', hex_digit (n div 16), hex_digit (n mod 16)])"

definition py_repr :: "string \<Rightarrow> string" where
  "py_repr s = (let q = (if char_of (39 :: nat) \<in> set s \<and> char_of (34 :: nat) \<notin> set s
                        then char_of (34 :: nat) else char_of (39 :: nat))
     in [q] @ concat (map (repr_char q) s) @ [q])"

definition str_slice :: "nat \<Rightarrow> nat \<Rightarrow> 'a list \<Rightarrow> 'a list" where
  "str_slice i n s = take n (drop i s)"

lemma length_str_slice [simp]: "i + n \<le> length s \<Longrightarrow> length (str_slice i n s) = n"
  by (simp add: str_slice_def)

subsection \<open>UTF-8\<close>

text \<open>\<open>str.encode("utf-8")\<close>: a lone surrogate is an error.\<close>

definition utf8_units :: "nat \<Rightarrow> nat list" where
  "utf8_units c =
    (if c < 128 then [c]
     else if c < 2048 then [192 + c div 64, 128 + c mod 64]
     else if c < 65536 then [224 + c div 4096, 128 + c div 64 mod 64, 128 + c mod 64]
     else [240 + c div 262144, 128 + c div 4096 mod 64, 128 + c div 64 mod 64, 128 + c mod 64])"

definition is_surrogate :: "nat \<Rightarrow> bool" where
  "is_surrogate c = (55296 \<le> c \<and> c \<le> 57343)"

definition is_scalar :: "nat \<Rightarrow> bool" where
  "is_scalar c = (c < 1114112 \<and> \<not> is_surrogate c)"

definition utf8_encode :: "ucs \<Rightarrow> bytes result" where
  "utf8_encode s =
    (if list_ex is_surrogate s then Inl UnicodeEncodeError
     else Inr (map word_of_nat (concat (map utf8_units s))))"

definition ascii_bytes :: "string \<Rightarrow> bytes result" where
  "ascii_bytes s = (if list_all (\<lambda>c. (of_char c :: nat) < 128) s
                    then Inr (map (\<lambda>c. word_of_nat (of_char c)) s) else Inl UnicodeEncodeError)"

text \<open>Encoding service text never fails.\<close>

definition utf8_of :: "string \<Rightarrow> bytes" where
  "utf8_of s = map word_of_nat (concat (map utf8_units (ucs_of s)))"

lemma utf8_encode_ucs_of: "utf8_encode (ucs_of s) = Inr (utf8_of s)"
proof -
  have "\<not> list_ex is_surrogate (ucs_of s)"
    using ucs_of_bound by (fastforce simp: list_ex_iff is_surrogate_def)
  then show ?thesis by (simp add: utf8_encode_def utf8_of_def)
qed

lemma utf8_units_bound: "c < 1114112 \<Longrightarrow> u \<in> set (utf8_units c) \<Longrightarrow> u < 256"
  by (auto simp: utf8_units_def less_mult_imp_div_less split: if_splits)

text \<open>The first character of an encoded text, read back.\<close>

definition utf8_head :: "nat list \<Rightarrow> nat" where
  "utf8_head bs =
    (if bs ! 0 < 128 then bs ! 0
     else if bs ! 0 < 224 then (bs ! 0 - 192) * 64 + (bs ! 1 - 128)
     else if bs ! 0 < 240 then ((bs ! 0 - 224) * 64 + (bs ! 1 - 128)) * 64 + (bs ! 2 - 128)
     else (((bs ! 0 - 240) * 64 + (bs ! 1 - 128)) * 64 + (bs ! 2 - 128)) * 64 + (bs ! 3 - 128))"

lemma utf8_head_units:
  assumes "c < 1114112"
  shows "utf8_head (utf8_units c @ xs) = c"
proof -
  have dd: "c div 4096 = c div 64 div 64" "c div 262144 = c div 64 div 64 div 64"
    by (simp_all flip: div_mult2_eq)
  have e1: "c div 64 * 64 + c mod 64 = c" "c div 64 div 64 * 64 + c div 64 mod 64 = c div 64"
    "c div 64 div 64 div 64 * 64 + c div 64 div 64 mod 64 = c div 64 div 64"
    by (rule div_mult_mod_eq)+
  consider "c < 128" | "\<not> c < 128" "c < 2048" | "\<not> c < 2048" "c < 65536" | "\<not> c < 65536" by linarith
  then show ?thesis
  proof cases
    case 2
    then have "c div 64 < 32" by (simp add: less_mult_imp_div_less)
    with 2 e1 show ?thesis by (simp add: utf8_units_def utf8_head_def)
  next
    case 3
    then have "c div 64 div 64 < 16" by (simp add: less_mult_imp_div_less)
    with 3 e1 show ?thesis by (simp add: utf8_units_def utf8_head_def dd)
  next
    case 4
    with e1 show ?thesis by (simp add: utf8_units_def utf8_head_def dd)
  qed (simp add: utf8_units_def utf8_head_def)
qed

lemma utf8_units_prefix:
  assumes "utf8_units c @ xs = utf8_units d @ ys" "c < 1114112" "d < 1114112"
  shows "c = d \<and> xs = ys"
proof -
  have "c = d" using assms utf8_head_units by metis
  with assms show ?thesis by simp
qed

lemma utf8_concat_inj:
  assumes "concat (map utf8_units xs) = concat (map utf8_units ys)" "list_all (\<lambda>c. c < 1114112) xs" "list_all (\<lambda>c. c < 1114112) ys"
  shows "xs = ys"
  using assms
proof (induction xs arbitrary: ys)
  case Nil
  then show ?case by (cases ys) (auto simp: utf8_units_def split: if_splits)
next
  case (Cons x xs)
  then show ?case
  proof (cases ys)
    case Nil
    with Cons show ?thesis by (auto simp: utf8_units_def split: if_splits)
  next
    case (Cons y ys')
    with Cons.prems have "x = y \<and> concat (map utf8_units xs) = concat (map utf8_units ys')"
      by (intro utf8_units_prefix) auto
    with Cons Cons.prems Cons.IH [of ys'] show ?thesis by auto
  qed
qed

lemma word_of_nat_map_inj:
  assumes "map (word_of_nat :: nat \<Rightarrow> byte) xs = map word_of_nat ys" "list_all (\<lambda>u. u < 256) xs" "list_all (\<lambda>u. u < 256) ys"
  shows "xs = ys"
proof -
  have u: "map unat (map (word_of_nat :: nat \<Rightarrow> byte) zs) = zs" if "list_all (\<lambda>u. u < 256) zs" for zs
    using that by (induction zs) (simp_all add: unsigned_of_nat take_bit_eq_mod)
  show ?thesis using u [OF assms(2)] u [OF assms(3)] assms(1) by metis
qed

lemma utf8_bytes_inj:
  assumes "map (word_of_nat :: nat \<Rightarrow> byte) (concat (map utf8_units xs)) = map word_of_nat (concat (map utf8_units ys))"
    and "list_all (\<lambda>c. c < 1114112) xs" "list_all (\<lambda>c. c < 1114112) ys"
  shows "xs = ys"
proof -
  have "list_all (\<lambda>u. u < 256) (concat (map utf8_units zs))" if "list_all (\<lambda>c. c < 1114112) zs" for zs
    using that utf8_units_bound by (fastforce simp: list_all_iff)
  then show ?thesis using assms word_of_nat_map_inj utf8_concat_inj by blast
qed

lemma utf8_of_inj [simp]: "utf8_of s = utf8_of t \<longleftrightarrow> s = t"
proof
  assume "utf8_of s = utf8_of t"
  then have "ucs_of s = ucs_of t"
    unfolding utf8_of_def
    by (rule utf8_bytes_inj) (use ucs_of_bound in \<open>fastforce simp: list_all_iff\<close>)+
  then show "s = t" by simp
qed simp

end
