(* ===== verification/Serials.thy ===== *)
theory Serials
  imports PyText
begin

section \<open>Serial numbers with a Luhn mod-34 check character\<close>

text \<open>
  \<open>src/taxstamps/domain/serials.py\<close>: the check character, and the printing and parsing of
  \<open>NG-CAT-YYYY-SEQ10-K\<close>. The properties: printing then parsing returns the parts, serials
  of different parts differ, every single-character error is rejected, and a transposition of
  two neighbours in the body goes unnoticed for the pair 0 and Z only.
\<close>

definition ALPHABET :: string where
  "ALPHABET = ''0123456789ABCDEFGHJKLMNPQRSTUVWXYZ''"

definition CATEGORIES :: "string \<rightharpoonup> string" where
  "CATEGORIES = map_of [(''tobacco'', ''TBC''), (''alcohol'', ''ALC''),
     (''pharmaceuticals'', ''PHA''), (''beverages'', ''BEV'')]"

fun list_index :: "'a list \<Rightarrow> 'a \<Rightarrow> nat option" where
  "list_index [] c = None"
| "list_index (x # xs) c = (if x = c then Some 0 else map_option Suc (list_index xs c))"

definition INDEX :: "char \<Rightarrow> nat option" where
  "INDEX c = list_index ALPHABET c"

definition code_point :: "char \<Rightarrow> nat result" where
  "code_point c = (case INDEX c of
     None \<Rightarrow> Inl (SerialError (''character '' @ py_repr [c] @ '' not in serial alphabet''))
   | Some i \<Rightarrow> Inr i)"

text \<open>The loop of \<open>luhn_mod_n_check\<close> over the reversed code points.\<close>

fun luhn_loop :: "nat \<Rightarrow> nat \<Rightarrow> nat \<Rightarrow> nat list \<Rightarrow> nat" where
  "luhn_loop n factor acc [] = acc"
| "luhn_loop n factor acc (cp # cps) =
     (let addend = factor * cp;
          factor' = (if factor = 2 then 1 else 2);
          addend' = addend div n + addend mod n
      in luhn_loop n factor' (acc + addend') cps)"

definition luhn_mod_n_check :: "string \<Rightarrow> char result" where
  "luhn_mod_n_check body =
    (let n = length ALPHABET
     in rbind (map_result code_point body) (\<lambda>code_points.
          let total = luhn_loop n 2 0 (rev code_points);
              remainder = total mod n;
              check_index = (n - remainder) mod n
          in Inr (ALPHABET ! check_index)))"

definition luhn_mod_n_validate :: "string \<Rightarrow> string \<Rightarrow> bool" where
  "luhn_mod_n_validate body chk =
    (if length chk \<noteq> 1 \<or> INDEX (hd chk) = None then False
     else case luhn_mod_n_check body of Inl _ \<Rightarrow> False | Inr expected \<Rightarrow> [expected] = chk)"

definition build_serial :: "string \<Rightarrow> int \<Rightarrow> int \<Rightarrow> string result" where
  "build_serial category_code year sequence =
    (let cat = upper category_code
     in if \<not> (length cat = 3 \<and> list_all is_ascii_upper cat)
        then Inl (SerialError (''invalid category code '' @ py_repr category_code))
        else if \<not> (1900 \<le> year \<and> year \<le> 9999)
        then Inl (SerialError (''invalid year '' @ str_int year))
        else if \<not> (0 \<le> sequence \<and> sequence \<le> 9999999999)
        then Inl (SerialError (''sequence '' @ str_int sequence @ '' out of range''))
        else let body = ''NG'' @ cat @ zfill 4 (nat year) @ zfill 10 (nat sequence)
             in rbind (luhn_mod_n_check body) (\<lambda>k.
                  Inr (''NG-'' @ cat @ ''-'' @ zfill 4 (nat year) @ ''-''
                       @ zfill 10 (nat sequence) @ ''-'' @ [k])))"

record SerialParts =
  sp_category_code :: string
  sp_year :: int
  sp_sequence :: int
  sp_check :: string
  sp_serial :: string

text \<open>
  The regular expression \<open>^NG-([A-Z]{3})-(\d{4})-(\d{10})-([0-9A-Z])$\<close>: its dollar also
  matches before a final newline. Within Latin-1, \<open>\d\<close> is an ASCII digit.
\<close>

definition serial_match :: "string \<Rightarrow> (string \<times> string \<times> string \<times> string) option" where
  "serial_match s0 =
    (let s = (if s0 \<noteq> [] \<and> (of_char (last s0) :: nat) = 10 then butlast s0 else s0)
     in if length s = 24 \<and> str_slice 0 3 s = ''NG-'' \<and> list_all is_ascii_upper (str_slice 3 3 s)
           \<and> s ! 6 = CHR ''-'' \<and> list_all is_ascii_digit (str_slice 7 4 s)
           \<and> s ! 11 = CHR ''-'' \<and> list_all is_ascii_digit (str_slice 12 10 s)
           \<and> s ! 22 = CHR ''-'' \<and> (is_ascii_digit (s ! 23) \<or> is_ascii_upper (s ! 23))
        then Some (str_slice 3 3 s, str_slice 7 4 s, str_slice 12 10 s, [s ! 23])
        else None)"

definition parse_serial :: "string \<Rightarrow> SerialParts result" where
  "parse_serial serial0 =
    (let serial = upper (strip serial0)
     in case serial_match serial of
          None \<Rightarrow> Inl (SerialError ''serial does not match NG-<CAT3>-<YYYY>-<SEQ10>-<CHECK>'')
        | Some (cat, year_s, seq_s, chk) \<Rightarrow>
            if \<not> luhn_mod_n_validate (''NG'' @ cat @ year_s @ seq_s) chk
            then Inl (SerialError ''serial check digit mismatch'')
            else Inr \<lparr>sp_category_code = cat, sp_year = int (nat_of_digits year_s),
                      sp_sequence = int (nat_of_digits seq_s), sp_check = chk, sp_serial = serial\<rparr>)"

definition validate_serial :: "string \<Rightarrow> bool" where
  "validate_serial serial = (case parse_serial serial of Inr _ \<Rightarrow> True | Inl _ \<Rightarrow> False)"

subsection \<open>The alphabet\<close>

lemma length_ALPHABET [simp]: "length ALPHABET = 34"
  by (simp add: ALPHABET_def)

lemma distinct_ALPHABET: "distinct ALPHABET"
  by (simp add: ALPHABET_def)

lemma list_index_Some: "list_index xs c = Some i \<Longrightarrow> i < length xs \<and> xs ! i = c"
  by (induction xs arbitrary: i) (auto split: if_splits)

lemma list_index_None: "list_index xs c = None \<longleftrightarrow> c \<notin> set xs"
  by (induction xs) auto

lemma INDEX_Some: "INDEX c = Some i \<Longrightarrow> i < 34 \<and> ALPHABET ! i = c"
  using list_index_Some [of ALPHABET c i] by (simp add: INDEX_def)

lemma INDEX_inj: "INDEX c = Some i \<Longrightarrow> INDEX d = Some i \<Longrightarrow> c = d"
  using INDEX_Some by blast

lemma INDEX_None: "INDEX c = None \<longleftrightarrow> c \<notin> set ALPHABET"
  by (simp add: INDEX_def list_index_None)

lemma ALPHABET_nth_inj: "i < 34 \<Longrightarrow> j < 34 \<Longrightarrow> ALPHABET ! i = ALPHABET ! j \<longleftrightarrow> i = j"
  using distinct_ALPHABET by (simp add: nth_eq_iff_index_eq)

lemma code_point_Inr: "code_point c = Inr i \<longleftrightarrow> INDEX c = Some i"
  by (auto simp: code_point_def split: option.splits)

lemma ALPHABET_class: "c \<in> set ALPHABET \<Longrightarrow> is_ascii_digit c \<or> is_ascii_upper c"
  by (auto simp: ALPHABET_def is_ascii_digit_def is_ascii_upper_def)

subsection \<open>The weighted sum\<close>

definition luhn_weight :: "nat \<Rightarrow> nat \<Rightarrow> nat" where
  "luhn_weight factor cp = factor * cp div 34 + factor * cp mod 34"

definition flip_factor :: "nat \<Rightarrow> nat" where
  "flip_factor f = (if f = 2 then 1 else 2)"

definition factor_after :: "nat \<Rightarrow> nat \<Rightarrow> nat" where
  "factor_after k f = (flip_factor ^^ k) f"

lemma factor_after_Suc: "factor_after (Suc k) f = factor_after k (flip_factor f)"
  by (simp add: factor_after_def funpow_swap1)

lemma factor_after_cases: "f \<in> {1, 2} \<Longrightarrow> factor_after k f \<in> {1, 2}"
  by (induction k arbitrary: f) (auto simp: factor_after_def flip_factor_def)

lemma luhn_loop_Cons:
  "luhn_loop 34 f t (c # cs) = luhn_loop 34 (flip_factor f) (t + luhn_weight f c) cs"
  by (simp add: luhn_weight_def flip_factor_def Let_def)

lemma luhn_loop_acc: "luhn_loop 34 f t cs = t + luhn_loop 34 f 0 cs"
proof (induction cs arbitrary: f t)
  case (Cons c cs)
  have "luhn_loop 34 f t (c # cs) = (t + luhn_weight f c) + luhn_loop 34 (flip_factor f) 0 cs"
    unfolding luhn_loop_Cons by (rule Cons.IH)
  moreover have "luhn_loop 34 f 0 (c # cs) = luhn_weight f c + luhn_loop 34 (flip_factor f) 0 cs"
    unfolding luhn_loop_Cons using Cons.IH [of _ "0 + luhn_weight f c"] by simp
  ultimately show ?case by simp
qed simp

lemma luhn_loop_split:
  "luhn_loop 34 f t (xs @ ys) = luhn_loop 34 f t xs + luhn_loop 34 (factor_after (length xs) f) 0 ys"
proof (induction xs arbitrary: f t)
  case Nil
  then show ?case by (simp add: factor_after_def luhn_loop_acc [of f t ys])
next
  case (Cons x xs)
  then show ?case
    by (simp only: append_Cons luhn_loop_Cons length_Cons factor_after_Suc)
qed

lemma luhn_weight_1: "c < 34 \<Longrightarrow> luhn_weight 1 c = c"
  by (simp add: luhn_weight_def)

lemma luhn_weight_2:
  assumes "c < 34"
  shows "luhn_weight 2 c = (if c < 17 then 2 * c else 2 * c - 33)"
proof (cases "c < 17")
  case False
  then have "2 * c = (2 * c - 34) + 1 * 34" and lt: "2 * c - 34 < 34" using assms by auto
  then have "2 * c div 34 = 1 \<and> 2 * c mod 34 = 2 * c - 34"
    by (metis add.commute div_less div_mult_self1 mod_less mod_mult_self1 one_neq_zero add_0 zero_neq_numeral)
  with False show ?thesis by (simp add: luhn_weight_def)
qed (simp add: luhn_weight_def)

lemma luhn_weight_bound: "f \<in> {1, 2} \<Longrightarrow> c < 34 \<Longrightarrow> luhn_weight f c < 34"
  by (auto simp: luhn_weight_1 [simplified] luhn_weight_2)

lemma luhn_weight_inj:
  assumes f: "f \<in> {1, 2}" and c: "c < 34" and d: "d < 34"
    and "luhn_weight f c mod 34 = luhn_weight f d mod 34"
  shows "c = d"
proof -
  have eq: "luhn_weight f c = luhn_weight f d"
    using assms luhn_weight_bound by simp
  consider "f = 1" | "f = 2" using f by blast
  then show ?thesis
  proof cases
    case 1
    with eq c d show ?thesis by (simp add: luhn_weight_1 [simplified])
  next
    case 2
    with eq c d have "(if c < 17 then 2 * c else 2 * c - 33) = (if d < 17 then 2 * d else 2 * d - 33)"
      by (simp add: luhn_weight_2)
    with c d show ?thesis by presburger
  qed
qed

lemma mod34_cong: "(m :: nat) mod 34 = n mod 34 \<Longrightarrow> \<exists>k. int m - int n = 34 * k"
  by (metis dvd_def mod_eq_dvd_iff of_nat_mod of_nat_numeral)

lemma double_minus_swap:
  assumes c: "c < 34" and d: "d < 34"
    and eq: "(luhn_weight 2 c + d) mod 34 = (luhn_weight 2 d + c) mod 34"
  shows "c = d \<or> {c, d} = {0, 33}"
proof -
  obtain k where k: "int (luhn_weight 2 c + d) - int (luhn_weight 2 d + c) = 34 * k"
    using mod34_cong [OF eq] by blast
  consider "c < 17" "d < 17" | "c < 17" "17 \<le> d" | "17 \<le> c" "d < 17" | "17 \<le> c" "17 \<le> d"
    by linarith
  then show ?thesis
  proof cases
    case 1
    with k c d have "int c - int d = 34 * k" by (simp add: luhn_weight_2)
    with c d have "k = 0" by linarith
    with \<open>int c - int d = 34 * k\<close> show ?thesis by simp
  next
    case 2
    with k c d have e: "int c - int d + 33 = 34 * k" by (simp add: luhn_weight_2)
    with 2 d have "k = 0" by linarith
    with e 2 d have "c = 0 \<and> d = 33" by linarith
    then show ?thesis by simp
  next
    case 3
    with k c d have e: "int c - int d - 33 = 34 * k" by (simp add: luhn_weight_2)
    with 3 c have "k = 0" by linarith
    with e 3 c have "c = 33 \<and> d = 0" by linarith
    then show ?thesis by auto
  next
    case 4
    with k c d have "int c - int d = 34 * k" by (simp add: luhn_weight_2)
    with c d have "k = 0" by linarith
    with \<open>int c - int d = 34 * k\<close> show ?thesis by simp
  qed
qed

lemma luhn_weight_swap:
  assumes f: "f \<in> {1, 2}" and c: "c < 34" and d: "d < 34"
    and eq: "(luhn_weight f c + luhn_weight (flip_factor f) d) mod 34
       = (luhn_weight f d + luhn_weight (flip_factor f) c) mod 34"
  shows "c = d \<or> {c, d} = {0, 33}"
proof -
  consider "f = 1" | "f = 2" using f by blast
  then show ?thesis
  proof cases
    case 1
    with eq c d have "(luhn_weight 2 c + d) mod 34 = (luhn_weight 2 d + c) mod 34"
      by (simp add: flip_factor_def luhn_weight_1 [simplified] add.commute)
    with c d show ?thesis by (rule double_minus_swap)
  next
    case 2
    with eq c d have "(luhn_weight 2 c + d) mod 34 = (luhn_weight 2 d + c) mod 34"
      by (simp add: flip_factor_def luhn_weight_1 [simplified])
    with c d show ?thesis by (rule double_minus_swap)
  qed
qed

subsection \<open>The check character\<close>

definition luhn_total :: "string \<Rightarrow> nat" where
  "luhn_total body = luhn_loop 34 2 0 (rev (map (\<lambda>c. the (INDEX c)) body))"

lemma code_points_iff:
  "map_result code_point body = Inr cps \<longleftrightarrow> set body \<subseteq> set ALPHABET \<and> cps = map (\<lambda>c. the (INDEX c)) body"
proof (induction body arbitrary: cps)
  case Nil
  then show ?case by auto
next
  case (Cons c body)
  show ?case
  proof (cases "INDEX c")
    case None
    then have "code_point c = Inl (SerialError (''character '' @ py_repr [c] @ '' not in serial alphabet''))"
      and "c \<notin> set ALPHABET"
      using INDEX_None [of c] by (auto simp: code_point_def)
    then show ?thesis by simp
  next
    case (Some i)
    then have "code_point c = Inr i" "c \<in> set ALPHABET"
      using INDEX_None [of c] by (auto simp: code_point_Inr)
    with Some Cons show ?thesis by (auto simp: rbind_eq_Inr)
  qed
qed

lemma luhn_check_iff:
  "luhn_mod_n_check body = Inr k \<longleftrightarrow>
     set body \<subseteq> set ALPHABET \<and> k = ALPHABET ! ((34 - luhn_total body mod 34) mod 34)"
  by (auto simp: luhn_mod_n_check_def rbind_eq_Inr code_points_iff luhn_total_def Let_def)

lemma luhn_check_ok: "set body \<subseteq> set ALPHABET \<Longrightarrow> \<exists>k. luhn_mod_n_check body = Inr k \<and> k \<in> set ALPHABET"
  by (simp add: luhn_check_iff)

lemma luhn_check_alphabet: "luhn_mod_n_check body = Inr k \<Longrightarrow> k \<in> set ALPHABET"
  by (auto simp: luhn_check_iff)

lemma check_index_inj: "(34 - a mod 34) mod 34 = (34 - b mod 34) mod (34 :: nat) \<Longrightarrow> a mod 34 = b mod 34"
proof -
  assume "(34 - a mod 34) mod 34 = (34 - b mod 34) mod (34 :: nat)"
  moreover have "a mod 34 < 34" "b mod 34 < 34" by simp_all
  ultimately show ?thesis by (cases "a mod 34 = 0"; cases "b mod 34 = 0") auto
qed

lemma luhn_check_eq_iff:
  assumes "set xs \<subseteq> set ALPHABET" "set ys \<subseteq> set ALPHABET"
  shows "luhn_mod_n_check xs = luhn_mod_n_check ys \<longleftrightarrow> luhn_total xs mod 34 = luhn_total ys mod 34"
proof -
  obtain k where k: "luhn_mod_n_check xs = Inr k" using assms(1) luhn_check_ok by blast
  obtain l where l: "luhn_mod_n_check ys = Inr l" using assms(2) luhn_check_ok by blast
  let ?i = "\<lambda>xs. (34 - luhn_total xs mod 34) mod 34"
  have "k = l \<longleftrightarrow> ?i xs = ?i ys"
    using k l ALPHABET_nth_inj [of "?i xs" "?i ys"] by (simp add: luhn_check_iff)
  also have "\<dots> \<longleftrightarrow> luhn_total xs mod 34 = luhn_total ys mod 34"
    using check_index_inj [of "luhn_total xs" "luhn_total ys"] by auto
  finally show ?thesis using k l by simp
qed

lemma luhn_total_split:
  "luhn_total (xs @ ys) = luhn_total ys
     + luhn_loop 34 (factor_after (length ys) 2) 0 (rev (map (\<lambda>c. the (INDEX c)) xs))"
  by (simp add: luhn_total_def luhn_loop_split)

lemma luhn_total_mid:
  "luhn_total (xs @ c # ys) = luhn_total ys + luhn_weight (factor_after (length ys) 2) (the (INDEX c))
     + luhn_loop 34 (flip_factor (factor_after (length ys) 2)) 0 (rev (map (\<lambda>c. the (INDEX c)) xs))"
proof -
  have "luhn_total (xs @ c # ys) = luhn_loop 34 2 0
      (rev (map (\<lambda>c. the (INDEX c)) ys) @ the (INDEX c) # rev (map (\<lambda>c. the (INDEX c)) xs))"
    by (simp add: luhn_total_def)
  then show ?thesis
    by (simp add: luhn_loop_split luhn_loop_Cons luhn_total_def
        luhn_loop_acc [of _ "luhn_weight _ _"] del: luhn_loop.simps)
qed

lemma nat_mod_add_cancel: "((a :: nat) + b) mod n = (a + c) mod n \<longleftrightarrow> b mod n = c mod n"
proof -
  have "(int a + int b) mod int n = (int a + int c) mod int n \<longleftrightarrow> int b mod int n = int c mod int n"
    by (simp add: mod_eq_dvd_iff)
  then show ?thesis by (metis of_nat_add of_nat_eq_iff of_nat_mod)
qed

lemma nat_mod_add_cancel_mid:
  "((p :: nat) + a + b + q) mod n = (p + c + d + q) mod n \<longleftrightarrow> (a + b) mod n = (c + d) mod n"
proof -
  have "p + a + b + q = (p + q) + (a + b)" "p + c + d + q = (p + q) + (c + d)" by simp_all
  then show ?thesis by (simp only: nat_mod_add_cancel)
qed

lemma luhn_substitution_aux:
  assumes "luhn_mod_n_check (xs @ a # ys) = Inr k" "a \<noteq> b"
  shows "luhn_mod_n_check (xs @ b # ys) \<noteq> Inr k"
proof
  assume b: "luhn_mod_n_check (xs @ b # ys) = Inr k"
  let ?f = "factor_after (length ys) 2"
  have f: "?f \<in> {1, 2}" by (rule factor_after_cases) simp
  have alph: "set (xs @ a # ys) \<subseteq> set ALPHABET" "set (xs @ b # ys) \<subseteq> set ALPHABET"
    using assms b by (auto simp: luhn_check_iff)
  obtain i where i: "INDEX a = Some i" using alph INDEX_None [of a] by auto
  obtain j where j: "INDEX b = Some j" using alph INDEX_None [of b] by auto
  have "luhn_total (xs @ a # ys) mod 34 = luhn_total (xs @ b # ys) mod 34"
    using luhn_check_eq_iff [OF alph] assms b by simp
  then have "luhn_weight ?f i mod 34 = luhn_weight ?f j mod 34"
    by (simp add: luhn_total_mid i j nat_mod_add_cancel add.assoc add.commute [of _ "luhn_loop _ _ _ _"])
  then have "i = j" using luhn_weight_inj [OF f] INDEX_Some i j by blast
  with i j INDEX_inj assms(2) show False by blast
qed

lemma luhn_total_pair:
  "luhn_total (xs @ a # b # ys) = luhn_total ys + luhn_weight (factor_after (length ys) 2) (the (INDEX b))
     + luhn_weight (flip_factor (factor_after (length ys) 2)) (the (INDEX a))
     + luhn_loop 34 (factor_after (length ys) 2) 0 (rev (map (\<lambda>c. the (INDEX c)) xs))"
proof -
  let ?f = "factor_after (length ys) 2"
  have f: "?f \<in> {1, 2}" by (rule factor_after_cases) simp
  have "luhn_total ((xs @ [a]) @ b # ys) = luhn_total ys + luhn_weight ?f (the (INDEX b))
     + luhn_loop 34 (flip_factor ?f) 0 (the (INDEX a) # rev (map (\<lambda>c. the (INDEX c)) xs))"
    by (subst luhn_total_mid) (simp del: luhn_loop.simps)
  also have "luhn_loop 34 (flip_factor ?f) 0 (the (INDEX a) # rev (map (\<lambda>c. the (INDEX c)) xs))
     = luhn_weight (flip_factor ?f) (the (INDEX a))
       + luhn_loop 34 ?f 0 (rev (map (\<lambda>c. the (INDEX c)) xs))"
    using f by (subst luhn_loop_Cons, subst luhn_loop_acc) (auto simp: flip_factor_def)
  finally show ?thesis by simp
qed

lemma INDEX_ends: "INDEX c = Some 0 \<longleftrightarrow> c = CHR ''0''" "INDEX c = Some 33 \<longleftrightarrow> c = CHR ''Z''"
proof -
  have 0: "INDEX CHR ''0'' = Some 0" and Z: "INDEX CHR ''Z'' = Some 33" by code_simp+
  show "INDEX c = Some 0 \<longleftrightarrow> c = CHR ''0''" "INDEX c = Some 33 \<longleftrightarrow> c = CHR ''Z''"
    using INDEX_inj [of c 0 "CHR ''0''"] INDEX_inj [of c 33 "CHR ''Z''"] 0 Z by auto
qed

lemma luhn_weight_ends: "luhn_weight f 33 mod 34 = luhn_weight g 33 mod 34" "luhn_weight f 0 = 0"
  if "f \<in> {1, 2}" "g \<in> {1, 2}"
  using that by (auto simp: luhn_weight_def)

text \<open>Swapping two neighbouring characters of a body changes the check character unless the
  two are equal or are the first and last symbols of the alphabet, 0 and Z; that pair is the only
  blind spot.\<close>

theorem luhn_transposition:
  assumes "set (xs @ a # b # ys) \<subseteq> set ALPHABET"
  shows "luhn_mod_n_check (xs @ b # a # ys) = luhn_mod_n_check (xs @ a # b # ys)
     \<longleftrightarrow> a = b \<or> {a, b} = {CHR ''0'', CHR ''Z''}"
proof -
  let ?f = "factor_after (length ys) 2"
  have f: "?f \<in> {1, 2}" "flip_factor ?f \<in> {1, 2}"
    using factor_after_cases [of 2 "length ys"] by (auto simp: flip_factor_def)
  obtain i where i: "INDEX a = Some i" using assms INDEX_None [of a] by auto
  obtain j where j: "INDEX b = Some j" using assms INDEX_None [of b] by auto
  have ij: "i < 34" "j < 34" "i = j \<longleftrightarrow> a = b" using i j INDEX_Some INDEX_inj by auto
  have "luhn_mod_n_check (xs @ b # a # ys) = luhn_mod_n_check (xs @ a # b # ys)
     \<longleftrightarrow> luhn_total (xs @ b # a # ys) mod 34 = luhn_total (xs @ a # b # ys) mod 34"
    using assms by (intro luhn_check_eq_iff) auto
  also have "\<dots> \<longleftrightarrow> (luhn_weight ?f i + luhn_weight (flip_factor ?f) j) mod 34
                = (luhn_weight ?f j + luhn_weight (flip_factor ?f) i) mod 34"
    unfolding luhn_total_pair i j option.sel
    by (rule nat_mod_add_cancel_mid)
  also have "\<dots> \<longleftrightarrow> i = j \<or> {i, j} = {0, 33}"
  proof
    assume "i = j \<or> {i, j} = {0, 33}"
    then show "(luhn_weight ?f i + luhn_weight (flip_factor ?f) j) mod 34
                = (luhn_weight ?f j + luhn_weight (flip_factor ?f) i) mod 34"
      using f luhn_weight_ends [of ?f "flip_factor ?f"] luhn_weight_ends [of "flip_factor ?f" ?f]
      by (auto simp: doubleton_eq_iff)
  qed (rule luhn_weight_swap [OF f(1) ij(1,2)])
  also have "\<dots> \<longleftrightarrow> a = b \<or> {a, b} = {CHR ''0'', CHR ''Z''}"
  proof -
    have "i = 0 \<longleftrightarrow> a = CHR ''0''" "i = 33 \<longleftrightarrow> a = CHR ''Z''" "j = 0 \<longleftrightarrow> b = CHR ''0''" "j = 33 \<longleftrightarrow> b = CHR ''Z''"
      using INDEX_ends [of a] INDEX_ends [of b] i j by simp_all
    then show ?thesis unfolding doubleton_eq_iff ij(3) by simp
  qed
  finally show ?thesis .
qed

theorem luhn_transposition_witness:
  "luhn_mod_n_check ''NGTBC20620000000042'' \<noteq> luhn_mod_n_check ''NGTBC20260000000042''
   \<and> luhn_mod_n_check ''NGZ0C2026'' = luhn_mod_n_check ''NG0ZC2026''"
  using luhn_transposition [of "''NGTBC20''" "CHR ''2''" "CHR ''6''" "''0000000042''"]
    luhn_transposition [of "''NG''" "CHR ''0''" "CHR ''Z''" "''C2026''"]
  by (simp add: ALPHABET_def doubleton_eq_iff)

subsection \<open>Printing and parsing\<close>

definition format_serial :: "string \<Rightarrow> string \<Rightarrow> string \<Rightarrow> string \<Rightarrow> string" where
  "format_serial cat ys qs k = ''NG-'' @ cat @ ''-'' @ ys @ ''-'' @ qs @ ''-'' @ k"

lemma alpha_plain: "is_ascii_digit c \<or> is_ascii_upper c \<Longrightarrow> plain_char c"
  using plain_char_digit plain_char_upper by blast

lemma dash_plain: "plain_char (CHR ''-'')"
  by (simp add: plain_char_def upper_char_def is_ascii_lower_def is_space_def)

lemma format_plain:
  assumes "list_all is_ascii_upper cat" "list_all is_ascii_digit ys" "list_all is_ascii_digit qs"
    and "list_all (\<lambda>c. is_ascii_digit c \<or> is_ascii_upper c) k"
  shows "list_all plain_char (format_serial cat ys qs k)"
  using assms dash_plain alpha_plain
  by (auto simp: format_serial_def list_all_iff is_ascii_upper_def)

lemma match_format:
  assumes "length cat = 3" "length ys = 4" "length qs = 10" "length k = 1"
    and "list_all is_ascii_upper cat" "list_all is_ascii_digit ys" "list_all is_ascii_digit qs"
    and "list_all (\<lambda>c. is_ascii_digit c \<or> is_ascii_upper c) k"
  shows "serial_match (format_serial cat ys qs k) = Some (cat, ys, qs, k)"
proof -
  obtain c where k: "k = [c]" using assms(4) by (auto simp: length_Suc_conv)
  have "\<not> (of_char c :: nat) = 10"
    using assms(8) by (auto simp: k is_ascii_digit_def is_ascii_upper_def)
  then show ?thesis
    using assms by (simp add: serial_match_def format_serial_def k str_slice_def nth_append Let_def)
qed

lemma slice_split24:
  assumes "length s = 24"
  shows "s = str_slice 0 3 s @ str_slice 3 3 s @ [s ! 6] @ str_slice 7 4 s @ [s ! 11] @ str_slice 12 10 s @ [s ! 22] @ [s ! 23]"
proof -
  have cut: "drop i s = str_slice i n s @ drop (i + n) s" for i n
    by (metis append_take_drop_id drop_drop str_slice_def add.commute)
  have one: "drop i s = [s ! i] @ drop (Suc i) s" if "i < 24" for i
    using that assms by (simp add: Cons_nth_drop_Suc)
  show ?thesis
    using cut [of 0 3] cut [of 3 3] one [of 6] cut [of 7 4] one [of 11] cut [of 12 10] one [of 22] one [of 23]
      assms by simp
qed

text \<open>A text without white space at its end matches only in the printed form.\<close>

lemma match_trimmed:
  assumes "serial_match s = Some (cat, ys, qs, k)" "s \<noteq> [] \<Longrightarrow> \<not> is_space (last s)"
  shows "s = format_serial cat ys qs k" "length cat = 3" "length ys = 4" "length qs = 10" "length k = 1"
    and "list_all is_ascii_upper cat" "list_all is_ascii_digit ys" "list_all is_ascii_digit qs"
    and "list_all (\<lambda>c. is_ascii_digit c \<or> is_ascii_upper c) k"
proof -
  have nl: "\<not> (s \<noteq> [] \<and> (of_char (last s) :: nat) = 10)" using assms(2) by (auto simp: is_space_def)
  have m: "length s = 24" "str_slice 0 3 s = ''NG-''" "s ! 6 = CHR ''-''" "s ! 11 = CHR ''-''" "s ! 22 = CHR ''-''"
    "cat = str_slice 3 3 s" "ys = str_slice 7 4 s" "qs = str_slice 12 10 s" "k = [s ! 23]"
    "list_all is_ascii_upper (str_slice 3 3 s)" "list_all is_ascii_digit (str_slice 7 4 s)"
    "list_all is_ascii_digit (str_slice 12 10 s)" "is_ascii_digit (s ! 23) \<or> is_ascii_upper (s ! 23)"
    using assms(1) unfolding serial_match_def if_not_P [OF nl] Let_def by (auto split: if_splits)
  then show "s = format_serial cat ys qs k" "length cat = 3" "length ys = 4" "length qs = 10" "length k = 1"
    and "list_all is_ascii_upper cat" "list_all is_ascii_digit ys" "list_all is_ascii_digit qs"
    and "list_all (\<lambda>c. is_ascii_digit c \<or> is_ascii_upper c) k"
    using slice_split24 [of s] by (simp_all add: format_serial_def)
qed

lemma plain_trimmed: "list_all plain_char s \<Longrightarrow> s \<noteq> [] \<Longrightarrow> \<not> is_space (last s)"
  using last_in_set [of s] by (auto simp: list_all_iff plain_char_def)

lemmas match_SomeD = match_trimmed [OF _ plain_trimmed]

lemma validate_iff:
  "luhn_mod_n_validate body [k] \<longleftrightarrow> luhn_mod_n_check body = Inr k"
proof (cases "luhn_mod_n_check body")
  case (Inr c)
  then show ?thesis
    using luhn_check_alphabet [OF Inr] INDEX_None [of k] by (auto simp: luhn_mod_n_validate_def)
qed (simp add: luhn_mod_n_validate_def)

lemma parse_plain:
  "list_all plain_char s \<Longrightarrow> parse_serial s =
     (case serial_match s of
        None \<Rightarrow> Inl (SerialError ''serial does not match NG-<CAT3>-<YYYY>-<SEQ10>-<CHECK>'')
      | Some (cat, ys, qs, k) \<Rightarrow>
          if luhn_mod_n_validate (''NG'' @ cat @ ys @ qs) k
          then Inr \<lparr>sp_category_code = cat, sp_year = int (nat_of_digits ys),
                 sp_sequence = int (nat_of_digits qs), sp_check = k, sp_serial = s\<rparr>
          else Inl (SerialError ''serial check digit mismatch''))"
  by (simp add: parse_serial_def strip_plain upper_plain Let_def split: option.split)

lemma build_serialD:
  assumes "build_serial category_code year sequence = Inr s"
  obtains cat k where "cat = upper category_code" "length cat = 3" "list_all is_ascii_upper cat"
    "1900 \<le> year" "year \<le> 9999" "0 \<le> sequence" "sequence \<le> 9999999999"
    "luhn_mod_n_check (''NG'' @ cat @ zfill 4 (nat year) @ zfill 10 (nat sequence)) = Inr k"
    "s = format_serial cat (zfill 4 (nat year)) (zfill 10 (nat sequence)) [k]"
  using assms by (auto simp: build_serial_def Let_def format_serial_def rbind_eq_Inr split: if_splits)

lemma parse_built:
  assumes "build_serial category_code year sequence = Inr s"
  shows "\<exists>k. parse_serial s = Inr \<lparr>sp_category_code = upper category_code, sp_year = year,
                 sp_sequence = sequence, sp_check = [k], sp_serial = s\<rparr>
           \<and> list_all plain_char s \<and> length s = 24"
  using assms
proof (rule build_serialD)
  fix cat k
  assume cat: "cat = upper category_code" "length cat = 3" "list_all is_ascii_upper cat"
    and y: "1900 \<le> year" "year \<le> 9999" and q: "0 \<le> sequence" "sequence \<le> 9999999999"
    and k: "luhn_mod_n_check (''NG'' @ cat @ zfill 4 (nat year) @ zfill 10 (nat sequence)) = Inr k"
    and s: "s = format_serial cat (zfill 4 (nat year)) (zfill 10 (nat sequence)) [k]"
  have len: "length (zfill 4 (nat year)) = 4" "length (zfill 10 (nat sequence)) = 10"
    using y q by (auto intro!: length_zfill)
  have kc: "list_all (\<lambda>c. is_ascii_digit c \<or> is_ascii_upper c) [k]"
    using ALPHABET_class [OF luhn_check_alphabet [OF k]] by simp
  have "serial_match s = Some (cat, zfill 4 (nat year), zfill 10 (nat sequence), [k])"
    unfolding s using cat len kc by (intro match_format) (simp_all add: zfill_digits)
  moreover have plain: "list_all plain_char s"
    unfolding s using cat kc by (intro format_plain) (simp_all add: zfill_digits)
  moreover have "length s = 24" by (simp add: s format_serial_def len cat(2))
  ultimately show ?thesis using cat y q k by (simp add: parse_plain validate_iff)
qed

text \<open>C38: Parsing a built serial returns the category code in upper case, the year, the sequence
  and the serial itself, for every category, year and sequence the builder accepts.\<close>

theorem parse_build_serial:
  assumes "build_serial category_code year sequence = Inr s"
  shows "\<exists>p. parse_serial s = Inr p \<and> sp_category_code p = upper category_code
    \<and> sp_year p = year \<and> sp_sequence p = sequence \<and> sp_serial p = s \<and> validate_serial s"
  using parse_built [OF assms] by (auto simp: validate_serial_def)

theorem parse_build_serial_witness:
  "\<exists>p. parse_serial ''NG-TBC-2026-0000000042-V'' = Inr p \<and> sp_sequence p = 42 \<and> sp_year p = 2026"
proof -
  have "build_serial ''tbc'' 2026 42 = Inr ''NG-TBC-2026-0000000042-V''" by code_simp
  then show ?thesis using parse_build_serial by blast
qed

subsection \<open>Mis-transcribed serials\<close>

lemma luhn_update:
  assumes "luhn_mod_n_check body = Inr k" "j < length body" "c \<noteq> body ! j"
  shows "luhn_mod_n_check (body[j := c]) \<noteq> Inr k"
  using luhn_substitution_aux [of "take j body" "body ! j" "drop (Suc j) body" k c] assms
  by (simp add: id_take_nth_drop [symmetric] upd_conv_take_nth_drop)

lemma format_slices:
  assumes "s = format_serial cat ys qs k" "length cat = 3" "length ys = 4" "length qs = 10" "length k = 1"
  shows "length s = 24" "str_slice 0 3 s = ''NG-''" "str_slice 3 3 s = cat" "s ! 6 = CHR ''-''" "str_slice 7 4 s = ys"
    "s ! 11 = CHR ''-''" "str_slice 12 10 s = qs" "s ! 22 = CHR ''-''" "[s ! 23] = k"
proof -
  obtain c where "k = [c]" using assms(5) by (auto simp: length_Suc_conv)
  with assms show "length s = 24" "str_slice 0 3 s = ''NG-''" "str_slice 3 3 s = cat" "s ! 6 = CHR ''-''" "str_slice 7 4 s = ys"
    "s ! 11 = CHR ''-''" "str_slice 12 10 s = qs" "s ! 22 = CHR ''-''" "[s ! 23] = k"
    by (simp_all add: format_serial_def str_slice_def nth_append)
qed

lemma slice_update:
  "str_slice a n (s[i := c]) = (if i < a then str_slice a n s else (str_slice a n s)[i - a := c])"
  by (simp add: str_slice_def drop_update_swap take_update_swap)

lemma slice_nth: "j < n \<Longrightarrow> a + n \<le> length s \<Longrightarrow> str_slice a n s ! j = s ! (a + j)"
  by (simp add: str_slice_def)

lemma body_position:
  assumes "3 \<le> i" "i \<noteq> 6" "i \<noteq> 11" "i \<noteq> 22" "i < 24"
  shows "(\<exists>d. i = 3 + d \<and> d < 3) \<or> (\<exists>d. i = 7 + d \<and> d < 4) \<or> (\<exists>d. i = 12 + d \<and> d < 10) \<or> i = (23 :: nat)"
proof -
  consider "i < 6" | "7 \<le> i" "i < 11" | "12 \<le> i" "i < 22" | "i = 23" using assms by linarith
  then show ?thesis
  proof cases
    case 1
    with assms show ?thesis by (intro disjI1 exI [of _ "i - 3"]) simp
  next
    case 2
    then show ?thesis by (intro disjI2 disjI1 exI [of _ "i - 7"]) simp
  next
    case 3
    then show ?thesis by (intro disjI2 disjI1 exI [of _ "i - 12"]) simp
  qed simp
qed

lemma format_body_update:
  assumes s: "s = format_serial cat ys qs [k]" "length cat = 3" "length ys = 4" "length qs = 10"
    and s': "s[i := c] = format_serial cat' ys' qs' [k']" "length cat' = 3" "length ys' = 4" "length qs' = 10"
    and i: "i < 24" "c \<noteq> s ! i"
    and k: "luhn_mod_n_check (''NG'' @ cat @ ys @ qs) = Inr k"
  shows "luhn_mod_n_check (''NG'' @ cat' @ ys' @ qs') \<noteq> Inr k'"
proof -
  note f = format_slices [OF s, simplified] and f' = format_slices [OF s', simplified]
  have len: "length s = 24" by (rule f(1))
  have at: "s[i := c] ! i = c" using i len by simp
  have sep: "i \<noteq> 6" "i \<noteq> 11" "i \<noteq> 22" using at i f f' by auto
  have pre: "3 \<le> i"
  proof (rule ccontr)
    assume "\<not> 3 \<le> i"
    then have "s[i := c] ! i = str_slice 0 3 (s[i := c]) ! i" "s ! i = str_slice 0 3 s ! i"
      using len by (simp_all add: slice_nth)
    with at i f f' show False by simp
  qed
  have parts: "cat' = (if i < 3 then cat else cat[i - 3 := c])" "ys' = (if i < 7 then ys else ys[i - 7 := c])"
    "qs' = (if i < 12 then qs else qs[i - 12 := c])" "k' = s[i := c] ! 23"
    using f f' slice_update [of 3 3 s i c] slice_update [of 7 4 s i c] slice_update [of 12 10 s i c] by auto
  consider d where "i = 3 + d" "d < 3" | d where "i = 7 + d" "d < 4" | d where "i = 12 + d" "d < 10" | "i = 23"
    using body_position [OF pre sep i(1)] by blast
  then show ?thesis
  proof cases
    case (1 d)
    have "(''NG'' @ cat @ ys @ qs)[2 + d := c] = ''NG'' @ cat' @ ys' @ qs'" "k' = k"
      using 1 s parts f by (simp_all add: list_update_append)
    moreover have "(''NG'' @ cat @ ys @ qs) ! (2 + d) = s ! i"
      using 1 s f slice_nth [of d 3 3 s] by (simp add: nth_append)
    ultimately show ?thesis using luhn_update [OF k, of "2 + d" c] 1 s i by simp
  next
    case (2 d)
    have "(''NG'' @ cat @ ys @ qs)[5 + d := c] = ''NG'' @ cat' @ ys' @ qs'" "k' = k"
      using 2 s parts f by (simp_all add: list_update_append list_update_beyond)
    moreover have "(''NG'' @ cat @ ys @ qs) ! (5 + d) = s ! i"
      using 2 s f slice_nth [of d 4 7 s] by (simp add: nth_append)
    ultimately show ?thesis using luhn_update [OF k, of "5 + d" c] 2 s i by simp
  next
    case (3 d)
    have "(''NG'' @ cat @ ys @ qs)[9 + d := c] = ''NG'' @ cat' @ ys' @ qs'" "k' = k"
      using 3 s parts f by (simp_all add: list_update_append list_update_beyond)
    moreover have "(''NG'' @ cat @ ys @ qs) ! (9 + d) = s ! i"
      using 3 s f slice_nth [of d 10 12 s] by (simp add: nth_append)
    ultimately show ?thesis using luhn_update [OF k, of "9 + d" c] 3 s i by simp
  next
    case 4
    with s have "cat' = cat" "ys' = ys" "qs' = qs" by (simp_all add: parts list_update_beyond)
    moreover have "k' = c" using 4 len by (simp add: parts)
    moreover have "s ! i = k" using 4 f by simp
    ultimately show ?thesis using k i by auto
  qed
qed

text \<open>One other character, which stripping and upper-casing leave alone.\<close>

lemma plain_error_rejected:
  assumes "build_serial category_code year sequence = Inr s"
    and "i < length s" "plain_char c" "c \<noteq> s ! i"
  shows "\<not> validate_serial (s[i := c])"
proof
  assume v: "validate_serial (s[i := c])"
  obtain cat k where s: "length cat = 3"
    "luhn_mod_n_check (''NG'' @ cat @ zfill 4 (nat year) @ zfill 10 (nat sequence)) = Inr k"
    "s = format_serial cat (zfill 4 (nat year)) (zfill 10 (nat sequence)) [k]"
    and y: "1900 \<le> year" "year \<le> 9999" "0 \<le> sequence" "sequence \<le> 9999999999"
    using assms(1) by (rule build_serialD) blast
  have len: "length (zfill 4 (nat year)) = 4" "length (zfill 10 (nat sequence)) = 10"
    using y by (auto intro!: length_zfill)
  have plain: "list_all plain_char s" and 24: "length s = 24" using parse_built [OF assms(1)] by auto
  have plain': "list_all plain_char (s[i := c])"
    using plain assms(3) by (auto simp: list_all_iff dest!: set_update_subset_insert [THEN subsetD])
  obtain cat' ys' qs' k' where m: "serial_match (s[i := c]) = Some (cat', ys', qs', k')"
    and l: "luhn_mod_n_validate (''NG'' @ cat' @ ys' @ qs') k'"
    using v by (auto simp: validate_serial_def parse_plain [OF plain'] split: option.splits if_splits)
  note d = match_SomeD [OF m plain']
  obtain c' where k': "k' = [c']" using d(5) by (auto simp: length_Suc_conv)
  have "luhn_mod_n_check (''NG'' @ cat' @ ys' @ qs') \<noteq> Inr c'"
    using format_body_update [OF s(3) s(1) len, of i c cat' ys' qs' c'] d k' s(2) assms 24 by simp
  with l k' show False by (simp add: validate_iff)
qed

text \<open>Any other character. The normal form of the text decides; it has no white space at its end.\<close>

lemma normal_trimmed: "upper (strip x) \<noteq> [] \<Longrightarrow> \<not> is_space (last (upper (strip x)))"
proof -
  assume n: "upper (strip x) \<noteq> []"
  then have x: "strip x \<noteq> []" by auto
  then have w: "dropWhile is_space (rev (lstrip x)) \<noteq> []" unfolding strip_def rstrip_def rev_is_Nil_conv .
  have c: "\<not> is_space (last (strip x))" unfolding strip_def rstrip_def last_rev by (rule hd_dropWhile [OF w])
  obtain y c where y: "strip x = y @ [c]" using x by (cases "strip x" rule: rev_cases) simp
  have "\<not> is_space (last (upper_char c))" using c upper_char_trimmed [of c] by (simp add: y)
  then show ?thesis using upper_char_nonempty [of c] by (simp add: y upper_def)
qed

lemma validate_normal:
  assumes "validate_serial x" shows "length (upper (strip x)) = 24" "list_all plain_char (upper (strip x))"
proof -
  obtain cat ys qs k where m: "serial_match (upper (strip x)) = Some (cat, ys, qs, k)"
    using assms by (auto simp: validate_serial_def parse_serial_def Let_def split: option.splits)
  note d = match_trimmed [OF m normal_trimmed]
  show "length (upper (strip x)) = 24" using d(2-5) by (subst d(1)) (simp_all add: format_serial_def)
  show "list_all plain_char (upper (strip x))" by (subst d(1)) (simp_all add: format_plain d(6-9))
qed

lemma normal_update:
  assumes "list_all plain_char s" "i < length s" "\<not> is_space c"
  shows "upper (strip (s[i := c])) = take i s @ upper_char c @ drop (Suc i) s"
proof -
  have u: "s[i := c] = take i s @ c # drop (Suc i) s" using assms(2) by (rule upd_conv_take_nth_drop)
  have "list_all (\<lambda>x. \<not> is_space x) (s[i := c])" "list_all plain_char (take i s)" "list_all plain_char (drop (Suc i) s)"
    using assms(1,3) unfolding u by (auto simp: list_all_iff plain_char_def dest: in_set_takeD in_set_dropD)
  then show ?thesis using upper_plain [of "take i s"] upper_plain [of "drop (Suc i) s"]
    by (simp add: strip_no_space) (simp add: u upper_def)
qed

lemma space_error_rejected:
  assumes "list_all plain_char s" "length s = 24" "i < 24" "is_space c" shows "\<not> validate_serial (s[i := c])"
proof
  assume v: "validate_serial (s[i := c])"
  have u: "s[i := c] = take i s @ [c] @ drop (Suc i) s" using assms(2,3) by (simp add: upd_conv_take_nth_drop)
  have p: "list_all plain_char (take i s)" "list_all plain_char (drop (Suc i) s)"
    using assms(1) by (auto simp: list_all_iff dest: in_set_takeD in_set_dropD)
  consider "i = 0" | "i = 23" | "take i s \<noteq> []" "drop (Suc i) s \<noteq> []" using assms(2,3) by fastforce
  then show False
  proof cases
    case 1
    then have "upper (strip (s[i := c])) = drop 1 s"
      using p(2) assms(4) unfolding u by (simp add: strip_space_left strip_plain upper_plain)
    with validate_normal(1) [OF v] assms(2) show False by simp
  next
    case 2
    then have "upper (strip (s[i := c])) = take 23 s"
      using p(1) assms(2,4) unfolding u by (simp add: strip_space_right strip_plain upper_plain)
    with validate_normal(1) [OF v] assms(2) show False by simp
  next
    case 3
    have "upper (strip (s[i := c])) = take i s @ [c] @ drop (Suc i) s"
      using strip_inner [OF p 3] p upper_char_space [OF assms(4)] unfolding u
      by (simp only: upper_append upper_plain) (simp add: upper_def)
    with validate_normal(2) [OF v] assms(4) show False by (simp add: plain_char_def)
  qed
qed

text \<open>C39: A one-character mis-transcription of an issued serial is rejected before any database lookup, unless it only changes
  the case of a letter: whatever is written over one of its 24 characters, check character and separators included,
  the text is a valid serial exactly when what was written is the old character in some case.\<close>

theorem serial_single_error_rejected:
  assumes "build_serial category_code year sequence = Inr s" "i < length s"
  shows "validate_serial (s[i := c]) \<longleftrightarrow> upper [c] = [s ! i]"
proof (cases "is_space c")
  case True
  obtain k where p: "list_all plain_char s" "length s = 24" using parse_built [OF assms(1)] by blast
  then have "plain_char (s ! i)" using assms(2) by (simp add: list_all_length)
  with True have "upper [c] \<noteq> [s ! i]" by (auto simp: upper_def upper_char_space plain_char_def)
  with space_error_rejected [OF p _ True, of i] assms(2) p(2) show ?thesis by simp
next
  case False
  have p: "list_all plain_char s" "length s = 24" and v: "validate_serial s"
    using parse_built [OF assms(1)] by (auto simp: validate_serial_def)
  note n = normal_update [OF p(1) assms(2) False]
  show ?thesis
  proof (cases "\<exists>c'. upper_char c = [c']")
    case True
    then obtain c' where c': "upper_char c = [c']" by blast
    then have pc: "plain_char c'" by (rule upper_char_plain [OF False])
    have "upper (strip (s[i := c])) = upper (strip (s[i := c']))"
      using n normal_update [OF p(1) assms(2), of c'] pc c' by (simp add: plain_char_def)
    then have "validate_serial (s[i := c]) \<longleftrightarrow> validate_serial (s[i := c'])"
      by (simp add: validate_serial_def parse_serial_def)
    also have "\<dots> \<longleftrightarrow> c' = s ! i" using plain_error_rejected [OF assms pc] v by (cases "c' = s ! i") auto
    finally show ?thesis by (simp add: upper_def c')
  next
    case False
    have "length (upper (strip (s[i := c]))) \<noteq> 24"
      using False assms(2) p(2) upper_char_nonempty [of c] unfolding n by (cases "upper_char c"; cases "tl (upper_char c)") auto
    with validate_normal(1) [of "s[i := c]"] False show ?thesis by (auto simp: upper_def)
  qed
qed

theorem serial_single_error_rejected_witness:
  "\<not> validate_serial (''NG-TBC-2026-0000000042-V''[20 := CHR ''5'']) \<and> validate_serial (''NG-TBC-2026-0000000042-V''[23 := CHR ''v''])"
proof -
  have b: "build_serial ''TBC'' 2026 42 = Inr ''NG-TBC-2026-0000000042-V''" by code_simp
  have "upper [CHR ''5''] = ''5''" "upper [CHR ''v''] = ''V''" by code_simp+
  then show ?thesis
    using serial_single_error_rejected [OF b, of 20 "CHR ''5''"] serial_single_error_rejected [OF b, of 23 "CHR ''v''"] by simp
qed

subsection \<open>Distinct parts, distinct serials\<close>

definition serial_of :: "string \<times> int \<times> int \<Rightarrow> string" where
  "serial_of = (\<lambda>(cat, year, sequence).
     case build_serial cat year sequence of Inr s \<Rightarrow> s | Inl _ \<Rightarrow> [])"

definition parts_of :: "string \<Rightarrow> (string \<times> int \<times> int) result" where
  "parts_of s = rbind (parse_serial s) (\<lambda>p. Inr (sp_category_code p, sp_year p, sp_sequence p))"

definition serial_parts_ok :: "string \<times> int \<times> int \<Rightarrow> bool" where
  "serial_parts_ok = (\<lambda>(cat, year, sequence).
     upper cat = cat \<and> succeeds (build_serial cat year sequence))"

interpretation serial_codec: codec serial_parts_ok serial_of parts_of
proof
  fix x assume ok: "serial_parts_ok x"
  obtain cat year sequence where x: "x = (cat, year, sequence)" by (cases x) auto
  obtain s where s: "build_serial cat year sequence = Inr s" and up: "upper cat = cat"
    using ok by (auto simp: x serial_parts_ok_def succeeds_iff)
  from parse_built [OF s] up show "parts_of (serial_of x) = Inr x"
    by (auto simp: x serial_of_def parts_of_def s)
qed

lemma build_serial_inj:
  assumes "build_serial cat y q = Inr s" "build_serial cat' y' q' = Inr s"
    and "upper cat = cat" "upper cat' = cat'"
  shows "cat = cat' \<and> y = y' \<and> q = q'"
  using serial_codec.enc_inj [of "(cat, y, q)" "(cat', y', q')"] assms
  by (simp add: serial_parts_ok_def serial_of_def)

lemma category_codes_alphabet:
  "CATEGORIES c = Some code \<Longrightarrow> upper code = code \<and> length code = 3 \<and> list_all is_ascii_upper code
     \<and> set code \<subseteq> set ALPHABET"
  by (auto simp: CATEGORIES_def ALPHABET_def upper_def upper_char_def is_ascii_lower_def
      is_ascii_upper_def split: if_splits)

lemma build_serial_category_ok:
  assumes "CATEGORIES c = Some code" "1900 \<le> y" "y \<le> 9999" "0 \<le> q" "q \<le> 9999999999"
  shows "succeeds (build_serial code y q)"
proof -
  have code: "upper code = code" "length code = 3" "list_all is_ascii_upper code" "set code \<subseteq> set ALPHABET"
    using category_codes_alphabet [OF assms(1)] by auto
  have digits: "set ds \<subseteq> set ALPHABET" if "list_all is_ascii_digit ds" for ds
  proof
    fix c assume "c \<in> set ds"
    then have "is_ascii_digit c" using that by (simp add: list_all_iff)
    then have "c = digit_char (digit_val c)" and "digit_val c < 10"
      using digit_char_val [of c] by (auto simp: is_ascii_digit_def digit_val_def)
    moreover have "list_all (\<lambda>d. digit_char d \<in> set ALPHABET) [0..<10]" by code_simp
    ultimately show "c \<in> set ALPHABET" by (metis atLeastLessThan_iff list_all_iff set_upt zero_le)
  qed
  have "set (''NG'' @ code @ zfill 4 (nat y) @ zfill 10 (nat q)) \<subseteq> set ALPHABET"
    using code digits [OF zfill_digits, of 4 "nat y"] digits [OF zfill_digits, of 10 "nat q"]
    by (auto simp: ALPHABET_def)
  then obtain k where "luhn_mod_n_check (''NG'' @ code @ zfill 4 (nat y) @ zfill 10 (nat q)) = Inr k"
    using luhn_check_ok by blast
  with code assms show ?thesis by (simp add: build_serial_def Let_def)
qed

text \<open>For every stamp category, year from 1900 and ten-digit sequence a serial exists, and two
  serials are equal only if category code, year and sequence are equal.\<close>

theorem serials_unique:
  assumes "CATEGORIES c = Some code" "CATEGORIES c' = Some code'"
    and "1900 \<le> y" "y \<le> 9999" "0 \<le> q" "q \<le> 9999999999"
  shows "\<exists>s. build_serial code y q = Inr s
     \<and> (build_serial code' y' q' = Inr s \<longleftrightarrow> code' = code \<and> y' = y \<and> q' = q)"
proof -
  obtain s where s: "build_serial code y q = Inr s"
    using build_serial_category_ok [OF assms(1) assms(3-6)] by (auto simp: succeeds_iff)
  then show ?thesis
    using build_serial_inj [OF s, of code' y' q'] category_codes_alphabet assms by blast
qed

theorem serials_unique_witness:
  "\<exists>s. build_serial ''TBC'' 2026 42 = Inr s
     \<and> (build_serial ''ALC'' 2026 42 = Inr s \<longleftrightarrow> ''ALC'' = ''TBC'' \<and> (2026 :: int) = 2026 \<and> (42 :: int) = 42)"
  by (rule serials_unique [of "''tobacco''" _ "''alcohol''"]) (simp_all add: CATEGORIES_def)

text \<open>The serial shown as the example in the module's documentation, NG-TOB-2026-0000000042-7,
  is itself invalid, whatever its check character: the letter O is outside the alphabet, and no
  serial can be built for that category code.\<close>

theorem documented_serial_invalid:
  "\<not> validate_serial ''NG-TOB-2026-0000000042-7''
   \<and> (\<forall>y q. \<not> succeeds (build_serial ''TOB'' y q))"
proof -
  have "\<not> set (''NG'' @ ''TOB'' @ t) \<subseteq> set ALPHABET" for t
    by (simp add: ALPHABET_def)
  then have no: "luhn_mod_n_check (''NG'' @ ''TOB'' @ t) \<noteq> Inr k" for t k
    unfolding luhn_check_iff by blast
  have "build_serial ''TOB'' y q \<noteq> Inr s" for y q s
  proof
    assume "build_serial ''TOB'' y q = Inr s"
    then show False
      by (rule build_serialD) (use no in \<open>simp add: upper_def upper_char_def is_ascii_lower_def\<close>)
  qed
  moreover have "\<not> validate_serial ''NG-TOB-2026-0000000042-7''" by code_simp
  ultimately show ?thesis by (auto simp: succeeds_iff)
qed

end
