(* ===== verification/Quality.thy ===== *)
theory Quality
  imports PyText
begin

section \<open>Acceptance sampling\<close>

text \<open>
  \<open>src/taxstamps/domain/quality.py\<close>: the ANSI/ASQ Z1.4 single-sampling plan of a lot at
  AQL 0.65 and the decision on a sample. A lookup of a letter missing from a table would be a
  \<open>KeyError\<close> in the code and is one here; the lemmas show that it cannot happen.
\<close>

record SamplingPlan =
  plan_lot_size :: int
  plan_code_letter :: string
  plan_sample_size :: int
  plan_accept :: int
  plan_reject :: int
  plan_hundred_percent :: bool

definition CODE_LETTERS :: "(int \<times> int \<times> string) list" where
  "CODE_LETTERS = [(2, 8, ''A''), (9, 15, ''B''), (16, 25, ''C''), (26, 50, ''D''), (51, 90, ''E''),
     (91, 150, ''F''), (151, 280, ''G''), (281, 500, ''H''), (501, 1200, ''J''), (1201, 3200, ''K''),
     (3201, 10000, ''L''), (10001, 35000, ''M''), (35001, 150000, ''N''), (150001, 500000, ''P''),
     (500001, 10 ^ 15, ''Q'')]"

definition SAMPLE_SIZES :: "string \<rightharpoonup> int" where
  "SAMPLE_SIZES = map_of [(''A'', 2), (''B'', 3), (''C'', 5), (''D'', 8), (''E'', 13), (''F'', 20),
     (''G'', 32), (''H'', 50), (''J'', 80), (''K'', 125), (''L'', 200), (''M'', 315), (''N'', 500),
     (''P'', 800), (''Q'', 1250), (''R'', 2000)]"

definition PLANS_AQL_0_65 :: "string \<rightharpoonup> int \<times> int" where
  "PLANS_AQL_0_65 = map_of [(''E'', 0, 1), (''F'', 0, 1), (''G'', 0, 1), (''H'', 1, 2), (''J'', 1, 2),
     (''K'', 2, 3), (''L'', 3, 4), (''M'', 5, 6), (''N'', 7, 8), (''P'', 10, 11), (''Q'', 14, 15),
     (''R'', 21, 22)]"

definition ARROW_TARGET :: string where
  "ARROW_TARGET = ''E''"

fun first_letter :: "(int \<times> int \<times> string) list \<Rightarrow> int \<Rightarrow> string option" where
  "first_letter [] n = None"
| "first_letter ((low, high, letter) # rest) n =
     (if low \<le> n \<and> n \<le> high then Some letter else first_letter rest n)"

definition code_letter_for :: "int \<Rightarrow> string result" where
  "code_letter_for lot_size = (case first_letter CODE_LETTERS lot_size of
     Some letter \<Rightarrow> Inr letter
   | None \<Rightarrow> Inl (SamplingError (''lot size '' @ str_int lot_size @ '' out of tabulated range'')))"

definition plan_for_lot :: "int \<Rightarrow> SamplingPlan result" where
  "plan_for_lot lot_size =
    (if lot_size < 1 then Inl (SamplingError ''lot size must be a positive integer'')
     else if lot_size = 1 then
       Inr \<lparr>plan_lot_size = 1, plan_code_letter = ''A'', plan_sample_size = 1, plan_accept = 0,
            plan_reject = 1, plan_hundred_percent = True\<rparr>
     else rbind (code_letter_for lot_size) (\<lambda>letter.
       let plan_letter = (if PLANS_AQL_0_65 letter \<noteq> None then letter else ARROW_TARGET)
       in case PLANS_AQL_0_65 plan_letter of
            None \<Rightarrow> Inl (KeyError plan_letter)
          | Some (acc, rej) \<Rightarrow>
              (case SAMPLE_SIZES plan_letter of
                 None \<Rightarrow> Inl (KeyError plan_letter)
               | Some sample_size \<Rightarrow>
                   let hundred = (sample_size \<ge> lot_size)
                   in Inr \<lparr>plan_lot_size = lot_size, plan_code_letter = letter,
                           plan_sample_size = (if hundred then lot_size else sample_size),
                           plan_accept = acc, plan_reject = rej, plan_hundred_percent = hundred\<rparr>)))"

definition evaluate_sample :: "SamplingPlan \<Rightarrow> int \<Rightarrow> bool result" where
  "evaluate_sample plan defectives =
    (if defectives < 0 then Inl (SamplingError ''defectives must be a non-negative integer'')
     else if defectives > plan_sample_size plan then Inl (SamplingError ''defectives cannot exceed sample size'')
     else Inr (defectives \<le> plan_accept plan))"

subsection \<open>The plan as a function of the lot size\<close>

text \<open>The standard's table with the arrow resolved: sample size and acceptance number.\<close>

definition z14_plan :: "int \<Rightarrow> int \<times> int" where
  "z14_plan n =
    (if n \<le> 13 then (n, 0) else if n \<le> 90 then (13, 0) else if n \<le> 150 then (20, 0)
     else if n \<le> 280 then (32, 0) else if n \<le> 500 then (50, 1) else if n \<le> 1200 then (80, 1)
     else if n \<le> 3200 then (125, 2) else if n \<le> 10000 then (200, 3) else if n \<le> 35000 then (315, 5)
     else if n \<le> 150000 then (500, 7) else if n \<le> 500000 then (800, 10) else (1250, 14))"

lemma first_letter_SomeD: "first_letter ls n = Some l \<Longrightarrow> \<exists>low high. (low, high, l) \<in> set ls \<and> low \<le> n \<and> n \<le> high"
  by (induction ls n rule: first_letter.induct) (auto split: if_splits)

lemma first_letter_total: "2 \<le> n \<Longrightarrow> n \<le> 10 ^ 15 \<Longrightarrow> first_letter CODE_LETTERS n \<noteq> None"
  by (simp add: CODE_LETTERS_def)

lemma code_letter_cases:
  assumes "2 \<le> n" "n \<le> 10 ^ 15"
  obtains low high letter where "(low, high, letter) \<in> set CODE_LETTERS" "low \<le> n" "n \<le> high"
    "code_letter_for n = Inr letter"
  using first_letter_total [OF assms] first_letter_SomeD [of CODE_LETTERS n]
  by (force simp: code_letter_for_def)

lemma plan_of_letter:
  assumes "(low, high, letter) \<in> set CODE_LETTERS" "low \<le> n" "n \<le> high" "code_letter_for n = Inr letter"
  shows "\<exists>p. plan_for_lot n = Inr p \<and> plan_lot_size p = n \<and> (plan_sample_size p, plan_accept p) = z14_plan n
     \<and> plan_reject p = plan_accept p + 1 \<and> (plan_hundred_percent p \<longleftrightarrow> plan_sample_size p = n)"
proof -
  have n: "\<not> n < 1" "n \<noteq> 1" using assms(1,2) by (auto simp: CODE_LETTERS_def)
  from assms(1) show ?thesis
    unfolding CODE_LETTERS_def set_simps insert_iff empty_iff prod.inject
    by (elim disjE conjE FalseE)
      (use assms(2-) n in \<open>simp_all add: plan_for_lot_def PLANS_AQL_0_65_def SAMPLE_SIZES_def
          ARROW_TARGET_def z14_plan_def Let_def\<close>)
qed

lemma plan_for_lot_z14:
  assumes "1 \<le> n" "n \<le> 10 ^ 15"
  shows "\<exists>p. plan_for_lot n = Inr p \<and> plan_lot_size p = n \<and> (plan_sample_size p, plan_accept p) = z14_plan n
     \<and> plan_reject p = plan_accept p + 1 \<and> (plan_hundred_percent p \<longleftrightarrow> plan_sample_size p = n)"
proof (cases "n = 1")
  case True
  then show ?thesis by (simp add: plan_for_lot_def z14_plan_def)
next
  case False
  with assms have "2 \<le> n" by simp
  then show ?thesis using assms(2) code_letter_cases plan_of_letter by metis
qed

lemma first_letter_range: "first_letter CODE_LETTERS n = Some l \<Longrightarrow> 2 \<le> n \<and> n \<le> 10 ^ 15"
proof -
  assume "first_letter CODE_LETTERS n = Some l"
  then obtain low high where "(low, high, l) \<in> set CODE_LETTERS" "low \<le> n" "n \<le> high"
    using first_letter_SomeD by blast
  moreover have "list_all (\<lambda>(low, high, l). 2 \<le> low \<and> high \<le> 10 ^ 15) CODE_LETTERS"
    by (simp add: CODE_LETTERS_def)
  ultimately show ?thesis by (auto simp: list_all_iff)
qed

lemma plan_for_lot_domain: "succeeds (plan_for_lot n) \<longleftrightarrow> 1 \<le> n \<and> n \<le> 10 ^ 15"
proof
  assume s: "succeeds (plan_for_lot n)"
  show "1 \<le> n \<and> n \<le> 10 ^ 15"
  proof (cases "first_letter CODE_LETTERS n")
    case None
    with s show ?thesis by (auto simp: plan_for_lot_def code_letter_for_def split: if_splits)
  next
    case (Some l)
    then show ?thesis using first_letter_range by fastforce
  qed
qed (use plan_for_lot_z14 in \<open>auto simp: succeeds_iff\<close>)

lemma z14_bounds: "1 \<le> n \<Longrightarrow> 1 \<le> fst (z14_plan n) \<and> fst (z14_plan n) \<le> n \<and> 0 \<le> snd (z14_plan n)
    \<and> snd (z14_plan n) < fst (z14_plan n)"
  by (simp add: z14_plan_def)

lemma z14_mono: "m \<le> n \<Longrightarrow> 1 \<le> m \<Longrightarrow> fst (z14_plan m) \<le> fst (z14_plan n) \<and> snd (z14_plan m) \<le> snd (z14_plan n)"
  by (simp add: z14_plan_def)

text \<open>A plan exists exactly for the lot sizes 1 to 10^15; it is the tabulated Z1.4 plan with
  the arrow resolved, its sample never exceeds the lot and is never empty, the rejection number is
  the acceptance number plus one, it can reject, and full inspection is flagged exactly when the
  sample is the whole lot.\<close>

theorem plan_for_lot_correct:
  "case plan_for_lot n of
     Inl e \<Rightarrow> n < 1 \<or> 10 ^ 15 < n
   | Inr p \<Rightarrow> 1 \<le> n \<and> n \<le> 10 ^ 15 \<and> plan_lot_size p = n \<and> (plan_sample_size p, plan_accept p) = z14_plan n
        \<and> 1 \<le> plan_sample_size p \<and> plan_sample_size p \<le> n \<and> plan_reject p = plan_accept p + 1
        \<and> 0 \<le> plan_accept p \<and> plan_accept p < plan_sample_size p
        \<and> (plan_hundred_percent p \<longleftrightarrow> plan_sample_size p = n)"
proof (cases "plan_for_lot n")
  case (Inl e)
  then show ?thesis using plan_for_lot_domain [of n] by auto
next
  case (Inr p)
  then have n: "1 \<le> n" "n \<le> 10 ^ 15" using plan_for_lot_domain [of n] by auto
  obtain q where q: "plan_for_lot n = Inr q" "plan_lot_size q = n" "(plan_sample_size q, plan_accept q) = z14_plan n"
    "plan_reject q = plan_accept q + 1" "plan_hundred_percent q \<longleftrightarrow> plan_sample_size q = n"
    using plan_for_lot_z14 [OF n] by blast
  then have "plan_sample_size q = fst (z14_plan n)" "plan_accept q = snd (z14_plan n)"
    by (metis fst_conv, metis snd_conv)
  then show ?thesis using q Inr n z14_bounds [OF n(1)] by simp
qed

text \<open>A larger lot is never inspected with a smaller sample or a smaller acceptance number.\<close>

theorem sampling_monotone:
  assumes "plan_for_lot m = Inr p" "plan_for_lot n = Inr p'" "m \<le> n"
  shows "plan_sample_size p \<le> plan_sample_size p' \<and> plan_accept p \<le> plan_accept p'"
proof -
  have mn: "1 \<le> m" "m \<le> 10 ^ 15" "1 \<le> n" "n \<le> 10 ^ 15"
    using assms plan_for_lot_domain [of m] plan_for_lot_domain [of n] by auto
  have "(plan_sample_size p, plan_accept p) = z14_plan m" "(plan_sample_size p', plan_accept p') = z14_plan n"
    using plan_for_lot_z14 [OF mn(1,2)] plan_for_lot_z14 [OF mn(3,4)] assms by auto
  then show ?thesis
    using z14_mono [OF assms(3) mn(1)] by (metis fst_conv snd_conv)
qed

theorem sampling_monotone_witness:
  "case (plan_for_lot 100, plan_for_lot 400) of
     (Inr p, Inr p') \<Rightarrow> plan_sample_size p \<le> plan_sample_size p' \<and> plan_accept p \<le> plan_accept p'
   | _ \<Rightarrow> False"
proof -
  obtain p p' where "plan_for_lot 100 = Inr p" "plan_for_lot 400 = Inr p'"
    using plan_for_lot_domain [of 100] plan_for_lot_domain [of 400] by (auto simp: succeeds_iff)
  then show ?thesis using sampling_monotone [of 100 p 400 p'] by simp
qed

text \<open>A sample of a plan is either accepted, at most Ac defectives, or rejected, at least Re.\<close>

lemma evaluate_sample_cases:
  assumes "plan_for_lot n = Inr p" "evaluate_sample p d = Inr b"
  shows "b \<longleftrightarrow> d \<le> plan_accept p" "\<not> b \<longleftrightarrow> plan_reject p \<le> d" "0 \<le> d" "d \<le> plan_sample_size p"
proof -
  have "plan_reject p = plan_accept p + 1"
    using plan_for_lot_domain [of n] plan_for_lot_z14 [of n] assms by auto
  then show "b \<longleftrightarrow> d \<le> plan_accept p" "\<not> b \<longleftrightarrow> plan_reject p \<le> d" "0 \<le> d" "d \<le> plan_sample_size p"
    using assms(2) by (auto simp: evaluate_sample_def split: if_splits)
qed

end
