(* ===== verification/Merkle.thy ===== *)
theory Merkle
  imports PyText
begin

section \<open>Merkle root over batch serials\<close>

text \<open>
  \<open>src/taxstamps/domain/merkle.py\<close>. SHA-256 is the library's: it is the parameter
  \<open>sha256\<close> of every definition, and the only fact used of it is the length of a digest. What
  is proved of the root is therefore a reduction: two leaf lists of the same length with the same
  root are equal, or two of the byte strings hashed on the way to the roots (\<open>merkle_inputs\<close>) are
  an explicit collision of the hash. Lists of different lengths can share a root, because an odd
  level repeats its last node.
\<close>

definition hexdigest :: "bytes \<Rightarrow> string" where
  "hexdigest bs = concat (map (\<lambda>b. [hex_digit (unat b div 16), hex_digit (unat b mod 16)]) bs)"

definition leaf_hash :: "(bytes \<Rightarrow> bytes) \<Rightarrow> bytes \<Rightarrow> bytes" where
  "leaf_hash sha256 leaf = sha256 (0 # leaf)"

definition node_hash :: "(bytes \<Rightarrow> bytes) \<Rightarrow> bytes \<Rightarrow> bytes \<Rightarrow> bytes" where
  "node_hash sha256 left right = sha256 (1 # left @ right)"

text \<open>
  One round of the loop: the list comprehension over the pairs of a level of even length. (A
  level of odd length never gets here; the last equation only completes the function.)
\<close>

fun pair_level :: "(bytes \<Rightarrow> bytes) \<Rightarrow> bytes list \<Rightarrow> bytes list" where
  "pair_level sha256 (l # r # rest) = node_hash sha256 l r # pair_level sha256 rest"
| "pair_level sha256 [] = []"
| "pair_level sha256 [x] = []"

definition pad_level :: "bytes list \<Rightarrow> bytes list" where
  "pad_level level = (if length level mod 2 = 1 then level @ [last level] else level)"

lemma length_pair_level: "length (pair_level sha256 xs) = length xs div 2"
  by (induction sha256 xs rule: pair_level.induct) auto

function merkle_loop :: "(bytes \<Rightarrow> bytes) \<Rightarrow> bytes list \<Rightarrow> bytes list" where
  "merkle_loop sha256 level =
     (if length level > 1 then merkle_loop sha256 (pair_level sha256 (pad_level level)) else level)"
  by pat_completeness auto
termination
  by (relation "measure (\<lambda>(h, level). length level)") (auto simp: length_pair_level pad_level_def)

declare merkle_loop.simps [simp del]

definition merkle_root :: "(bytes \<Rightarrow> bytes) \<Rightarrow> bytes list \<Rightarrow> string" where
  "merkle_root sha256 leaves =
    (if leaves = [] then hexdigest (sha256 [])
     else hexdigest (merkle_loop sha256 (map (leaf_hash sha256) leaves) ! 0))"

subsection \<open>Hexadecimal digests\<close>

lemma hex_digit_inj: "a < 16 \<Longrightarrow> b < 16 \<Longrightarrow> hex_digit a = hex_digit b \<longleftrightarrow> a = b"
proof -
  have "distinct ''0123456789abcdef''" by simp
  then show "a < 16 \<Longrightarrow> b < 16 \<Longrightarrow> hex_digit a = hex_digit b \<longleftrightarrow> a = b"
    unfolding hex_digit_def by (subst nth_eq_iff_index_eq) auto
qed

lemma hex_byte_inj:
  fixes a b :: byte
  assumes "hex_digit (unat a div 16) = hex_digit (unat b div 16)" "hex_digit (unat a mod 16) = hex_digit (unat b mod 16)"
  shows "a = b"
proof -
  have lt: "unat x div 16 < 16" for x :: byte
    using unsigned_less [of x, where ?'a = nat] by simp
  have "unat a div 16 = unat b div 16" "unat a mod 16 = unat b mod 16"
    using assms lt hex_digit_inj by auto
  then have "unat a = unat b" by (metis div_mult_mod_eq)
  then show ?thesis by (rule unsigned_word_eqI)
qed

lemma hexdigest_inj [simp]: "hexdigest xs = hexdigest ys \<longleftrightarrow> xs = ys"
proof (induction xs arbitrary: ys)
  case Nil
  then show ?case by (cases ys) (auto simp: hexdigest_def)
next
  case (Cons x xs)
  then show ?case by (cases ys) (auto simp: hexdigest_def dest: hex_byte_inj)
qed

lemma length_hexdigest: "length (hexdigest bs) = 2 * length bs"
  by (induction bs) (auto simp: hexdigest_def)

subsection \<open>Binding\<close>

text \<open>What is hashed: the nodes of a level, of all levels, and the leaves.\<close>

fun pair_inputs :: "bytes list \<Rightarrow> bytes list" where
  "pair_inputs (l # r # rest) = (1 # l @ r) # pair_inputs rest"
| "pair_inputs [] = []"
| "pair_inputs [x] = []"

function loop_inputs :: "(bytes \<Rightarrow> bytes) \<Rightarrow> bytes list \<Rightarrow> bytes list" where
  "loop_inputs sha256 level =
     (if length level > 1 then pair_inputs (pad_level level) @ loop_inputs sha256 (pair_level sha256 (pad_level level)) else [])"
  by pat_completeness auto
termination
  by (relation "measure (\<lambda>(h, level). length level)") (auto simp: length_pair_level pad_level_def)

declare loop_inputs.simps [simp del]

definition merkle_inputs :: "(bytes \<Rightarrow> bytes) \<Rightarrow> bytes list \<Rightarrow> bytes list" where
  "merkle_inputs sha256 leaves = map (Cons 0) leaves @ loop_inputs sha256 (map (leaf_hash sha256) leaves)"

text \<open>No two of the byte strings collide.\<close>

definition collision_free :: "(bytes \<Rightarrow> bytes) \<Rightarrow> bytes list \<Rightarrow> bool" where
  "collision_free h xs = (\<forall>a \<in> set xs. \<forall>b \<in> set xs. h a = h b \<longrightarrow> a = b)"

lemma collision_freeD: "collision_free h xs \<Longrightarrow> a \<in> set xs \<Longrightarrow> b \<in> set xs \<Longrightarrow> h a = h b \<Longrightarrow> a = b"
  by (auto simp: collision_free_def)

lemma collision_free_subset: "collision_free h xs \<Longrightarrow> set ys \<subseteq> set xs \<Longrightarrow> collision_free h ys"
  by (auto simp: collision_free_def)

lemma pair_level_length: "\<forall>b. length (h b) = 32 \<Longrightarrow> x \<in> set (pair_level h xs) \<Longrightarrow> length x = 32"
  by (induction h xs rule: pair_level.induct) (auto simp: node_hash_def)

lemma pair_level_inj:
  assumes "collision_free h (pair_inputs xs @ pair_inputs ys)" "length xs = length ys" "even (length xs)"
    and "\<forall>x \<in> set xs \<union> set ys. length x = 32" "pair_level h xs = pair_level h ys"
  shows "xs = ys"
  using assms
proof (induction h xs arbitrary: ys rule: pair_level.induct)
  case (1 h l r rest)
  then obtain l' r' rest' where ys: "ys = l' # r' # rest'"
    by (auto simp: length_Suc_conv Suc_length_conv)
  have "h (1 # l @ r) = h (1 # l' @ r')" using 1 ys by (simp add: node_hash_def)
  then have "1 # l @ r = 1 # l' @ r'" by (rule collision_freeD [OF 1(2), rotated 2]) (simp_all add: ys)
  moreover have "length l = length l'" using 1 ys by simp
  moreover have "rest = rest'"
    by (rule "1.IH") (use 1 ys in \<open>auto elim!: collision_free_subset\<close>)
  ultimately show ?case using ys by simp
next
  case (2 h)
  then show ?case by simp
next
  case (3 h x)
  then have "even (length [x])" by blast
  then show ?case by simp
qed

lemma pad_level_inj: "length xs = length ys \<Longrightarrow> pad_level xs = pad_level ys \<longleftrightarrow> xs = ys"
  by (auto simp: pad_level_def)

lemma pad_level_even: "even (length (pad_level xs))"
  unfolding pad_level_def by (simp add: even_iff_mod_2_eq_zero) presburger

lemma pad_level_set: "xs \<noteq> [] \<Longrightarrow> set (pad_level xs) = set xs"
  by (auto simp: pad_level_def)

lemma merkle_loop_step: "1 < length xs \<Longrightarrow> merkle_loop h xs = merkle_loop h (pair_level h (pad_level xs))"
  by (simp add: merkle_loop.simps [of h xs])

lemma merkle_loop_one: "merkle_loop h [x] = [x]"
  by (simp add: merkle_loop.simps)

lemma loop_inputs_step: "1 < length xs \<Longrightarrow> loop_inputs h xs = pair_inputs (pad_level xs) @ loop_inputs h (pair_level h (pad_level xs))"
  by (simp add: loop_inputs.simps [of h xs])

lemma merkle_loop_inj:
  assumes "collision_free h (loop_inputs h xs @ loop_inputs h ys)" "\<forall>b. length (h b) = 32" "length xs = length ys" "xs \<noteq> []"
    and "\<forall>x \<in> set xs \<union> set ys. length x = 32" "merkle_loop h xs ! 0 = merkle_loop h ys ! 0"
  shows "xs = ys"
  using assms
proof (induction "length xs" arbitrary: xs ys rule: less_induct)
  case less
  show ?case
  proof (cases "length xs > 1")
    case True
    let ?px = "pair_level h (pad_level xs)" and ?py = "pair_level h (pad_level ys)"
    have len: "length (pad_level xs) = length (pad_level ys)"
      using less.prems(3) by (simp add: pad_level_def)
    have lens: "length ?px < length xs" "0 < length ?px"
      using True by (auto simp: length_pair_level pad_level_def)
    have ne: "ys \<noteq> []" "?px \<noteq> []" using less.prems(3,4) lens by auto
    have loop: "merkle_loop h ?px ! 0 = merkle_loop h ?py ! 0"
      using less.prems(3,6) True by (metis merkle_loop_step)
    have len': "length ?px = length ?py" using len by (simp add: length_pair_level)
    have dig: "\<forall>x \<in> set ?px \<union> set ?py. length x = 32"
      using pair_level_length [OF less.prems(2)] by blast
    have inp: "loop_inputs h xs = pair_inputs (pad_level xs) @ loop_inputs h ?px"
      "loop_inputs h ys = pair_inputs (pad_level ys) @ loop_inputs h ?py"
      using True less.prems(3) loop_inputs_step by auto
    have cf: "collision_free h (loop_inputs h ?px @ loop_inputs h ?py)"
      "collision_free h (pair_inputs (pad_level xs) @ pair_inputs (pad_level ys))"
      by (rule collision_free_subset [OF less.prems(1)], simp add: inp, blast)+
    have "?px = ?py"
      by (rule less.hyps [OF lens(1) cf(1) less.prems(2) len' ne(2) dig loop])
    moreover have "\<forall>x \<in> set (pad_level xs) \<union> set (pad_level ys). length x = 32"
      using less.prems(4,5) ne by (simp add: pad_level_set)
    ultimately have "pad_level xs = pad_level ys"
      using pair_level_inj [OF cf(2) len pad_level_even] by blast
    then show ?thesis using less.prems(3) by (simp add: pad_level_inj)
  next
    case False
    with less.prems have "length xs = 1" "length ys = 1" by (cases xs; auto)+
    then obtain x y where "xs = [x]" "ys = [y]" by (auto simp: length_Suc_conv)
    with less.prems(6) show ?thesis by (simp add: merkle_loop_one)
  qed
qed

text \<open>C40: The root binds the serials of a batch of known size: two lists of leaves of the same
  length with the same root are the same list in the same order, unless two of the byte strings that
  were hashed to compute the two roots collide.\<close>

theorem merkle_root_binding:
  assumes "\<forall>b. length (sha256 b) = 32" "length xs = length ys" "merkle_root sha256 xs = merkle_root sha256 ys"
    and "collision_free sha256 (merkle_inputs sha256 xs @ merkle_inputs sha256 ys)"
  shows "xs = ys"
proof (cases "xs = []")
  case True
  then show ?thesis using assms by auto
next
  case False
  then have ne: "xs \<noteq> []" "ys \<noteq> []" using assms by auto
  have cf: "collision_free sha256 (loop_inputs sha256 (map (leaf_hash sha256) xs) @ loop_inputs sha256 (map (leaf_hash sha256) ys))"
    by (rule collision_free_subset [OF assms(4)]) (auto simp: merkle_inputs_def)
  have "map (leaf_hash sha256) xs = map (leaf_hash sha256) ys"
    by (rule merkle_loop_inj [OF cf assms(1)]) (use assms(1,2,3) ne in \<open>simp_all add: merkle_root_def leaf_hash_def ball_Un\<close>)
  moreover have "inj_on (leaf_hash sha256) (set xs \<union> set ys)"
  proof (rule inj_onI)
    fix a b assume ab: "a \<in> set xs \<union> set ys" "b \<in> set xs \<union> set ys" "leaf_hash sha256 a = leaf_hash sha256 b"
    have "0 # a = 0 # b"
      by (rule collision_freeD [OF assms(4)]) (use ab in \<open>auto simp: merkle_inputs_def leaf_hash_def\<close>)
    then show "a = b" by simp
  qed
  ultimately show ?thesis by (simp add: inj_on_map_eq_map)
qed

definition toy_hash :: "bytes \<Rightarrow> bytes" where
  "toy_hash b = take 32 (b @ replicate 32 0)"

theorem merkle_root_binding_witness:
  "\<exists>ys. merkle_root toy_hash ys = merkle_root toy_hash [[1], [2], [3]] \<and> ys = [[1], [2], [3]]"
proof -
  let ?xs = "[[1], [2], [3]] :: bytes list"
  have cf: "collision_free toy_hash (merkle_inputs toy_hash ?xs @ merkle_inputs toy_hash ?xs)"
    by code_simp
  have "?xs = ?xs"
    by (rule merkle_root_binding [OF _ _ _ cf]) (auto simp: toy_hash_def min_def)
  then show ?thesis by blast
qed

text \<open>The size must be known: from three leaves on, a list of odd length and the same list with
  its last leaf repeated have the same root, whatever the hash.\<close>

theorem merkle_root_duplicate_last:
  assumes "odd (length xs)" "3 \<le> length xs"
  shows "merkle_root sha256 (xs @ [last xs]) = merkle_root sha256 xs"
proof -
  let ?m = "map (leaf_hash sha256)"
  have ne: "xs \<noteq> []" using assms by auto
  have "pad_level (?m xs) = ?m (xs @ [last xs])"
    using assms ne by (auto simp: pad_level_def last_map odd_iff_mod_2_eq_one)
  moreover have "pad_level (?m (xs @ [last xs])) = ?m (xs @ [last xs])"
    using assms by (auto simp: pad_level_def odd_iff_mod_2_eq_one)
  ultimately have "merkle_loop sha256 (?m (xs @ [last xs])) = merkle_loop sha256 (?m xs)"
    using assms merkle_loop.simps [of sha256 "?m xs"] merkle_loop.simps [of sha256 "?m (xs @ [last xs])"]
    by (simp del: map_append add: ne)
  then show ?thesis using ne by (simp add: merkle_root_def del: map_append)
qed

theorem merkle_root_duplicate_last_witness:
  "merkle_root toy_hash [[1], [2], [3], [3]] = merkle_root toy_hash [[1], [2], [3]]"
  using merkle_root_duplicate_last [of "[[1], [2], [3]]" toy_hash] by simp

end
