(* ===== verification/Jcs.thy ===== *)
theory Jcs
  imports PyText "HOL-Library.List_Lexorder" "HOL-Library.Multiset"
begin

section \<open>RFC 8785 JSON canonicalization\<close>

text \<open>
  \<open>src/taxstamps/crypto/jcs.py\<close>. A JSON value is what \<open>json.loads\<close> returns: the keys of
  an object are strings, in insertion order, so the code's error for other keys cannot arise, and
  tuples are lists. A float is its sign and the text \<open>repr\<close> gives of its absolute value, which
  determines it; \<open>is_integer\<close> of a float of at most 2^53 - 1 is read off that text, in which
  such a float is an integer exactly when the decimal exponent of its digits is not negative.

  The main facts: the text does not depend on the order of the members of objects, and two values
  without floats have the same text only if they are equal up to that order, so a hash or a
  signature of the text is one of the value.
\<close>

datatype pyfloat = FNan | FInf bool | FFin bool string

datatype json =
    JNull
  | JBool bool
  | JInt int
  | JFloat pyfloat
  | JStr ucs
  | JArr "json list"
  | JObj "(ucs \<times> json) list"

subsection \<open>Strings\<close>

definition escape_char :: "nat \<Rightarrow> ucs" where
  "escape_char c =
    (if c = 34 then [92, 34] else if c = 92 then [92, 92] else if c = 8 then [92, 98]
     else if c = 12 then [92, 102] else if c = 10 then [92, 110] else if c = 13 then [92, 114]
     else if c = 9 then [92, 116]
     else if c < 32 then [92, 117, 48, 48, of_char (hex_digit (c div 16)), of_char (hex_digit (c mod 16))]
     else [c])"

definition escape_string :: "ucs \<Rightarrow> ucs" where
  "escape_string value = [34] @ concat (map escape_char value) @ [34]"

text \<open>UTF-16 code units of a character, and the sort key: their big-endian bytes.\<close>

definition utf16_units :: "nat \<Rightarrow> nat list" where
  "utf16_units c = (if c < 65536 then [c]
     else [55296 + (c - 65536) div 1024, 56320 + (c - 65536) mod 1024])"

definition be_pair :: "nat \<Rightarrow> nat list" where
  "be_pair u = [u div 256, u mod 256]"

definition utf16_sort_key :: "ucs \<Rightarrow> nat list" where
  "utf16_sort_key value = concat (map be_pair (concat (map utf16_units value)))"

subsection \<open>Numbers\<close>

definition partition_at :: "char \<Rightarrow> string \<Rightarrow> string \<times> string" where
  "partition_at c s = (takeWhile (\<lambda>x. x \<noteq> c) s, drop 1 (dropWhile (\<lambda>x. x \<noteq> c) s))"

definition int_of_text :: "string \<Rightarrow> int" where
  "int_of_text s = (case s of
     [] \<Rightarrow> 0
   | c # rest \<Rightarrow> if c = CHR ''-'' then - int (nat_of_digits rest)
                 else if c = CHR ''+'' then int (nat_of_digits rest) else int (nat_of_digits s))"

definition lstrip_zeros :: "string \<Rightarrow> string" where
  "lstrip_zeros s = dropWhile (\<lambda>c. c = CHR ''0'') s"

definition rstrip_zeros :: "string \<Rightarrow> string" where
  "rstrip_zeros s = rev (lstrip_zeros (rev s))"

definition shortest_digits :: "string \<Rightarrow> string \<times> int" where
  "shortest_digits rep =
    (let (mant, e) = (if CHR ''e'' \<in> set rep
                      then let (m, exp_s) = partition_at (CHR ''e'') rep in (m, int_of_text exp_s)
                      else (rep, 0));
         (int_part, frac_part) = (if CHR ''.'' \<in> set mant then partition_at (CHR ''.'') mant else (mant, []));
         digits = lstrip_zeros (int_part @ frac_part);
         exp10 = e - int (length frac_part);
         trailing = length digits - length (rstrip_zeros digits);
         digits' = (if rstrip_zeros digits = [] then ''0'' else rstrip_zeros digits)
     in (digits', exp10 + int trailing))"

definition number_to_string :: "pyfloat \<Rightarrow> string result" where
  "number_to_string value = (case value of
     FNan \<Rightarrow> Inl (CanonicalizationError ''JCS cannot represent NaN or Infinity'')
   | FInf _ \<Rightarrow> Inl (CanonicalizationError ''JCS cannot represent NaN or Infinity'')
   | FFin neg rep \<Rightarrow>
       (let (mantissa_digits, exp10) = shortest_digits rep;
            sign = (if neg then ''-'' else []);
            n = int (length mantissa_digits) + exp10;
            k = int (length mantissa_digits)
        in if mantissa_digits = ''0'' then Inr ''0''
           else if k \<le> n \<and> n \<le> 21 then Inr (sign @ mantissa_digits @ replicate (nat (n - k)) (CHR ''0''))
           else if 0 < n \<and> n \<le> 21 then Inr (sign @ take (nat n) mantissa_digits @ ''.'' @ drop (nat n) mantissa_digits)
           else if - 6 < n \<and> n \<le> 0 then Inr (sign @ ''0.'' @ replicate (nat (- n)) (CHR ''0'') @ mantissa_digits)
           else let mant = (if k = 1 then mantissa_digits
                            else take 1 mantissa_digits @ ''.'' @ drop 1 mantissa_digits);
                    ex = n - 1;
                    exp_sign = (if ex \<ge> 0 then ''+'' else [])
                in Inr (sign @ mant @ ''e'' @ exp_sign @ str_int ex)))"

definition max_safe_integer :: int where
  "max_safe_integer = 9007199254740991"

text \<open>The integral floats of at most \<open>max_safe_integer\<close>, as the integer \<open>int(value)\<close>.\<close>

definition integral_float :: "pyfloat \<Rightarrow> int option" where
  "integral_float value = (case value of
     FFin neg rep \<Rightarrow>
       (let (digits, exp10) = shortest_digits rep
        in if 0 \<le> exp10 \<and> int (nat_of_digits digits) * 10 ^ nat exp10 \<le> max_safe_integer
           then Some ((if neg then - 1 else 1) * (int (nat_of_digits digits) * 10 ^ nat exp10))
           else None)
   | _ \<Rightarrow> None)"

subsection \<open>The encoder\<close>

definition commas :: "ucs list \<Rightarrow> ucs" where
  "commas ts = (case ts of [] \<Rightarrow> [] | t # us \<Rightarrow> t @ concat (map (\<lambda>u. 44 # u) us))"

lemma map_result_cong [fundef_cong]:
  "xs = ys \<Longrightarrow> (\<And>x. x \<in> set ys \<Longrightarrow> f x = g x) \<Longrightarrow> map_result f xs = map_result g ys"
  by (induction ys arbitrary: xs) auto

lemma size_json_member: "(k, v) \<in> set kvs \<Longrightarrow> size v < Suc (size_list (size_prod (\<lambda>_. 0) size) kvs)"
  by (induction kvs) auto

definition sorted_items :: "(ucs \<times> json) list \<Rightarrow> (ucs \<times> json) list" where
  "sorted_items kvs = sort_key (\<lambda>kv. utf16_sort_key (fst kv)) kvs"

lemma set_sorted_items [simp]: "set (sorted_items kvs) = set kvs"
  by (simp add: sorted_items_def)

function encode :: "json \<Rightarrow> ucs result" where
  "encode JNull = Inr (ucs_of ''null'')"
| "encode (JBool True) = Inr (ucs_of ''true'')"
| "encode (JBool False) = Inr (ucs_of ''false'')"
| "encode (JStr s) = Inr (escape_string s)"
| "encode (JInt i) =
     (if \<bar>i\<bar> > max_safe_integer
      then Inl (CanonicalizationError (''integer '' @ str_int i @ '' exceeds IEEE-754 safe range''))
      else Inr (ucs_of (str_int i)))"
| "encode (JFloat x) =
     (case integral_float x of
        Some i \<Rightarrow> Inr (ucs_of (str_int i))
      | None \<Rightarrow> rbind (number_to_string x) (\<lambda>t. Inr (ucs_of t)))"
| "encode (JArr items) =
     rbind (map_result (\<lambda>v. encode v) items) (\<lambda>ts. Inr ([91] @ commas ts @ [93]))"
| "encode (JObj kvs) =
     rbind (map_result (\<lambda>(k, v). rbind (encode v) (\<lambda>t. Inr (escape_string k @ [58] @ t))) (sorted_items kvs))
       (\<lambda>ts. Inr ([123] @ commas ts @ [125]))"
  by pat_completeness auto
termination
  by (relation "measure size")
    (auto simp: size_json_member size_list_estimation' less_Suc_eq_le)

definition canonicalize :: "json \<Rightarrow> ucs result" where
  "canonicalize value = encode value"

definition canonicalize_bytes :: "json \<Rightarrow> bytes result" where
  "canonicalize_bytes value = rbind (canonicalize value) utf8_encode"

subsection \<open>Reading the text of a value back\<close>

lemma hex_digit_codes:
  "d < 16 \<Longrightarrow> (of_char (hex_digit d) :: nat) = (if d < 10 then 48 + d else 87 + d)"
proof -
  have "list_all (\<lambda>d. (of_char (hex_digit d) :: nat) = (if d < 10 then 48 + d else 87 + d)) [0..<16]"
    by code_simp
  then show "d < 16 \<Longrightarrow> (of_char (hex_digit d) :: nat) = (if d < 10 then 48 + d else 87 + d)"
    by (auto simp: list_all_iff)
qed

definition unescape_head :: "ucs \<Rightarrow> nat" where
  "unescape_head t =
    (if t ! 0 \<noteq> 92 then t ! 0
     else if t ! 1 = 98 then 8 else if t ! 1 = 102 then 12 else if t ! 1 = 110 then 10
     else if t ! 1 = 114 then 13 else if t ! 1 = 116 then 9
     else if t ! 1 = 117 then (let h = (\<lambda>u. if u < 58 then u - 48 else u - 87) in h (t ! 4) * 16 + h (t ! 5))
     else t ! 1)"

lemma unescape_escape: "unescape_head (escape_char c @ r) = c"
proof (cases "c < 32 \<and> c \<notin> {8, 9, 10, 12, 13}")
  case True
  then have "c div 16 < 16" "c mod 16 < 16" by auto
  then have h: "(of_char (hex_digit (c div 16)) :: nat) = (if c div 16 < 10 then 48 + c div 16 else 87 + c div 16)"
    "(of_char (hex_digit (c mod 16)) :: nat) = (if c mod 16 < 10 then 48 + c mod 16 else 87 + c mod 16)"
    by (simp_all only: hex_digit_codes)
  show ?thesis using True by (simp add: escape_char_def unescape_head_def h Let_def)
qed (auto simp: escape_char_def unescape_head_def)

lemma escape_char_prefix: "escape_char c @ r = escape_char d @ r' \<Longrightarrow> c = d \<and> r = r'"
  by (metis unescape_escape same_append_eq)

lemma escape_char_shape: "escape_char c \<noteq> []" "hd (escape_char c) \<noteq> 34"
  by (auto simp: escape_char_def)

lemma escape_char_not_quote: "escape_char c @ r = 34 # r' \<Longrightarrow> False"
  using escape_char_shape [of c] by (metis hd_append2 list.sel(1))

lemma escape_body_prefix:
  "concat (map escape_char s) @ 34 # r = concat (map escape_char s') @ 34 # r' \<Longrightarrow> s = s' \<and> r = r'"
proof (induction s arbitrary: s')
  case Nil
  then show ?case by (cases s') (auto dest: escape_char_not_quote [OF sym])
next
  case (Cons c s)
  show ?case
  proof (cases s')
    case Nil
    with Cons.prems show ?thesis by (auto dest: escape_char_not_quote)
  next
    case (Cons c' t)
    with Cons.prems have "c = c' \<and> concat (map escape_char s) @ 34 # r = concat (map escape_char t) @ 34 # r'"
      by (intro escape_char_prefix) simp
    with Cons Cons.IH [of t] show ?thesis by simp
  qed
qed

lemma escape_string_prefix: "escape_string s @ r = escape_string s' @ r' \<Longrightarrow> s = s' \<and> r = r'"
  unfolding escape_string_def by (rule escape_body_prefix) simp

text \<open>What may follow a value: the end, a comma, or a closing bracket.\<close>

definition delim :: "ucs \<Rightarrow> bool" where
  "delim r = (r = [] \<or> hd r \<in> {44, 93, 125})"

lemma delim_simps [simp]: "delim []" "delim (44 # r)" "delim (93 # r)" "delim (125 # r)"
  by (simp_all add: delim_def)

definition number_code :: "nat \<Rightarrow> bool" where
  "number_code u = (u = 45 \<or> (48 \<le> u \<and> u \<le> 57))"

lemma str_int_codes: "list_all number_code (ucs_of (str_int i))"
  using str_nat_digits
  by (auto simp: str_int_def ucs_of_def list_all_iff number_code_def is_ascii_digit_def)

lemma str_int_not_Nil: "str_int i \<noteq> []"
  by (simp add: str_int_def)

lemma delim_not_number: "delim r \<Longrightarrow> takeWhile number_code r = []"
  by (cases r) (auto simp: delim_def number_code_def)

lemma int_text_prefix:
  assumes "ucs_of (str_int i) @ r = ucs_of (str_int j) @ r'" "delim r" "delim r'"
  shows "i = j \<and> r = r'"
proof -
  have tw: "takeWhile number_code (ucs_of (str_int k) @ q) = ucs_of (str_int k)" if "delim q" for k q
    using str_int_codes [of k] delim_not_number [OF that] by (simp add: list_all_iff takeWhile_append2)
  have "ucs_of (str_int i) = ucs_of (str_int j)"
    using tw [OF assms(2), of i] tw [OF assms(3), of j] assms(1) by metis
  with assms(1) show ?thesis by simp
qed

text \<open>The first code of the text says what kind of value it is.\<close>

fun kind_code :: "json \<Rightarrow> nat \<Rightarrow> bool" where
  "kind_code JNull u = (u = 110)"
| "kind_code (JBool b) u = (u = (if b then 116 else 102))"
| "kind_code (JInt i) u = number_code u"
| "kind_code (JFloat x) u = True"
| "kind_code (JStr s) u = (u = 34)"
| "kind_code (JArr vs) u = (u = 91)"
| "kind_code (JObj kvs) u = (u = 123)"

fun float_free :: "json \<Rightarrow> bool" where
  "float_free (JFloat x) = False"
| "float_free (JArr vs) = list_all float_free vs"
| "float_free (JObj kvs) = list_all (\<lambda>kv. float_free (snd kv)) kvs"
| "float_free _ = True"

lemma encode_shape:
  assumes "encode v = Inr t" "float_free v"
  shows "t \<noteq> [] \<and> kind_code v (hd t)"
proof (cases v)
  case (JInt i)
  then have "t = ucs_of (str_int i)" using assms by (auto split: if_splits)
  with JInt str_int_codes [of i] str_int_not_Nil [of i] show ?thesis
    by (cases "ucs_of (str_int i)") (auto simp: list_all_iff)
next
  case (JBool b)
  then show ?thesis using assms by (cases b) (auto simp: ucs_of_def)
qed (use assms in \<open>auto simp: ucs_of_def escape_string_def rbind_eq_Inr split: if_splits\<close>)

lemma kind_not_close: "kind_code v u \<Longrightarrow> float_free v \<Longrightarrow> u \<notin> {44, 93, 125}"
  by (cases v) (auto simp: number_code_def)


lemma pieces_tail_read:
  assumes "\<And>x y a b q q'. x \<in> set xs \<Longrightarrow> y \<in> set ys \<Longrightarrow> f x = Inr a \<Longrightarrow> f y = Inr b \<Longrightarrow> a @ q = b @ q' \<Longrightarrow>
      delim q \<Longrightarrow> delim q' \<Longrightarrow> g x = g y \<and> q = q'"
    and "map_result f xs = Inr ts" "map_result f ys = Inr us" "c \<in> {93, 125}"
    and "concat (map (\<lambda>u. 44 # u) ts) @ c # r = concat (map (\<lambda>u. 44 # u) us) @ c # r'"
  shows "map g xs = map g ys \<and> r = r'"
  using assms
proof (induction xs arbitrary: ys ts us)
  case Nil
  then show ?case by (cases ys) (auto simp: rbind_eq_Inr)
next
  case (Cons x xs)
  show ?case
  proof (cases ys)
    case Nil
    with Cons.prems show ?thesis by (auto simp: rbind_eq_Inr)
  next
    case (Cons y ys')
    obtain a ts' where a: "f x = Inr a" "map_result f xs = Inr ts'" "ts = a # ts'"
      using Cons.prems(2) by (auto simp: rbind_eq_Inr)
    obtain b us' where b: "f y = Inr b" "map_result f ys' = Inr us'" "us = b # us'"
      using Cons.prems(3) Cons by (auto simp: rbind_eq_Inr)
    have d: "delim (concat (map (\<lambda>u. 44 # u) ws) @ c # q)" for ws q
      using Cons.prems(4) by (cases ws) auto
    have "g x = g y \<and> concat (map (\<lambda>u. 44 # u) ts') @ c # r = concat (map (\<lambda>u. 44 # u) us') @ c # r'"
      by (rule Cons.prems(1)) (use Cons a b d Cons.prems(5) in auto)
    moreover have "map g xs = map g ys' \<and> r = r'"
      by (rule Cons.IH [OF Cons.prems(1) a(2) b(2) Cons.prems(4)]) (use Cons calculation in auto)
    ultimately show ?thesis using Cons by simp
  qed
qed

lemma pieces_read:
  assumes "\<And>x y a b q q'. x \<in> set xs \<Longrightarrow> y \<in> set ys \<Longrightarrow> f x = Inr a \<Longrightarrow> f y = Inr b \<Longrightarrow> a @ q = b @ q' \<Longrightarrow>
      delim q \<Longrightarrow> delim q' \<Longrightarrow> g x = g y \<and> q = q'"
    and "\<And>x a. x \<in> set xs \<union> set ys \<Longrightarrow> f x = Inr a \<Longrightarrow> a \<noteq> [] \<and> hd a \<notin> {44, 93, 125}"
    and "map_result f xs = Inr ts" "map_result f ys = Inr us" "c \<in> {93, 125}"
    and "commas ts @ c # r = commas us @ c # r'"
  shows "map g xs = map g ys \<and> r = r'"
proof (cases ts; cases us)
  assume "ts = []" "us = []"
  then have "xs = []" "ys = []" using map_result_length [OF assms(3)] map_result_length [OF assms(4)] by simp_all
  with assms(6) \<open>ts = []\<close> \<open>us = []\<close> show ?thesis by (simp add: commas_def)
next
  fix b us' assume *: "ts = []" "us = b # us'"
  then obtain y where "y \<in> set ys" "f y = Inr b"
    using assms(4) by (cases ys) (auto simp: rbind_eq_Inr)
  with assms(2) [of y b] assms(5,6) * show ?thesis by (cases b) (auto simp: commas_def)
next
  fix a ts' assume *: "ts = a # ts'" "us = []"
  then obtain x where "x \<in> set xs" "f x = Inr a"
    using assms(3) by (cases xs) (auto simp: rbind_eq_Inr)
  with assms(2) [of x a] assms(5,6) * show ?thesis by (cases a) (auto simp: commas_def)
next
  fix a ts' b us' assume *: "ts = a # ts'" "us = b # us'"
  show ?thesis
    by (rule pieces_tail_read [OF assms(1,3,4,5)]) (use * assms(6) in \<open>simp_all add: commas_def\<close>)
qed

subsection \<open>Values up to the order of members\<close>

function jnorm :: "json \<Rightarrow> json" where
  "jnorm (JArr vs) = JArr (map (\<lambda>v. jnorm v) vs)"
| "jnorm (JObj kvs) = JObj (map (\<lambda>(k, v). (k, jnorm v)) (sorted_items kvs))"
| "jnorm JNull = JNull"
| "jnorm (JBool b) = JBool b"
| "jnorm (JInt i) = JInt i"
| "jnorm (JFloat x) = JFloat x"
| "jnorm (JStr s) = JStr s"
  by pat_completeness auto
termination
  by (relation "measure size")
    (auto simp: size_json_member size_list_estimation' less_Suc_eq_le)

definition encode_member :: "ucs \<times> json \<Rightarrow> ucs result" where
  "encode_member = (\<lambda>(k, v). rbind (encode v) (\<lambda>t. Inr (escape_string k @ [58] @ t)))"

lemma encode_JObj: "encode (JObj kvs) =
    rbind (map_result encode_member (sorted_items kvs)) (\<lambda>ts. Inr ([123] @ commas ts @ [125]))"
  by (simp add: encode_member_def)

lemma sorted_items_map: "sorted_items (map (\<lambda>(k, v). (k, h v)) (sorted_items kvs)) = map (\<lambda>(k, v). (k, h v)) (sorted_items kvs)"
proof -
  have k: "(\<lambda>kv. utf16_sort_key (fst kv)) \<circ> (\<lambda>(k, v). (k, h v)) = (\<lambda>kv. utf16_sort_key (fst kv))"
    by (auto simp: fun_eq_iff)
  show ?thesis
    unfolding sorted_items_def by (rule sort_key_id_if_sorted) (simp add: k)
qed

lemma map_result_map: "map_result f (map h xs) = map_result (\<lambda>x. f (h x)) xs"
  by (induction xs) auto

lemma encode_jnorm_aux: "encode (jnorm v) = encode v"
proof (induction v rule: jnorm.induct)
  case (1 vs)
  then have "map_result encode (map jnorm vs) = map_result encode vs"
    by (auto simp: map_result_map intro: map_result_cong)
  then show ?case by simp
next
  case (2 kvs)
  then have "map_result encode_member (map (\<lambda>(k, v). (k, jnorm v)) (sorted_items kvs)) = map_result encode_member (sorted_items kvs)"
    unfolding map_result_map by (intro map_result_cong) (auto simp: encode_member_def)
  then show ?case by (simp add: encode_JObj sorted_items_map del: encode.simps(8))
qed simp_all

lemma encode_read:
  assumes "encode v = Inr a" "encode w = Inr b" "float_free v" "float_free w"
    and "a @ r = b @ r'" "delim r" "delim r'"
  shows "jnorm v = jnorm w \<and> r = r'"
  using assms
proof (induction v arbitrary: w a b r r' rule: encode.induct)
  case (7 vs)
  then have "kind_code w 91" using encode_shape [of w b] by (cases b) (auto simp: rbind_eq_Inr)
  then obtain ws where w: "w = JArr ws" using 7 by (cases w) (auto simp: number_code_def split: if_splits)
  from 7 w obtain ts us where t: "map_result encode vs = Inr ts" "a = [91] @ commas ts @ [93]"
    "map_result encode ws = Inr us" "b = [91] @ commas us @ [93]" by (auto simp: rbind_eq_Inr)
  have ff: "float_free x" if "x \<in> set vs \<union> set ws" for x
    using that "7.prems"(3,4) w by (auto simp: list_all_iff)
  have "map jnorm vs = map jnorm ws \<and> r = r'"
  proof (rule pieces_read [OF _ _ t(1,3), of _ 93])
    fix x c assume "x \<in> set vs \<union> set ws" "encode x = Inr c"
    then show "c \<noteq> [] \<and> hd c \<notin> {44, 93, 125}"
      using encode_shape [of x c] kind_not_close [of x "hd c"] ff by auto
  next
    fix x y c d q q'
    assume "x \<in> set vs" "y \<in> set ws" "encode x = Inr c" "encode y = Inr d" "c @ q = d @ q'" "delim q" "delim q'"
    then show "jnorm x = jnorm y \<and> q = q'"
      using "7.IH" [of x c y d q q'] ff by auto
  qed (use "7.prems"(5) t in auto)
  then show ?case using w by simp
next
  case (8 kvs)
  then have "kind_code w 123" using encode_shape [of w b] by (cases b) (auto simp: rbind_eq_Inr)
  then obtain lws where w: "w = JObj lws" using 8 by (cases w) (auto simp: number_code_def split: if_splits)
  from 8 w obtain ts us where t: "map_result encode_member (sorted_items kvs) = Inr ts" "a = [123] @ commas ts @ [125]"
    "map_result encode_member (sorted_items lws) = Inr us" "b = [123] @ commas us @ [125]"
    by (auto simp: rbind_eq_Inr encode_JObj simp del: encode.simps(8))
  have "map (\<lambda>(k, v). (k, jnorm v)) (sorted_items kvs) = map (\<lambda>(k, v). (k, jnorm v)) (sorted_items lws) \<and> r = r'"
  proof (rule pieces_read [OF _ _ t(1,3), of _ 125])
    fix x c assume "x \<in> set (sorted_items kvs) \<union> set (sorted_items lws)" "encode_member x = Inr c"
    then show "c \<noteq> [] \<and> hd c \<notin> {44, 93, 125}"
      by (cases x) (auto simp: encode_member_def escape_string_def rbind_eq_Inr)
  next
    fix x y c d q q'
    assume m: "x \<in> set (sorted_items kvs)" "y \<in> set (sorted_items lws)" "encode_member x = Inr c"
      "encode_member y = Inr d" "c @ q = d @ q'" "delim q" "delim q'"
    obtain k u l z where xy: "x = (k, u)" "y = (l, z)" by (cases x; cases y)
    with m obtain c' d' where e: "encode u = Inr c'" "c = escape_string k @ 58 # c'"
      "encode z = Inr d'" "d = escape_string l @ 58 # d'"
      by (auto simp: encode_member_def rbind_eq_Inr)
    with m(5) have "k = l \<and> 58 # c' @ q = 58 # d' @ q'" by (intro escape_string_prefix) simp
    moreover have "float_free u" "float_free z" using "8.prems"(3,4) w m(1,2) xy by (auto simp: list_all_iff)
    ultimately show "(case x of (k, v) \<Rightarrow> (k, jnorm v)) = (case y of (k, v) \<Rightarrow> (k, jnorm v)) \<and> q = q'"
      using "8.IH" [OF m(1) xy(1)[symmetric], of c' z d' q q'] e m(6,7) xy by auto
  qed (use "8.prems"(5) t in auto)
  then show ?case using w by simp
next
  case (4 s)
  then have "kind_code w 34" using encode_shape [of w b] by (cases b) (auto simp: escape_string_def)
  then obtain s' where w: "w = JStr s'" using 4 by (cases w) (auto simp: number_code_def split: if_splits)
  with 4 show ?case by (auto dest: escape_string_prefix)
next
  case (5 i)
  then have a: "a = ucs_of (str_int i)" by (auto split: if_splits)
  have "kind_code (JInt i) (hd a)" using 5 encode_shape [of "JInt i" a] by simp
  moreover have "a \<noteq> []" "b \<noteq> []" using 5 encode_shape [of "JInt i" a] encode_shape [of w b] by auto
  ultimately have "kind_code w (hd a)" "number_code (hd a)"
    using 5 encode_shape [of w b] by (auto, metis hd_append2)
  then obtain j where w: "w = JInt j" using 5 by (cases w) (auto simp: number_code_def split: if_splits)
  then have "b = ucs_of (str_int j)" using 5 by (auto split: if_splits)
  with a w 5 int_text_prefix [of i r j r'] show ?case by auto
next
  case 1
  then have "kind_code w 110" using encode_shape [of w b] by (cases b) (auto simp: ucs_of_def)
  with 1 show ?case by (cases w) (auto simp: number_code_def split: if_splits)
next
  case 2
  then have "kind_code w 116" using encode_shape [of w b] by (cases b) (auto simp: ucs_of_def)
  with 2 show ?case by (cases w) (auto simp: number_code_def split: if_splits)
next
  case 3
  then have "kind_code w 102" using encode_shape [of w b] by (cases b) (auto simp: ucs_of_def)
  with 3 show ?case by (cases w) (auto simp: number_code_def split: if_splits)
qed simp


lemma encode_inj_aux:
  assumes "encode v = Inr s" "encode w = Inr t" "float_free v" "float_free w"
  shows "s = t \<longleftrightarrow> jnorm v = jnorm w"
proof
  assume "s = t"
  then show "jnorm v = jnorm w" using encode_read [OF assms, of "[]" "[]"] by simp
next
  assume "jnorm v = jnorm w"
  then have "encode v = encode w" by (metis encode_jnorm_aux)
  with assms show "s = t" by simp
qed

text \<open>The code points of the text are code points of its strings.\<close>

fun wf_text :: "json \<Rightarrow> bool" where
  "wf_text (JStr s) = list_all (\<lambda>c. c < 1114112) s"
| "wf_text (JArr vs) = list_all wf_text vs"
| "wf_text (JObj kvs) = list_all (\<lambda>kv. list_all (\<lambda>c. c < 1114112) (fst kv) \<and> wf_text (snd kv)) kvs"
| "wf_text _ = True"

lemma escape_string_bound: "list_all (\<lambda>c. c < 1114112) s \<Longrightarrow> c \<in> set (escape_string s) \<Longrightarrow> c < 1114112"
proof -
  have h: "(of_char x :: nat) < 1114112" for x :: char
    using nat_of_char_less_256 [of x] by linarith
  have "c < 1114112 \<Longrightarrow> u \<in> set (escape_char c) \<Longrightarrow> u < 1114112" for c u
    using h by (auto simp: escape_char_def split: if_splits)
  then show "list_all (\<lambda>c. c < 1114112) s \<Longrightarrow> c \<in> set (escape_string s) \<Longrightarrow> c < 1114112"
    by (auto simp: escape_string_def list_all_iff)
qed

lemma ucs_of_bound': "c \<in> set (ucs_of s) \<Longrightarrow> c < 1114112"
  using ucs_of_bound by fastforce

lemma commas_set: "set (commas ts) \<subseteq> {44} \<union> \<Union> (set ` set ts)"
  by (cases ts) (auto simp: commas_def)

lemma map_result_set: "map_result f xs = Inr ys \<Longrightarrow> y \<in> set ys \<Longrightarrow> \<exists>x \<in> set xs. f x = Inr y"
  by (induction xs arbitrary: ys) (auto simp: rbind_eq_Inr)

lemma encode_bound:
  assumes "encode v = Inr t" "wf_text v" "float_free v" "c \<in> set t"
  shows "c < 1114112"
  using assms
proof (induction v arbitrary: t c rule: encode.induct)
  case (7 vs)
  then obtain ts where ts: "map_result encode vs = Inr ts" "t = [91] @ commas ts @ [93]"
    by (auto simp: rbind_eq_Inr)
  have "c < 1114112" if "u \<in> set ts" "c \<in> set u" for u
    using map_result_set [OF ts(1) that(1)] "7.IH" that "7.prems"(2,3) by (fastforce simp: list_all_iff)
  moreover have "c \<in> {91, 93, 44} \<union> \<Union> (set ` set ts)" using "7.prems"(4) ts(2) commas_set [of ts] by auto
  ultimately show ?case by auto
next
  case (8 kvs)
  then obtain ts where ts: "map_result encode_member (sorted_items kvs) = Inr ts" "t = [123] @ commas ts @ [125]"
    by (auto simp: rbind_eq_Inr encode_JObj simp del: encode.simps(8))
  have "c < 1114112" if u: "u \<in> set ts" "c \<in> set u" for u
  proof -
    obtain k x where m: "(k, x) \<in> set (sorted_items kvs)" "encode_member (k, x) = Inr u"
      using map_result_set [OF ts(1) u(1)] by auto
    then obtain t' where t': "encode x = Inr t'" "u = escape_string k @ 58 # t'"
      by (auto simp: encode_member_def rbind_eq_Inr)
    have "list_all (\<lambda>c. c < 1114112) k" "wf_text x" "float_free x"
      using "8.prems"(2,3) m(1) by (auto simp: list_all_iff)
    with escape_string_bound [of k c] "8.IH" [OF m(1) refl t'(1), of c] u(2) t'(2) show ?thesis by auto
  qed
  moreover have "c \<in> {123, 125, 44} \<union> \<Union> (set ` set ts)" using "8.prems"(4) ts(2) commas_set [of ts] by auto
  ultimately show ?case by auto
next
  case (4 s)
  then show ?case using escape_string_bound by auto
next
  case (5 i)
  then show ?case using ucs_of_bound' by (auto split: if_splits)
qed (auto dest: ucs_of_bound')

lemma canonicalize_bytes_inj_aux:
  assumes "canonicalize_bytes v = Inr s" "canonicalize_bytes w = Inr t"
    and "float_free v" "float_free w" "wf_text v" "wf_text w"
  shows "s = t \<longleftrightarrow> jnorm v = jnorm w"
proof -
  obtain a b where ab: "encode v = Inr a" "encode w = Inr b"
    "s = map word_of_nat (concat (map utf8_units a))" "t = map word_of_nat (concat (map utf8_units b))"
    using assms(1,2) by (auto simp: canonicalize_bytes_def canonicalize_def utf8_encode_def rbind_eq_Inr split: if_splits)
  have "s = t \<longleftrightarrow> a = b"
    using ab(3,4) utf8_bytes_inj [of a b] encode_bound [OF ab(1)] encode_bound [OF ab(2)] assms(3-6)
    by (auto simp: list_all_iff)
  with encode_inj_aux [OF ab(1,2) assms(3,4)] show ?thesis by simp
qed

text \<open>The sort key of a text of Unicode scalar values determines it.\<close>

lemma utf16_units_prefix:
  assumes "utf16_units c @ xs = utf16_units d @ ys" "is_scalar c" "is_scalar d"
  shows "c = d \<and> xs = ys"
proof -
  have a: "c < 65536 \<longleftrightarrow> d < 65536"
    using assms by (auto simp: utf16_units_def is_scalar_def is_surrogate_def split: if_splits)
  show ?thesis
  proof (cases "c < 65536")
    case True
    with assms a show ?thesis by (simp add: utf16_units_def)
  next
    case False
    with assms(1) a have e: "(c - 65536) div 1024 = (d - 65536) div 1024" "(c - 65536) mod 1024 = (d - 65536) mod 1024" "xs = ys"
      by (simp_all add: utf16_units_def)
    then have "c - 65536 = d - 65536" by (metis div_mult_mod_eq)
    with False a e(3) show ?thesis by auto
  qed
qed

lemma utf16_units_not_Nil: "utf16_units c \<noteq> []"
  by (simp add: utf16_units_def)

lemma utf16_concat_inj:
  "concat (map utf16_units xs) = concat (map utf16_units ys) \<Longrightarrow> list_all is_scalar xs \<Longrightarrow> list_all is_scalar ys \<Longrightarrow> xs = ys"
proof (induction xs arbitrary: ys)
  case Nil
  then show ?case using utf16_units_not_Nil by (cases ys) auto
next
  case (Cons x xs)
  show ?case
  proof (cases ys)
    case Nil
    with Cons.prems utf16_units_not_Nil show ?thesis by auto
  next
    case (Cons y ys')
    with Cons.prems have "x = y \<and> concat (map utf16_units xs) = concat (map utf16_units ys')"
      by (intro utf16_units_prefix) auto
    with Cons Cons.prems Cons.IH [of ys'] show ?thesis by auto
  qed
qed

lemma be_pair_inj: "be_pair u = be_pair w \<longleftrightarrow> u = w"
proof
  assume "be_pair u = be_pair w"
  then have "u div 256 = w div 256" "u mod 256 = w mod 256" unfolding be_pair_def by blast+
  then show "u = w" by (metis div_mult_mod_eq)
qed simp

lemma byte_pairs_inj: "concat (map be_pair us) = concat (map be_pair ws) \<Longrightarrow> us = ws"
proof (induction us arbitrary: ws)
  case Nil
  then show ?case by (cases ws) (auto simp: be_pair_def)
next
  case (Cons u us)
  show ?case
  proof (cases ws)
    case Nil
    with Cons.prems show ?thesis by (simp add: be_pair_def)
  next
    case (Cons w ws')
    have "length (be_pair u) = length (be_pair w)" by (simp add: be_pair_def)
    moreover have "be_pair u @ concat (map be_pair us) = be_pair w @ concat (map be_pair ws')"
      using Cons Cons.prems by simp
    ultimately have "be_pair u = be_pair w \<and> concat (map be_pair us) = concat (map be_pair ws')"
      using append_eq_append_conv by blast
    with Cons Cons.IH [of ws'] show ?thesis by (simp add: be_pair_inj)
  qed
qed

lemma utf16_sort_key_inj: "utf16_sort_key s = utf16_sort_key t \<Longrightarrow> list_all is_scalar s \<Longrightarrow> list_all is_scalar t \<Longrightarrow> s = t"
  unfolding utf16_sort_key_def using byte_pairs_inj utf16_concat_inj by blast

lemma sorted_items_perm:
  assumes "mset kvs = mset kvs'" "distinct (map fst kvs)" "list_all (\<lambda>kv. list_all is_scalar (fst kv)) kvs"
  shows "sorted_items kvs = sorted_items kvs'"
  unfolding sorted_items_def
proof (rule sort_key_inj_key_eq)
  show "mset kvs = mset (sort_key (\<lambda>kv. utf16_sort_key (fst kv)) kvs')" using assms by simp
  show "inj_on (\<lambda>kv. utf16_sort_key (fst kv)) (set kvs)"
  proof (rule inj_onI)
    fix x y assume xy: "x \<in> set kvs" "y \<in> set kvs" "utf16_sort_key (fst x) = utf16_sort_key (fst y)"
    then have "fst x = fst y" using assms(3) by (auto simp: list_all_iff dest: utf16_sort_key_inj)
    with xy assms(2) show "x = y" by (metis distinct_map inj_on_def)
  qed
qed simp

text \<open>Members of distinct keys may come in any order, at any depth.\<close>

lemma encode_order_aux:
  assumes "mset kvs = mset kvs'" "distinct (map fst kvs)" "list_all (\<lambda>kv. list_all is_scalar (fst kv)) kvs"
  shows "encode (JObj kvs) = encode (JObj kvs')"
  using sorted_items_perm [OF assms] by simp


lemmas encode_eval = sorted_items_def utf16_sort_key_def utf16_units_def be_pair_def escape_string_def
  escape_char_def ucs_of_def commas_def str_int_def str_nat.simps digit_char_def max_safe_integer_def
  canonicalize_bytes_def canonicalize_def utf8_encode_def is_surrogate_def utf8_units_def

text \<open>C29: The canonical text is faithful. For two JSON values without floats (the integer \<open>1\<close> and the float \<open>1.0\<close> share a
  canonical text) whose strings are Python strings, that is, of code points below 1114112, if both have a canonical byte string, the byte strings are equal exactly when the
  values are equal up to the order of object members (\<open>jnorm\<close> sorts every object as the code does).
  So a hash or a signature over canonical bytes commits to the value.\<close>

theorem canonicalize_bytes_faithful:
  assumes "canonicalize_bytes v = Inr s" "canonicalize_bytes w = Inr t"
    and "float_free v" "float_free w" "wf_text v" "wf_text w"
  shows "s = t \<longleftrightarrow> jnorm v = jnorm w"
  by (rule canonicalize_bytes_inj_aux [OF assms])

theorem canonicalize_bytes_faithful_witness:
  "let v = JObj [(ucs_of ''b'', JInt 2), (ucs_of ''a'', JArr [JStr [233], JNull])];
       w = JObj [(ucs_of ''a'', JArr [JStr [233], JNull]), (ucs_of ''b'', JInt 2)];
       s = map word_of_nat [123, 34, 97, 34, 58, 91, 34, 195, 169, 34, 44, 110, 117, 108, 108, 93, 44, 34, 98, 34, 58, 50, 125]
   in canonicalize_bytes v = Inr s \<and> canonicalize_bytes w = Inr s \<and> jnorm v = jnorm w"
proof -
  let ?v = "JObj [(ucs_of ''b'', JInt 2), (ucs_of ''a'', JArr [JStr [233], JNull])]"
  let ?w = "JObj [(ucs_of ''a'', JArr [JStr [233], JNull]), (ucs_of ''b'', JInt 2)]"
  let ?s = "map word_of_nat [123, 34, 97, 34, 58, 91, 34, 195, 169, 34, 44, 110, 117, 108, 108, 93, 44, 34, 98, 34, 58, 50, 125]"
  have v: "canonicalize_bytes ?v = Inr ?s" by (simp add: encode_eval)
  have w: "canonicalize_bytes ?w = Inr ?s" by (simp add: encode_eval)
  have side: "float_free ?v" "float_free ?w" "wf_text ?v" "wf_text ?w" by (simp_all add: ucs_of_def)
  have "jnorm ?v = jnorm ?w" using canonicalize_bytes_faithful [OF v w side] by blast
  with v w show ?thesis by (simp only: Let_def simp_thms)
qed

text \<open>The canonical text of an object does not depend on the order in which its members were
  inserted, when its keys are distinct texts of Unicode scalar values.\<close>

theorem canonicalize_member_order:
  assumes "mset kvs = mset kvs'" "distinct (map fst kvs)" "list_all (\<lambda>kv. list_all is_scalar (fst kv)) kvs"
  shows "canonicalize_bytes (JObj kvs) = canonicalize_bytes (JObj kvs')"
  by (simp only: canonicalize_bytes_def canonicalize_def encode_order_aux [OF assms])

theorem canonicalize_member_order_witness:
  "canonicalize_bytes (JObj [([65536], JInt 1), ([65535], JInt 2)]) = canonicalize_bytes (JObj [([65535], JInt 2), ([65536], JInt 1)])"
  by (rule canonicalize_member_order) (simp_all add: is_scalar_def is_surrogate_def)


subsection \<open>Values that have a canonical text\<close>

fun jcs_ok :: "json \<Rightarrow> bool" where
  "jcs_ok (JInt i) = (\<bar>i\<bar> \<le> max_safe_integer)"
| "jcs_ok (JFloat x) = False"
| "jcs_ok (JStr s) = list_all (\<lambda>c. \<not> is_surrogate c) s"
| "jcs_ok (JArr vs) = list_all jcs_ok vs"
| "jcs_ok (JObj kvs) = list_all (\<lambda>kv. list_all (\<lambda>c. \<not> is_surrogate c) (fst kv) \<and> jcs_ok (snd kv)) kvs"
| "jcs_ok _ = True"

lemma map_result_total:
  "(\<And>x. x \<in> set xs \<Longrightarrow> \<exists>y. f x = Inr y \<and> P y) \<Longrightarrow> \<exists>ys. map_result f xs = Inr ys \<and> list_all P ys"
proof (induction xs)
  case (Cons x xs)
  then obtain y ys where "f x = Inr y" "P y" "map_result f xs = Inr ys" "list_all P ys" by force
  then show ?case by simp
qed simp

lemma latin_not_surrogate [simp]: "list_all (\<lambda>c. \<not> is_surrogate c) (ucs_of s)"
  using ucs_of_bound by (fastforce simp: list_all_iff is_surrogate_def)

lemma low_not_surrogate: "c < 256 \<Longrightarrow> \<not> is_surrogate c"
  by (simp add: is_surrogate_def)

lemma escape_not_surrogate: "list_all (\<lambda>c. \<not> is_surrogate c) s \<Longrightarrow> list_all (\<lambda>c. \<not> is_surrogate c) (escape_string s)"
proof -
  have "\<not> is_surrogate u" if "\<not> is_surrogate c" "u \<in> set (escape_char c)" for c u
    using that by (auto simp: escape_char_def low_not_surrogate split: if_splits)
  then show "list_all (\<lambda>c. \<not> is_surrogate c) s \<Longrightarrow> list_all (\<lambda>c. \<not> is_surrogate c) (escape_string s)"
    by (auto simp: escape_string_def list_all_iff low_not_surrogate)
qed

lemma commas_not_surrogate: "list_all (list_all (\<lambda>c. \<not> is_surrogate c)) ts \<Longrightarrow> list_all (\<lambda>c. \<not> is_surrogate c) (commas ts)"
  using commas_set [of ts] by (fastforce simp: list_all_iff low_not_surrogate)

lemma encode_total: "jcs_ok v \<Longrightarrow> \<exists>t. encode v = Inr t \<and> list_all (\<lambda>c. \<not> is_surrogate c) t"
proof (induction v rule: encode.induct)
  case (7 vs)
  then have "\<exists>ts. map_result encode vs = Inr ts \<and> list_all (list_all (\<lambda>c. \<not> is_surrogate c)) ts"
    by (intro map_result_total) (simp add: list_all_iff)
  then obtain ts where "map_result encode vs = Inr ts" "list_all (list_all (\<lambda>c. \<not> is_surrogate c)) ts" by blast
  with commas_not_surrogate show ?case by (simp add: low_not_surrogate)
next
  case (8 kvs)
  have "\<exists>ts. map_result encode_member (sorted_items kvs) = Inr ts \<and> list_all (list_all (\<lambda>c. \<not> is_surrogate c)) ts"
  proof (rule map_result_total)
    fix kv assume kv: "kv \<in> set (sorted_items kvs)"
    obtain k v where [simp]: "kv = (k, v)" by (cases kv)
    have ok: "list_all (\<lambda>c. \<not> is_surrogate c) k" "jcs_ok v" using kv 8(2) by (auto simp: list_all_iff)
    obtain t where "encode v = Inr t" "list_all (\<lambda>c. \<not> is_surrogate c) t" using "8.IH" [OF kv, of k v] ok by auto
    with escape_not_surrogate [OF ok(1)]
    show "\<exists>t. encode_member kv = Inr t \<and> list_all (\<lambda>c. \<not> is_surrogate c) t" by (simp add: encode_member_def low_not_surrogate)
  qed
  then obtain ts where "map_result encode_member (sorted_items kvs) = Inr ts" "list_all (list_all (\<lambda>c. \<not> is_surrogate c)) ts" by blast
  with commas_not_surrogate show ?case by (simp add: encode_JObj low_not_surrogate del: encode.simps(8))
qed (auto simp: escape_not_surrogate max_safe_integer_def)

lemma canonicalize_total: "jcs_ok v \<Longrightarrow> succeeds (canonicalize_bytes v)"
  using encode_total [of v]
  by (auto simp: canonicalize_bytes_def canonicalize_def utf8_encode_def list_all_iff list_ex_iff)

lemma canonicalize_totalE:
  assumes "jcs_ok v" obtains b where "canonicalize_bytes v = Inr b"
  using canonicalize_total [OF assms] by (auto simp: succeeds_iff)

end
