(* ===== verification/PyJson.thy ===== *)
theory PyJson
  imports Jcs
begin

section \<open>Python's json module\<close>

text \<open>
  What the service uses of \<open>json\<close>: \<open>dumps\<close> of a string with \<open>ensure_ascii\<close>, and \<open>loads\<close> of
  text and of bytes, which first guesses the encoding and decodes with \<open>surrogatepass\<close>.
  The conversion of the text of a number with a fraction or an exponent to a float is a parameter
  (\<open>read_float\<close>), since a float is known here only by its \<open>repr\<close>. The parser takes its nesting
  depth as fuel; \<open>json_loads\<close> gives it more than the length of the text. CPython's own limits on
  nesting and on the digits of an integer are not modelled.
\<close>

subsection \<open>Writing strings\<close>

definition dumps_char :: "nat \<Rightarrow> ucs" where
  "dumps_char c =
    (let u4 = (\<lambda>u. [92, 117, of_char (hex_digit (u div 4096 mod 16)), of_char (hex_digit (u div 256 mod 16)),
                   of_char (hex_digit (u div 16 mod 16)), of_char (hex_digit (u mod 16))])
     in if c = 34 then [92, 34] else if c = 92 then [92, 92] else if c = 10 then [92, 110]
        else if c = 13 then [92, 114] else if c = 9 then [92, 116] else if c = 12 then [92, 102]
        else if c = 8 then [92, 98]
        else if 32 \<le> c \<and> c \<le> 126 then [c]
        else concat (map u4 (utf16_units c)))"

definition dumps_string :: "ucs \<Rightarrow> ucs" where
  "dumps_string s = [34] @ concat (map dumps_char s) @ [34]"

subsection \<open>Reading text\<close>

definition json_space :: "nat \<Rightarrow> bool" where
  "json_space u = (u \<in> {32, 9, 10, 13})"

definition skip_space :: "ucs \<Rightarrow> ucs" where
  "skip_space s = dropWhile json_space s"

definition hex_val :: "nat \<Rightarrow> nat option" where
  "hex_val u = (if 48 \<le> u \<and> u \<le> 57 then Some (u - 48)
    else if 97 \<le> u \<and> u \<le> 102 then Some (u - 87)
    else if 65 \<le> u \<and> u \<le> 70 then Some (u - 55) else None)"

definition hex4 :: "ucs \<Rightarrow> nat option" where
  "hex4 s = (case s of
     a # b # c # d # _ \<Rightarrow>
       (case (hex_val a, hex_val b, hex_val c, hex_val d) of
          (Some p, Some q, Some r, Some t) \<Rightarrow> Some (((p * 16 + q) * 16 + r) * 16 + t)
        | _ \<Rightarrow> None)
   | _ \<Rightarrow> None)"

text \<open>The characters of a string after its opening quote, and what follows the closing one.\<close>

fun scan_string :: "nat \<Rightarrow> ucs \<Rightarrow> ucs \<Rightarrow> (ucs \<times> ucs) option" where
  "scan_string 0 acc s = None"
| "scan_string (Suc n) acc [] = None"
| "scan_string (Suc n) acc (u # s) =
    (if u = 34 then Some (acc, s)
     else if u < 32 then None
     else if u \<noteq> 92 then scan_string n (acc @ [u]) s
     else case s of
       [] \<Rightarrow> None
     | e # s' \<Rightarrow>
         if e = 34 \<or> e = 92 \<or> e = 47 then scan_string n (acc @ [e]) s'
         else if e = 98 then scan_string n (acc @ [8]) s'
         else if e = 102 then scan_string n (acc @ [12]) s'
         else if e = 110 then scan_string n (acc @ [10]) s'
         else if e = 114 then scan_string n (acc @ [13]) s'
         else if e = 116 then scan_string n (acc @ [9]) s'
         else if e \<noteq> 117 then None
         else case hex4 s' of
           None \<Rightarrow> None
         | Some h \<Rightarrow>
             (let rest = drop 4 s'
              in if 55296 \<le> h \<and> h \<le> 56319 \<and> take 2 rest = [92, 117] then
                   (case hex4 (drop 2 rest) of
                      None \<Rightarrow> None
                    | Some l \<Rightarrow>
                        if 56320 \<le> l \<and> l \<le> 57343
                        then scan_string n (acc @ [65536 + (h - 55296) * 1024 + (l - 56320)]) (drop 6 rest)
                        else scan_string n (acc @ [h]) rest)
                 else scan_string n (acc @ [h]) rest))"

definition json_digit :: "nat \<Rightarrow> bool" where
  "json_digit u = (48 \<le> u \<and> u \<le> 57)"

text \<open>A number: its text, whether it is an integer, and the rest.\<close>

definition scan_number :: "ucs \<Rightarrow> (ucs \<times> bool \<times> ucs) option" where
  "scan_number s =
    (let (sign, s1) = (case s of u # r \<Rightarrow> if u = 45 then ([45], r) else ([], s) | [] \<Rightarrow> ([], s));
         ip = (if take 1 s1 = [48] then [48] else takeWhile json_digit s1);
         s2 = drop (length ip) s1;
         fp = (if take 1 s2 = [46] \<and> takeWhile json_digit (drop 1 s2) \<noteq> []
               then [46] @ takeWhile json_digit (drop 1 s2) else []);
         s3 = drop (length fp) s2;
         (e1, s4) = (if take 1 s3 \<in> {[101], [69]} then (take 1 s3, drop 1 s3) else ([], s3));
         (e2, s5) = (if e1 \<noteq> [] \<and> take 1 s4 \<in> {[43], [45]} then (take 1 s4, drop 1 s4) else ([], s4));
         ed = (if e1 \<noteq> [] then takeWhile json_digit s5 else []);
         ex = (if ed \<noteq> [] then e1 @ e2 @ ed else [])
     in if ip = [] then None
        else Some (sign @ ip @ fp @ ex, fp = [] \<and> ex = [], drop (length ex) s3))"

definition text_of :: "ucs \<Rightarrow> string" where
  "text_of s = map char_of s"

text \<open>\<open>d[k] = v\<close>: a new key goes to the end, an old one keeps its place.\<close>

fun dict_set :: "'k \<Rightarrow> 'v \<Rightarrow> ('k \<times> 'v) list \<Rightarrow> ('k \<times> 'v) list" where
  "dict_set k v [] = [(k, v)]"
| "dict_set k v ((k', v') # d) = (if k' = k then (k, v) # d else (k', v') # dict_set k v d)"

fun parse_value :: "(string \<Rightarrow> pyfloat) \<Rightarrow> nat \<Rightarrow> ucs \<Rightarrow> (json \<times> ucs) option"
  and parse_array :: "(string \<Rightarrow> pyfloat) \<Rightarrow> nat \<Rightarrow> json list \<Rightarrow> ucs \<Rightarrow> (json \<times> ucs) option"
  and parse_object :: "(string \<Rightarrow> pyfloat) \<Rightarrow> nat \<Rightarrow> (ucs \<times> json) list \<Rightarrow> ucs \<Rightarrow> (json \<times> ucs) option" where
  "parse_value rf 0 s = None"
| "parse_value rf (Suc n) s =
    (case s of
       [] \<Rightarrow> None
     | u # r \<Rightarrow>
         if u = 34 then map_option (\<lambda>(t, q). (JStr t, q)) (scan_string (length s) [] r)
         else if u = 123 then
           (let r1 = skip_space r
            in if take 1 r1 = [125] then Some (JObj [], drop 1 r1) else parse_object rf n [] r1)
         else if u = 91 then
           (let r1 = skip_space r
            in if take 1 r1 = [93] then Some (JArr [], drop 1 r1) else parse_array rf n [] r1)
         else if take 4 s = ucs_of ''null'' then Some (JNull, drop 4 s)
         else if take 4 s = ucs_of ''true'' then Some (JBool True, drop 4 s)
         else if take 5 s = ucs_of ''false'' then Some (JBool False, drop 5 s)
         else (case scan_number s of
             Some (t, is_int, q) \<Rightarrow>
               Some (if is_int then JInt (int_of_text (text_of t)) else JFloat (rf (text_of t)), q)
           | None \<Rightarrow>
               if take 3 s = ucs_of ''NaN'' then Some (JFloat FNan, drop 3 s)
               else if take 8 s = ucs_of ''Infinity'' then Some (JFloat (FInf False), drop 8 s)
               else if take 9 s = ucs_of ''-Infinity'' then Some (JFloat (FInf True), drop 9 s)
               else None))"
| "parse_array rf 0 acc s = None"
| "parse_array rf (Suc n) acc s =
    (case parse_value rf n s of
       None \<Rightarrow> None
     | Some (v, q) \<Rightarrow>
         (let q1 = skip_space q
          in if take 1 q1 = [93] then Some (JArr (acc @ [v]), drop 1 q1)
             else if take 1 q1 = [44] then parse_array rf n (acc @ [v]) (skip_space (drop 1 q1))
             else None))"
| "parse_object rf 0 acc s = None"
| "parse_object rf (Suc n) acc s =
    (if take 1 s \<noteq> [34] then None
     else case scan_string (length s) [] (drop 1 s) of
       None \<Rightarrow> None
     | Some (k, q) \<Rightarrow>
         (let q1 = skip_space q
          in if take 1 q1 \<noteq> [58] then None
             else case parse_value rf n (skip_space (drop 1 q1)) of
               None \<Rightarrow> None
             | Some (v, q2) \<Rightarrow>
                 (let q3 = skip_space q2; acc' = dict_set k v acc
                  in if take 1 q3 = [125] then Some (JObj acc', drop 1 q3)
                     else if take 1 q3 = [44] then parse_object rf n acc' (skip_space (drop 1 q3))
                     else None)))"

text \<open>A byte order mark at the start of a text is an error of \<open>loads\<close>.\<close>

definition json_loads :: "(string \<Rightarrow> pyfloat) \<Rightarrow> ucs \<Rightarrow> json option" where
  "json_loads rf s =
    (if take 1 s = [65279] then None
     else case parse_value rf (2 * length s + 2) (skip_space s) of
       Some (v, q) \<Rightarrow> if skip_space q = [] then Some v else None
     | None \<Rightarrow> None)"

subsection \<open>Reading bytes\<close>

definition cont_byte :: "nat \<Rightarrow> bool" where
  "cont_byte b = (128 \<le> b \<and> b \<le> 191)"

text \<open>UTF-8 with \<open>surrogatepass\<close>: surrogates are let through.\<close>

fun utf8_pass :: "nat list \<Rightarrow> ucs option" where
  "utf8_pass [] = Some []"
| "utf8_pass (a # r) =
    (if a < 128 then map_option (Cons a) (utf8_pass r)
     else if 194 \<le> a \<and> a \<le> 223 then
       (case r of
          b # r' \<Rightarrow> if cont_byte b then map_option (Cons ((a - 192) * 64 + (b - 128))) (utf8_pass r') else None
        | [] \<Rightarrow> None)
     else if 224 \<le> a \<and> a \<le> 239 then
       (case r of
          b # c # r' \<Rightarrow>
            if cont_byte b \<and> cont_byte c \<and> (a = 224 \<longrightarrow> 160 \<le> b)
            then map_option (Cons ((a - 224) * 4096 + (b - 128) * 64 + (c - 128))) (utf8_pass r') else None
        | _ \<Rightarrow> None)
     else if 240 \<le> a \<and> a \<le> 244 then
       (case r of
          b # c # d # r' \<Rightarrow>
            if cont_byte b \<and> cont_byte c \<and> cont_byte d \<and> (a = 240 \<longrightarrow> 144 \<le> b) \<and> (a = 244 \<longrightarrow> b \<le> 143)
            then map_option (Cons ((a - 240) * 262144 + (b - 128) * 4096 + (c - 128) * 64 + (d - 128))) (utf8_pass r')
            else None
        | _ \<Rightarrow> None)
     else None)"

fun utf16_pass :: "nat list \<Rightarrow> ucs" where
  "utf16_pass (h # l # r) =
    (if 55296 \<le> h \<and> h \<le> 56319 \<and> 56320 \<le> l \<and> l \<le> 57343
     then (65536 + (h - 55296) * 1024 + (l - 56320)) # utf16_pass r else h # utf16_pass (l # r))"
| "utf16_pass s = s"

fun words16 :: "bool \<Rightarrow> nat list \<Rightarrow> nat list option" where
  "words16 be [] = Some []"
| "words16 be [a] = None"
| "words16 be (a # b # r) = map_option (Cons (if be then a * 256 + b else b * 256 + a)) (words16 be r)"

fun words32 :: "bool \<Rightarrow> nat list \<Rightarrow> nat list option" where
  "words32 be [] = Some []"
| "words32 be (a # b # c # d # r) =
    (let w = (if be then ((a * 256 + b) * 256 + c) * 256 + d else ((d * 256 + c) * 256 + b) * 256 + a)
     in if w < 1114112 then map_option (Cons w) (words32 be r) else None)"
| "words32 be s = None"

definition decode16 :: "bool \<Rightarrow> nat list \<Rightarrow> ucs option" where
  "decode16 be bs = map_option utf16_pass (words16 be bs)"

text \<open>\<open>detect_encoding\<close> and the decoding it selects.\<close>

definition json_decode :: "nat list \<Rightarrow> ucs option" where
  "json_decode b =
    (if take 4 b = [0, 0, 254, 255] then words32 True (drop 4 b)
     else if take 4 b = [255, 254, 0, 0] then words32 False (drop 4 b)
     else if take 2 b = [254, 255] then decode16 True (drop 2 b)
     else if take 2 b = [255, 254] then decode16 False (drop 2 b)
     else if take 3 b = [239, 187, 191] then utf8_pass (drop 3 b)
     else if 4 \<le> length b \<and> b ! 0 = 0 then (if b ! 1 \<noteq> 0 then decode16 True b else words32 True b)
     else if 4 \<le> length b \<and> b ! 1 = 0 then (if b ! 2 \<noteq> 0 \<or> b ! 3 \<noteq> 0 then decode16 False b else words32 False b)
     else if length b = 2 \<and> b ! 0 = 0 then decode16 True b
     else if length b = 2 \<and> b ! 1 = 0 then decode16 False b
     else utf8_pass b)"

definition json_loads_bytes :: "(string \<Rightarrow> pyfloat) \<Rightarrow> bytes \<Rightarrow> json option" where
  "json_loads_bytes rf bs =
    (case json_decode (map unat bs) of
       None \<Rightarrow> None
     | Some s \<Rightarrow> (case parse_value rf (2 * length s + 2) (skip_space s) of
           Some (v, q) \<Rightarrow> if skip_space q = [] then Some v else None
         | None \<Rightarrow> None))"


subsection \<open>Canonicalizing raw text\<close>

text \<open>\<open>jcs.parse_and_canonicalize\<close>, for text and for bytes.\<close>

definition parse_and_canonicalize :: "(string \<Rightarrow> pyfloat) \<Rightarrow> ucs + bytes \<Rightarrow> bytes result" where
  "parse_and_canonicalize rf raw =
    (case (case raw of Inl t \<Rightarrow> json_loads rf t | Inr b \<Rightarrow> json_loads_bytes rf b) of
       None \<Rightarrow> Inl (ValueError ''JSONDecodeError'')
     | Some v \<Rightarrow> canonicalize_bytes v)"

end
