(* ===== verification/Eddsa.thy ===== *)
theory Eddsa
  imports PyJson
begin

section \<open>Ed25519 keys and compact JWS\<close>

text \<open>
  \<open>src/taxstamps/crypto/eddsa.py\<close>. Base64url is modelled to the bit, with what
  \<open>binascii.a2b_base64\<close> does with characters outside the alphabet (it skips them). The signature
  scheme itself is a third-party library: \<open>sign\<close>, \<open>verify\<close> and \<open>public_of\<close> are parameters, a
  private key is a value of a type \<open>'sk\<close>, a public key its 32 raw bytes. What is relied on is
  stated where it is used: a signature made with a key verifies under its public key.
\<close>

subsection \<open>Base64url\<close>

text \<open>The six-bit groups of a byte string, and the characters of the URL-safe alphabet.\<close>

fun sextets :: "nat list \<Rightarrow> nat list" where
  "sextets [] = []"
| "sextets [a] = [a div 4, a mod 4 * 16]"
| "sextets [a, b] = [a div 4, a mod 4 * 16 + b div 16, b mod 16 * 4]"
| "sextets (a # b # c # r) =
    a div 4 # (a mod 4 * 16 + b div 16) # (b mod 16 * 4 + c div 64) # c mod 64 # sextets r"

definition sextet_char :: "nat \<Rightarrow> nat" where
  "sextet_char v = (if v < 26 then 65 + v else if v < 52 then 71 + v else if v < 62 then v - 4
                    else if v = 62 then 45 else 95)"

definition b64u_encode :: "bytes \<Rightarrow> ucs" where
  "b64u_encode data = map sextet_char (sextets (map unat data))"

text \<open>The decoding table after the URL-safe translation: both alphabets are accepted.\<close>

definition sextet_val :: "nat \<Rightarrow> nat option" where
  "sextet_val u =
    (if 65 \<le> u \<and> u \<le> 90 then Some (u - 65) else if 97 \<le> u \<and> u \<le> 122 then Some (u - 71)
     else if 48 \<le> u \<and> u \<le> 57 then Some (u + 4) else if u = 45 \<or> u = 43 then Some 62
     else if u = 95 \<or> u = 47 then Some 63 else None)"

text \<open>
  \<open>a2b_base64\<close> without strict mode: the position in the group of four, the bits left over, the
  padding characters seen, the bytes so far.
\<close>

fun a2b :: "nat \<Rightarrow> nat \<Rightarrow> nat \<Rightarrow> nat list \<Rightarrow> ucs \<Rightarrow> string + nat list" where
  "a2b q left pads acc [] =
    (if q = 0 then Inr acc
     else if q = 1 then Inl (''Invalid base64-encoded string: number of data characters (''
         @ str_nat (length acc div 3 * 4 + 1) @ '') cannot be 1 more than a multiple of 4'')
     else Inl ''Incorrect padding'')"
| "a2b q left pads acc (u # s) =
    (if u = 61 then
       (if 2 \<le> q then (if 4 \<le> q + (pads + 1) then Inr acc else a2b q left (pads + 1) acc s)
        else a2b q left pads acc s)
     else case sextet_val u of
       None \<Rightarrow> a2b q left pads acc s
     | Some v \<Rightarrow>
         (if q = 0 then a2b 1 v 0 acc s
          else if q = 1 then a2b 2 (v mod 16) 0 (acc @ [left * 4 + v div 16]) s
          else if q = 2 then a2b 3 (v mod 4) 0 (acc @ [left * 16 + v div 4]) s
          else a2b 0 0 0 (acc @ [left * 64 + v]) s))"

definition urlsafe_b64decode :: "ucs \<Rightarrow> string + bytes" where
  "urlsafe_b64decode s =
    (if list_all (\<lambda>u. u < 128) s
     then (case a2b 0 0 0 [] s of Inl e \<Rightarrow> Inl e | Inr bs \<Rightarrow> Inr (map word_of_nat bs))
     else Inl ''string argument should contain only ASCII characters'')"

definition b64_padding :: "ucs \<Rightarrow> ucs" where
  "b64_padding data = replicate (nat ((- int (length data)) mod 4)) 61"

definition b64u_decode :: "ucs \<Rightarrow> bytes result" where
  "b64u_decode data =
    (if 61 \<in> set data then Inl (JwsError ''malformed-jws'' ''base64url padding is prohibited'')
     else case urlsafe_b64decode (data @ b64_padding data) of
       Inl e \<Rightarrow> Inl (JwsError ''malformed-jws'' (''invalid base64url: '' @ e))
     | Inr bs \<Rightarrow> Inr bs)"

lemma sextet_val_char: "v < 64 \<Longrightarrow> sextet_val (sextet_char v) = Some v"
  by (auto simp: sextet_val_def sextet_char_def)

lemma sextet_char_codes:
  assumes "v < 64" shows "sextet_char v < 128" "sextet_char v \<noteq> 61" "sextet_char v \<noteq> 46"
  using assms by (auto simp: sextet_char_def)

lemma sextet_bounds:
  fixes a b c :: nat
  assumes "a < 256" "b < 256" "c < 256"
  shows "a div 4 < 64" "a mod 4 * 16 < 64" "a mod 4 * 16 + b div 16 < 64" "b mod 16 * 4 < 64"
    "b mod 16 * 4 + c div 64 < 64" "c mod 64 < 64"
proof -
  have d: "a div 4 < 64" "b div 16 < 16" "c div 64 < 4" using assms by (simp_all add: less_mult_imp_div_less)
  have m: "a mod 4 < 4" "b mod 16 < 16" "c mod 64 < 64" by simp_all
  show "a div 4 < 64" "a mod 4 * 16 < 64" "a mod 4 * 16 + b div 16 < 64" "b mod 16 * 4 < 64"
    "b mod 16 * 4 + c div 64 < 64" "c mod 64 < 64" using d m by linarith+
qed

lemma sextet_joins:
  fixes a b c :: nat
  assumes "b < 256" "c < 256"
  shows "(a mod 4 * 16 + b div 16) div 16 = a mod 4" "(a mod 4 * 16 + b div 16) mod 16 = b div 16"
    "(b mod 16 * 4 + c div 64) div 4 = b mod 16" "(b mod 16 * 4 + c div 64) mod 4 = c div 64"
    "a mod 4 * 16 div 16 = a mod 4" "b mod 16 * 4 div 4 = b mod 16"
    "a div 4 * 4 + a mod 4 = a" "b div 16 * 16 + b mod 16 = b" "c div 64 * 64 + c mod 64 = c"
proof -
  have "b div 16 < 16" "c div 64 < 4" using assms by (simp_all add: less_mult_imp_div_less)
  then show "(a mod 4 * 16 + b div 16) div 16 = a mod 4" "(a mod 4 * 16 + b div 16) mod 16 = b div 16"
    "(b mod 16 * 4 + c div 64) div 4 = b mod 16" "(b mod 16 * 4 + c div 64) mod 4 = c div 64"
    by simp_all
  show "a mod 4 * 16 div 16 = a mod 4" "b mod 16 * 4 div 4 = b mod 16" by simp_all
  show "a div 4 * 4 + a mod 4 = a" "b div 16 * 16 + b mod 16 = b" "c div 64 * 64 + c mod 64 = c"
    by (rule div_mult_mod_eq)+
qed

lemma sextets_bound: "list_all (\<lambda>b. b < 256) bs \<Longrightarrow> list_all (\<lambda>v. v < 64) (sextets bs)"
proof (induction bs rule: sextets.induct)
  case (4 a b c r)
  then show ?case using sextet_bounds [of a b c] by simp
next
  case (3 a b)
  then show ?case using sextet_bounds [of a b 0] by simp
next
  case (2 a)
  then show ?case using sextet_bounds [of a 0 0] by simp
qed simp

lemma a2b_sextet:
  assumes "v < 64"
  shows "a2b q left pads acc (sextet_char v # s) =
    (if q = 0 then a2b 1 v 0 acc s
     else if q = 1 then a2b 2 (v mod 16) 0 (acc @ [left * 4 + v div 16]) s
     else if q = 2 then a2b 3 (v mod 4) 0 (acc @ [left * 16 + v div 4]) s
     else a2b 0 0 0 (acc @ [left * 64 + v]) s)"
  using sextet_char_codes(2) [OF assms] sextet_val_char [OF assms] by simp

lemma b64_padding_Cons4: "b64_padding (a # b # c # d # s) = b64_padding s"
proof -
  have "(- int (length (a # b # c # d # s))) mod 4 = (- int (length s)) mod 4" by simp presburger
  then show ?thesis by (simp only: b64_padding_def)
qed

lemma b64_padding_short: "b64_padding [] = []" "b64_padding [a, b] = [61, 61]" "b64_padding [a, b, c] = [61]"
  by (simp_all add: b64_padding_def eval_nat_numeral)

lemma a2b_sextets:
  assumes "list_all (\<lambda>b. b < 256) bs"
  shows "a2b 0 0 0 acc (map sextet_char (sextets bs) @ b64_padding (map sextet_char (sextets bs))) = Inr (acc @ bs)"
  using assms
proof (induction bs arbitrary: acc rule: sextets.induct)
  case (2 a)
  then have v: "a div 4 < 64" "a mod 4 * 16 < 64" using sextet_bounds [of a 0 0] by simp_all
  show ?case
    by (simp add: a2b_sextet v b64_padding_short sextet_joins del: a2b.simps(2)) simp
next
  case (3 a b)
  then have v: "a div 4 < 64" "a mod 4 * 16 + b div 16 < 64" "b mod 16 * 4 < 64" using sextet_bounds [of a b 0] by simp_all
  have j: "b < 256" "(0::nat) < 256" using 3 by simp_all
  then have "b div 16 mod 16 = b div 16" by (simp add: less_mult_imp_div_less)
  then show ?case
    by (simp add: a2b_sextet v b64_padding_short sextet_joins [OF j] del: a2b.simps(2)) simp
next
  case (4 a b c r)
  then have v: "a div 4 < 64" "a mod 4 * 16 + b div 16 < 64" "b mod 16 * 4 + c div 64 < 64" "c mod 64 < 64"
    using sextet_bounds [of a b c] by simp_all
  have j: "b < 256" "c < 256" using 4 by simp_all
  then have "b div 16 mod 16 = b div 16" "c div 64 mod 4 = c div 64" by (simp_all add: less_mult_imp_div_less)
  then show ?case
    using 4 by (simp add: a2b_sextet v b64_padding_Cons4 sextet_joins [OF j] del: a2b.simps(2))
qed (simp add: b64_padding_def)


lemma unat_byte_less: "unat (b :: byte) < 256"
  using unsigned_less [of b] by simp

lemma map_unat_bytes: "list_all (\<lambda>b. b < 256) (map unat (data :: bytes))"
  by (simp add: list_all_iff unat_byte_less)

lemma b64u_encode_codes:
  assumes "u \<in> set (b64u_encode data)"
  shows "u < 128" "u \<noteq> 61" "u \<noteq> 46"
proof -
  have "list_all (\<lambda>v. v < 64) (sextets (map unat data))"
    by (rule sextets_bound [OF map_unat_bytes])
  then show "u < 128" "u \<noteq> 61" "u \<noteq> 46"
    using assms sextet_char_codes by (auto simp: b64u_encode_def list_all_iff)
qed

lemma b64u_decode_encode: "b64u_decode (b64u_encode data) = Inr data"
proof -
  let ?e = "b64u_encode data"
  have "a2b 0 0 0 [] (?e @ b64_padding ?e) = Inr (map unat data)"
    using a2b_sextets [OF map_unat_bytes, of "[]"] by (simp add: b64u_encode_def)
  moreover have "list_all (\<lambda>u. u < 128) (?e @ b64_padding ?e)"
    using b64u_encode_codes(1) by (auto simp: list_all_iff b64_padding_def)
  moreover have "61 \<notin> set ?e" using b64u_encode_codes(2) by auto
  ultimately show ?thesis by (simp add: b64u_decode_def urlsafe_b64decode_def comp_def)
qed

interpretation b64u: codec "\<lambda>_. True" b64u_encode b64u_decode
  by unfold_locales (rule b64u_decode_encode)

lemma b64u_encode_Nil_iff [simp]: "b64u_encode data = [] \<longleftrightarrow> data = []"
  by (cases "map unat data" rule: sextets.cases) (auto simp: b64u_encode_def)

subsection \<open>Keys\<close>

record 'sk signing_key =
  sk_kid :: ucs
  sk_private_key :: 'sk

definition public_key_b64u :: "('sk \<Rightarrow> bytes) \<Rightarrow> 'sk signing_key \<Rightarrow> ucs" where
  "public_key_b64u public_of key = b64u_encode (public_of (sk_private_key key))"

text \<open>\<open>_KID_RE\<close>; the \<open>$\<close> of the pattern also matches before a final line feed.\<close>

definition kid_code :: "nat \<Rightarrow> bool" where
  "kid_code u = ((65 \<le> u \<and> u \<le> 90) \<or> (97 \<le> u \<and> u \<le> 122) \<or> (48 \<le> u \<and> u \<le> 57) \<or> u \<in> {45, 46, 95})"

definition kid_core :: "ucs \<Rightarrow> bool" where
  "kid_core s = (list_all kid_code s \<and> 1 \<le> length s \<and> length s \<le> 256)"

definition kid_match :: "ucs \<Rightarrow> bool" where
  "kid_match s = (kid_core s \<or> (s \<noteq> [] \<and> last s = 10 \<and> kid_core (butlast s)))"

type_synonym key_directory = "(ucs \<times> bytes) list"

definition mk_directory :: "(ucs \<times> bytes) list \<Rightarrow> key_directory result" where
  "mk_directory keys = (if keys = [] then Inl (JwsError ''key-directory-empty'' ''public key directory contains no keys'')
                        else Inr keys)"

definition directory_entry :: "ucs \<times> json \<Rightarrow> (ucs \<times> bytes) result" where
  "directory_entry = (\<lambda>(kid, b64).
    if \<not> kid_match kid
    then Inl (JwsError ''key-directory-unavailable'' (''malformed kid '' @ py_repr (text_of kid)))
    else case b64 of
      JStr t \<Rightarrow> rbind (b64u_decode t) (\<lambda>raw.
        if length raw \<noteq> 32
        then Inl (JwsError ''key-directory-unavailable'' (''key for '' @ text_of kid @ '' is not 32 bytes''))
        else Inr (kid, raw))
    | _ \<Rightarrow> Inl (JwsError ''key-directory-unavailable'' (''key for '' @ text_of kid @ '' is not a string'')))"

text \<open>
  \<open>KeyDirectory.load\<close>: \<open>file\<close> is \<open>None\<close> when the path is not a regular file or is a symbolic
  link, and otherwise the text of the file, or the message of the exception reading it raised.
\<close>

definition directory_load :: "(string \<Rightarrow> pyfloat) \<Rightarrow> string \<Rightarrow> (string + ucs) option \<Rightarrow> key_directory result" where
  "directory_load rf path file =
    (case file of
       None \<Rightarrow> Inl (JwsError ''key-directory-unavailable'' (path @ '' is not a regular non-symlink file''))
     | Some (Inl e) \<Rightarrow> Inl (JwsError ''key-directory-unavailable'' (''cannot parse '' @ path @ '': '' @ e))
     | Some (Inr text) \<Rightarrow>
         (case json_loads rf text of
            None \<Rightarrow> Inl (JwsError ''key-directory-unavailable'' (''cannot parse '' @ path @ '': JSONDecodeError''))
          | Some (JObj (kv # kvs)) \<Rightarrow> rbind (map_result directory_entry (kv # kvs)) mk_directory
          | Some _ \<Rightarrow> Inl (JwsError ''key-directory-unavailable'' ''directory must be a non-empty JSON object'')))"

definition resolve :: "key_directory \<Rightarrow> ucs \<Rightarrow> bytes result" where
  "resolve directory kid =
    (case map_of directory kid of
       None \<Rightarrow> Inl (JwsError ''unknown-kid'' (text_of kid))
     | Some key \<Rightarrow> Inr key)"

subsection \<open>Signing\<close>

definition jws_header :: "ucs \<Rightarrow> ucs" where
  "jws_header kid = [123] @ dumps_string (ucs_of ''alg'') @ [58] @ dumps_string (ucs_of ''EdDSA'') @ [44]
     @ dumps_string (ucs_of ''kid'') @ [58] @ dumps_string kid @ [125]"

definition ascii_of_codes :: "ucs \<Rightarrow> bytes" where
  "ascii_of_codes s = map word_of_nat s"

text \<open>The header and the signing input are ASCII, so their encoding is one byte a character.\<close>

definition jws_sign :: "('sk \<Rightarrow> bytes \<Rightarrow> bytes) \<Rightarrow> 'sk signing_key \<Rightarrow> bytes \<Rightarrow> ucs" where
  "jws_sign sign key payload =
    (let seg1 = b64u_encode (ascii_of_codes (jws_header (sk_kid key)));
         seg2 = b64u_encode payload;
         signature = sign (sk_private_key key) (ascii_of_codes (seg1 @ [46] @ seg2))
     in seg1 @ [46] @ seg2 @ [46] @ b64u_encode signature)"

subsection \<open>Verification\<close>

fun split_on :: "nat \<Rightarrow> ucs \<Rightarrow> ucs list" where
  "split_on sep [] = [[]]"
| "split_on sep (u # s) =
    (if u = sep then [] # split_on sep s
     else case split_on sep s of [] \<Rightarrow> [[u]] | p # ps \<Rightarrow> (u # p) # ps)"

definition jobj_get :: "(ucs \<times> json) list \<Rightarrow> string \<Rightarrow> json option" where
  "jobj_get kvs k = map_of kvs (ucs_of k)"

definition json_repr :: "json \<Rightarrow> string" where
  "json_repr v = (case v of
     JNull \<Rightarrow> ''None'' | JBool b \<Rightarrow> (if b then ''True'' else ''False'') | JInt i \<Rightarrow> str_int i
   | JStr s \<Rightarrow> py_repr (text_of s) | _ \<Rightarrow> ''...'')"

text \<open>The protected header: the key name it gives.\<close>

definition protected_kid :: "(string \<Rightarrow> pyfloat) \<Rightarrow> ucs \<Rightarrow> ucs result" where
  "protected_kid rf seg1 =
    rbind (b64u_decode seg1) (\<lambda>hb.
      case json_loads_bytes rf hb of
        None \<Rightarrow> Inl (JwsError ''malformed-jws'' ''protected header is not JSON: JSONDecodeError'')
      | Some (JObj header) \<Rightarrow>
          if fst ` set header \<noteq> {ucs_of ''alg'', ucs_of ''kid''}
          then Inl (JwsError ''malformed-jws'' ''protected header must be exactly {alg, kid}'')
          else if jobj_get header ''alg'' \<noteq> Some (JStr (ucs_of ''EdDSA''))
          then Inl (JwsError ''unsupported-alg'' (json_repr (the (jobj_get header ''alg''))))
          else (case jobj_get header ''kid'' of
              Some (JStr kid) \<Rightarrow> if kid_match kid then Inr kid else Inl (JwsError ''malformed-jws'' ''malformed kid'')
            | _ \<Rightarrow> Inl (JwsError ''malformed-jws'' ''malformed kid''))
      | Some _ \<Rightarrow> Inl (JwsError ''malformed-jws'' ''protected header must be exactly {alg, kid}''))"

definition jws_verify ::
  "(string \<Rightarrow> pyfloat) \<Rightarrow> (bytes \<Rightarrow> bytes \<Rightarrow> bytes \<Rightarrow> bool) \<Rightarrow> json \<Rightarrow> key_directory \<Rightarrow> bytes option \<Rightarrow> bytes result" where
  "jws_verify rf verify jws directory expected_payload =
    (case jws of
       JStr s \<Rightarrow>
         (case split_on 46 s of
            [seg1, seg2, seg3] \<Rightarrow>
              if seg1 = [] \<or> seg2 = [] \<or> seg3 = []
              then Inl (JwsError ''malformed-jws'' ''expected three non-empty segments'')
              else rbind (protected_kid rf seg1) (\<lambda>kid.
                rbind (resolve directory kid) (\<lambda>public_key.
                rbind (b64u_decode seg2) (\<lambda>payload.
                  if expected_payload \<noteq> None \<and> expected_payload \<noteq> Some payload
                  then Inl (JwsError ''payload-mismatch'' [])
                  else rbind (b64u_decode seg3) (\<lambda>signature.
                    if verify public_key signature (ascii_of_codes (seg1 @ [46] @ seg2))
                    then Inr payload
                    else Inl (JwsError ''invalid-signature'' [])))))
          | _ \<Rightarrow> Inl (JwsError ''malformed-jws'' ''expected three non-empty segments''))
     | _ \<Rightarrow> Inl (JwsError ''malformed-jws'' ''not a string''))"

subsection \<open>A header is read back\<close>

definition plain_code :: "nat \<Rightarrow> bool" where
  "plain_code u = (32 \<le> u \<and> u \<le> 126 \<and> u \<noteq> 34 \<and> u \<noteq> 92)"

lemma scan_string_plain:
  "list_all plain_code s \<Longrightarrow> length s < n \<Longrightarrow> scan_string n acc (s @ 34 # r) = Some (acc @ s, r)"
proof (induction s arbitrary: n acc)
  case Nil
  then show ?case by (cases n) auto
next
  case (Cons u s)
  then obtain m where m: "n = Suc m" by (cases n) auto
  with Cons have "scan_string m (acc @ [u]) (s @ 34 # r) = Some ((acc @ [u]) @ s, r)" by (intro Cons.IH) auto
  with Cons.prems m show ?case by (simp add: plain_code_def)
qed

lemma dumps_string_plain: "list_all plain_code s \<Longrightarrow> dumps_string s = 34 # s @ [34]"
proof -
  have "list_all plain_code s \<Longrightarrow> concat (map dumps_char s) = s"
    by (induction s) (auto simp: plain_code_def dumps_char_def)
  then show "list_all plain_code s \<Longrightarrow> dumps_string s = 34 # s @ [34]" by (simp add: dumps_string_def)
qed

lemma kid_code_plain: "kid_core kid \<Longrightarrow> list_all plain_code kid"
  by (auto simp: kid_core_def list_all_iff kid_code_def plain_code_def)

lemma header_words: "ucs_of ''alg'' = [97, 108, 103]" "ucs_of ''EdDSA'' = [69, 100, 68, 83, 65]" "ucs_of ''kid'' = [107, 105, 100]"
  by (simp_all add: ucs_of_def)

lemma header_text:
  "kid_core kid \<Longrightarrow> jws_header kid = [123] @ 34 # [97, 108, 103] @ 34 # [58] @ 34 # [69, 100, 68, 83, 65] @ 34 # [44]
    @ 34 # [107, 105, 100] @ 34 # [58] @ 34 # kid @ 34 # [125]"
  by (simp add: jws_header_def header_words dumps_string_plain kid_code_plain, simp add: dumps_string_plain plain_code_def)

lemma skip_space_Cons: "\<not> json_space u \<Longrightarrow> skip_space (u # s) = u # s"
  by (simp add: skip_space_def)

lemma parse_value_string:
  assumes "list_all plain_code t"
  shows "parse_value rf (Suc n) (34 # t @ 34 # r) = Some (JStr t, r)"
  using scan_string_plain [OF assms, of "length (34 # t @ 34 # r)" "[]" r] by simp

lemma parse_header:
  assumes "kid_core kid"
  shows "parse_value rf (Suc (Suc (Suc (Suc n)))) (jws_header kid) =
    Some (JObj [(ucs_of ''alg'', JStr (ucs_of ''EdDSA'')), (ucs_of ''kid'', JStr kid)], [])"
proof -
  have sc: "scan_string (length (34 # t @ 34 # r)) [] (t @ 34 # r) = Some (t, r)" if "list_all plain_code t" for t r
    using scan_string_plain [OF that, of "length (34 # t @ 34 # r)" "[]" r] by simp
  have p: "list_all plain_code [97, 108, 103]" "list_all plain_code [107, 105, 100]" "list_all plain_code [69, 100, 68, 83, 65]"
    by (simp_all add: plain_code_def)
  have o2: "parse_object rf (Suc (Suc n)) acc (34 # [107, 105, 100] @ 34 # [58] @ 34 # kid @ 34 # [125]) =
      Some (JObj (dict_set [107, 105, 100] (JStr kid) acc), [])" for acc
    unfolding parse_object.simps
    using sc [OF p(2), of "[58] @ 34 # kid @ 34 # [125]"] parse_value_string [OF kid_code_plain [OF assms], of rf n "[125]"]
    by (simp add: skip_space_Cons json_space_def Let_def)
  have o1: "parse_object rf (Suc (Suc (Suc n))) [] (34 # [97, 108, 103] @ 34 # [58] @ 34 # [69, 100, 68, 83, 65] @ 34 # [44]
      @ 34 # [107, 105, 100] @ 34 # [58] @ 34 # kid @ 34 # [125]) =
      parse_object rf (Suc (Suc n)) [([97, 108, 103], JStr [69, 100, 68, 83, 65])]
        (34 # [107, 105, 100] @ 34 # [58] @ 34 # kid @ 34 # [125])"
    unfolding parse_object.simps(2) [of rf "Suc (Suc n)"]
    using sc [OF p(1), of "[58] @ 34 # [69, 100, 68, 83, 65] @ 34 # [44] @ 34 # [107, 105, 100] @ 34 # [58] @ 34 # kid @ 34 # [125]"]
      parse_value_string [OF p(3), of rf "Suc n" "[44] @ 34 # [107, 105, 100] @ 34 # [58] @ 34 # kid @ 34 # [125]"]
    by (simp add: skip_space_Cons json_space_def Let_def del: parse_object.simps parse_value.simps)
  show ?thesis
    unfolding header_text [OF assms] header_words
    using o1 o2 by (simp add: skip_space_Cons json_space_def del: parse_object.simps)
qed

lemma utf8_pass_ascii: "list_all (\<lambda>u. u < 128) s \<Longrightarrow> utf8_pass s = Some s"
  by (induction s) auto

lemma loads_header:
  assumes "kid_core kid"
  shows "json_loads_bytes rf (ascii_of_codes (jws_header kid)) =
    Some (JObj [(ucs_of ''alg'', JStr (ucs_of ''EdDSA'')), (ucs_of ''kid'', JStr kid)])"
proof -
  let ?h = "jws_header kid"
  have a: "list_all (\<lambda>u. u < 128) ?h"
    using kid_code_plain [OF assms] by (auto simp: header_text [OF assms] list_all_iff plain_code_def)
  then have "map (unat \<circ> (word_of_nat :: nat \<Rightarrow> byte)) ?h = map id ?h"
    by (intro map_cong) (auto simp: list_all_iff unsigned_of_nat take_bit_eq_mod)
  then have u: "map unat (ascii_of_codes ?h) = ?h" by (simp add: ascii_of_codes_def)
  have d: "json_decode ?h = Some ?h"
    using utf8_pass_ascii [OF a] by (simp add: json_decode_def header_text [OF assms] del: utf8_pass.simps)
  obtain n where n: "2 * length ?h + 2 = Suc (Suc (Suc (Suc n)))"
    using header_text [OF assms] by (auto simp: numeral_eq_Suc)
  have s: "skip_space ?h = ?h" by (simp add: header_text [OF assms] skip_space_def json_space_def)
  have s0: "skip_space [] = []" by (simp add: skip_space_def)
  show ?thesis
    unfolding json_loads_bytes_def u by (simp only: d option.case n s parse_header [OF assms]) (simp add: s0)
qed


subsection \<open>What a verified signature means\<close>

lemma split_on_no_sep: "sep \<notin> set s \<Longrightarrow> split_on sep s = [s]"
  by (induction s) auto

lemma split_on_append: "sep \<notin> set s \<Longrightarrow> split_on sep (s @ sep # t) = s # split_on sep t"
  by (induction s) auto

lemma split_on_not_Nil: "split_on sep s \<noteq> []"
  by (induction s) (auto split: list.splits)

lemma split_on_Cons_ne: "u \<noteq> sep \<Longrightarrow> split_on sep (u # s) = (u # hd (split_on sep s)) # tl (split_on sep s)"
  using split_on_not_Nil [of sep s] by (cases "split_on sep s") auto

lemma split_on_single: "split_on sep s = [a] \<longleftrightarrow> s = a \<and> sep \<notin> set a"
proof
  assume "split_on sep s = [a]"
  then show "s = a \<and> sep \<notin> set a"
  proof (induction s arbitrary: a)
    case (Cons u s)
    show ?case
    proof (cases "u = sep")
      case True
      with Cons.prems split_on_not_Nil [of sep s] show ?thesis by simp
    next
      case False
      then have "(u # hd (split_on sep s)) # tl (split_on sep s) = [a]" using Cons.prems split_on_Cons_ne by metis
      then have a: "a = u # hd (split_on sep s)" "tl (split_on sep s) = []" by simp_all
      then have "split_on sep s = [hd (split_on sep s)]" using split_on_not_Nil [of sep s] by (cases "split_on sep s") auto
      with Cons.IH a False show ?thesis by auto
    qed
  qed simp
qed (simp add: split_on_no_sep)

lemma split_on_Cons2: "split_on sep s = a # b # ps \<longleftrightarrow> (\<exists>t. s = a @ sep # t \<and> sep \<notin> set a \<and> split_on sep t = b # ps)"
proof (induction s arbitrary: a)
  case Nil
  then show ?case by auto
next
  case (Cons u s)
  show ?case
  proof (cases "u = sep")
    case True
    then show ?thesis by (cases a) auto
  next
    case False
    obtain p qs where pq: "split_on sep s = p # qs" using split_on_not_Nil [of sep s] by (cases "split_on sep s") auto
    show ?thesis
    proof (cases a)
      case Nil
      with False pq show ?thesis by auto
    next
      case (Cons x a')
      with False pq Cons.IH [of a'] show ?thesis by auto
    qed
  qed
qed

lemma split_on_three: "split_on sep s = [a, b, c] \<longleftrightarrow>
    s = a @ [sep] @ b @ [sep] @ c \<and> sep \<notin> set a \<and> sep \<notin> set b \<and> sep \<notin> set c"
  by (auto simp: split_on_Cons2 split_on_single)

definition jws_header_ok :: "(string \<Rightarrow> pyfloat) \<Rightarrow> ucs \<Rightarrow> ucs \<Rightarrow> bool" where
  "jws_header_ok rf seg1 kid =
    (case b64u_decode seg1 of
       Inr hb \<Rightarrow> (case json_loads_bytes rf hb of
           Some (JObj header) \<Rightarrow> fst ` set header = {ucs_of ''alg'', ucs_of ''kid''} \<and>
             jobj_get header ''alg'' = Some (JStr (ucs_of ''EdDSA'')) \<and> jobj_get header ''kid'' = Some (JStr kid) \<and> kid_match kid
         | _ \<Rightarrow> False)
     | Inl _ \<Rightarrow> False)"

lemma protected_kid_ok: "protected_kid rf seg1 = Inr kid \<longleftrightarrow> jws_header_ok rf seg1 kid"
  by (auto simp: protected_kid_def jws_header_ok_def rbind_eq_Inr split: sum.splits option.splits json.splits)

lemma jws_verify_three:
  "jws_verify rf verify (JStr s) directory expected = Inr payload \<Longrightarrow> \<exists>seg1 seg2 seg3. split_on 46 s = [seg1, seg2, seg3]"
  by (auto simp: jws_verify_def split: list.splits)

lemma resolve_ok: "resolve directory kid = Inr key \<longleftrightarrow> map_of directory kid = Some key"
  by (auto simp: resolve_def split: option.splits)

lemma jws_verify_segments:
  "jws_verify rf verify (JStr s) directory expected = Inr payload \<longleftrightarrow>
    (\<exists>seg1 seg2 seg3 kid public_key signature.
       split_on 46 s = [seg1, seg2, seg3] \<and> seg1 \<noteq> [] \<and> seg2 \<noteq> [] \<and> seg3 \<noteq> [] \<and> jws_header_ok rf seg1 kid \<and>
       map_of directory kid = Some public_key \<and> b64u_decode seg2 = Inr payload \<and>
       (expected = None \<or> expected = Some payload) \<and> b64u_decode seg3 = Inr signature \<and>
       verify public_key signature (ascii_of_codes (seg1 @ [46] @ seg2)))"
  (is "?L \<longleftrightarrow> ?R")
proof (cases "\<exists>seg1 seg2 seg3. split_on 46 s = [seg1, seg2, seg3]")
  case True
  then obtain seg1 seg2 seg3 where p: "split_on 46 s = [seg1, seg2, seg3]" by blast
  have "?L \<longleftrightarrow> seg1 \<noteq> [] \<and> seg2 \<noteq> [] \<and> seg3 \<noteq> [] \<and> (\<exists>kid public_key signature.
       jws_header_ok rf seg1 kid \<and> map_of directory kid = Some public_key \<and> b64u_decode seg2 = Inr payload \<and>
       (expected = None \<or> expected = Some payload) \<and> b64u_decode seg3 = Inr signature \<and>
       verify public_key signature (ascii_of_codes (seg1 @ [46] @ seg2)))"
    by (auto simp: jws_verify_def p rbind_eq_Inr protected_kid_ok resolve_ok)
  with p show ?thesis by auto
next
  case False
  with jws_verify_three show ?thesis by blast
qed

text \<open>Verification of a compact JWS accepts exactly this: three non-empty segments without dots, a
  protected header that decodes to precisely the members \<open>alg\<close> (which is \<open>EdDSA\<close>) and \<open>kid\<close>, a
  key of that name in the directory, a payload segment that decodes to the returned bytes (equal to the
  expected ones, when given), and a signature segment that verifies, under that key, over the two first
  segments as they stand.\<close>

theorem jws_verify_accepts:
  "jws_verify rf verify (JStr s) directory expected = Inr payload \<longleftrightarrow>
    (\<exists>seg1 seg2 seg3 kid public_key signature.
       s = seg1 @ [46] @ seg2 @ [46] @ seg3 \<and> 46 \<notin> set seg1 \<and> 46 \<notin> set seg2 \<and> 46 \<notin> set seg3 \<and>
       seg1 \<noteq> [] \<and> seg2 \<noteq> [] \<and> seg3 \<noteq> [] \<and> jws_header_ok rf seg1 kid \<and>
       map_of directory kid = Some public_key \<and> b64u_decode seg2 = Inr payload \<and>
       (expected = None \<or> expected = Some payload) \<and> b64u_decode seg3 = Inr signature \<and>
       verify public_key signature (ascii_of_codes (seg1 @ [46] @ seg2)))"
  unfolding jws_verify_segments split_on_three by (simp only: conj_assoc)

lemma jws_sign_segments:
  "split_on 46 (jws_sign sign key payload) =
    [b64u_encode (ascii_of_codes (jws_header (sk_kid key))), b64u_encode payload,
     b64u_encode (sign (sk_private_key key)
       (ascii_of_codes (b64u_encode (ascii_of_codes (jws_header (sk_kid key))) @ [46] @ b64u_encode payload)))]"
proof -
  have "46 \<notin> set (b64u_encode data)" for data using b64u_encode_codes(3) by blast
  then show ?thesis by (simp add: jws_sign_def Let_def split_on_append split_on_no_sep)
qed

lemma jws_header_ok_sign:
  assumes "kid_core kid"
  shows "jws_header_ok rf (b64u_encode (ascii_of_codes (jws_header kid))) kid"
  using loads_header [OF assms, of rf] assms
  by (auto simp: jws_header_ok_def b64u_decode_encode jobj_get_def kid_match_def ucs_of_def)

lemma jws_sign_verify_aux:
  assumes "kid_core (sk_kid key)" "payload \<noteq> []" "expected = None \<or> expected = Some payload"
    and "map_of directory (sk_kid key) = Some (public_of (sk_private_key key))"
    and "\<And>m. verify (public_of (sk_private_key key)) (sign (sk_private_key key) m) m"
    and "\<And>m. sign (sk_private_key key) m \<noteq> []"
  shows "jws_verify rf verify (JStr (jws_sign sign key payload)) directory expected = Inr payload"
  unfolding jws_verify_segments jws_sign_segments
  using assms jws_header_ok_sign [OF assms(1), of rf]
  by (fastforce simp: b64u_decode_encode ascii_of_codes_def header_text)

text \<open>A signature the service makes is one it accepts. A non-empty payload signed with a key whose
  public half is in the directory under the key's name verifies, with or without the expected
  payload, and the payload comes back. Relied on: the scheme verifies what it signed, and no
  signature is empty.\<close>

theorem jws_sign_verify:
  assumes "kid_core (sk_kid key)" "payload \<noteq> []" "expected = None \<or> expected = Some payload"
    and "map_of directory (sk_kid key) = Some (public_of (sk_private_key key))"
    and "\<And>m. verify (public_of (sk_private_key key)) (sign (sk_private_key key) m) m"
    and "\<And>m. sign (sk_private_key key) m \<noteq> []"
  shows "jws_verify rf verify (JStr (jws_sign sign key payload)) directory expected = Inr payload"
  using assms by (rule jws_sign_verify_aux)

text \<open>A stand-in for the scheme, for evaluation only: the signature is the key and the message.\<close>

definition toy_sign :: "bytes \<Rightarrow> bytes \<Rightarrow> bytes" where
  "toy_sign sk m = 1 # sk @ m"

definition toy_verify :: "bytes \<Rightarrow> bytes \<Rightarrow> bytes \<Rightarrow> bool" where
  "toy_verify pk sig m = (sig = 1 # pk @ m)"

theorem jws_sign_verify_witness:
  "let key = \<lparr>sk_kid = ucs_of ''nrs-2026.1'', sk_private_key = [7, 8]\<rparr>
   in jws_verify (\<lambda>_. FNan) toy_verify (JStr (jws_sign toy_sign key (utf8_of ''payload''))) [(ucs_of ''nrs-2026.1'', [7, 8])]
        (Some (utf8_of ''payload'')) = Inr (utf8_of ''payload'')"
proof -
  let ?key = "\<lparr>sk_kid = ucs_of ''nrs-2026.1'', sk_private_key = [7, 8]\<rparr> :: bytes signing_key"
  have "jws_verify (\<lambda>_. FNan) toy_verify (JStr (jws_sign toy_sign ?key (utf8_of ''payload''))) [(ucs_of ''nrs-2026.1'', [7, 8])]
        (Some (utf8_of ''payload'')) = Inr (utf8_of ''payload'')"
    by (rule jws_sign_verify [where public_of = id])
      (simp_all add: kid_core_def kid_code_def ucs_of_def toy_sign_def toy_verify_def utf8_of_def utf8_units_def)
  then show ?thesis by (simp add: Let_def)
qed

definition jws_reasons :: "string list" where
  "jws_reasons = [''malformed-jws'', ''unsupported-alg'', ''unknown-kid'', ''payload-mismatch'', ''invalid-signature'']"

lemma b64u_decode_reason: "b64u_decode s = Inl e \<Longrightarrow> \<exists>d. e = JwsError ''malformed-jws'' d"
  by (auto simp: b64u_decode_def split: if_splits sum.splits)

lemma protected_kid_reason: "protected_kid rf s = Inl e \<Longrightarrow> \<exists>r d. e = JwsError r d \<and> (r = ''malformed-jws'' \<or> r = ''unsupported-alg'')"
proof (cases "b64u_decode s")
  case (Inl f)
  then show "protected_kid rf s = Inl e \<Longrightarrow> ?thesis"
    using b64u_decode_reason [OF Inl] by (auto simp: protected_kid_def)
next
  case (Inr hb)
  then show "protected_kid rf s = Inl e \<Longrightarrow> ?thesis"
    by (auto simp: protected_kid_def split: option.splits json.splits if_splits)
qed

lemma jws_tail_reason:
  assumes "rbind (protected_kid rf seg1) (\<lambda>kid. rbind (resolve directory kid) (\<lambda>public_key.
      rbind (b64u_decode seg2) (\<lambda>payload.
        if expected \<noteq> None \<and> expected \<noteq> Some payload then Inl (JwsError ''payload-mismatch'' [])
        else rbind (b64u_decode seg3) (\<lambda>signature.
          if verify public_key signature m then Inr payload else Inl (JwsError ''invalid-signature'' []))))) = Inl e"
  shows "\<exists>r d. e = JwsError r d \<and> r \<in> set jws_reasons"
proof (cases "protected_kid rf seg1")
  case (Inl f)
  with assms protected_kid_reason [OF Inl] show ?thesis by (auto simp: jws_reasons_def)
next
  case (Inr kid)
  note kid = this
  show ?thesis
  proof (cases "map_of directory kid")
    case None
    with assms kid show ?thesis by (auto simp: jws_reasons_def resolve_def)
  next
    case (Some pk)
    show ?thesis
    proof (cases "b64u_decode seg2")
      case (Inl f)
      with assms kid Some b64u_decode_reason [OF Inl] show ?thesis by (auto simp: jws_reasons_def resolve_def)
    next
      case (Inr q)
      note payload = this
      show ?thesis
      proof (cases "b64u_decode seg3")
        case (Inl f)
        with assms kid Some payload b64u_decode_reason [OF Inl] show ?thesis
          by (auto simp: jws_reasons_def resolve_def split: if_splits)
      next
        case (Inr signature)
        have "e = JwsError ''payload-mismatch'' [] \<or> e = JwsError ''invalid-signature'' []"
          using assms unfolding kid resolve_def Some payload Inr rbind_Inr option.case
          by (cases expected) (simp_all split: if_split_asm)
        then show ?thesis
        proof
          assume "e = JwsError ''payload-mismatch'' []"
          then show ?thesis by (auto simp: jws_reasons_def)
        next
          assume "e = JwsError ''invalid-signature'' []"
          then show ?thesis by (auto simp: jws_reasons_def)
        qed
      qed
    qed
  qed
qed

lemma three_parts:
  assumes "\<not> (\<exists>a b c. ps = [a, b, c] \<and> a \<noteq> [] \<and> b \<noteq> [] \<and> c \<noteq> [])"
  shows "(case ps of [a, b, c] \<Rightarrow> if a = [] \<or> b = [] \<or> c = [] then x else f a b c | _ \<Rightarrow> x) = x"
proof (cases "length ps = 3")
  case True
  then obtain a b c where "ps = [a, b, c]" by (auto simp: numeral_3_eq_3 length_Suc_conv)
  with assms show ?thesis by auto
next
  case False
  show ?thesis
  proof (cases ps)
    case (Cons a qs)
    note ps = this
    show ?thesis
    proof (cases qs)
      case (Cons b rs)
      note qs = this
      show ?thesis
      proof (cases rs)
        case (Cons c ts)
        with False ps qs show ?thesis by (cases ts) simp_all
      qed (simp add: ps qs)
    qed (simp add: ps)
  qed simp
qed

text \<open>Verification is fail-closed and total: on every JSON value it returns a payload or raises
  \<open>JwsError\<close> with one of the five documented reason codes, never another exception.\<close>

theorem jws_verify_reasons:
  "(\<exists>payload. jws_verify rf verify jws directory expected = Inr payload) \<or>
   (\<exists>r d. jws_verify rf verify jws directory expected = Inl (JwsError r d) \<and> r \<in> set jws_reasons)"
proof (cases "jws_verify rf verify jws directory expected")
  case (Inl e)
  have "\<exists>r d. e = JwsError r d \<and> r \<in> set jws_reasons"
  proof (cases jws)
    case (JStr s)
    show ?thesis
    proof (cases "\<exists>a b c. split_on 46 s = [a, b, c] \<and> a \<noteq> [] \<and> b \<noteq> [] \<and> c \<noteq> []")
      case True
      then obtain a b c where p: "split_on 46 s = [a, b, c]" "a \<noteq> []" "b \<noteq> []" "c \<noteq> []" by blast
      show ?thesis
        by (rule jws_tail_reason) (use Inl JStr p in \<open>simp only: jws_verify_def json.case list.case if_False simp_thms\<close>)
    next
      case False
      have "jws_verify rf verify (JStr s) directory expected = Inl (JwsError ''malformed-jws'' ''expected three non-empty segments'')"
        unfolding jws_verify_def json.case by (rule three_parts [OF False])
      with Inl JStr have "e = JwsError ''malformed-jws'' ''expected three non-empty segments''" by simp
      then show ?thesis by (auto simp: jws_reasons_def)
    qed
  qed (use Inl in \<open>auto simp: jws_verify_def jws_reasons_def\<close>)
  with Inl show ?thesis by blast
qed blast

end
