(* ===== verification/Vc.thy ===== *)
theory Vc
  imports Eddsa Merkle
begin

section \<open>Verifiable credentials with eddsa-jcs-2022 proofs\<close>

text \<open>
  \<open>src/taxstamps/crypto/vc.py\<close>: base58btc, the Data Integrity proof over
  \<open>sha256(JCS(options)) || sha256(JCS(document))\<close>, and the stamp credential. A document is the
  list of its members in insertion order. The hash and the signature scheme are parameters.
  The clock reading \<open>utc_now_iso()\<close> is the argument \<open>now_iso\<close>.
\<close>

definition VC_CONTEXT :: json where
  "VC_CONTEXT = JArr [JStr (ucs_of ''https://www.w3.org/ns/credentials/v2'')]"

subsection \<open>base58btc\<close>

definition B58_ALPHABET :: ucs where
  "B58_ALPHABET = ucs_of ''123456789ABCDEFGHJKLMNPQRSTUVWXYZabcdefghijkmnopqrstuvwxyz''"

definition b58_char :: "nat \<Rightarrow> nat" where
  "b58_char d = B58_ALPHABET ! d"

definition b58_index :: "nat \<Rightarrow> nat option" where
  "b58_index u = find (\<lambda>d. B58_ALPHABET ! d = u) [0..<58]"

definition int_from_bytes :: "nat list \<Rightarrow> nat" where
  "int_from_bytes bs = foldl (\<lambda>a b. a * 256 + b) 0 bs"

text \<open>The loop \<open>while num > 0\<close>, most significant digit first.\<close>

fun b58_digits :: "nat \<Rightarrow> nat list" where
  "b58_digits num = (if num = 0 then [] else b58_digits (num div 58) @ [num mod 58])"

declare b58_digits.simps [simp del]

definition base58btc_encode :: "bytes \<Rightarrow> ucs" where
  "base58btc_encode data =
    (let num = int_from_bytes (map unat data);
         pad = length (takeWhile (\<lambda>b. b = 0) data)
     in replicate pad 49 @ map b58_char (b58_digits num))"

fun bit_length :: "nat \<Rightarrow> nat" where
  "bit_length n = (if n = 0 then 0 else Suc (bit_length (n div 2)))"

declare bit_length.simps [simp del]

fun int_to_bytes :: "nat \<Rightarrow> nat \<Rightarrow> nat list" where
  "int_to_bytes 0 n = []"
| "int_to_bytes (Suc k) n = int_to_bytes k (n div 256) @ [n mod 256]"

fun b58_value :: "nat \<Rightarrow> ucs \<Rightarrow> nat result" where
  "b58_value num [] = Inr num"
| "b58_value num (ch # text) =
    (case b58_index ch of
       None \<Rightarrow> Inl (VCError ''malformed-proof'' ''invalid base58btc character'')
     | Some d \<Rightarrow> b58_value (num * 58 + d) text)"

definition base58btc_decode :: "ucs \<Rightarrow> bytes result" where
  "base58btc_decode text =
    rbind (b58_value 0 text) (\<lambda>num.
      let body = (if num = 0 then [] else int_to_bytes ((bit_length num + 7) div 8) num);
          pad = length text - length (dropWhile (\<lambda>u. u = 49) text)
      in Inr (replicate pad 0 @ map word_of_nat body))"

subsection \<open>Proofs\<close>

definition hash_data :: "(bytes \<Rightarrow> bytes) \<Rightarrow> (ucs \<times> json) list \<Rightarrow> (ucs \<times> json) list \<Rightarrow> bytes result" where
  "hash_data sha256 document_without_proof proof_options =
    rbind (canonicalize_bytes (JObj proof_options)) (\<lambda>o_bytes.
    rbind (canonicalize_bytes (JObj document_without_proof)) (\<lambda>d_bytes.
      Inr (sha256 o_bytes @ sha256 d_bytes)))"

abbreviation jstr :: "string \<Rightarrow> json" where
  "jstr s \<equiv> JStr (ucs_of s)"

definition proof_options_of :: "ucs \<Rightarrow> ucs \<Rightarrow> ucs \<Rightarrow> (ucs \<times> json) list" where
  "proof_options_of created verification_method proof_purpose =
    [(ucs_of ''type'', jstr ''DataIntegrityProof''),
     (ucs_of ''cryptosuite'', jstr ''eddsa-jcs-2022''),
     (ucs_of ''created'', JStr created),
     (ucs_of ''verificationMethod'', JStr verification_method),
     (ucs_of ''proofPurpose'', JStr proof_purpose)]"

definition issue_proof ::
  "(bytes \<Rightarrow> bytes) \<Rightarrow> ('sk \<Rightarrow> bytes \<Rightarrow> bytes) \<Rightarrow> ucs \<Rightarrow> (ucs \<times> json) list \<Rightarrow> 'sk signing_key \<Rightarrow> ucs \<Rightarrow> ucs \<Rightarrow> ucs option
    \<Rightarrow> (ucs \<times> json) list result" where
  "issue_proof sha256 sign now_iso document key verification_method proof_purpose created =
    (if ucs_of ''proof'' \<in> fst ` set document
     then Inl (VCError ''already-signed'' ''document already carries a proof'')
     else let created' = (case created of Some c \<Rightarrow> if c = [] then now_iso else c | None \<Rightarrow> now_iso);
              proof_options = proof_options_of created' verification_method proof_purpose
          in rbind (hash_data sha256 document proof_options) (\<lambda>h.
               let signature = sign (sk_private_key key) h;
                   proof = proof_options @ [(ucs_of ''proofValue'', JStr ([122] @ base58btc_encode signature))]
               in Inr (dict_set (ucs_of ''proof'') (JObj proof) document)))"

definition without_key :: "string \<Rightarrow> (ucs \<times> json) list \<Rightarrow> (ucs \<times> json) list" where
  "without_key k d = filter (\<lambda>kv. fst kv \<noteq> ucs_of k) d"

definition required_members :: "ucs list" where
  "required_members = map ucs_of [''type'', ''cryptosuite'', ''created'', ''verificationMethod'', ''proofPurpose'', ''proofValue'']"

definition verify_proof ::
  "(bytes \<Rightarrow> bytes) \<Rightarrow> (bytes \<Rightarrow> bytes \<Rightarrow> bytes \<Rightarrow> bool) \<Rightarrow> (ucs \<times> json) list \<Rightarrow> bytes \<Rightarrow> unit result" where
  "verify_proof sha256 verify document public_key =
    (case jobj_get document ''proof'' of
       Some (JObj proof) \<Rightarrow>
         if \<not> list_all (\<lambda>k. k \<in> fst ` set proof) required_members
         then Inl (VCError ''malformed-proof'' ''missing required proof members'')
         else if jobj_get proof ''type'' \<noteq> Some (jstr ''DataIntegrityProof'')
         then Inl (VCError ''unsupported-proof-type'' (json_repr (the (jobj_get proof ''type''))))
         else if jobj_get proof ''cryptosuite'' \<noteq> Some (jstr ''eddsa-jcs-2022'')
         then Inl (VCError ''unsupported-cryptosuite'' (json_repr (the (jobj_get proof ''cryptosuite''))))
         else (case jobj_get proof ''proofValue'' of
             Some (JStr (u # text)) \<Rightarrow>
               if u \<noteq> 122 then Inl (VCError ''malformed-proof'' ''proofValue must be multibase base58btc'')
               else rbind (base58btc_decode text) (\<lambda>signature.
                 case hash_data sha256 (without_key ''proof'' document) (without_key ''proofValue'' proof) of
                   Inl e \<Rightarrow> Inl (VCError ''invalid-proof'' [])
                 | Inr h \<Rightarrow> if verify public_key signature h then Inr () else Inl (VCError ''invalid-proof'' []))
           | _ \<Rightarrow> Inl (VCError ''malformed-proof'' ''proofValue must be multibase base58btc''))
     | _ \<Rightarrow> Inl (VCError ''missing-proof'' []))"

subsection \<open>The stamp credential\<close>

definition build_stamp_credential ::
  "ucs \<Rightarrow> ucs \<Rightarrow> ucs \<Rightarrow> ucs \<Rightarrow> ucs \<Rightarrow> ucs \<Rightarrow> int \<Rightarrow> ucs \<Rightarrow> ucs \<Rightarrow> json list \<Rightarrow> (ucs \<times> json) list" where
  "build_stamp_credential credential_id issuer_did serial hs_code declaration_ref consignee_tin duty_paid_kobo
      valid_from valid_until status_entries =
    [(ucs_of ''@context'', VC_CONTEXT),
     (ucs_of ''id'', JStr credential_id),
     (ucs_of ''type'', JArr [jstr ''VerifiableCredential'', jstr ''ExciseTaxStamp'']),
     (ucs_of ''issuer'', JStr issuer_did),
     (ucs_of ''validFrom'', JStr valid_from),
     (ucs_of ''validUntil'', JStr valid_until),
     (ucs_of ''credentialSubject'', JObj
       [(ucs_of ''id'', JStr (credential_id @ ucs_of ''#stamp'')),
        (ucs_of ''serial'', JStr serial),
        (ucs_of ''hsCode'', JStr hs_code),
        (ucs_of ''declarationRef'', JStr declaration_ref),
        (ucs_of ''consigneeTin'', JStr consignee_tin),
        (ucs_of ''dutyPaidKobo'', JInt duty_paid_kobo)]),
     (ucs_of ''credentialStatus'', JArr status_entries)]"


subsection \<open>base58btc loses nothing\<close>

lemma b58_index_char: "d < 58 \<Longrightarrow> b58_index (b58_char d) = Some d"
proof -
  have "list_all (\<lambda>d. b58_index (b58_char d) = Some d) [0..<58]" by code_simp
  then show "d < 58 \<Longrightarrow> b58_index (b58_char d) = Some d" by (simp add: list_all_iff)
qed

lemma b58_char_one: "d < 58 \<Longrightarrow> b58_char d = 49 \<longleftrightarrow> d = 0"
proof -
  have "list_all (\<lambda>d. b58_char d = 49 \<longleftrightarrow> d = 0) [0..<58]" by code_simp
  then show "d < 58 \<Longrightarrow> b58_char d = 49 \<longleftrightarrow> d = 0" by (simp add: list_all_iff)
qed

lemma b58_digits_bound: "list_all (\<lambda>d. d < 58) (b58_digits n)"
proof (induction n rule: b58_digits.induct)
  case (1 n)
  then show ?case by (subst b58_digits.simps) simp
qed

lemma b58_digits_value: "foldl (\<lambda>a d. a * 58 + d) 0 (b58_digits n) = n"
proof (induction n rule: b58_digits.induct)
  case (1 n)
  then show ?case by (subst b58_digits.simps) simp
qed

lemma b58_digits_hd: "0 < n \<Longrightarrow> b58_digits n \<noteq> [] \<and> hd (b58_digits n) \<noteq> 0"
proof (induction n rule: b58_digits.induct)
  case (1 n)
  show ?case
  proof (cases "n div 58 = 0")
    case True
    then have "n < 58" by (simp add: div_eq_0_iff)
    with 1 True show ?thesis by (simp add: b58_digits.simps [of n] b58_digits.simps [of 0])
  next
    case False
    with 1 show ?thesis by (simp add: b58_digits.simps [of n])
  qed
qed

lemma b58_value_digits: "list_all (\<lambda>d. d < 58) ds \<Longrightarrow> b58_value a (map b58_char ds) = Inr (foldl (\<lambda>a d. a * 58 + d) a ds)"
  by (induction ds arbitrary: a) (auto simp: b58_index_char)

lemma b58_value_ones: "b58_value 0 (replicate k 49 @ t) = b58_value 0 t"
proof -
  have "b58_index 49 = Some 0" using b58_index_char [of 0] b58_char_one [of 0] by simp
  then show ?thesis by (induction k) auto
qed

lemma bit_length_le: "bit_length n \<le> m \<longleftrightarrow> n < 2 ^ m"
proof (induction n arbitrary: m rule: bit_length.induct)
  case (1 n)
  show ?case
  proof (cases "n = 0")
    case True
    then show ?thesis by (simp add: bit_length.simps)
  next
    case False
    then show ?thesis
    proof (cases m)
      case 0
      with False show ?thesis by (simp add: bit_length.simps [of n])
    next
      case (Suc k)
      have "n div 2 < 2 ^ k \<longleftrightarrow> n < 2 ^ Suc k" by (simp add: div_less_iff_less_mult mult.commute)
      with False Suc 1 show ?thesis by (simp add: bit_length.simps [of n])
    qed
  qed
qed

lemma int_from_bytes_snoc: "int_from_bytes (bs @ [b]) = int_from_bytes bs * 256 + b"
  by (simp add: int_from_bytes_def)

lemma int_from_bytes_upper: "list_all (\<lambda>b. b < 256) bs \<Longrightarrow> int_from_bytes bs < 256 ^ length bs"
proof (induction bs rule: rev_induct)
  case (snoc b bs)
  then have "int_from_bytes bs + 1 \<le> 256 ^ length bs" by simp
  then have "(int_from_bytes bs + 1) * 256 \<le> 256 ^ length bs * 256" by (rule mult_le_mono1)
  with snoc.prems show ?case by (simp add: int_from_bytes_snoc mult.commute)
qed (simp add: int_from_bytes_def)

lemma int_from_bytes_lower: "bs \<noteq> [] \<Longrightarrow> hd bs \<noteq> 0 \<Longrightarrow> 256 ^ (length bs - 1) \<le> int_from_bytes bs"
proof (induction bs rule: rev_induct)
  case (snoc b bs)
  show ?case
  proof (cases bs)
    case Nil
    with snoc.prems show ?thesis by (simp add: int_from_bytes_def)
  next
    case (Cons x xs)
    with snoc have "256 ^ (length bs - 1) \<le> int_from_bytes bs" by simp
    then have "256 ^ (length bs - 1) * 256 \<le> int_from_bytes bs * 256" by (rule mult_le_mono1)
    then have "256 ^ (length bs - 1) * 256 \<le> int_from_bytes (bs @ [b])" by (simp add: int_from_bytes_snoc)
    with Cons show ?thesis by (simp add: mult.commute)
  qed
qed simp

lemma int_to_from_bytes: "list_all (\<lambda>b. b < 256) bs \<Longrightarrow> int_to_bytes (length bs) (int_from_bytes bs) = bs"
  by (induction bs rule: rev_induct) (simp_all add: int_from_bytes_snoc)

lemma minimal_length:
  assumes "bs \<noteq> []" "hd bs \<noteq> 0" "list_all (\<lambda>b. b < 256) bs"
  shows "(bit_length (int_from_bytes bs) + 7) div 8 = length bs"
proof -
  obtain k where k: "length bs = Suc k" using assms(1) by (cases bs) auto
  have p: "(256 :: nat) ^ j = 2 ^ (8 * j)" for j by (simp add: power_mult)
  have "bit_length (int_from_bytes bs) \<le> 8 * Suc k"
    using int_from_bytes_upper [OF assms(3)] by (simp add: bit_length_le k p del: power_Suc)
  moreover have "\<not> bit_length (int_from_bytes bs) \<le> 8 * k"
    using int_from_bytes_lower [OF assms(1,2)] by (simp add: bit_length_le k p)
  ultimately show ?thesis using k by simp
qed

lemma int_from_bytes_zeros: "int_from_bytes (replicate k 0 @ bs) = int_from_bytes bs"
  by (induction k) (auto simp: int_from_bytes_def)

lemma base58btc_decode_encode: "base58btc_decode (base58btc_encode data) = Inr data"
proof -
  define k where "k = length (takeWhile (\<lambda>b. b = 0) data)"
  define rest where "rest = dropWhile (\<lambda>b. b = 0) data"
  have z: "takeWhile (\<lambda>b. b = 0) data = replicate k 0"
    unfolding k_def by (metis (mono_tags, lifting) replicate_length_same set_takeWhileD)
  have data: "data = replicate k 0 @ rest" by (metis rest_def takeWhile_dropWhile_id z)
  have rest: "rest \<noteq> [] \<Longrightarrow> hd (map unat rest) \<noteq> 0"
    using hd_dropWhile [of "\<lambda>b. b = 0" data] by (simp add: rest_def hd_map unat_eq_0)
  let ?n = "int_from_bytes (map unat data)"
  have n: "?n = int_from_bytes (map unat rest)" by (subst data) (simp add: int_from_bytes_zeros)
  let ?ds = "b58_digits ?n"
  have enc: "base58btc_encode data = replicate k 49 @ map b58_char ?ds"
    by (simp add: base58btc_encode_def k_def Let_def)
  have val: "b58_value 0 (base58btc_encode data) = Inr ?n"
    unfolding enc b58_value_ones by (simp add: b58_value_digits b58_digits_bound b58_digits_value)
  have "dropWhile (\<lambda>u. u = 49) (map b58_char ?ds) = map b58_char ?ds"
  proof (cases "?n = 0")
    case True
    then show ?thesis by (simp add: b58_digits.simps)
  next
    case False
    then have "?ds \<noteq> []" "hd ?ds \<noteq> 0" using b58_digits_hd [of ?n] by auto
    moreover from this have "hd ?ds < 58" using b58_digits_bound [of ?n] by (cases ?ds) auto
    ultimately show ?thesis by (cases ?ds) (auto simp: b58_char_one)
  qed
  then have pad: "length (base58btc_encode data) - length (dropWhile (\<lambda>u. u = 49) (base58btc_encode data)) = k"
    unfolding enc by (simp add: dropWhile_append)
  have body: "(if ?n = 0 then [] else int_to_bytes ((bit_length ?n + 7) div 8) ?n) = map unat rest"
  proof (cases "rest = []")
    case True
    have "?n = 0" unfolding n True by (simp add: int_from_bytes_def)
    with True show ?thesis by simp
  next
    case False
    then have "(256 :: nat) ^ (length rest - 1) \<le> ?n"
      unfolding n using int_from_bytes_lower [of "map unat rest"] rest by simp
    then have "?n \<noteq> 0" by (metis le_zero_eq power_not_zero zero_neq_numeral)
    then show ?thesis
      using minimal_length [of "map unat rest"] int_to_from_bytes [of "map unat rest"] map_unat_bytes [of rest] False rest
      by (simp add: n)
  qed
  have "base58btc_decode (base58btc_encode data) = Inr (replicate k 0 @ map word_of_nat (map unat rest))"
    unfolding base58btc_decode_def val rbind_Inr Let_def pad body ..
  then show ?thesis by (simp add: comp_def flip: data)
qed

interpretation b58: codec "\<lambda>_. True" base58btc_encode base58btc_decode
  by unfold_locales (rule base58btc_decode_encode)


subsection \<open>Proofs that verify\<close>

lemma without_key_absent: "ucs_of k \<notin> fst ` set d \<Longrightarrow> without_key k d = d"
  unfolding without_key_def by (rule filter_True) force

lemma dict_set_absent: "k \<notin> fst ` set d \<Longrightarrow> dict_set k v d = d @ [(k, v)]"
  by (induction d) auto

lemma issue_proof_members:
  assumes "issue_proof sha256 sign now_iso document key vm purpose created = Inr out"
  obtains c h where
    "hash_data sha256 document (proof_options_of c vm purpose) = Inr h" "ucs_of ''proof'' \<notin> fst ` set document"
    "out = document @ [(ucs_of ''proof'', JObj (proof_options_of c vm purpose
       @ [(ucs_of ''proofValue'', JStr ([122] @ base58btc_encode (sign (sk_private_key key) h)))]))]"
  using assms by (auto simp: issue_proof_def Let_def rbind_eq_Inr dict_set_absent split: if_splits)

lemma verify_issued_aux:
  assumes "issue_proof sha256 sign now_iso document key vm purpose created = Inr out"
    and "\<And>m. verify (public_of (sk_private_key key)) (sign (sk_private_key key) m) m"
  shows "verify_proof sha256 verify out (public_of (sk_private_key key)) = Inr ()"
proof -
  obtain c h where h: "hash_data sha256 document (proof_options_of c vm purpose) = Inr h"
    and absent: "ucs_of ''proof'' \<notin> fst ` set document"
    and out: "out = document @ [(ucs_of ''proof'', JObj (proof_options_of c vm purpose
       @ [(ucs_of ''proofValue'', JStr ([122] @ base58btc_encode (sign (sk_private_key key) h)))]))]"
    using issue_proof_members [OF assms(1)] by metis
  let ?opts = "proof_options_of c vm purpose"
  define pf where "pf = ?opts @ [(ucs_of ''proofValue'', JStr ([122] @ base58btc_encode (sign (sk_private_key key) h)))]"
  have get: "jobj_get out ''proof'' = Some (JObj pf)"
    using absent by (simp add: out pf_def jobj_get_def map_add_def map_of_eq_None_iff [THEN iffD2])
  have rest: "without_key ''proof'' out = document" "without_key ''proofValue'' pf = ?opts"
    using without_key_absent [OF absent] by (simp_all add: out pf_def without_key_def proof_options_of_def)
  have opts: "list_all (\<lambda>k. k \<in> fst ` set pf) required_members"
    "jobj_get pf ''type'' = Some (jstr ''DataIntegrityProof'')"
    "jobj_get pf ''cryptosuite'' = Some (jstr ''eddsa-jcs-2022'')"
    "jobj_get pf ''proofValue'' = Some (JStr (122 # base58btc_encode (sign (sk_private_key key) h)))"
    by (simp_all add: pf_def jobj_get_def proof_options_of_def required_members_def)
  show ?thesis
    using assms(2) by (simp add: verify_proof_def get rest opts h base58btc_decode_encode)
qed

text \<open>A document the service signs is one it accepts: whenever \<open>issue_proof\<close> returns a document,
  \<open>verify_proof\<close> of it under the signer's public key succeeds. Relied on: the scheme verifies what
  it signed.\<close>

theorem verify_issued_proof:
  assumes "issue_proof sha256 sign now_iso document key vm purpose created = Inr out"
    and "\<And>m. verify (public_of (sk_private_key key)) (sign (sk_private_key key) m) m"
  shows "verify_proof sha256 verify out (public_of (sk_private_key key)) = Inr ()"
  using assms by (rule verify_issued_aux)

theorem verify_issued_proof_witness:
  "let out = issue_proof toy_hash toy_sign (ucs_of ''2026-01-01T00:00:00Z'') [(ucs_of ''id'', jstr ''urn:1'')]
       \<lparr>sk_kid = ucs_of ''k'', sk_private_key = [7, 8]\<rparr> (ucs_of ''did#k'') (ucs_of ''assertionMethod'') None
   in succeeds out \<and> rbind out (\<lambda>d. verify_proof toy_hash toy_verify d [7, 8]) = Inr ()"
proof -
  let ?key = "\<lparr>sk_kid = ucs_of ''k'', sk_private_key = [7, 8]\<rparr> :: bytes signing_key"
  let ?out = "issue_proof toy_hash toy_sign (ucs_of ''2026-01-01T00:00:00Z'') [(ucs_of ''id'', jstr ''urn:1'')]
       ?key (ucs_of ''did#k'') (ucs_of ''assertionMethod'') None"
  have "succeeds ?out"
    by (simp add: issue_proof_def hash_data_def proof_options_of_def encode_eval)
  then obtain d where d: "?out = Inr d" by (auto simp: succeeds_iff)
  have "verify_proof toy_hash toy_verify d (id (sk_private_key ?key)) = Inr ()"
    by (rule verify_issued_proof [OF d]) (simp add: toy_sign_def toy_verify_def)
  with d show ?thesis by (simp add: Let_def)
qed

subsection \<open>What a proof commits to\<close>

lemma map_of_sorted_items: "distinct (map fst a) \<Longrightarrow> map_of (sorted_items a) = map_of a"
  unfolding sorted_items_def
proof (rule map_of_inject_set [THEN iffD2])
  assume "distinct (map fst a)"
  moreover have "mset (map fst (sort_key (\<lambda>kv. utf16_sort_key (fst kv)) a)) = mset (map fst a)"
    by (simp add: mset_map)
  ultimately show "distinct (map fst (sort_key (\<lambda>kv. utf16_sort_key (fst kv)) a))"
    by (metis mset_eq_imp_distinct_iff)
qed auto

lemma jnorm_get:
  assumes "jnorm (JObj a) = jnorm (JObj b)" "distinct (map fst a)" "distinct (map fst b)"
  shows "map_option jnorm (map_of a k) = map_option jnorm (map_of b k)"
proof -
  have m: "map_of (map (\<lambda>(k, v). (k, jnorm v)) (sorted_items c)) k = map_option jnorm (map_of c k)"
    if "distinct (map fst c)" for c
    using that by (simp add: map_of_map map_of_sorted_items)
  have "map (\<lambda>(k, v). (k, jnorm v)) (sorted_items a) = map (\<lambda>(k, v). (k, jnorm v)) (sorted_items b)"
    using assms(1) by simp
  then show ?thesis using m [OF assms(2)] m [OF assms(3)] by metis
qed

definition wf_ucs :: "ucs \<Rightarrow> bool" where
  "wf_ucs s = list_all (\<lambda>c. c < 1114112) s"

lemma wf_ucs_of [simp]: "list_all (\<lambda>c. c < 1114112) (ucs_of s)"
  using ucs_of_bound' by (auto simp: list_all_iff)

text \<open>C30: The proof hash of a stamp credential commits to every field of the stamp. If two stamp
  credentials are hashed to the same value, whatever the proof options, and the canonical byte strings
  hashed do not collide, then id, issuer, serial, HS code, declaration, consignee, duty, validity and
  status entries are the same (status entries up to the order of their members).\<close>

theorem stamp_credential_binding:
  assumes "hash_data sha256 (build_stamp_credential i s n c d t k f u es) o1 = Inr h"
    and "hash_data sha256 (build_stamp_credential i' s' n' c' d' t' k' f' u' es') o2 = Inr h"
    and "\<forall>b. length (sha256 b) = 32"
    and "\<And>x y. canonicalize_bytes (JObj (build_stamp_credential i s n c d t k f u es)) = Inr x \<Longrightarrow>
        canonicalize_bytes (JObj (build_stamp_credential i' s' n' c' d' t' k' f' u' es')) = Inr y \<Longrightarrow>
        collision_free sha256 [x, y]"
    and "list_all wf_ucs [i, s, n, c, d, t, f, u, i', s', n', c', d', t', f', u']"
    and "list_all (\<lambda>e. float_free e \<and> wf_text e) (es @ es')"
  shows "(i, s, n, c, d, t, k, f, u, map jnorm es) = (i', s', n', c', d', t', k', f', u', map jnorm es')"
proof -
  let ?a = "build_stamp_credential i s n c d t k f u es" and ?b = "build_stamp_credential i' s' n' c' d' t' k' f' u' es'"
  obtain x y where xy: "canonicalize_bytes (JObj ?a) = Inr x" "canonicalize_bytes (JObj ?b) = Inr y" "sha256 x = sha256 y"
    using assms(1-3) by (auto simp: hash_data_def rbind_eq_Inr append_eq_append_conv)
  then have "x = y" using collision_freeD [OF assms(4) [OF xy(1,2)], of x y] by simp
  moreover have wf: "float_free (JObj ?a)" "float_free (JObj ?b)" "wf_text (JObj ?a)" "wf_text (JObj ?b)"
    using assms(5,6) by (simp_all add: build_stamp_credential_def VC_CONTEXT_def wf_ucs_def list_all_iff [of float_free] list_all_iff [of wf_text] list_all_iff [of "\<lambda>e. float_free e \<and> wf_text e"])
  ultimately have j: "jnorm (JObj ?a) = jnorm (JObj ?b)"
    using canonicalize_bytes_inj_aux [OF xy(1,2)] by simp
  have "distinct (map fst ?a)" "distinct (map fst ?b)" by (simp_all add: build_stamp_credential_def)
  note get = jnorm_get [OF j this]
  have top: "i = i'" "s = s'" "f = f'" "u = u'" "map jnorm es = map jnorm es'"
    using get [of "ucs_of ''id''"] get [of "ucs_of ''issuer''"] get [of "ucs_of ''validFrom''"] get [of "ucs_of ''validUntil''"]
      get [of "ucs_of ''credentialStatus''"]
    by (simp_all add: build_stamp_credential_def)
  let ?sa = "[(ucs_of ''id'', JStr (i @ ucs_of ''#stamp'')), (ucs_of ''serial'', JStr n), (ucs_of ''hsCode'', JStr c),
    (ucs_of ''declarationRef'', JStr d), (ucs_of ''consigneeTin'', JStr t), (ucs_of ''dutyPaidKobo'', JInt k)]"
  let ?sb = "[(ucs_of ''id'', JStr (i' @ ucs_of ''#stamp'')), (ucs_of ''serial'', JStr n'), (ucs_of ''hsCode'', JStr c'),
    (ucs_of ''declarationRef'', JStr d'), (ucs_of ''consigneeTin'', JStr t'), (ucs_of ''dutyPaidKobo'', JInt k')]"
  have sj: "jnorm (JObj ?sa) = jnorm (JObj ?sb)"
    using get [of "ucs_of ''credentialSubject''"] by (simp add: build_stamp_credential_def del: jnorm.simps)
  have "distinct (map fst ?sa)" "distinct (map fst ?sb)" by simp_all
  note sget = jnorm_get [OF sj this]
  have "n = n'" "c = c'" "d = d'" "t = t'" "k = k'"
    using sget [of "ucs_of ''serial''"] sget [of "ucs_of ''hsCode''"] sget [of "ucs_of ''declarationRef''"]
      sget [of "ucs_of ''consigneeTin''"] sget [of "ucs_of ''dutyPaidKobo''"]
    by simp_all
  with top show ?thesis by simp
qed


theorem stamp_credential_binding_witness:
  "let cred = build_stamp_credential (ucs_of ''urn:1'') (ucs_of ''did:web:x'') (ucs_of ''NG-1'') (ucs_of ''2203'') (ucs_of ''D-1'')
         (ucs_of ''T'') 500 (ucs_of ''a'') (ucs_of ''b'') [JObj [(ucs_of ''id'', jstr ''e'')]]
   in succeeds (hash_data toy_hash cred [(ucs_of ''type'', jstr ''p'')]) \<and>
      build_stamp_credential (ucs_of ''urn:1'') (ucs_of ''did:web:x'') (ucs_of ''NG-1'') (ucs_of ''2203'') (ucs_of ''D-1'')
         (ucs_of ''T'') 500 (ucs_of ''a'') (ucs_of ''b'') [JObj [(ucs_of ''id'', jstr ''e'')]] = cred"
proof -
  let ?cred = "build_stamp_credential (ucs_of ''urn:1'') (ucs_of ''did:web:x'') (ucs_of ''NG-1'') (ucs_of ''2203'') (ucs_of ''D-1'')
         (ucs_of ''T'') 500 (ucs_of ''a'') (ucs_of ''b'') [JObj [(ucs_of ''id'', jstr ''e'')]]"
  have "succeeds (hash_data toy_hash ?cred [(ucs_of ''type'', jstr ''p'')])"
    by (simp add: hash_data_def build_stamp_credential_def VC_CONTEXT_def encode_eval)
  moreover from this obtain h where h: "hash_data toy_hash ?cred [(ucs_of ''type'', jstr ''p'')] = Inr h" by (auto simp: succeeds_iff)
  have "(ucs_of ''urn:1'', ucs_of ''did:web:x'', ucs_of ''NG-1'', ucs_of ''2203'', ucs_of ''D-1'', ucs_of ''T'', 500 :: int, ucs_of ''a'',
      ucs_of ''b'', map jnorm [JObj [(ucs_of ''id'', jstr ''e'')]]) =
    (ucs_of ''urn:1'', ucs_of ''did:web:x'', ucs_of ''NG-1'', ucs_of ''2203'', ucs_of ''D-1'', ucs_of ''T'', 500, ucs_of ''a'',
      ucs_of ''b'', map jnorm [JObj [(ucs_of ''id'', jstr ''e'')]])"
    by (rule stamp_credential_binding [OF h h])
      (auto simp: toy_hash_def min_def collision_free_def wf_ucs_def)
  ultimately show ?thesis by (simp only: Let_def simp_thms)
qed

end
