(* ===== verification/StatusList.thy ===== *)
theory StatusList
  imports Vc
begin

unbundle bit_operations_syntax

section \<open>Bitstring Status Lists\<close>

text \<open>
  \<open>src/taxstamps/crypto/statuslist.py\<close>. The bit string is a list of bytes, set and tested
  with the code's masks; gzip is a parameter (\<open>compress\<close>, \<open>decompress\<close>), of which only the
  round trip is used. The locale \<open>bit_table\<close> is what the publishing service needs of a list:
  a bit reads as last written and writing one leaves the others.
\<close>

definition DEFAULT_LIST_SIZE_BITS :: int where
  "DEFAULT_LIST_SIZE_BITS = 131072"

definition PURPOSES :: "string list" where
  "PURPOSES = [''void'', ''expired'', ''suspect'']"

record status_list =
  sl_size_bits :: int
  sl_bits :: bytes

definition status_list_new :: "int \<Rightarrow> bytes option \<Rightarrow> status_list result" where
  "status_list_new size_bits data =
    (if size_bits \<le> 0 \<or> size_bits mod 8 \<noteq> 0
     then Inl (StatusListError ''invalid-size'' ''size must be a positive multiple of 8'')
     else case data of
       None \<Rightarrow> Inr \<lparr>sl_size_bits = size_bits, sl_bits = replicate (nat (size_bits div 8)) 0\<rparr>
     | Some d \<Rightarrow>
         if int (length d) \<noteq> size_bits div 8
         then Inl (StatusListError ''invalid-size'' ''data length does not match size'')
         else Inr \<lparr>sl_size_bits = size_bits, sl_bits = d\<rparr>)"

definition check_index :: "status_list \<Rightarrow> int \<Rightarrow> unit result" where
  "check_index l index = check (0 \<le> index \<and> index < sl_size_bits l) (StatusListError ''index-out-of-range'' (str_int index))"

definition bit_mask :: "int \<Rightarrow> byte" where
  "bit_mask index = push_bit (nat (7 - index mod 8)) 1"

definition sl_get :: "status_list \<Rightarrow> int \<Rightarrow> bool result" where
  "sl_get l index = rbind (check_index l index) (\<lambda>_.
     Inr ((sl_bits l ! nat (index div 8) AND bit_mask index) \<noteq> 0))"

definition sl_set :: "status_list \<Rightarrow> int \<Rightarrow> bool \<Rightarrow> status_list result" where
  "sl_set l index val = rbind (check_index l index) (\<lambda>_.
     let b = sl_bits l ! nat (index div 8)
     in Inr (l\<lparr>sl_bits := (sl_bits l)[nat (index div 8) :=
          (if val then b OR bit_mask index else b AND NOT (bit_mask index))]\<rparr>))"

definition sl_encode :: "(bytes \<Rightarrow> bytes) \<Rightarrow> status_list \<Rightarrow> ucs" where
  "sl_encode compress l = [117] @ b64u_encode (compress (sl_bits l))"

definition sl_decode :: "(bytes \<Rightarrow> string + bytes) \<Rightarrow> ucs \<Rightarrow> int \<Rightarrow> status_list result" where
  "sl_decode decompress encoded size_bits =
    (case encoded of
       u # body \<Rightarrow>
         if u \<noteq> 117 then Inl (StatusListError ''malformed-encoded-list'' (''expected multibase base64url '' @ py_repr ''u'' @ '' prefix''))
         else if 61 \<in> set body then Inl (StatusListError ''malformed-encoded-list'' ''padding prohibited'')
         else (case urlsafe_b64decode (body @ b64_padding body) of
             Inl e \<Rightarrow> Inl (StatusListError ''malformed-encoded-list'' e)
           | Inr compressed \<Rightarrow> (case decompress compressed of
               Inl e \<Rightarrow> Inl (StatusListError ''malformed-encoded-list'' e)
             | Inr raw \<Rightarrow> status_list_new size_bits (Some raw)))
     | [] \<Rightarrow> Inl (StatusListError ''malformed-encoded-list'' (''expected multibase base64url '' @ py_repr ''u'' @ '' prefix'')))"

subsection \<open>Credentials\<close>

definition build_status_list_credential ::
  "(bytes \<Rightarrow> bytes) \<Rightarrow> ('sk \<Rightarrow> bytes \<Rightarrow> bytes) \<Rightarrow> (bytes \<Rightarrow> bytes) \<Rightarrow> ucs \<Rightarrow> ucs \<Rightarrow> ucs \<Rightarrow> string \<Rightarrow> status_list
    \<Rightarrow> 'sk signing_key option \<Rightarrow> ucs option \<Rightarrow> (ucs \<times> json) list result" where
  "build_status_list_credential sha256 sign compress now_iso list_credential_id issuer_did status_purpose l key verification_method =
    (if status_purpose \<notin> set PURPOSES then Inl (StatusListError ''unknown-purpose'' status_purpose)
     else let doc =
       [(ucs_of ''@context'', VC_CONTEXT),
        (ucs_of ''id'', JStr list_credential_id),
        (ucs_of ''type'', JArr [jstr ''VerifiableCredential'', jstr ''BitstringStatusListCredential'']),
        (ucs_of ''issuer'', JStr issuer_did),
        (ucs_of ''validFrom'', JStr now_iso),
        (ucs_of ''credentialSubject'', JObj
          [(ucs_of ''id'', JStr (list_credential_id @ ucs_of ''#list'')),
           (ucs_of ''type'', jstr ''BitstringStatusList''),
           (ucs_of ''statusPurpose'', jstr status_purpose),
           (ucs_of ''encodedList'', JStr (sl_encode compress l))])]
     in case key of
          None \<Rightarrow> Inr doc
        | Some k \<Rightarrow>
            (case verification_method of
               Some (u # vm) \<Rightarrow> issue_proof sha256 sign now_iso doc k (u # vm) (ucs_of ''assertionMethod'') None
             | _ \<Rightarrow> Inl (StatusListError ''verification-method-required'' [])))"

definition parse_status_list_credential ::
  "(bytes \<Rightarrow> string + bytes) \<Rightarrow> (ucs \<times> json) list \<Rightarrow> (string \<times> status_list) result" where
  "parse_status_list_credential decompress credential =
    (case jobj_get credential ''credentialSubject'' of
       Some (JObj subject) \<Rightarrow>
         if jobj_get subject ''type'' \<noteq> Some (jstr ''BitstringStatusList'')
         then Inl (StatusListError ''malformed-status-list'' ''credentialSubject.type mismatch'')
         else (case find (\<lambda>p. jobj_get subject ''statusPurpose'' = Some (jstr p)) PURPOSES of
             None \<Rightarrow> Inl (StatusListError ''unknown-purpose'' (case jobj_get subject ''statusPurpose'' of Some v \<Rightarrow> json_repr v | None \<Rightarrow> ''None''))
           | Some purpose \<Rightarrow>
               (case jobj_get subject ''encodedList'' of
                  Some (JStr encoded) \<Rightarrow>
                    rbind (sl_decode decompress encoded DEFAULT_LIST_SIZE_BITS) (\<lambda>l. Inr (purpose, l))
                | _ \<Rightarrow> Inl (StatusListError ''malformed-status-list'' ''encodedList missing'')))
     | _ \<Rightarrow> Inl (StatusListError ''malformed-status-list'' ''missing credentialSubject''))"

definition status_entry :: "ucs \<Rightarrow> int \<Rightarrow> string \<Rightarrow> (ucs \<times> json) list result" where
  "status_entry list_credential_id index purpose =
    (if purpose \<notin> set PURPOSES then Inl (StatusListError ''unknown-purpose'' purpose)
     else Inr
       [(ucs_of ''id'', JStr (list_credential_id @ ucs_of (''#'' @ str_int index))),
        (ucs_of ''type'', jstr ''BitstringStatusListEntry''),
        (ucs_of ''statusPurpose'', jstr purpose),
        (ucs_of ''statusListIndex'', jstr (str_int index)),
        (ucs_of ''statusListCredential'', JStr list_credential_id)])"

subsection \<open>Bits\<close>

definition wf_status_list :: "status_list \<Rightarrow> bool" where
  "wf_status_list l = (0 < sl_size_bits l \<and> sl_size_bits l mod 8 = 0 \<and> int (length (sl_bits l)) = sl_size_bits l div 8)"

text \<open>What the publisher needs of a list.\<close>

locale bit_table =
  fixes wf :: "'t \<Rightarrow> bool"
    and bits :: "'t \<Rightarrow> int"
    and get :: "'t \<Rightarrow> int \<Rightarrow> 'e + bool"
    and put :: "'t \<Rightarrow> int \<Rightarrow> bool \<Rightarrow> 'e + 't"
  assumes get_total: "wf t \<Longrightarrow> 0 \<le> i \<Longrightarrow> i < bits t \<Longrightarrow> succeeds (get t i)"
    and put_total: "wf t \<Longrightarrow> 0 \<le> i \<Longrightarrow> i < bits t \<Longrightarrow> succeeds (put t i v)"
    and put_range: "put t i v = Inr t' \<Longrightarrow> 0 \<le> i \<and> i < bits t"
    and put_wf: "wf t \<Longrightarrow> put t i v = Inr t' \<Longrightarrow> wf t' \<and> bits t' = bits t"
    and get_put: "wf t \<Longrightarrow> put t i v = Inr t' \<Longrightarrow> get t' j = (if j = i then Inr v else get t j)"
begin

text \<open>Flags raised one after the other: exactly those bits become set, in whatever order.\<close>

fun raise_all :: "int list \<Rightarrow> 't \<Rightarrow> 'e + 't" where
  "raise_all [] t = Inr t"
| "raise_all (i # is) t = rbind (put t i True) (raise_all is)"

lemma raise_all_get:
  "wf t \<Longrightarrow> raise_all is t = Inr t' \<Longrightarrow> get t' j = (if j \<in> set is then Inr True else get t j)"
proof (induction "is" arbitrary: t)
  case (Cons i "is")
  then obtain t1 where t1: "put t i True = Inr t1" "raise_all is t1 = Inr t'" by (auto simp: rbind_eq_Inr)
  with Cons.prems(1) have "wf t1" using put_wf by blast
  then have "get t' j = (if j \<in> set is then Inr True else get t1 j)" by (rule Cons.IH) (rule t1(2))
  then show ?case using get_put [OF Cons.prems(1) t1(1), of j] by auto
qed simp

lemma raise_all_wf: "wf t \<Longrightarrow> raise_all is t = Inr t' \<Longrightarrow> wf t' \<and> bits t' = bits t"
proof (induction "is" arbitrary: t)
  case (Cons i "is")
  then obtain t1 where t1: "put t i True = Inr t1" "raise_all is t1 = Inr t'" by (auto simp: rbind_eq_Inr)
  with put_wf [OF Cons.prems(1) t1(1)] Cons.IH [of t1] show ?case by simp
qed simp

lemma raise_all_total:
  "wf t \<Longrightarrow> list_all (\<lambda>i. 0 \<le> i \<and> i < bits t) is \<Longrightarrow> succeeds (raise_all is t)"
proof (induction "is" arbitrary: t)
  case (Cons i "is")
  then obtain t1 where t1: "put t i True = Inr t1" using put_total [of t i True] by (auto simp: succeeds_iff)
  with put_wf [OF Cons.prems(1) t1] Cons show ?case by simp
qed simp

end

lemma bit_mask_bit: "0 \<le> n \<Longrightarrow> n < 8 \<Longrightarrow> bit (bit_mask i) (nat n) \<longleftrightarrow> n = 7 - i mod 8"
proof -
  assume n: "0 \<le> n" "n < 8"
  have m: "0 \<le> i mod 8" "i mod 8 < 8" by simp_all
  have "bit (bit_mask i) (nat n) \<longleftrightarrow> nat n = nat (7 - i mod 8)"
    unfolding bit_mask_def bit_push_bit_iff bit_1_iff using n m by (auto simp: possible_bit_word)
  then show ?thesis using n m by auto
qed

lemma byte_eqI: "(\<And>n. n < 8 \<Longrightarrow> bit a n \<longleftrightarrow> bit b n) \<Longrightarrow> a = (b :: byte)"
  by (rule bit_word_eqI) simp

lemma mask_test: "b AND bit_mask i \<noteq> 0 \<longleftrightarrow> bit b (nat (7 - i mod 8))" for b :: byte
proof
  assume b: "bit b (nat (7 - i mod 8))"
  have "bit (b AND bit_mask i) (nat (7 - i mod 8))"
    using b bit_mask_bit [of "7 - i mod 8" i] by (simp add: bit_and_iff)
  then show "b AND bit_mask i \<noteq> 0" by auto
next
  assume "b AND bit_mask i \<noteq> 0"
  then obtain n where n: "n < 8" "bit b n" "bit (bit_mask i) n"
    using byte_eqI [of "b AND bit_mask i" 0] by (auto simp: bit_and_iff)
  then show "bit b (nat (7 - i mod 8))" using bit_mask_bit [of "int n" i] by (metis nat_int of_nat_0_le_iff of_nat_less_iff of_nat_numeral)
qed


lemma bit_mask_nat: "n < 8 \<Longrightarrow> bit (bit_mask i) n \<longleftrightarrow> int n = 7 - i mod 8"
  using bit_mask_bit [of "int n" i] by simp

lemma mask_set: "(b OR bit_mask i) AND bit_mask j \<noteq> 0 \<longleftrightarrow> i mod 8 = j mod 8 \<or> b AND bit_mask j \<noteq> 0" for b :: byte
proof -
  have "nat (7 - j mod 8) < 8" "int (nat (7 - j mod 8)) = 7 - j mod 8" by auto
  then show ?thesis using bit_mask_nat [of "nat (7 - j mod 8)" i] by (auto simp: mask_test bit_or_iff)
qed

lemma mask_clear: "(b AND NOT (bit_mask i)) AND bit_mask j \<noteq> 0 \<longleftrightarrow> i mod 8 \<noteq> j mod 8 \<and> b AND bit_mask j \<noteq> 0" for b :: byte
proof -
  have k: "nat (7 - j mod 8) < 8" "int (nat (7 - j mod 8)) = 7 - j mod 8" by auto
  have "bit (NOT (bit_mask i)) (nat (7 - j mod 8)) \<longleftrightarrow> i mod 8 \<noteq> j mod 8"
    using k bit_mask_nat [of "nat (7 - j mod 8)" i] by (auto simp: bit_not_iff possible_bit_word)
  then show ?thesis by (auto simp: mask_test bit_and_iff)
qed

lemma check_index_ok: "check_index l i = Inr u \<longleftrightarrow> 0 \<le> i \<and> i < sl_size_bits l"
  by (simp add: check_index_def check_eq_Inr)

lemma sl_byte_index: "wf_status_list l \<Longrightarrow> 0 \<le> i \<Longrightarrow> i < sl_size_bits l \<Longrightarrow> nat (i div 8) < length (sl_bits l)"
proof -
  assume "wf_status_list l" and i: "0 \<le> i" "i < sl_size_bits l"
  then have n: "sl_size_bits l = 8 * (sl_size_bits l div 8)" "int (length (sl_bits l)) = sl_size_bits l div 8"
    by (auto simp: wf_status_list_def)
  then have "i div 8 < int (length (sl_bits l))" using i by presburger
  then show "nat (i div 8) < length (sl_bits l)" using i by (simp add: nat_less_iff)
qed

lemma sl_get_set:
  assumes "wf_status_list l" "sl_set l i v = Inr l'"
  shows "sl_get l' j = (if j = i then Inr v else sl_get l j)"
proof -
  have i: "0 \<le> i" "i < sl_size_bits l" and l': "l' = l\<lparr>sl_bits := (sl_bits l)[nat (i div 8) :=
      (if v then sl_bits l ! nat (i div 8) OR bit_mask i else sl_bits l ! nat (i div 8) AND NOT (bit_mask i))]\<rparr>"
    using assms(2) by (auto simp: sl_set_def rbind_eq_Inr check_index_ok Let_def)
  show ?thesis
  proof (cases "0 \<le> j \<and> j < sl_size_bits l")
    case False
    then show ?thesis using i l' by (auto simp: sl_get_def check_index_def)
  next
    case True
    then have c: "check_index l' j = Inr ()" "check_index l j = Inr ()" by (simp_all add: check_index_ok l')
    have lt: "nat (i div 8) < length (sl_bits l)" "nat (j div 8) < length (sl_bits l)"
      using sl_byte_index [OF assms(1)] i True by auto
    have eq: "nat (i div 8) = nat (j div 8) \<and> i mod 8 = j mod 8 \<longleftrightarrow> i = j"
    proof
      assume "nat (i div 8) = nat (j div 8) \<and> i mod 8 = j mod 8"
      moreover have "0 \<le> i div 8" "0 \<le> j div 8" using i True by (simp_all add: pos_imp_zdiv_nonneg_iff)
      ultimately have "i div 8 = j div 8" "i mod 8 = j mod 8" using eq_nat_nat_iff by blast+
      then show "i = j" by (metis div_mult_mod_eq)
    qed simp
    have g: "sl_get l j = Inr (sl_bits l ! nat (j div 8) AND bit_mask j \<noteq> 0)" by (simp add: sl_get_def c)
    show ?thesis
    proof (cases "nat (i div 8) = nat (j div 8)")
      case same: True
      with eq have eq': "i mod 8 = j mod 8 \<longleftrightarrow> j = i" by metis
      show ?thesis
      proof (cases v)
        case True
        have "sl_get l' j = Inr ((sl_bits l ! nat (j div 8) OR bit_mask i) AND bit_mask j \<noteq> 0)"
          unfolding sl_get_def c using l' lt same True by simp
        then show ?thesis unfolding mask_set eq' g using True by (cases "j = i") simp_all
      next
        case False
        have "sl_get l' j = Inr ((sl_bits l ! nat (j div 8) AND NOT (bit_mask i)) AND bit_mask j \<noteq> 0)"
          unfolding sl_get_def c using l' lt same False by simp
        then show ?thesis unfolding mask_clear eq' g using False by (cases "j = i") simp_all
      qed
    next
      case False
      then have "j \<noteq> i" by auto
      moreover have "sl_bits l' ! nat (j div 8) = sl_bits l ! nat (j div 8)" using False by (simp add: l')
      ultimately show ?thesis unfolding sl_get_def c by simp
    qed
  qed
qed

lemma sl_set_wf: "wf_status_list l \<Longrightarrow> sl_set l i v = Inr l' \<Longrightarrow> wf_status_list l' \<and> sl_size_bits l' = sl_size_bits l"
  by (auto simp: sl_set_def rbind_eq_Inr wf_status_list_def Let_def)

interpretation slb: bit_table wf_status_list sl_size_bits sl_get sl_set
proof unfold_locales
  fix t i v t' j
  show "wf_status_list t \<Longrightarrow> 0 \<le> i \<Longrightarrow> i < sl_size_bits t \<Longrightarrow> succeeds (sl_get t i)"
    by (simp add: sl_get_def check_index_def)
  show "wf_status_list t \<Longrightarrow> 0 \<le> i \<Longrightarrow> i < sl_size_bits t \<Longrightarrow> succeeds (sl_set t i v)"
    by (simp add: sl_set_def check_index_def Let_def)
  show "sl_set t i v = Inr t' \<Longrightarrow> 0 \<le> i \<and> i < sl_size_bits t"
    by (auto simp: sl_set_def rbind_eq_Inr check_index_ok)
  show "wf_status_list t \<Longrightarrow> sl_set t i v = Inr t' \<Longrightarrow> wf_status_list t' \<and> sl_size_bits t' = sl_size_bits t"
    by (rule sl_set_wf)
  show "wf_status_list t \<Longrightarrow> sl_set t i v = Inr t' \<Longrightarrow> sl_get t' j = (if j = i then Inr v else sl_get t j)"
    by (rule sl_get_set)
qed

lemma status_list_new_wf: "status_list_new n d = Inr l \<Longrightarrow> wf_status_list l \<and> sl_size_bits l = n"
  by (auto simp: status_list_new_def wf_status_list_def split: if_splits option.splits)

lemma status_list_new_clear:
  assumes "status_list_new n None = Inr l" "0 \<le> j" "j < n"
  shows "sl_get l j = Inr False"
proof -
  have "l = \<lparr>sl_size_bits = n, sl_bits = replicate (nat (n div 8)) 0\<rparr>"
    using assms(1) by (auto simp: status_list_new_def split: if_splits)
  moreover have "nat (j div 8) < nat (n div 8)"
    using sl_byte_index [of l j] status_list_new_wf [OF assms(1)] calculation assms(2,3) by simp
  ultimately show ?thesis using assms by (simp add: sl_get_def check_index_def)
qed

subsection \<open>Encoding\<close>

lemma sl_decode_encode:
  assumes "wf_status_list l" "decompress (compress (sl_bits l)) = Inr (sl_bits l)"
  shows "sl_decode decompress (sl_encode compress l) (sl_size_bits l) = Inr l"
proof -
  have "b64u_decode (b64u_encode (compress (sl_bits l))) = Inr (compress (sl_bits l))" by (rule b64u_decode_encode)
  then have "61 \<notin> set (b64u_encode (compress (sl_bits l)))"
    "urlsafe_b64decode (b64u_encode (compress (sl_bits l)) @ b64_padding (b64u_encode (compress (sl_bits l)))) = Inr (compress (sl_bits l))"
    by (auto simp: b64u_decode_def split: if_splits sum.splits)
  then show ?thesis
    using assms by (simp add: sl_decode_def sl_encode_def status_list_new_def wf_status_list_def)
qed


text \<open>C31: Flags survive publication. Raise any flags, in any order and with repetitions, on a new list,
  encode it and decode it: the decoded list has exactly the raised bits. Relied on: gzip gives back
  what it compressed.\<close>

theorem status_flags_published:
  assumes "status_list_new n None = Inr l" "slb.raise_all indices l = Inr l'"
    and "decompress (compress (sl_bits l')) = Inr (sl_bits l')" "0 \<le> j" "j < n"
  shows "rbind (sl_decode decompress (sl_encode compress l') n) (\<lambda>m. sl_get m j) = Inr (j \<in> set indices)"
proof -
  have wf: "wf_status_list l" "sl_size_bits l = n" using status_list_new_wf [OF assms(1)] by simp_all
  have wf': "wf_status_list l'" "sl_size_bits l' = n" using slb.raise_all_wf [OF wf(1) assms(2)] wf(2) by simp_all
  have "sl_decode decompress (sl_encode compress l') n = Inr l'"
    using sl_decode_encode [where decompress = decompress and compress = compress, OF wf'(1) assms(3)] wf'(2) by simp
  then show ?thesis
    using slb.raise_all_get [OF wf(1) assms(2), of j] status_list_new_clear [OF assms(1,4,5)] by simp
qed

theorem status_flags_published_witness:
  "\<exists>l l'. status_list_new 16 None = Inr l \<and> slb.raise_all [9, 0, 9] l = Inr l' \<and>
     rbind (sl_decode Inr (sl_encode id l') 16) (\<lambda>m. sl_get m 9) = Inr True \<and>
     rbind (sl_decode Inr (sl_encode id l') 16) (\<lambda>m. sl_get m 8) = Inr False"
proof -
  obtain l where l: "status_list_new 16 None = Inr l" by (simp add: status_list_new_def)
  have wf: "wf_status_list l" "sl_size_bits l = 16" using status_list_new_wf [OF l] by simp_all
  have "succeeds (slb.raise_all [9, 0, 9] l)"
    by (rule slb.raise_all_total [OF wf(1)]) (simp add: wf(2))
  then obtain l' where l': "slb.raise_all [9, 0, 9] l = Inr l'" by (auto simp: succeeds_iff)
  have "rbind (sl_decode Inr (sl_encode id l') 16) (\<lambda>m. sl_get m 9) = Inr (9 \<in> set [9, 0, 9 :: int])"
    by (rule status_flags_published [OF l l']) simp_all
  moreover have "rbind (sl_decode Inr (sl_encode id l') 16) (\<lambda>m. sl_get m 8) = Inr (8 \<in> set [9, 0, 9 :: int])"
    by (rule status_flags_published [OF l l']) simp_all
  ultimately show ?thesis using l l' by auto
qed

subsection \<open>The credential of a list\<close>

lemma jobj_get_append: "ucs_of k \<notin> fst ` set ys \<Longrightarrow> jobj_get (xs @ ys) k = jobj_get xs k"
proof -
  assume "ucs_of k \<notin> fst ` set ys"
  then have "map_of ys (ucs_of k) = None" by (simp add: map_of_eq_None_iff)
  then show "jobj_get (xs @ ys) k = jobj_get xs k" by (simp add: jobj_get_def map_add_def split: option.split)
qed

lemma build_list_members:
  assumes "build_status_list_credential sha256 sign compress now_iso lid did purpose l key vm = Inr doc"
  shows "purpose \<in> set PURPOSES \<and> jobj_get doc ''credentialSubject'' = Some (JObj
          [(ucs_of ''id'', JStr (lid @ ucs_of ''#list'')), (ucs_of ''type'', jstr ''BitstringStatusList''),
           (ucs_of ''statusPurpose'', jstr purpose), (ucs_of ''encodedList'', JStr (sl_encode compress l))])"
proof -
  let ?s = "JObj [(ucs_of ''id'', JStr (lid @ ucs_of ''#list'')), (ucs_of ''type'', jstr ''BitstringStatusList''),
           (ucs_of ''statusPurpose'', jstr purpose), (ucs_of ''encodedList'', JStr (sl_encode compress l))]"
  let ?d = "[(ucs_of ''@context'', VC_CONTEXT), (ucs_of ''id'', JStr lid),
        (ucs_of ''type'', JArr [jstr ''VerifiableCredential'', jstr ''BitstringStatusListCredential'']),
        (ucs_of ''issuer'', JStr did), (ucs_of ''validFrom'', JStr now_iso), (ucs_of ''credentialSubject'', ?s)]"
  have p: "purpose \<in> set PURPOSES" using assms by (auto simp: build_status_list_credential_def split: if_splits)
  have g: "jobj_get ?d ''credentialSubject'' = Some ?s" by (simp add: jobj_get_def)
  show ?thesis
  proof (cases key)
    case None
    with assms p g show ?thesis by (simp add: build_status_list_credential_def Let_def)
  next
    case (Some k)
    with assms p obtain m where "issue_proof sha256 sign now_iso ?d k m (ucs_of ''assertionMethod'') None = Inr doc"
      by (auto simp: build_status_list_credential_def Let_def split: option.splits list.splits)
    then obtain pf where "doc = ?d @ [(ucs_of ''proof'', pf)]" by (rule issue_proof_members) blast
    with p g jobj_get_append [of "''credentialSubject''" "[(ucs_of ''proof'', pf)]" ?d] show ?thesis by simp
  qed
qed

lemma find_purpose: "purpose \<in> set PURPOSES \<Longrightarrow> find (\<lambda>p. purpose = p) PURPOSES = Some purpose"
  by (auto simp: PURPOSES_def)

lemma parse_built_list:
  assumes "build_status_list_credential sha256 sign compress now_iso lid did purpose l key vm = Inr doc"
    and "wf_status_list l" "sl_size_bits l = DEFAULT_LIST_SIZE_BITS" "decompress (compress (sl_bits l)) = Inr (sl_bits l)"
  shows "parse_status_list_credential decompress doc = Inr (purpose, l)"
  using build_list_members [OF assms(1)] sl_decode_encode [where decompress = decompress and compress = compress, OF assms(2,4)] assms(3)
  by (simp add: parse_status_list_credential_def jobj_get_def find_purpose)

text \<open>A published list is read back: the credential built for a list of the default size, signed or
  not, parses to its purpose and to the very same bits.\<close>

theorem status_credential_roundtrip:
  assumes "build_status_list_credential sha256 sign compress now_iso lid did purpose l key vm = Inr doc"
    and "wf_status_list l" "sl_size_bits l = DEFAULT_LIST_SIZE_BITS" "decompress (compress (sl_bits l)) = Inr (sl_bits l)"
  shows "parse_status_list_credential decompress doc = Inr (purpose, l)"
  using assms by (rule parse_built_list)

theorem status_credential_roundtrip_witness:
  "\<exists>l doc. status_list_new DEFAULT_LIST_SIZE_BITS None = Inr l \<and>
     build_status_list_credential toy_hash toy_sign id (ucs_of ''now'') (ucs_of ''urn:l'') (ucs_of ''did'') ''void'' l None None = Inr doc \<and>
     parse_status_list_credential Inr doc = Inr (''void'', l)"
proof -
  have "succeeds (status_list_new DEFAULT_LIST_SIZE_BITS None)"
    by (simp add: status_list_new_def DEFAULT_LIST_SIZE_BITS_def)
  then obtain l where l: "status_list_new DEFAULT_LIST_SIZE_BITS None = Inr l" by (auto simp: succeeds_iff)
  have "succeeds (build_status_list_credential toy_hash toy_sign id (ucs_of ''now'') (ucs_of ''urn:l'') (ucs_of ''did'') ''void'' l None None)"
    by (simp add: build_status_list_credential_def PURPOSES_def Let_def)
  then obtain doc where d: "build_status_list_credential toy_hash toy_sign id (ucs_of ''now'') (ucs_of ''urn:l'') (ucs_of ''did'') ''void'' l None None = Inr doc"
    by (auto simp: succeeds_iff)
  have "parse_status_list_credential Inr doc = Inr (''void'', l)"
    by (rule status_credential_roundtrip [OF d]) (use status_list_new_wf [OF l] in simp_all)
  with l d show ?thesis by blast
qed

end
