(* ===== verification/Envelope.thy ===== *)
theory Envelope
  imports Eddsa Vc
begin

section \<open>Event envelopes\<close>

text \<open>
  \<open>src/taxstamps/events/envelope.py\<close>: the FHIR message wrap of an event, signed by a JWS over
  the canonical bytes of the envelope without \<open>provenance.signature\<close>, and the consumer's
  fail-closed verification. An object is the list of its members. The three fresh UUIDs and the
  clock reading are arguments.
\<close>

definition ENVELOPE_VERSION :: string where
  "ENVELOPE_VERSION = ''1.0''"

definition EVENT_RESOURCES :: "(string \<times> string) list" where
  "EVENT_RESOURCES =
    [(''stamps.assessed.v1'', ''TaxStampAssessed''),
     (''stamps.approved.v1'', ''TaxStampAssessmentApproved''),
     (''stamps.issued.v1'', ''TaxStampBatchIssued''),
     (''stamps.activated.v1'', ''TaxStampBatchActivated''),
     (''stamps.verified.v1'', ''TaxStampVerified''),
     (''stamps.voided.v1'', ''TaxStampVoided'')]"

definition dict_setdefault :: "ucs \<Rightarrow> json \<Rightarrow> (ucs \<times> json) list \<Rightarrow> (ucs \<times> json) list" where
  "dict_setdefault k v d = (if k \<in> fst ` set d then d else d @ [(k, v)])"

definition build_envelope ::
  "string \<Rightarrow> (ucs \<times> json) list \<Rightarrow> string \<Rightarrow> string \<Rightarrow> string \<Rightarrow> string \<Rightarrow> string option \<Rightarrow> string option
    \<Rightarrow> string \<times> string \<times> string \<Rightarrow> string \<Rightarrow> (ucs \<times> json) list result" where
  "build_envelope event_type resource producer classification principal_id principal_role correlation_id event_id uuids now_iso =
    (case map_of EVENT_RESOURCES event_type of
       None \<Rightarrow> Inl (EnvelopeError ''unknown-event-type'' event_type)
     | Some name \<Rightarrow>
         (let (u1, u2, u3) = uuids;
              event_id' = (case event_id of Some e \<Rightarrow> if e = [] then ''evt-'' @ u1 else e | None \<Rightarrow> ''evt-'' @ u1);
              correlation_id' = (case correlation_id of Some c \<Rightarrow> if c = [] then event_id' else c | None \<Rightarrow> event_id');
              resource' = dict_setdefault (ucs_of ''@type'')
                (jstr (''type.googleapis.com/blueeconomy.contracts.v1.'' @ name)) resource
          in Inr
            [(ucs_of ''envelopeVersion'', jstr ENVELOPE_VERSION),
             (ucs_of ''eventId'', jstr event_id'),
             (ucs_of ''eventType'', jstr event_type),
             (ucs_of ''occurredAt'', jstr now_iso),
             (ucs_of ''producer'', jstr producer),
             (ucs_of ''correlationId'', jstr correlation_id'),
             (ucs_of ''classification'', jstr classification),
             (ucs_of ''fhir'', JObj
               [(ucs_of ''resourceType'', jstr ''Bundle''),
                (ucs_of ''type'', jstr ''message''),
                (ucs_of ''bundleId'', jstr (''bdl-'' @ u2)),
                (ucs_of ''entry'', JArr [JObj
                  [(ucs_of ''fullUrl'', jstr (''urn:uuid:'' @ u3)),
                   (ucs_of ''resource'', JObj resource')]])]),
             (ucs_of ''provenance'', JObj
               [(ucs_of ''principalId'', jstr principal_id),
                (ucs_of ''principalRole'', jstr principal_role),
                (ucs_of ''ledgerCommitHash'', jstr []),
                (ucs_of ''signature'', jstr [])])]))"

definition provenance_of :: "(ucs \<times> json) list \<Rightarrow> (ucs \<times> json) list result" where
  "provenance_of envelope =
    (case jobj_get envelope ''provenance'' of
       None \<Rightarrow> Inr []
     | Some (JObj p) \<Rightarrow> Inr p
     | Some _ \<Rightarrow> Inl (AttributeError ''provenance is not an object''))"

definition without_signature :: "(ucs \<times> json) list \<Rightarrow> (ucs \<times> json) list result" where
  "without_signature envelope =
    rbind (provenance_of envelope) (\<lambda>p.
      Inr (dict_set (ucs_of ''provenance'') (JObj (without_key ''signature'' p)) envelope))"

definition sign_envelope ::
  "('sk \<Rightarrow> bytes \<Rightarrow> bytes) \<Rightarrow> (ucs \<times> json) list \<Rightarrow> 'sk signing_key \<Rightarrow> (ucs \<times> json) list result" where
  "sign_envelope sign envelope key =
    rbind (without_signature envelope) (\<lambda>unsigned.
    rbind (canonicalize_bytes (JObj unsigned)) (\<lambda>payload.
      case jobj_get envelope ''provenance'' of
        Some (JObj p) \<Rightarrow>
          Inr (dict_set (ucs_of ''provenance'')
            (JObj (dict_set (ucs_of ''signature'') (JStr (jws_sign sign key payload)) p)) envelope)
      | _ \<Rightarrow> Inl (KeyError ''provenance'')))"

text \<open>Truth of a JSON value, and \<open>str(v).endswith(s)\<close>, which only holds of strings here.\<close>

definition json_truthy :: "json \<Rightarrow> bool" where
  "json_truthy v = (case v of
     JNull \<Rightarrow> False | JBool b \<Rightarrow> b | JInt i \<Rightarrow> i \<noteq> 0
   | JFloat x \<Rightarrow> (case x of FFin _ rep \<Rightarrow> fst (shortest_digits rep) \<noteq> ''0'' | _ \<Rightarrow> True)
   | JStr s \<Rightarrow> s \<noteq> [] | JArr vs \<Rightarrow> vs \<noteq> [] | JObj kvs \<Rightarrow> kvs \<noteq> [])"

definition names_type :: "json option \<Rightarrow> string \<Rightarrow> bool" where
  "names_type v known = (case v of
     Some (JStr s) \<Rightarrow> (let e = ucs_of (''.'' @ known) in length e \<le> length s \<and> drop (length s - length e) s = e)
   | _ \<Rightarrow> False)"

definition envelope_resource :: "(ucs \<times> json) list \<Rightarrow> string option \<Rightarrow> (ucs \<times> json) list result" where
  "envelope_resource envelope expected_event_type =
    (if jobj_get envelope ''envelopeVersion'' \<noteq> Some (jstr ENVELOPE_VERSION)
     then Inl (EnvelopeError ''malformed-envelope'' ''envelopeVersion must be 1.0'')
     else case jobj_get envelope ''eventType'' of
       Some (JStr (u # t)) \<Rightarrow>
         let event_type = u # t in
         if expected_event_type \<noteq> None \<and> event_type \<noteq> ucs_of (the expected_event_type)
         then Inl (EnvelopeError ''event-type-mismatch'' (text_of event_type @ '' != '' @ the expected_event_type))
         else (case jobj_get envelope ''fhir'' of
             Some (JObj fhir) \<Rightarrow>
               if jobj_get fhir ''resourceType'' \<noteq> Some (jstr ''Bundle'') \<or> jobj_get fhir ''type'' \<noteq> Some (jstr ''message'')
               then Inl (EnvelopeError ''malformed-envelope'' ''fhir must be a FHIR message Bundle'')
               else (case jobj_get fhir ''entry'' of
                   Some (JArr [JObj entry]) \<Rightarrow>
                     (case jobj_get entry ''resource'' of
                        Some (JObj resource) \<Rightarrow>
                          (case find (\<lambda>er. ucs_of (fst er) = event_type) EVENT_RESOURCES of
                             Some (_, known) \<Rightarrow>
                               if names_type (jobj_get resource ''@type'') known then Inr resource
                               else Inl (EnvelopeError ''resource-type-mismatch''
                                 (''type_url '' @ (case jobj_get resource ''@type'' of Some v \<Rightarrow> json_repr v | None \<Rightarrow> py_repr [])
                                  @ '' does not name '' @ known))
                           | None \<Rightarrow> Inr resource)
                      | _ \<Rightarrow> Inl (EnvelopeError ''malformed-envelope'' ''entry resource missing''))
                 | _ \<Rightarrow> Inl (EnvelopeError ''malformed-envelope'' ''message Bundle must carry exactly one entry''))
           | _ \<Rightarrow> Inl (EnvelopeError ''malformed-envelope'' ''fhir must be a FHIR message Bundle''))
     | _ \<Rightarrow> Inl (EnvelopeError ''malformed-envelope'' ''eventType missing''))"

text \<open>\<open>except JwsError\<close>: the reason is kept, the text of the exception becomes the detail.\<close>

definition as_envelope_error :: "exn \<Rightarrow> exn" where
  "as_envelope_error e = (case e of JwsError r d \<Rightarrow> EnvelopeError r (if d = [] then r else r @ '': '' @ d) | _ \<Rightarrow> e)"

definition verify_envelope ::
  "(string \<Rightarrow> pyfloat) \<Rightarrow> (bytes \<Rightarrow> bytes \<Rightarrow> bytes \<Rightarrow> bool) \<Rightarrow> json \<Rightarrow> key_directory \<Rightarrow> string option \<Rightarrow> bool
    \<Rightarrow> (ucs \<times> json) list result" where
  "verify_envelope rf verify envelope directory expected_event_type require_signature =
    (case envelope of
       JObj env \<Rightarrow>
         rbind (envelope_resource env expected_event_type) (\<lambda>resource.
         rbind (provenance_of env) (\<lambda>prov.
           let signature = (case jobj_get prov ''signature'' of Some v \<Rightarrow> v | None \<Rightarrow> JStr []) in
           if \<not> require_signature then Inr resource
           else if \<not> json_truthy signature then Inl (EnvelopeError ''malformed-jws'' ''provenance.signature missing'')
           else rbind (without_signature env) (\<lambda>unsigned.
                rbind (canonicalize_bytes (JObj unsigned)) (\<lambda>expected_payload.
                rbind (map_error as_envelope_error (jws_verify rf verify signature directory (Some expected_payload))) (\<lambda>_.
                  Inr resource)))))
     | _ \<Rightarrow> Inl (EnvelopeError ''malformed-envelope'' ''not an object''))"

subsection \<open>What an accepted signature covers\<close>

lemma jws_verify_payload_unique:
  assumes "jws_verify rf verify jws directory (Some p) = Inr x" "jws_verify rf' verify' jws directory' (Some q) = Inr y"
  shows "p = q"
proof -
  obtain s where s: "jws = JStr s" using assms(1) by (cases jws) (auto simp: jws_verify_def)
  obtain seg1 seg2 seg3 where a: "split_on 46 s = [seg1, seg2, seg3]" "b64u_decode seg2 = Inr p"
    using assms(1) unfolding s jws_verify_segments by auto
  obtain seg1' seg2' seg3' where b: "split_on 46 s = [seg1', seg2', seg3']" "b64u_decode seg2' = Inr q"
    using assms(2) unfolding s jws_verify_segments by auto
  show ?thesis using a b by simp
qed

lemma verify_envelope_signed:
  assumes "verify_envelope rf verify (JObj env) directory et True = Inr resource"
  obtains prov unsigned p x where
    "provenance_of env = Inr prov" "without_signature env = Inr unsigned" "canonicalize_bytes (JObj unsigned) = Inr p"
    "jws_verify rf verify (case jobj_get prov ''signature'' of Some v \<Rightarrow> v | None \<Rightarrow> JStr []) directory (Some p) = Inr x"
    "envelope_resource env et = Inr resource"
  using assms by (auto simp: verify_envelope_def Let_def rbind_eq_Inr map_error_eq_Inr split: if_splits)


subsection \<open>The producer's envelopes are accepted\<close>

definition unsigned_provenance :: "string \<Rightarrow> string \<Rightarrow> (ucs \<times> json) list" where
  "unsigned_provenance pid role = [(ucs_of ''principalId'', jstr pid), (ucs_of ''principalRole'', jstr role), (ucs_of ''ledgerCommitHash'', jstr [])]"

lemma build_envelope_shape:
  assumes "build_envelope et resource producer classification pid role corr eid uuids now_iso = Inr env"
  obtains name eid' corr' b u where
    "map_of EVENT_RESOURCES et = Some name"
    "env = [(ucs_of ''envelopeVersion'', jstr ENVELOPE_VERSION), (ucs_of ''eventId'', jstr eid'), (ucs_of ''eventType'', jstr et),
       (ucs_of ''occurredAt'', jstr now_iso), (ucs_of ''producer'', jstr producer), (ucs_of ''correlationId'', jstr corr'),
       (ucs_of ''classification'', jstr classification),
       (ucs_of ''fhir'', JObj [(ucs_of ''resourceType'', jstr ''Bundle''), (ucs_of ''type'', jstr ''message''), (ucs_of ''bundleId'', jstr b),
          (ucs_of ''entry'', JArr [JObj [(ucs_of ''fullUrl'', jstr u), (ucs_of ''resource'',
             JObj (dict_setdefault (ucs_of ''@type'') (jstr (''type.googleapis.com/blueeconomy.contracts.v1.'' @ name)) resource))]])])]
       @ [(ucs_of ''provenance'', JObj (unsigned_provenance pid role @ [(ucs_of ''signature'', jstr [])]))]"
  using assms by (auto simp: build_envelope_def unsigned_provenance_def Let_def split: option.splits prod.splits)

lemma names_type_suffix: "names_type (Some (jstr (a @ ''.'' @ known))) known"
  by (simp add: names_type_def Let_def)

lemma known_resource: "map_of EVENT_RESOURCES et = Some name \<Longrightarrow> \<exists>k. find (\<lambda>er. ucs_of (fst er) = ucs_of et) EVENT_RESOURCES = Some (k, name)"
  by (auto simp: EVENT_RESOURCES_def split: if_splits)

lemma dict_set_last: "k \<notin> fst ` set d \<Longrightarrow> dict_set k v (d @ [(k, w)]) = d @ [(k, v)]"
  by (induction d) auto

lemma built_members:
  assumes "build_envelope et resource producer classification pid role corr eid uuids now_iso = Inr env"
    and "ucs_of ''@type'' \<notin> fst ` set resource"
  obtains d name where "env = d @ [(ucs_of ''provenance'', JObj (unsigned_provenance pid role @ [(ucs_of ''signature'', jstr [])]))]"
    "ucs_of ''provenance'' \<notin> fst ` set d" "map_of EVENT_RESOURCES et = Some name"
    "\<And>p. envelope_resource (d @ [(ucs_of ''provenance'', p)]) (Some et) =
       Inr (resource @ [(ucs_of ''@type'', jstr (''type.googleapis.com/blueeconomy.contracts.v1.'' @ name))])"
proof -
  obtain name eid' corr' b u where m: "map_of EVENT_RESOURCES et = Some name"
    and env: "env = [(ucs_of ''envelopeVersion'', jstr ENVELOPE_VERSION), (ucs_of ''eventId'', jstr eid'), (ucs_of ''eventType'', jstr et),
       (ucs_of ''occurredAt'', jstr now_iso), (ucs_of ''producer'', jstr producer), (ucs_of ''correlationId'', jstr corr'),
       (ucs_of ''classification'', jstr classification),
       (ucs_of ''fhir'', JObj [(ucs_of ''resourceType'', jstr ''Bundle''), (ucs_of ''type'', jstr ''message''), (ucs_of ''bundleId'', jstr b),
          (ucs_of ''entry'', JArr [JObj [(ucs_of ''fullUrl'', jstr u), (ucs_of ''resource'',
             JObj (dict_setdefault (ucs_of ''@type'') (jstr (''type.googleapis.com/blueeconomy.contracts.v1.'' @ name)) resource))]])])]
       @ [(ucs_of ''provenance'', JObj (unsigned_provenance pid role @ [(ucs_of ''signature'', jstr [])]))]"
    (is "env = ?d @ _")
    by (rule build_envelope_shape [OF assms(1)])
  have ty: "map_of (resource @ [(ucs_of ''@type'', v)]) (ucs_of ''@type'') = Some v" for v
    using assms(2) by (simp add: map_add_def map_of_eq_None_iff [THEN iffD2])
  have et: "et \<noteq> []" "ucs_of et \<noteq> []" using m by (auto simp: EVENT_RESOURCES_def)
  then obtain c t where ct: "ucs_of et = c # t" by (cases "ucs_of et") auto
  obtain k where k: "find (\<lambda>er. ucs_of (fst er) = ucs_of et) EVENT_RESOURCES = Some (k, name)" using known_resource [OF m] by blast
  have nt: "names_type (Some (jstr (''type.googleapis.com/blueeconomy.contracts.v1.'' @ name))) name"
    using names_type_suffix [of "''type.googleapis.com/blueeconomy.contracts.v1''" name] by simp
  have "envelope_resource (?d @ [(ucs_of ''provenance'', p)]) (Some et) =
       Inr (resource @ [(ucs_of ''@type'', jstr (''type.googleapis.com/blueeconomy.contracts.v1.'' @ name))])" for p
    using assms(2) nt k ct ty by (simp add: envelope_resource_def jobj_get_def dict_setdefault_def Let_def)
  moreover have "ucs_of ''provenance'' \<notin> fst ` set ?d" by simp
  ultimately show ?thesis using that [OF env _ m] by blast
qed

lemma canonicalize_bytes_not_Nil: "canonicalize_bytes (JObj d) = Inr p \<Longrightarrow> p \<noteq> []"
  by (auto simp: canonicalize_bytes_def canonicalize_def rbind_eq_Inr utf8_encode_def utf8_units_def split: if_splits)

lemma signed_envelope_aux:
  assumes "build_envelope et resource producer classification pid role corr eid uuids now_iso = Inr env"
    and "sign_envelope sign env key = Inr out" "ucs_of ''@type'' \<notin> fst ` set resource"
    and "kid_core (sk_kid key)" "map_of directory (sk_kid key) = Some (public_of (sk_private_key key))"
    and "\<And>m. verify (public_of (sk_private_key key)) (sign (sk_private_key key) m) m"
    and "\<And>m. sign (sk_private_key key) m \<noteq> []"
  shows "\<exists>name. map_of EVENT_RESOURCES et = Some name \<and> verify_envelope rf verify (JObj out) directory (Some et) True =
     Inr (resource @ [(ucs_of ''@type'', jstr (''type.googleapis.com/blueeconomy.contracts.v1.'' @ name))])"
proof -
  let ?prov = "ucs_of ''provenance''" and ?sig = "ucs_of ''signature''"
  obtain d name where env: "env = d @ [(?prov, JObj (unsigned_provenance pid role @ [(?sig, jstr [])]))]"
    and d: "?prov \<notin> fst ` set d" and m: "map_of EVENT_RESOURCES et = Some name"
    and res: "\<And>p. envelope_resource (d @ [(?prov, p)]) (Some et) =
       Inr (resource @ [(ucs_of ''@type'', jstr (''type.googleapis.com/blueeconomy.contracts.v1.'' @ name))])"
    using built_members [OF assms(1,3)] by metis
  have get: "jobj_get (d @ [(?prov, v)]) ''provenance'' = Some v" for v
    using d by (simp add: jobj_get_def map_add_def map_of_eq_None_iff [THEN iffD2])
  have ws: "without_signature (d @ [(?prov, JObj (unsigned_provenance pid role @ [(?sig, v)]))]) =
      Inr (d @ [(?prov, JObj (unsigned_provenance pid role))])" for v
    by (simp add: without_signature_def provenance_of_def get dict_set_last [OF d] without_key_def unsigned_provenance_def)
  obtain p where p: "canonicalize_bytes (JObj (d @ [(?prov, JObj (unsigned_provenance pid role))])) = Inr p"
    and out: "out = d @ [(?prov, JObj (dict_set ?sig (JStr (jws_sign sign key p)) (unsigned_provenance pid role @ [(?sig, jstr [])])))]"
    using assms(2) by (auto simp: sign_envelope_def env ws get rbind_eq_Inr dict_set_last [OF d])
  then have out: "out = d @ [(?prov, JObj (unsigned_provenance pid role @ [(?sig, JStr (jws_sign sign key p))]))]"
    by (simp add: unsigned_provenance_def)
  have "jws_verify rf verify (JStr (jws_sign sign key p)) directory (Some p) = Inr p"
    by (rule jws_sign_verify_aux [OF assms(4) canonicalize_bytes_not_Nil [OF p]]) (use assms(5-7) in simp_all)
  moreover have "provenance_of out = Inr (unsigned_provenance pid role @ [(?sig, JStr (jws_sign sign key p))])"
    by (simp add: provenance_of_def out get)
  moreover have "jobj_get (unsigned_provenance pid role @ [(?sig, JStr (jws_sign sign key p))]) ''signature'' = Some (JStr (jws_sign sign key p))"
    by (simp add: jobj_get_def unsigned_provenance_def)
  moreover have "json_truthy (JStr (jws_sign sign key p))" by (simp add: json_truthy_def jws_sign_def Let_def)
  ultimately have "verify_envelope rf verify (JObj out) directory (Some et) True =
     Inr (resource @ [(ucs_of ''@type'', jstr (''type.googleapis.com/blueeconomy.contracts.v1.'' @ name))])"
    by (simp add: verify_envelope_def res out ws p Let_def)
  with m show ?thesis by blast
qed

text \<open>An envelope the service builds and signs is accepted by the consumer: verification under a
  directory that has the signer's key, with the event's type expected, returns the event's resource
  with its \<open>@type\<close>. Relied on: the scheme verifies what it signed, and no signature is empty.\<close>

theorem signed_envelope_accepted:
  assumes "build_envelope et resource producer classification pid role corr eid uuids now_iso = Inr env"
    and "sign_envelope sign env key = Inr out" "ucs_of ''@type'' \<notin> fst ` set resource"
    and "kid_core (sk_kid key)" "map_of directory (sk_kid key) = Some (public_of (sk_private_key key))"
    and "\<And>m. verify (public_of (sk_private_key key)) (sign (sk_private_key key) m) m"
    and "\<And>m. sign (sk_private_key key) m \<noteq> []"
  shows "\<exists>name. map_of EVENT_RESOURCES et = Some name \<and> verify_envelope rf verify (JObj out) directory (Some et) True =
     Inr (resource @ [(ucs_of ''@type'', jstr (''type.googleapis.com/blueeconomy.contracts.v1.'' @ name))])"
  using assms by (rule signed_envelope_aux)


text \<open>Building and signing an event never fail on text and safe integers.\<close>

lemma jcs_ok_text [simp]: "jcs_ok (jstr s)"
  by simp

lemma sign_built_total:
  assumes "build_envelope et resource producer classification pid role corr eid uuids now_iso = Inr env" "jcs_ok (JObj resource)"
  shows "succeeds (sign_envelope sign env key)"
proof -
  obtain name eid' corr' b u where
    env: "env = [(ucs_of ''envelopeVersion'', jstr ENVELOPE_VERSION), (ucs_of ''eventId'', jstr eid'), (ucs_of ''eventType'', jstr et),
       (ucs_of ''occurredAt'', jstr now_iso), (ucs_of ''producer'', jstr producer), (ucs_of ''correlationId'', jstr corr'),
       (ucs_of ''classification'', jstr classification),
       (ucs_of ''fhir'', JObj [(ucs_of ''resourceType'', jstr ''Bundle''), (ucs_of ''type'', jstr ''message''), (ucs_of ''bundleId'', jstr b),
          (ucs_of ''entry'', JArr [JObj [(ucs_of ''fullUrl'', jstr u), (ucs_of ''resource'',
             JObj (dict_setdefault (ucs_of ''@type'') (jstr (''type.googleapis.com/blueeconomy.contracts.v1.'' @ name)) resource))]])])]
       @ [(ucs_of ''provenance'', JObj (unsigned_provenance pid role @ [(ucs_of ''signature'', jstr [])]))]" (is "env = ?d @ _")
    by (rule build_envelope_shape [OF assms(1)])
  have get: "jobj_get env ''provenance'' = Some (JObj (unsigned_provenance pid role @ [(ucs_of ''signature'', jstr [])]))"
    unfolding env by (simp add: jobj_get_def)
  have ws: "without_signature env = Inr (?d @ [(ucs_of ''provenance'', JObj (unsigned_provenance pid role))])"
    by (simp add: without_signature_def provenance_of_def get without_key_def unsigned_provenance_def) (simp add: env)
  have "jcs_ok (JObj (?d @ [(ucs_of ''provenance'', JObj (unsigned_provenance pid role))]))"
    using assms(2) by (simp add: dict_setdefault_def unsigned_provenance_def)
  then obtain p where "canonicalize_bytes (JObj (?d @ [(ucs_of ''provenance'', JObj (unsigned_provenance pid role))])) = Inr p"
    by (rule canonicalize_totalE)
  then show ?thesis by (simp add: sign_envelope_def ws get)
qed

lemma build_envelope_total: "map_of EVENT_RESOURCES et = Some name \<Longrightarrow>
    succeeds (build_envelope et resource producer classification pid role corr eid uuids now_iso)"
  by (simp add: build_envelope_def Let_def split: prod.splits)

lemmas envelope_eval = build_envelope_def EVENT_RESOURCES_def dict_setdefault_def sign_envelope_def without_signature_def
  provenance_of_def without_key_def jobj_get_def ENVELOPE_VERSION_def Let_def

lemma toy_signed:
  fixes key :: "bytes signing_key"
  obtains env out where
    "build_envelope ''stamps.voided.v1'' [(ucs_of ''serial'', jstr ''NG-1'')] ''p'' ''C'' ''sub'' ''role'' None None (''1'', ''2'', ''3'') ''now'' = Inr env"
    "sign_envelope toy_sign env key = Inr out"
proof -
  have "succeeds (build_envelope ''stamps.voided.v1'' [(ucs_of ''serial'', jstr ''NG-1'')] ''p'' ''C'' ''sub'' ''role'' None None (''1'', ''2'', ''3'') ''now'')"
    by (simp add: envelope_eval)
  then obtain env where env: "build_envelope ''stamps.voided.v1'' [(ucs_of ''serial'', jstr ''NG-1'')] ''p'' ''C'' ''sub'' ''role'' None None (''1'', ''2'', ''3'') ''now'' = Inr env"
    by (auto simp: succeeds_iff)
  have "succeeds (rbind (build_envelope ''stamps.voided.v1'' [(ucs_of ''serial'', jstr ''NG-1'')] ''p'' ''C'' ''sub'' ''role'' None None (''1'', ''2'', ''3'') ''now'')
     (\<lambda>env. sign_envelope toy_sign env key))"
    by (simp add: envelope_eval encode_eval)
  then obtain out where "sign_envelope toy_sign env key = Inr out" by (auto simp: env succeeds_iff)
  with env show ?thesis by (rule that)
qed

theorem signed_envelope_accepted_witness:
  "\<exists>env out.
     build_envelope ''stamps.voided.v1'' [(ucs_of ''serial'', jstr ''NG-1'')] ''p'' ''C'' ''sub'' ''role'' None None (''1'', ''2'', ''3'') ''now'' = Inr env \<and>
     sign_envelope toy_sign env \<lparr>sk_kid = ucs_of ''k'', sk_private_key = [7]\<rparr> = Inr out \<and>
     succeeds (verify_envelope (\<lambda>_. FNan) toy_verify (JObj out) [(ucs_of ''k'', [7])] (Some ''stamps.voided.v1'') True)"
proof -
  obtain env out where eo:
    "build_envelope ''stamps.voided.v1'' [(ucs_of ''serial'', jstr ''NG-1'')] ''p'' ''C'' ''sub'' ''role'' None None (''1'', ''2'', ''3'') ''now'' = Inr env"
    "sign_envelope toy_sign env \<lparr>sk_kid = ucs_of ''k'', sk_private_key = [7]\<rparr> = Inr out"
    by (rule toy_signed)
  have "\<exists>name. map_of EVENT_RESOURCES ''stamps.voided.v1'' = Some name \<and>
      verify_envelope (\<lambda>_. FNan) toy_verify (JObj out) [(ucs_of ''k'', [7])] (Some ''stamps.voided.v1'') True =
      Inr ([(ucs_of ''serial'', jstr ''NG-1'')] @ [(ucs_of ''@type'', jstr (''type.googleapis.com/blueeconomy.contracts.v1.'' @ name))])"
    by (rule signed_envelope_accepted [OF eo, where public_of = id])
      (simp_all add: kid_core_def kid_code_def ucs_of_def toy_sign_def toy_verify_def)
  with eo show ?thesis by auto
qed

subsection \<open>Signatures are not transferable\<close>

text \<open>C32: A signature belongs to one envelope. Two accepted envelopes that carry the same signature text,
  whatever the key directories, have the same content apart from the order of object members: nothing in
  an envelope, its resource or its provenance can be changed under a signature that is kept. (Values
  without floats; strings of code points.)\<close>

theorem envelope_signature_binds:
  assumes "verify_envelope rf verify (JObj e) directory et True = Inr r"
    and "verify_envelope rf' verify' (JObj e') directory' et' True = Inr r'"
    and "provenance_of e = Inr pr" "provenance_of e' = Inr pr'" "jobj_get pr ''signature'' = jobj_get pr' ''signature''"
    and "without_signature e = Inr u" "without_signature e' = Inr u'"
    and "float_free (JObj u)" "float_free (JObj u')" "wf_text (JObj u)" "wf_text (JObj u')"
  shows "jnorm (JObj u) = jnorm (JObj u')"
proof -
  let ?sig = "case jobj_get pr ''signature'' of Some v \<Rightarrow> v | None \<Rightarrow> JStr []"
  obtain p x where p: "canonicalize_bytes (JObj u) = Inr p" "jws_verify rf verify ?sig directory (Some p) = Inr x"
    using verify_envelope_signed [OF assms(1)] assms(3,6) by (metis sum.inject(2))
  obtain q y where q: "canonicalize_bytes (JObj u') = Inr q" "jws_verify rf' verify' ?sig directory' (Some q) = Inr y"
    using verify_envelope_signed [OF assms(2)] assms(4,5,7) by (metis sum.inject(2))
  have "p = q" by (rule jws_verify_payload_unique [OF p(2) q(2)])
  then show ?thesis using canonicalize_bytes_inj_aux [OF p(1) q(1) assms(8-11)] by simp
qed



theorem envelope_signature_binds_witness:
  "\<exists>env out u.
     build_envelope ''stamps.voided.v1'' [(ucs_of ''serial'', jstr ''NG-1'')] ''p'' ''C'' ''sub'' ''role'' None None (''1'', ''2'', ''3'') ''now'' = Inr env \<and>
     sign_envelope toy_sign env \<lparr>sk_kid = ucs_of ''k'', sk_private_key = [7]\<rparr> = Inr out \<and>
     without_signature out = Inr u \<and> jnorm (JObj u) = jnorm (JObj u)"
proof -
  obtain env out where eo:
    "build_envelope ''stamps.voided.v1'' [(ucs_of ''serial'', jstr ''NG-1'')] ''p'' ''C'' ''sub'' ''role'' None None (''1'', ''2'', ''3'') ''now'' = Inr env"
    "sign_envelope toy_sign env \<lparr>sk_kid = ucs_of ''k'', sk_private_key = [7]\<rparr> = Inr out"
    by (rule toy_signed)
  have v: "\<exists>r. verify_envelope (\<lambda>_. FNan) toy_verify (JObj out) [(ucs_of ''k'', [7])] (Some ''stamps.voided.v1'') True = Inr r"
    using signed_envelope_aux [OF eo, where public_of = id and directory = "[(ucs_of ''k'', [7])]" and verify = toy_verify and rf = "\<lambda>_. FNan"]
    by (auto simp: kid_core_def kid_code_def ucs_of_def toy_sign_def toy_verify_def)
  then obtain r where r: "verify_envelope (\<lambda>_. FNan) toy_verify (JObj out) [(ucs_of ''k'', [7])] (Some ''stamps.voided.v1'') True = Inr r" by blast
  have outs: "\<exists>u p. without_signature out = Inr u \<and> provenance_of out = Inr p \<and> float_free (JObj u) \<and> wf_text (JObj u)"
    using eo by (auto simp: envelope_eval rbind_eq_Inr)
  then obtain u p where u: "without_signature out = Inr u" "provenance_of out = Inr p" "float_free (JObj u)" "wf_text (JObj u)" by blast
  have "jnorm (JObj u) = jnorm (JObj u)"
    by (rule envelope_signature_binds [OF r r u(2,2) refl u(1,1) u(3,3,4,4)])
  with eo u show ?thesis by blast
qed

end
