(* ===== verification/PyTime.thy ===== *)
theory PyTime
  imports PyText
begin

section \<open>Dates and times\<close>

text \<open>
  Python's \<open>date\<close> as its proleptic Gregorian ordinal (day 1 is 0001-01-01) and a UTC
  \<open>datetime\<close> as microseconds since ordinal day 0, so that comparison of either is
  comparison of integers and \<open>timedelta(days = d)\<close> adds \<open>d\<close> days. The conversions to
  calendar fields follow CPython's \<open>_ymd2ord\<close> and \<open>_ord2ymd\<close>; \<open>strftime\<close> is
  modelled for the two formats the service uses.
\<close>

type_synonym date = int
type_synonym datetime = int

definition is_leap :: "int \<Rightarrow> bool" where
  "is_leap y = (y mod 4 = 0 \<and> (y mod 100 \<noteq> 0 \<or> y mod 400 = 0))"

definition days_before_year :: "int \<Rightarrow> int" where
  "days_before_year y = (let z = y - 1 in z * 365 + z div 4 - z div 100 + z div 400)"

definition days_before_month :: "int \<Rightarrow> int \<Rightarrow> int" where
  "days_before_month y m =
     [0, 0, 31, 59, 90, 120, 151, 181, 212, 243, 273, 304, 334] ! nat m
     + (if m > 2 \<and> is_leap y then 1 else 0)"

definition mk_date :: "int \<Rightarrow> int \<Rightarrow> int \<Rightarrow> date" where
  "mk_date y m d = days_before_year y + days_before_month y m + d"

definition days_in_month :: "int \<Rightarrow> int \<Rightarrow> int" where
  "days_in_month y m =
     (if m = 2 \<and> is_leap y then 29
      else [0, 31, 28, 31, 30, 31, 30, 31, 31, 30, 31, 30, 31] ! nat m)"

definition ymd_of_date :: "date \<Rightarrow> int \<times> int \<times> int" where
  "ymd_of_date n0 =
    (let n = n0 - 1; n400 = n div 146097; n = n mod 146097; year = n400 * 400 + 1;
         n100 = n div 36524; n = n mod 36524; n4 = n div 1461; n = n mod 1461;
         n1 = n div 365; n = n mod 365; year = year + n100 * 100 + n4 * 4 + n1
     in if n1 = 4 \<or> n100 = 4 then (year - 1, 12, 31)
        else let month = (n + 50) div 32; preceding = days_before_month year month
             in if preceding > n
                then (year, month - 1, n - (preceding - days_in_month year (month - 1)) + 1)
                else (year, month, n - preceding + 1))"

definition usec_per_day :: int where
  "usec_per_day = 86400 * 1000000"

definition date_of :: "datetime \<Rightarrow> date" where
  "date_of t = t div usec_per_day"

definition add_days :: "datetime \<Rightarrow> int \<Rightarrow> datetime" where
  "add_days t d = t + d * usec_per_day"

definition sub_hours :: "datetime \<Rightarrow> int \<Rightarrow> datetime" where
  "sub_hours t h = t - h * 3600 * 1000000"

definition year_of :: "datetime \<Rightarrow> int" where
  "year_of t = fst (ymd_of_date (date_of t))"

definition fmt02 :: "int \<Rightarrow> string" where
  "fmt02 n = zfill 2 (nat n)"

text \<open>The format \<open>%Y-%m-%dT%H:%M:%SZ\<close>, and the same with the fraction \<open>.%f\<close>.\<close>

definition iso_prefix :: "datetime \<Rightarrow> string" where
  "iso_prefix t =
    (let (y, m, d) = ymd_of_date (date_of t); s = (t mod usec_per_day) div 1000000
     in zfill 4 (nat y) @ ''-'' @ fmt02 m @ ''-'' @ fmt02 d @ ''T''
        @ fmt02 (s div 3600) @ '':'' @ fmt02 (s mod 3600 div 60) @ '':'' @ fmt02 (s mod 60))"

definition strftime_seconds :: "datetime \<Rightarrow> string" where
  "strftime_seconds t = iso_prefix t @ ''Z''"

definition strftime_micros :: "datetime \<Rightarrow> string" where
  "strftime_micros t = iso_prefix t @ ''.'' @ zfill 6 (nat (t mod 1000000)) @ ''Z''"

lemma mk_date_2026_07_01: "mk_date 2026 7 1 = 739798"
  by (simp add: mk_date_def days_before_year_def days_before_month_def is_leap_def)

lemma mk_date_2026_06_30: "mk_date 2026 6 30 = 739797"
  by (simp add: mk_date_def days_before_year_def days_before_month_def is_leap_def)

lemma mk_date_2023_06_01: "mk_date 2023 6 1 = 738672"
  by (simp add: mk_date_def days_before_year_def days_before_month_def is_leap_def)

lemma mk_date_2022_06_01: "mk_date 2022 6 1 = 738307"
  by (simp add: mk_date_def days_before_year_def days_before_month_def is_leap_def)

lemma mk_date_2020_01_01: "mk_date 2020 1 1 = 737425"
  by (simp add: mk_date_def days_before_year_def days_before_month_def is_leap_def)

lemmas tariff_dates = mk_date_2026_07_01 mk_date_2026_06_30 mk_date_2023_06_01
  mk_date_2022_06_01 mk_date_2020_01_01

lemma ymd_examples:
  "ymd_of_date (mk_date 2026 7 1) = (2026, 7, 1)" "ymd_of_date (mk_date 2024 2 29) = (2024, 2, 29)"
  "ymd_of_date (mk_date 2000 12 31) = (2000, 12, 31)"
  by (simp_all add: mk_date_def days_before_year_def days_before_month_def is_leap_def
      ymd_of_date_def days_in_month_def Let_def)

end
