(* ===== verification/Db.thy ===== *)
theory Db
  imports PyTime Jcs
begin

section \<open>The database\<close>

text \<open>
  \<open>src/taxstamps/models.py\<close> with the constraints of \<open>migrations/versions/0001_initial.py\<close>:
  one record per table, a table as the list of its rows in insertion order, one insert per table
  that raises what PostgreSQL raises when a column width, a CHECK, a UNIQUE or a foreign key is
  violated. A status column with a CHECK of the form \<open>status IN (...)\<close> has a datatype. A query
  without ORDER BY returns rows in insertion order, which SQL leaves open.

  A UUID is a number. \<open>uuid4()\<close> draws the next element of the sequence \<open>db_uuids\<close>, about
  which nothing is assumed: that a new id is new is what the primary keys check. Columns of type
  TEXT, JSONB and TIMESTAMP accept every value. Only what the code does to a row is an update, so
  the triggers that make tables append-only hold of the model by construction.
\<close>

subsection \<open>Identifiers\<close>

type_synonym uuid = nat

fun hex_width :: "nat \<Rightarrow> nat \<Rightarrow> string" where
  "hex_width 0 n = []"
| "hex_width (Suc k) n = hex_width k (n div 16) @ [hex_digit (n mod 16)]"

text \<open>\<open>str(uuid)\<close>: thirty-two hexadecimal digits in five groups.\<close>

definition uuid_str :: "uuid \<Rightarrow> string" where
  "uuid_str u = (let h = hex_width 32 u in
     take 8 h @ ''-'' @ str_slice 8 4 h @ ''-'' @ str_slice 12 4 h @ ''-'' @ str_slice 16 4 h @ ''-'' @ drop 20 h)"

subsection \<open>Enumerations\<close>

datatype assessment_status =
  AS_PENDING_APPROVAL | AS_REJECTED | AS_APPROVED | AS_PAYMENT_PENDING | AS_PAID | AS_ISSUING | AS_ISSUED | AS_CANCELLED

fun assessment_status_text :: "assessment_status \<Rightarrow> string" where
  "assessment_status_text AS_PENDING_APPROVAL = ''PENDING_APPROVAL''"
| "assessment_status_text AS_REJECTED = ''REJECTED''"
| "assessment_status_text AS_APPROVED = ''APPROVED''"
| "assessment_status_text AS_PAYMENT_PENDING = ''PAYMENT_PENDING''"
| "assessment_status_text AS_PAID = ''PAID''"
| "assessment_status_text AS_ISSUING = ''ISSUING''"
| "assessment_status_text AS_ISSUED = ''ISSUED''"
| "assessment_status_text AS_CANCELLED = ''CANCELLED''"

datatype risk_tier = LOW | STANDARD | HIGH

fun risk_tier_text :: "risk_tier \<Rightarrow> string" where
  "risk_tier_text LOW = ''LOW''"
| "risk_tier_text STANDARD = ''STANDARD''"
| "risk_tier_text HIGH = ''HIGH''"

fun risk_level :: "risk_tier \<Rightarrow> nat" where
  "risk_level LOW = 1"
| "risk_level STANDARD = 2"
| "risk_level HIGH = 3"

lemma risk_level_inj: "risk_level s = risk_level t \<longleftrightarrow> s = t"
  by (cases s; cases t) auto

instantiation risk_tier :: linorder
begin

definition less_eq_risk_tier :: "risk_tier \<Rightarrow> risk_tier \<Rightarrow> bool" where
  "less_eq_risk_tier s t = (risk_level s \<le> risk_level t)"

definition less_risk_tier :: "risk_tier \<Rightarrow> risk_tier \<Rightarrow> bool" where
  "less_risk_tier s t = (risk_level s < risk_level t)"

instance
  by standard (auto simp: less_eq_risk_tier_def less_risk_tier_def risk_level_inj)

end

datatype approval_decision = APPROVE | REJECT

fun decision_text :: "approval_decision \<Rightarrow> string" where
  "decision_text APPROVE = ''APPROVE''"
| "decision_text REJECT = ''REJECT''"

datatype intent_status = PI_PENDING | PI_SETTLED | PI_FAILED

datatype receipt_status = PR_APPLIED | PR_QUARANTINED

datatype batch_status =
  BS_PENDING | BS_ISSUING | BS_ISSUED | BS_INSPECTION_FAILED | BS_READY | BS_ACTIVE | BS_COMPLETED | BS_VOID

fun batch_status_text :: "batch_status \<Rightarrow> string" where
  "batch_status_text BS_PENDING = ''PENDING''"
| "batch_status_text BS_ISSUING = ''ISSUING''"
| "batch_status_text BS_ISSUED = ''ISSUED''"
| "batch_status_text BS_INSPECTION_FAILED = ''INSPECTION_FAILED''"
| "batch_status_text BS_READY = ''READY''"
| "batch_status_text BS_ACTIVE = ''ACTIVE''"
| "batch_status_text BS_COMPLETED = ''COMPLETED''"
| "batch_status_text BS_VOID = ''VOID''"

datatype stamp_status = SS_ISSUED | SS_ACTIVE | SS_CONSUMED | SS_VOID | SS_EXPIRED | SS_SUSPECT

fun stamp_status_text :: "stamp_status \<Rightarrow> string" where
  "stamp_status_text SS_ISSUED = ''ISSUED''"
| "stamp_status_text SS_ACTIVE = ''ACTIVE''"
| "stamp_status_text SS_CONSUMED = ''CONSUMED''"
| "stamp_status_text SS_VOID = ''VOID''"
| "stamp_status_text SS_EXPIRED = ''EXPIRED''"
| "stamp_status_text SS_SUSPECT = ''SUSPECT''"

datatype inspection_result = PASS | FAIL

datatype outcome =
    O_valid | O_already_verified | O_clone_suspect | O_unknown_serial | O_malformed_serial
  | O_not_active | O_void | O_expired | O_invalid_credential | O_active

fun outcome_text :: "outcome \<Rightarrow> string" where
  "outcome_text O_valid = ''valid''"
| "outcome_text O_already_verified = ''already_verified''"
| "outcome_text O_clone_suspect = ''clone_suspect''"
| "outcome_text O_unknown_serial = ''unknown_serial''"
| "outcome_text O_malformed_serial = ''malformed_serial''"
| "outcome_text O_not_active = ''not_active''"
| "outcome_text O_void = ''void''"
| "outcome_text O_expired = ''expired''"
| "outcome_text O_invalid_credential = ''invalid_credential''"
| "outcome_text O_active = ''active''"


subsection \<open>Rows\<close>

record verifier_credential =
  vc_id :: uuid
  vc_verifier_id :: string
  vc_credential_hash :: string
  vc_display_name :: string
  vc_tenant :: string
  vc_active :: bool
  vc_created_at :: datetime

record customs_declaration =
  dc_id :: uuid
  dc_declaration_ref :: string
  dc_consignee_tin :: string
  dc_consignee_name :: string
  dc_source_event_id :: string
  dc_occurred_at :: datetime
  dc_envelope :: json
  dc_received_at :: datetime

record declaration_line =
  dl_id :: uuid
  dl_declaration_id :: uuid
  dl_hs_code :: string
  dl_description :: string
  dl_quantity :: int
  dl_unit :: string
  dl_customs_value_kobo :: int
  dl_stamps_required :: int

record assessment =
  as_id :: uuid
  as_declaration_id :: uuid
  as_status :: assessment_status
  as_currency :: string
  as_total_duty_kobo :: int
  as_stamps_required :: int
  as_risk_tier :: risk_tier
  as_approvals_required :: int
  as_submitted_by :: string
  as_submitted_at :: datetime
  as_decided_at :: "datetime option"
  as_idempotency_key :: string

record assessment_line =
  al_id :: uuid
  al_assessment_id :: uuid
  al_hs_code :: string
  al_category :: string
  al_quantity :: int
  al_unit :: string
  al_customs_value_kobo :: int
  al_specific_duty_kobo :: int
  al_ad_valorem_duty_kobo :: int
  al_total_duty_kobo :: int
  al_statutory_ref :: string
  al_tariff_effective_from :: date

record approval =
  ap_id :: uuid
  ap_assessment_id :: uuid
  ap_principal_sub :: string
  ap_decision :: approval_decision
  ap_level :: int
  ap_reason :: string
  ap_decided_at :: datetime

record payment_intent =
  pi_id :: uuid
  pi_assessment_id :: uuid
  pi_rail :: string
  pi_expected_amount_kobo :: int
  pi_currency :: string
  pi_status :: intent_status
  pi_created_at :: datetime
  pi_settled_at :: "datetime option"

record payment_receipt =
  pr_id :: uuid
  pr_payment_intent_id :: "uuid option"
  pr_external_reference :: string
  pr_amount_kobo :: int
  pr_currency :: string
  pr_status :: receipt_status
  pr_quarantine_reason :: string
  pr_received_at :: datetime

record journal =
  jn_id :: uuid
  jn_reference :: string
  jn_narration :: string
  jn_posted_at :: datetime

record ledger_entry =
  le_id :: uuid
  le_journal_id :: uuid
  le_account :: string
  le_debit_kobo :: int
  le_credit_kobo :: int

record stamp_batch =
  ba_id :: uuid
  ba_assessment_id :: uuid
  ba_category_code :: string
  ba_year :: int
  ba_quantity :: int
  ba_issued_count :: int
  ba_status :: batch_status
  ba_merkle_root :: string
  ba_created_at :: datetime
  ba_completed_at :: "datetime option"

record stamp =
  st_id :: uuid
  st_batch_id :: uuid
  st_serial :: string
  st_category_code :: string
  st_year :: int
  st_sequence :: int
  st_status :: stamp_status
  st_hs_code :: string
  st_declaration_ref :: string
  st_consignee_tin :: string
  st_duty_paid_kobo :: int
  st_status_list_index :: int
  st_credential :: json
  st_valid_from :: datetime
  st_valid_until :: datetime
  st_activated_at :: "datetime option"
  st_first_scan_at :: "datetime option"
  st_first_scan_verifier :: string
  st_first_scan_lat_micros :: "int option"
  st_first_scan_long_micros :: "int option"
  st_created_at :: datetime

record inspection =
  in_id :: uuid
  in_batch_id :: uuid
  in_lot_size :: int
  in_code_letter :: string
  in_sample_size :: int
  in_accept :: int
  in_reject :: int
  in_defectives :: int
  in_result :: inspection_result
  in_inspector_sub :: string
  in_created_at :: datetime

record verification =
  ve_id :: uuid
  ve_stamp_id :: "uuid option"
  ve_serial_presented :: string
  ve_verifier_id :: string
  ve_public_scan :: bool
  ve_outcome :: outcome
  ve_detail :: string
  ve_lat_micros :: "int option"
  ve_long_micros :: "int option"
  ve_verified_at :: datetime

record idempotency_record =
  id_key :: string
  id_principal_sub :: string
  id_request_hash :: string
  id_response_status :: int
  id_response_body :: json
  id_created_at :: datetime

record outbox_message =
  ob_id :: uuid
  ob_topic :: string
  ob_key :: string
  ob_envelope :: json
  ob_created_at :: datetime
  ob_published_at :: "datetime option"
  ob_attempts :: int

record audit_event =
  ae_id :: int
  ae_prev_hash :: string
  ae_hash :: string
  ae_event_type :: string
  ae_payload :: json
  ae_created_at :: datetime

record status_list_snapshot =
  sn_purpose :: string
  sn_version :: int
  sn_credential :: json
  sn_published_at :: datetime

record processed_event =
  pe_event_id :: string
  pe_event_type :: string
  pe_processed_at :: datetime

record serial_counter =
  sc_category_code :: string
  sc_year :: int
  sc_next_sequence :: int

record db =
  db_verifier_credentials :: "verifier_credential list"
  db_declarations :: "customs_declaration list"
  db_declaration_lines :: "declaration_line list"
  db_assessments :: "assessment list"
  db_assessment_lines :: "assessment_line list"
  db_approvals :: "approval list"
  db_payment_intents :: "payment_intent list"
  db_payment_receipts :: "payment_receipt list"
  db_journals :: "journal list"
  db_ledger_entries :: "ledger_entry list"
  db_stamp_batches :: "stamp_batch list"
  db_stamps :: "stamp list"
  db_inspections :: "inspection list"
  db_verifications :: "verification list"
  db_idempotency_records :: "idempotency_record list"
  db_outbox_messages :: "outbox_message list"
  db_audit_events :: "audit_event list"
  db_status_list_snapshots :: "status_list_snapshot list"
  db_processed_events :: "processed_event list"
  db_serial_counters :: "serial_counter list"
  db_uuids :: "nat \<Rightarrow> uuid"
  db_next_uuid :: nat

definition empty_db :: "(nat \<Rightarrow> uuid) \<Rightarrow> db" where
  "empty_db uuids = \<lparr>db_verifier_credentials = [], db_declarations = [], db_declaration_lines = [], db_assessments = [],
     db_assessment_lines = [], db_approvals = [], db_payment_intents = [], db_payment_receipts = [], db_journals = [],
     db_ledger_entries = [], db_stamp_batches = [], db_stamps = [], db_inspections = [], db_verifications = [],
     db_idempotency_records = [], db_outbox_messages = [], db_audit_events = [], db_status_list_snapshots = [],
     db_processed_events = [], db_serial_counters = [], db_uuids = uuids, db_next_uuid = 0\<rparr>"

definition uuid4 :: "db \<Rightarrow> uuid \<times> db" where
  "uuid4 d = (db_uuids d (db_next_uuid d), d\<lparr>db_next_uuid := Suc (db_next_uuid d)\<rparr>)"

lemma uuid4_fields: "uuid4 d = (u, d1) \<Longrightarrow> d1 = d\<lparr>db_next_uuid := Suc (db_next_uuid d)\<rparr>"
  by (auto simp: uuid4_def)

subsection \<open>Constraints\<close>

fun first_violation :: "(bool \<times> exn) list \<Rightarrow> unit result" where
  "first_violation [] = Inr ()"
| "first_violation ((ok, e) # cs) = (if ok then first_violation cs else Inl e)"

lemma first_violation_ok: "first_violation cs = Inr u \<longleftrightarrow> list_all fst cs"
  by (induction cs rule: first_violation.induct) auto

declare first_violation.simps [simp del]

definition varchar :: "nat \<Rightarrow> string \<Rightarrow> bool \<times> exn" where
  "varchar n s = (length s \<le> n, DataError ''value too long for type character varying'')"

definition bigint :: "int \<Rightarrow> bool \<times> exn" where
  "bigint i = (- 9223372036854775808 \<le> i \<and> i \<le> 9223372036854775807, DataError ''value out of int64 range'')"

definition integer32 :: "int \<Rightarrow> bool \<times> exn" where
  "integer32 i = (- 2147483648 \<le> i \<and> i \<le> 2147483647, DataError ''value out of int32 range'')"

definition bigint_opt :: "int option \<Rightarrow> bool \<times> exn" where
  "bigint_opt i = (case i of None \<Rightarrow> (True, DataError []) | Some n \<Rightarrow> bigint n)"

definition constraint :: "string \<Rightarrow> bool \<Rightarrow> bool \<times> exn" where
  "constraint name ok = (ok, CheckViolation name)"

definition unique :: "string \<Rightarrow> ('a \<Rightarrow> 'k) \<Rightarrow> 'a \<Rightarrow> 'a list \<Rightarrow> bool \<times> exn" where
  "unique name key row rows = (key row \<notin> key ` set rows, UniqueViolation name)"

definition references :: "string \<Rightarrow> 'k \<Rightarrow> ('a \<Rightarrow> 'k) \<Rightarrow> 'a list \<Rightarrow> bool \<times> exn" where
  "references name k key rows = (k \<in> key ` set rows, ForeignKeyViolation name)"

lemmas constraint_simps = first_violation_ok varchar_def bigint_def integer32_def constraint_def unique_def references_def

subsection \<open>Inserts\<close>

definition insert_declaration :: "customs_declaration \<Rightarrow> db \<Rightarrow> db result" where
  "insert_declaration r d = rbind (first_violation
     [unique ''declarations_pkey'' dc_id r (db_declarations d), varchar 64 (dc_declaration_ref r), varchar 32 (dc_consignee_tin r),
      varchar 256 (dc_consignee_name r), varchar 128 (dc_source_event_id r),
      unique ''declarations_declaration_ref_key'' dc_declaration_ref r (db_declarations d), unique ''declarations_source_event_id_key'' dc_source_event_id r (db_declarations d)])
     (\<lambda>_. Inr (d\<lparr>db_declarations := db_declarations d @ [r]\<rparr>))"

definition insert_declaration_line :: "declaration_line \<Rightarrow> db \<Rightarrow> db result" where
  "insert_declaration_line r d = rbind (first_violation
     [unique ''declaration_lines_pkey'' dl_id r (db_declaration_lines d), references ''declaration_lines_declaration_id_fkey'' (dl_declaration_id r) dc_id (db_declarations d),
      varchar 16 (dl_hs_code r), bigint (dl_quantity r), varchar 16 (dl_unit r), bigint (dl_customs_value_kobo r), bigint (dl_stamps_required r),
      constraint ''ck_decl_line_qty'' (dl_quantity r \<ge> 0), constraint ''ck_decl_line_value'' (dl_customs_value_kobo r \<ge> 0),
      constraint ''ck_decl_line_stamps'' (dl_stamps_required r \<ge> 0)])
     (\<lambda>_. Inr (d\<lparr>db_declaration_lines := db_declaration_lines d @ [r]\<rparr>))"

definition insert_assessment :: "assessment \<Rightarrow> db \<Rightarrow> db result" where
  "insert_assessment r d = rbind (first_violation
     [unique ''assessments_pkey'' as_id r (db_assessments d), references ''assessments_declaration_id_fkey'' (as_declaration_id r) dc_id (db_declarations d),
      varchar 3 (as_currency r), bigint (as_total_duty_kobo r), bigint (as_stamps_required r), integer32 (as_approvals_required r),
      varchar 256 (as_submitted_by r), varchar 128 (as_idempotency_key r), constraint ''ck_assessment_total'' (as_total_duty_kobo r \<ge> 0),
      constraint ''ck_assessment_stamps'' (as_stamps_required r \<ge> 0),
      constraint ''ck_assessment_approvals'' (1 \<le> as_approvals_required r \<and> as_approvals_required r \<le> 3),
      unique ''assessments_idempotency_key_key'' as_idempotency_key r (db_assessments d)])
     (\<lambda>_. Inr (d\<lparr>db_assessments := db_assessments d @ [r]\<rparr>))"

definition insert_assessment_line :: "assessment_line \<Rightarrow> db \<Rightarrow> db result" where
  "insert_assessment_line r d = rbind (first_violation
     [unique ''assessment_lines_pkey'' al_id r (db_assessment_lines d), references ''assessment_lines_assessment_id_fkey'' (al_assessment_id r) as_id (db_assessments d),
      varchar 16 (al_hs_code r), varchar 32 (al_category r), bigint (al_quantity r), varchar 16 (al_unit r), bigint (al_customs_value_kobo r),
      bigint (al_specific_duty_kobo r), bigint (al_ad_valorem_duty_kobo r), bigint (al_total_duty_kobo r),
      constraint ''ck_asline_total'' (al_total_duty_kobo r = al_specific_duty_kobo r + al_ad_valorem_duty_kobo r),
      constraint ''ck_asline_qty'' (al_quantity r \<ge> 0)])
     (\<lambda>_. Inr (d\<lparr>db_assessment_lines := db_assessment_lines d @ [r]\<rparr>))"

definition insert_approval :: "approval \<Rightarrow> db \<Rightarrow> db result" where
  "insert_approval r d = rbind (first_violation
     [unique ''approvals_pkey'' ap_id r (db_approvals d), references ''approvals_assessment_id_fkey'' (ap_assessment_id r) as_id (db_assessments d),
      varchar 256 (ap_principal_sub r), integer32 (ap_level r),
      unique ''uq_approval_principal'' (\<lambda>a. (ap_assessment_id a, ap_principal_sub a)) r (db_approvals d)])
     (\<lambda>_. Inr (d\<lparr>db_approvals := db_approvals d @ [r]\<rparr>))"

definition insert_payment_intent :: "payment_intent \<Rightarrow> db \<Rightarrow> db result" where
  "insert_payment_intent r d = rbind (first_violation
     [unique ''payment_intents_pkey'' pi_id r (db_payment_intents d), references ''payment_intents_assessment_id_fkey'' (pi_assessment_id r) as_id (db_assessments d),
      varchar 32 (pi_rail r), bigint (pi_expected_amount_kobo r), varchar 3 (pi_currency r),
      constraint ''ck_intent_amount'' (pi_expected_amount_kobo r > 0), unique ''payment_intents_assessment_id_key'' pi_assessment_id r (db_payment_intents d)])
     (\<lambda>_. Inr (d\<lparr>db_payment_intents := db_payment_intents d @ [r]\<rparr>))"

definition insert_payment_receipt :: "payment_receipt \<Rightarrow> db \<Rightarrow> db result" where
  "insert_payment_receipt r d = rbind (first_violation
     [unique ''payment_receipts_pkey'' pr_id r (db_payment_receipts d),
      references ''payment_receipts_payment_intent_id_fkey'' (pr_payment_intent_id r) (\<lambda>k. k) (None # map (\<lambda>i. Some (pi_id i)) (db_payment_intents d)),
      varchar 128 (pr_external_reference r), bigint (pr_amount_kobo r), varchar 3 (pr_currency r),
      constraint ''ck_receipt_amount'' (pr_amount_kobo r \<ge> 0), unique ''payment_receipts_external_reference_key'' pr_external_reference r (db_payment_receipts d)])
     (\<lambda>_. Inr (d\<lparr>db_payment_receipts := db_payment_receipts d @ [r]\<rparr>))"

definition insert_journal :: "journal \<Rightarrow> db \<Rightarrow> db result" where
  "insert_journal r d = rbind (first_violation
     [unique ''journals_pkey'' jn_id r (db_journals d), varchar 128 (jn_reference r), unique ''journals_reference_key'' jn_reference r (db_journals d)])
     (\<lambda>_. Inr (d\<lparr>db_journals := db_journals d @ [r]\<rparr>))"

definition insert_ledger_entry :: "ledger_entry \<Rightarrow> db \<Rightarrow> db result" where
  "insert_ledger_entry r d = rbind (first_violation
     [unique ''ledger_entries_pkey'' le_id r (db_ledger_entries d), references ''ledger_entries_journal_id_fkey'' (le_journal_id r) jn_id (db_journals d),
      varchar 64 (le_account r), bigint (le_debit_kobo r), bigint (le_credit_kobo r),
      constraint ''ck_entry_nonneg'' (le_debit_kobo r \<ge> 0 \<and> le_credit_kobo r \<ge> 0),
      constraint ''ck_entry_one_side'' (\<not> (le_debit_kobo r > 0 \<and> le_credit_kobo r > 0))])
     (\<lambda>_. Inr (d\<lparr>db_ledger_entries := db_ledger_entries d @ [r]\<rparr>))"

definition insert_stamp_batch :: "stamp_batch \<Rightarrow> db \<Rightarrow> db result" where
  "insert_stamp_batch r d = rbind (first_violation
     [unique ''stamp_batches_pkey'' ba_id r (db_stamp_batches d), references ''stamp_batches_assessment_id_fkey'' (ba_assessment_id r) as_id (db_assessments d),
      varchar 3 (ba_category_code r), integer32 (ba_year r), bigint (ba_quantity r), bigint (ba_issued_count r), varchar 64 (ba_merkle_root r),
      constraint ''ck_batch_qty'' (ba_quantity r > 0), constraint ''ck_batch_issued'' (0 \<le> ba_issued_count r \<and> ba_issued_count r \<le> ba_quantity r),
      unique ''stamp_batches_assessment_id_key'' ba_assessment_id r (db_stamp_batches d)])
     (\<lambda>_. Inr (d\<lparr>db_stamp_batches := db_stamp_batches d @ [r]\<rparr>))"

definition insert_stamp :: "stamp \<Rightarrow> db \<Rightarrow> db result" where
  "insert_stamp r d = rbind (first_violation
     [unique ''stamps_pkey'' st_id r (db_stamps d), references ''stamps_batch_id_fkey'' (st_batch_id r) ba_id (db_stamp_batches d),
      varchar 32 (st_serial r), varchar 3 (st_category_code r), integer32 (st_year r), bigint (st_sequence r), varchar 16 (st_hs_code r),
      varchar 64 (st_declaration_ref r), varchar 32 (st_consignee_tin r), bigint (st_duty_paid_kobo r), integer32 (st_status_list_index r),
      varchar 128 (st_first_scan_verifier r), unique ''stamps_serial_key'' st_serial r (db_stamps d),
      unique ''stamps_status_list_index_key'' st_status_list_index r (db_stamps d),
      unique ''uq_stamp_cat_year_seq'' (\<lambda>s. (st_category_code s, st_year s, st_sequence s)) r (db_stamps d)])
     (\<lambda>_. Inr (d\<lparr>db_stamps := db_stamps d @ [r]\<rparr>))"

definition insert_inspection :: "inspection \<Rightarrow> db \<Rightarrow> db result" where
  "insert_inspection r d = rbind (first_violation
     [unique ''inspections_pkey'' in_id r (db_inspections d), references ''inspections_batch_id_fkey'' (in_batch_id r) ba_id (db_stamp_batches d),
      bigint (in_lot_size r), varchar 2 (in_code_letter r), integer32 (in_sample_size r), integer32 (in_accept r), integer32 (in_reject r),
      integer32 (in_defectives r), varchar 256 (in_inspector_sub r),
      constraint ''ck_inspection_def'' (0 \<le> in_defectives r \<and> in_defectives r \<le> in_sample_size r)])
     (\<lambda>_. Inr (d\<lparr>db_inspections := db_inspections d @ [r]\<rparr>))"

definition insert_verification :: "verification \<Rightarrow> db \<Rightarrow> db result" where
  "insert_verification r d = rbind (first_violation
     [unique ''verifications_pkey'' ve_id r (db_verifications d),
      references ''verifications_stamp_id_fkey'' (ve_stamp_id r) (\<lambda>k. k) (None # map (\<lambda>s. Some (st_id s)) (db_stamps d)),
      varchar 64 (ve_serial_presented r), varchar 128 (ve_verifier_id r), bigint_opt (ve_lat_micros r), bigint_opt (ve_long_micros r)])
     (\<lambda>_. Inr (d\<lparr>db_verifications := db_verifications d @ [r]\<rparr>))"

definition insert_idempotency_record :: "idempotency_record \<Rightarrow> db \<Rightarrow> db result" where
  "insert_idempotency_record r d = rbind (first_violation
     [varchar 128 (id_key r), varchar 256 (id_principal_sub r), varchar 64 (id_request_hash r), integer32 (id_response_status r),
      unique ''idempotency_records_pkey'' (\<lambda>i. (id_key i, id_principal_sub i)) r (db_idempotency_records d)])
     (\<lambda>_. Inr (d\<lparr>db_idempotency_records := db_idempotency_records d @ [r]\<rparr>))"

definition insert_outbox_message :: "outbox_message \<Rightarrow> db \<Rightarrow> db result" where
  "insert_outbox_message r d = rbind (first_violation
     [unique ''outbox_messages_pkey'' ob_id r (db_outbox_messages d), varchar 128 (ob_topic r), varchar 128 (ob_key r), integer32 (ob_attempts r)])
     (\<lambda>_. Inr (d\<lparr>db_outbox_messages := db_outbox_messages d @ [r]\<rparr>))"

definition insert_audit_event :: "audit_event \<Rightarrow> db \<Rightarrow> db result" where
  "insert_audit_event r d = rbind (first_violation
     [unique ''audit_events_pkey'' ae_id r (db_audit_events d), varchar 64 (ae_prev_hash r), varchar 64 (ae_hash r), varchar 64 (ae_event_type r),
      unique ''audit_events_hash_key'' ae_hash r (db_audit_events d)])
     (\<lambda>_. Inr (d\<lparr>db_audit_events := db_audit_events d @ [r]\<rparr>))"

definition insert_status_list_snapshot :: "status_list_snapshot \<Rightarrow> db \<Rightarrow> db result" where
  "insert_status_list_snapshot r d = rbind (first_violation
     [varchar 16 (sn_purpose r), integer32 (sn_version r),
      unique ''status_list_snapshots_pkey'' (\<lambda>s. (sn_purpose s, sn_version s)) r (db_status_list_snapshots d)])
     (\<lambda>_. Inr (d\<lparr>db_status_list_snapshots := db_status_list_snapshots d @ [r]\<rparr>))"

definition insert_processed_event :: "processed_event \<Rightarrow> db \<Rightarrow> db result" where
  "insert_processed_event r d = rbind (first_violation
     [varchar 128 (pe_event_id r), varchar 128 (pe_event_type r), unique ''processed_events_pkey'' pe_event_id r (db_processed_events d)])
     (\<lambda>_. Inr (d\<lparr>db_processed_events := db_processed_events d @ [r]\<rparr>))"

subsection \<open>What a successful insert does\<close>

lemma insert_declaration_ok [table_simps]: "insert_declaration r d = Inr d' \<Longrightarrow> d' = d\<lparr>db_declarations := db_declarations d @ [r]\<rparr>"
  by (auto simp: insert_declaration_def rbind_eq_Inr)

lemma insert_declaration_line_ok [table_simps]: "insert_declaration_line r d = Inr d' \<Longrightarrow> d' = d\<lparr>db_declaration_lines := db_declaration_lines d @ [r]\<rparr>"
  by (auto simp: insert_declaration_line_def rbind_eq_Inr)

lemma insert_assessment_ok [table_simps]: "insert_assessment r d = Inr d' \<Longrightarrow> d' = d\<lparr>db_assessments := db_assessments d @ [r]\<rparr>"
  by (auto simp: insert_assessment_def rbind_eq_Inr)

lemma insert_assessment_line_ok [table_simps]: "insert_assessment_line r d = Inr d' \<Longrightarrow> d' = d\<lparr>db_assessment_lines := db_assessment_lines d @ [r]\<rparr>"
  by (auto simp: insert_assessment_line_def rbind_eq_Inr)

lemma insert_approval_ok [table_simps]: "insert_approval r d = Inr d' \<Longrightarrow> d' = d\<lparr>db_approvals := db_approvals d @ [r]\<rparr>"
  by (auto simp: insert_approval_def rbind_eq_Inr)

lemma insert_payment_intent_ok [table_simps]: "insert_payment_intent r d = Inr d' \<Longrightarrow> d' = d\<lparr>db_payment_intents := db_payment_intents d @ [r]\<rparr>"
  by (auto simp: insert_payment_intent_def rbind_eq_Inr)

lemma insert_payment_receipt_ok [table_simps]: "insert_payment_receipt r d = Inr d' \<Longrightarrow> d' = d\<lparr>db_payment_receipts := db_payment_receipts d @ [r]\<rparr>"
  by (auto simp: insert_payment_receipt_def rbind_eq_Inr)

lemma insert_journal_ok [table_simps]: "insert_journal r d = Inr d' \<Longrightarrow> d' = d\<lparr>db_journals := db_journals d @ [r]\<rparr>"
  by (auto simp: insert_journal_def rbind_eq_Inr)

lemma insert_ledger_entry_ok [table_simps]: "insert_ledger_entry r d = Inr d' \<Longrightarrow> d' = d\<lparr>db_ledger_entries := db_ledger_entries d @ [r]\<rparr>"
  by (auto simp: insert_ledger_entry_def rbind_eq_Inr)

lemma insert_stamp_batch_ok [table_simps]: "insert_stamp_batch r d = Inr d' \<Longrightarrow> d' = d\<lparr>db_stamp_batches := db_stamp_batches d @ [r]\<rparr>"
  by (auto simp: insert_stamp_batch_def rbind_eq_Inr)

lemma insert_stamp_ok [table_simps]: "insert_stamp r d = Inr d' \<Longrightarrow> d' = d\<lparr>db_stamps := db_stamps d @ [r]\<rparr>"
  by (auto simp: insert_stamp_def rbind_eq_Inr)

lemma insert_inspection_ok [table_simps]: "insert_inspection r d = Inr d' \<Longrightarrow> d' = d\<lparr>db_inspections := db_inspections d @ [r]\<rparr>"
  by (auto simp: insert_inspection_def rbind_eq_Inr)

lemma insert_verification_ok [table_simps]: "insert_verification r d = Inr d' \<Longrightarrow> d' = d\<lparr>db_verifications := db_verifications d @ [r]\<rparr>"
  by (auto simp: insert_verification_def rbind_eq_Inr)

lemma insert_idempotency_record_ok [table_simps]: "insert_idempotency_record r d = Inr d' \<Longrightarrow> d' = d\<lparr>db_idempotency_records := db_idempotency_records d @ [r]\<rparr>"
  by (auto simp: insert_idempotency_record_def rbind_eq_Inr)

lemma insert_outbox_message_ok [table_simps]: "insert_outbox_message r d = Inr d' \<Longrightarrow> d' = d\<lparr>db_outbox_messages := db_outbox_messages d @ [r]\<rparr>"
  by (auto simp: insert_outbox_message_def rbind_eq_Inr)

lemma insert_audit_event_ok [table_simps]: "insert_audit_event r d = Inr d' \<Longrightarrow> d' = d\<lparr>db_audit_events := db_audit_events d @ [r]\<rparr>"
  by (auto simp: insert_audit_event_def rbind_eq_Inr)

lemma insert_status_list_snapshot_ok [table_simps]: "insert_status_list_snapshot r d = Inr d' \<Longrightarrow> d' = d\<lparr>db_status_list_snapshots := db_status_list_snapshots d @ [r]\<rparr>"
  by (auto simp: insert_status_list_snapshot_def rbind_eq_Inr)

lemma insert_processed_event_ok [table_simps]: "insert_processed_event r d = Inr d' \<Longrightarrow> d' = d\<lparr>db_processed_events := db_processed_events d @ [r]\<rparr>"
  by (auto simp: insert_processed_event_def rbind_eq_Inr)

subsection \<open>Updates\<close>

definition update_where :: "('a \<Rightarrow> bool) \<Rightarrow> ('a \<Rightarrow> 'a) \<Rightarrow> 'a list \<Rightarrow> 'a list" where
  "update_where P f rows = map (\<lambda>r. if P r then f r else r) rows"

definition update_assessment :: "uuid \<Rightarrow> (assessment \<Rightarrow> assessment) \<Rightarrow> db \<Rightarrow> db" where
  "update_assessment i f d = d\<lparr>db_assessments := update_where (\<lambda>a. as_id a = i) f (db_assessments d)\<rparr>"

definition update_intent :: "uuid \<Rightarrow> (payment_intent \<Rightarrow> payment_intent) \<Rightarrow> db \<Rightarrow> db" where
  "update_intent i f d = d\<lparr>db_payment_intents := update_where (\<lambda>p. pi_id p = i) f (db_payment_intents d)\<rparr>"

text \<open>The updates whose new values a constraint can reject.\<close>

definition update_batch :: "uuid \<Rightarrow> (stamp_batch \<Rightarrow> stamp_batch) \<Rightarrow> db \<Rightarrow> db result" where
  "update_batch i f d =
    (let rows = update_where (\<lambda>b. ba_id b = i) f (db_stamp_batches d)
     in rbind (first_violation (concat (map (\<lambda>b.
          [bigint (ba_issued_count b), varchar 64 (ba_merkle_root b),
           constraint ''ck_batch_issued'' (0 \<le> ba_issued_count b \<and> ba_issued_count b \<le> ba_quantity b)])
          (filter (\<lambda>b. ba_id b = i) rows))))
        (\<lambda>_. Inr (d\<lparr>db_stamp_batches := rows\<rparr>)))"

definition update_stamps :: "(stamp \<Rightarrow> bool) \<Rightarrow> (stamp \<Rightarrow> stamp) \<Rightarrow> db \<Rightarrow> db result" where
  "update_stamps P f d =
    rbind (first_violation (concat (map (\<lambda>s.
        [varchar 128 (st_first_scan_verifier (f s)), bigint_opt (st_first_scan_lat_micros (f s)),
         bigint_opt (st_first_scan_long_micros (f s))]) (filter P (db_stamps d)))))
      (\<lambda>_. Inr (d\<lparr>db_stamps := update_where P f (db_stamps d)\<rparr>))"

lemma update_batch_ok [table_simps]:
  "update_batch i f d = Inr d' \<Longrightarrow> d' = d\<lparr>db_stamp_batches := update_where (\<lambda>b. ba_id b = i) f (db_stamp_batches d)\<rparr>"
  by (auto simp: update_batch_def rbind_eq_Inr Let_def)

lemma update_stamps_ok [table_simps]: "update_stamps P f d = Inr d' \<Longrightarrow> d' = d\<lparr>db_stamps := update_where P f (db_stamps d)\<rparr>"
  by (auto simp: update_stamps_def rbind_eq_Inr)

lemma update_where_length [simp]: "length (update_where P f rows) = length rows"
  by (simp add: update_where_def)

lemma set_update_where: "r \<in> set (update_where P f rows) \<longleftrightarrow> (\<exists>q \<in> set rows. r = (if P q then f q else q))"
  by (auto simp: update_where_def image_iff)

lemma map_update_where: "(\<And>r. r \<in> set rows \<Longrightarrow> P r \<Longrightarrow> key (f r) = key r) \<Longrightarrow> map key (update_where P f rows) = map key rows"
  by (auto simp: update_where_def)

lemma update_where_id: "(\<And>r. r \<in> set rows \<Longrightarrow> \<not> P r) \<Longrightarrow> update_where P f rows = rows"
  by (auto simp: update_where_def intro: map_idI)

end
