(* ===== verification/Config.thy ===== *)
theory Config
  imports StatusList Envelope Db
begin

section \<open>Settings and the environment of the services\<close>

text \<open>
  \<open>src/taxstamps/config.py\<close>, and what \<open>request.app.state\<close> and the libraries provide:
  the settings, the signing key, the hash, the signature scheme and gzip. Reading settings from the
  process environment is pydantic's; their values are a record here.
\<close>

definition PRODUCER :: string where
  "PRODUCER = ''blueeconomy-tax-stamps''"

definition KEY_EPOCH :: int where
  "KEY_EPOCH = 0"

definition KID :: string where
  "KID = PRODUCER @ ''-'' @ str_int KEY_EPOCH"

record settings =
  cf_database_url :: string
  cf_signing_key_path :: string
  cf_issuer_did :: string
  cf_policy_dir :: string
  cf_redis_url :: string
  cf_key_directory_path :: string
  cf_kafka_bootstrap_servers :: string
  cf_kafka_declarations_topic_pattern :: string
  cf_kafka_consumer_group :: string
  cf_oidc_jwks_url :: string
  cf_oidc_jwks_path :: string
  cf_oidc_issuer :: string
  cf_oidc_audience :: string
  cf_payment_rail :: string
  cf_financial_controls_endpoint :: string
  cf_http_host :: string
  cf_http_port :: int
  cf_status_list_base_url :: string
  cf_stamp_validity_days :: int
  cf_issuance_chunk_size :: int
  cf_velocity_window_hours :: int
  cf_velocity_distinct_devices :: int
  cf_rate_limit_per_minute :: int

definition default_settings :: settings where
  "default_settings = \<lparr>cf_database_url = [], cf_signing_key_path = [], cf_issuer_did = [], cf_policy_dir = [],
     cf_redis_url = [], cf_key_directory_path = [], cf_kafka_bootstrap_servers = [],
     cf_kafka_declarations_topic_pattern = ''declarations.*'', cf_kafka_consumer_group = ''blueeconomy-tax-stamps'',
     cf_oidc_jwks_url = [], cf_oidc_jwks_path = [], cf_oidc_issuer = [], cf_oidc_audience = [], cf_payment_rail = [],
     cf_financial_controls_endpoint = [], cf_http_host = ''0.0.0.0'', cf_http_port = 8080, cf_status_list_base_url = [],
     cf_stamp_validity_days = 365, cf_issuance_chunk_size = 500, cf_velocity_window_hours = 24,
     cf_velocity_distinct_devices = 3, cf_rate_limit_per_minute = 120\<rparr>"

definition db_url_validator :: "string \<Rightarrow> string result" where
  "db_url_validator v =
    (if v \<noteq> [] \<and> take 21 v \<noteq> ''postgresql+asyncpg://''
     then Inl (ValueError ''database_url must be a postgresql+asyncpg:// URL'') else Inr v)"

definition redis_configured :: "settings \<Rightarrow> bool" where
  "redis_configured s = (cf_redis_url s \<noteq> [])"

definition kafka_configured :: "settings \<Rightarrow> bool" where
  "kafka_configured s = (cf_kafka_bootstrap_servers s \<noteq> [])"

definition oidc_configured :: "settings \<Rightarrow> bool" where
  "oidc_configured s = ((cf_oidc_jwks_url s \<noteq> [] \<or> cf_oidc_jwks_path s \<noteq> []) \<and> cf_oidc_issuer s \<noteq> [])"

definition payment_rail_configured :: "settings \<Rightarrow> bool" where
  "payment_rail_configured s = (cf_payment_rail s \<noteq> [] \<and> cf_financial_controls_endpoint s \<noteq> [])"

record 'sk env =
  en_settings :: settings
  en_signing_key :: "'sk signing_key"
  en_sha256 :: "bytes \<Rightarrow> bytes"
  en_sign :: "'sk \<Rightarrow> bytes \<Rightarrow> bytes"
  en_verify :: "bytes \<Rightarrow> bytes \<Rightarrow> bytes \<Rightarrow> bool"
  en_public_of :: "'sk \<Rightarrow> bytes"
  en_compress :: "bytes \<Rightarrow> bytes"
  en_decompress :: "bytes \<Rightarrow> string + bytes"

definition issuer :: "'sk env \<Rightarrow> string" where
  "issuer env = cf_issuer_did (en_settings env)"

text \<open>The verification method: \<open>f"{issuer_did}#ed25519-{kid}"\<close>.\<close>

definition verification_method :: "'sk env \<Rightarrow> ucs" where
  "verification_method env = ucs_of (issuer env @ ''#ed25519-'') @ sk_kid (en_signing_key env)"

definition public_key :: "'sk env \<Rightarrow> bytes" where
  "public_key env = en_public_of env (sk_private_key (en_signing_key env))"

definition iso_now :: "datetime \<Rightarrow> ucs" where
  "iso_now now = ucs_of (strftime_seconds now)"


subsection \<open>An environment to evaluate in\<close>

text \<open>Stand-ins for the libraries, for closed examples only.\<close>

definition toy_settings :: settings where
  "toy_settings = default_settings\<lparr>cf_issuer_did := ''did:web:x'', cf_payment_rail := ''mojaloop'',
     cf_financial_controls_endpoint := ''http://fc''\<rparr>"

definition toy_env :: "bytes env" where
  "toy_env = \<lparr>en_settings = toy_settings, en_signing_key = \<lparr>sk_kid = ucs_of KID, sk_private_key = [7]\<rparr>, en_sha256 = toy_hash,
     en_sign = toy_sign, en_verify = toy_verify, en_public_of = id, en_compress = id, en_decompress = Inr\<rparr>"

lemma toy_env_simps [simp]:
  "en_settings toy_env = toy_settings" "en_sha256 toy_env = toy_hash" "en_sign toy_env = toy_sign" "en_verify toy_env = toy_verify"
  "en_compress toy_env = id" "en_decompress toy_env = Inr" "en_public_of toy_env = id"
  "cf_payment_rail toy_settings = ''mojaloop''" "cf_issuer_did toy_settings = ''did:web:x''"
  by (simp_all add: toy_env_def toy_settings_def)

lemma toy_hash_length [simp]: "length (toy_hash b) = 32"
  by (simp add: toy_hash_def min_def)

lemma empty_db_simps [simp]:
  "db_assessments (empty_db u) = []" "db_approvals (empty_db u) = []" "db_audit_events (empty_db u) = []"
  "db_stamps (empty_db u) = []" "db_stamp_batches (empty_db u) = []" "db_journals (empty_db u) = []" "db_ledger_entries (empty_db u) = []"
  "db_payment_intents (empty_db u) = []" "db_payment_receipts (empty_db u) = []" "db_verifications (empty_db u) = []"
  "db_outbox_messages (empty_db u) = []" "db_inspections (empty_db u) = []" "db_declarations (empty_db u) = []"
  "db_declaration_lines (empty_db u) = []" "db_assessment_lines (empty_db u) = []" "db_serial_counters (empty_db u) = []"
  "db_status_list_snapshots (empty_db u) = []" "db_processed_events (empty_db u) = []" "db_idempotency_records (empty_db u) = []"
  "db_uuids (empty_db u) = u" "db_next_uuid (empty_db u) = 0" "db_verifier_credentials (empty_db u) = []"
  by (simp_all add: empty_db_def)

end
