(* ===== verification/Outbox.thy ===== *)
theory Outbox
  imports Config
begin

section \<open>The transactional outbox\<close>

text \<open>
  \<open>src/taxstamps/services/outbox.py\<close> and the publishing loop of
  \<open>src/taxstamps/events/outbox_publisher.py\<close>. The broker is a parameter: \<open>send\<close> says of a
  message whether its delivery is acknowledged or raises. What a run of the publisher has delivered
  is part of its result, since a delivery cannot be rolled back.
\<close>

definition TOPIC_BY_EVENT :: "(string \<times> string) list" where
  "TOPIC_BY_EVENT =
    [(''stamps.assessed.v1'', ''stamps.assessed''),
     (''stamps.approved.v1'', ''stamps.approved''),
     (''stamps.issued.v1'', ''stamps.issued''),
     (''stamps.activated.v1'', ''stamps.activated''),
     (''stamps.verified.v1'', ''stamps.verified''),
     (''stamps.voided.v1'', ''stamps.voided'')]"

definition CLASSIFICATION_BY_EVENT :: "(string \<times> string) list" where
  "CLASSIFICATION_BY_EVENT =
    [(''stamps.assessed.v1'', ''CONFIDENTIAL''),
     (''stamps.approved.v1'', ''CONFIDENTIAL''),
     (''stamps.issued.v1'', ''CONFIDENTIAL''),
     (''stamps.activated.v1'', ''INTERNAL''),
     (''stamps.verified.v1'', ''INTERNAL''),
     (''stamps.voided.v1'', ''CONFIDENTIAL'')]"

text \<open>\<open>str(a or b or c or "")\<close> of the resource's members.\<close>

definition json_str :: "json \<Rightarrow> string" where
  "json_str v = (case v of JStr s \<Rightarrow> text_of s | _ \<Rightarrow> json_repr v)"

definition message_key :: "(ucs \<times> json) list \<Rightarrow> string" where
  "message_key resource =
    (case find json_truthy (List.map_filter (jobj_get resource) [''assessmentId'', ''batchId'', ''serial'']) of
       Some v \<Rightarrow> json_str v
     | None \<Rightarrow> [])"

definition lookup :: "(string \<times> string) list \<Rightarrow> string \<Rightarrow> string result" where
  "lookup m k = (case map_of m k of Some v \<Rightarrow> Inr v | None \<Rightarrow> Inl (KeyError k))"

definition enqueue ::
  "'sk env \<Rightarrow> datetime \<Rightarrow> string \<Rightarrow> (ucs \<times> json) list \<Rightarrow> string \<Rightarrow> string \<Rightarrow> string option \<Rightarrow> db \<Rightarrow> (outbox_message \<times> db) result" where
  "enqueue env now event_type resource principal_id principal_role correlation_id d =
    rbind (lookup TOPIC_BY_EVENT event_type) (\<lambda>topic.
    rbind (lookup CLASSIFICATION_BY_EVENT event_type) (\<lambda>classification.
    let (u1, d1) = uuid4 d; (u2, d2) = uuid4 d1; (u3, d3) = uuid4 d2 in
    rbind (build_envelope event_type resource PRODUCER classification principal_id principal_role correlation_id None
             (uuid_str u1, uuid_str u2, uuid_str u3) (strftime_seconds now)) (\<lambda>envelope.
    rbind (sign_envelope (en_sign env) envelope (en_signing_key env)) (\<lambda>signed.
    let (u4, d4) = uuid4 d3;
        msg = \<lparr>ob_id = u4, ob_topic = topic, ob_key = message_key resource, ob_envelope = JObj signed,
               ob_created_at = now, ob_published_at = None, ob_attempts = 0\<rparr>
    in rbind (insert_outbox_message msg d4) (\<lambda>d5. Inr (msg, d5))))))"

definition publisher_available :: "settings \<Rightarrow> bool \<times> string" where
  "publisher_available s =
    (if \<not> kafka_configured s then (False, ''TAXSTAMPS_KAFKA_BOOTSTRAP_SERVERS not configured'') else (True, []))"

subsection \<open>Enqueueing\<close>

lemma enqueue_effect:
  assumes "enqueue env now event_type resource pid role corr d = Inr (msg, d')"
  obtains n where "d' = d\<lparr>db_outbox_messages := db_outbox_messages d @ [msg], db_next_uuid := n\<rparr>"
    "ob_published_at msg = None" "map_of TOPIC_BY_EVENT event_type = Some (ob_topic msg)"
proof -
  obtain u1 d1 u2 d2 u3 d3 where u: "uuid4 d = (u1, d1)" "uuid4 d1 = (u2, d2)" "uuid4 d2 = (u3, d3)" by fastforce
  obtain u4 d4 where u4: "uuid4 d3 = (u4, d4)" by fastforce
  obtain t c where tc: "lookup TOPIC_BY_EVENT event_type = Inr t" "lookup CLASSIFICATION_BY_EVENT event_type = Inr c"
    using assms by (auto simp: enqueue_def rbind_eq_Inr)
  obtain s where m: "msg = \<lparr>ob_id = u4, ob_topic = t, ob_key = message_key resource, ob_envelope = JObj s,
               ob_created_at = now, ob_published_at = None, ob_attempts = 0\<rparr>" and i: "insert_outbox_message msg d4 = Inr d'"
    using assms by (auto simp: enqueue_def tc u u4 Let_def rbind_eq_Inr)
  obtain n where "d4 = d\<lparr>db_next_uuid := n\<rparr>" using u u4 by (auto simp: uuid4_def)
  moreover have "map_of TOPIC_BY_EVENT event_type = Some t" using tc(1) by (auto simp: lookup_def split: option.splits)
  ultimately show ?thesis
    using insert_outbox_message_ok [OF i] m by (intro that [of n]) simp_all
qed

lemma enqueue_signed:
  assumes "enqueue env now event_type resource pid role corr d = Inr (msg, d')"
  obtains c us envelope signed where "build_envelope event_type resource PRODUCER c pid role corr None us (strftime_seconds now) = Inr envelope"
    "sign_envelope (en_sign env) envelope (en_signing_key env) = Inr signed" "ob_envelope msg = JObj signed"
proof -
  obtain u1 d1 u2 d2 u3 d3 where u: "uuid4 d = (u1, d1)" "uuid4 d1 = (u2, d2)" "uuid4 d2 = (u3, d3)" by fastforce
  obtain u4 d4 where u4: "uuid4 d3 = (u4, d4)" by fastforce
  show ?thesis
    using assms that by (auto simp: enqueue_def u u4 Let_def rbind_eq_Inr)
qed

text \<open>C36: What the outbox holds is what consumers accept. A message that \<open>enqueue\<close> writes is pending, and
  its envelope passes the consumer's fail-closed verification under any key directory that has the service's
  key, with the event's type, giving back the event's resource. Relied on: the scheme verifies what it
  signed, and no signature is empty.\<close>

theorem enqueued_event_accepted:
  assumes "enqueue env now event_type resource pid role corr d = Inr (msg, d')"
    and "ucs_of ''@type'' \<notin> fst ` set resource" "kid_core (sk_kid (en_signing_key env))"
    and "map_of directory (sk_kid (en_signing_key env)) = Some (public_key env)"
    and "\<And>m. en_verify env (public_key env) (en_sign env (sk_private_key (en_signing_key env)) m) m"
    and "\<And>m. en_sign env (sk_private_key (en_signing_key env)) m \<noteq> []"
  shows "ob_published_at msg = None \<and> (\<exists>name. verify_envelope rf (en_verify env) (ob_envelope msg) directory (Some event_type) True =
     Inr (resource @ [(ucs_of ''@type'', jstr (''type.googleapis.com/blueeconomy.contracts.v1.'' @ name))]))"
proof -
  obtain c us envelope signed where b: "build_envelope event_type resource PRODUCER c pid role corr None us (strftime_seconds now) = Inr envelope"
    and s: "sign_envelope (en_sign env) envelope (en_signing_key env) = Inr signed" and m: "ob_envelope msg = JObj signed"
    by (rule enqueue_signed [OF assms(1)])
  have "\<exists>name. map_of EVENT_RESOURCES event_type = Some name \<and> verify_envelope rf (en_verify env) (JObj signed) directory (Some event_type) True =
     Inr (resource @ [(ucs_of ''@type'', jstr (''type.googleapis.com/blueeconomy.contracts.v1.'' @ name))])"
    using assms(4-6) by (intro signed_envelope_aux [OF b s assms(2,3), where public_of = "en_public_of env"]) (simp_all add: public_key_def)
  then show ?thesis using m by (auto intro: enqueue_effect [OF assms(1)])
qed

lemma event_tables:
  assumes "map_of TOPIC_BY_EVENT et = Some topic"
  obtains c name where "lookup TOPIC_BY_EVENT et = Inr topic" "lookup CLASSIFICATION_BY_EVENT et = Inr c"
    "map_of EVENT_RESOURCES et = Some name" "length topic \<le> 128"
  using assms by (auto simp: TOPIC_BY_EVENT_def CLASSIFICATION_BY_EVENT_def EVENT_RESOURCES_def lookup_def split: if_splits)

lemma enqueue_total:
  assumes "map_of TOPIC_BY_EVENT et = Some topic" "jcs_ok (JObj resource)" "length (message_key resource) \<le> 128"
    and "db_uuids d (db_next_uuid d + 3) \<notin> ob_id ` set (db_outbox_messages d)"
  shows "succeeds (enqueue env now et resource pid role corr d)"
proof -
  obtain c name where t: "lookup TOPIC_BY_EVENT et = Inr topic" "lookup CLASSIFICATION_BY_EVENT et = Inr c"
    "map_of EVENT_RESOURCES et = Some name" "length topic \<le> 128" by (rule event_tables [OF assms(1)])
  have b: "\<exists>e. build_envelope et resource PRODUCER c pid role corr None us (strftime_seconds now) = Inr e" for us
    using build_envelope_total [OF t(3)] by (simp add: succeeds_iff)
  have "\<exists>s. sign_envelope (en_sign env) e (en_signing_key env) = Inr s"
    if "build_envelope et resource PRODUCER c pid role corr None us (strftime_seconds now) = Inr e" for e us
    using sign_built_total [OF that assms(2)] by (simp add: succeeds_iff)
  with b have "\<exists>e s. build_envelope et resource PRODUCER c pid role corr None us (strftime_seconds now) = Inr e \<and>
      sign_envelope (en_sign env) e (en_signing_key env) = Inr s" for us by blast
  then obtain e s where es: "build_envelope et resource PRODUCER c pid role corr None
       (uuid_str (db_uuids d (db_next_uuid d)), uuid_str (db_uuids d (db_next_uuid d + 1)), uuid_str (db_uuids d (db_next_uuid d + 2))) (strftime_seconds now) = Inr e"
      "sign_envelope (en_sign env) e (en_signing_key env) = Inr s" by blast
  show ?thesis
    using es t assms(3,4)
    by (simp add: enqueue_def uuid4_def Let_def insert_outbox_message_def constraint_simps succeeds_iff rbind_eq_Inr numeral_3_eq_3 add.commute)
qed

theorem enqueued_event_accepted_witness:
  "\<exists>msg d'. enqueue toy_env 0 ''stamps.voided.v1'' [(ucs_of ''serial'', jstr ''NG-1'')] ''sub'' ''role'' None (empty_db id) = Inr (msg, d') \<and>
     succeeds (verify_envelope (\<lambda>_. FNan) toy_verify (ob_envelope msg) [(ucs_of KID, [7])] (Some ''stamps.voided.v1'') True)"
proof -
  have key: "sk_kid (en_signing_key toy_env) = ucs_of KID" "sk_private_key (en_signing_key toy_env) = [7]" by (simp_all add: toy_env_def)
  have "succeeds (enqueue toy_env 0 ''stamps.voided.v1'' [(ucs_of ''serial'', jstr ''NG-1'')] ''sub'' ''role'' None (empty_db id))"
    by (rule enqueue_total [where topic = "''stamps.voided''"])
      (simp_all add: TOPIC_BY_EVENT_def message_key_def jobj_get_def json_truthy_def json_str_def text_of_def List.map_filter_def ucs_of_def is_surrogate_def)
  then obtain msg d' where e: "enqueue toy_env 0 ''stamps.voided.v1'' [(ucs_of ''serial'', jstr ''NG-1'')] ''sub'' ''role'' None (empty_db id) = Inr (msg, d')"
    by (auto simp: succeeds_iff)
  have "ob_published_at msg = None \<and> (\<exists>name. verify_envelope (\<lambda>_. FNan) (en_verify toy_env) (ob_envelope msg) [(ucs_of KID, [7])] (Some ''stamps.voided.v1'') True =
     Inr ([(ucs_of ''serial'', jstr ''NG-1'')] @ [(ucs_of ''@type'', jstr (''type.googleapis.com/blueeconomy.contracts.v1.'' @ name))]))"
    by (rule enqueued_event_accepted [OF e])
      (simp_all add: key public_key_def kid_core_def kid_code_def KID_def PRODUCER_def KEY_EPOCH_def str_int_def str_nat.simps digit_char_def
        ucs_of_def toy_sign_def toy_verify_def)
  with e show ?thesis by auto
qed

subsection \<open>Publishing\<close>

definition pending :: "db \<Rightarrow> outbox_message list" where
  "pending d = filter (\<lambda>m. ob_published_at m = None) (db_outbox_messages d)"

definition publish_batch :: nat where
  "publish_batch = 100"

text \<open>
  One run: the oldest pending messages are sent one after the other. The first failure ends it,
  with the messages sent so far delivered and nothing marked, since there is no commit.
\<close>

definition publish_once :: "(outbox_message \<Rightarrow> bool) \<Rightarrow> datetime \<Rightarrow> db \<Rightarrow> outbox_message list \<times> (nat \<times> db) result" where
  "publish_once send now d =
    (let rows = take publish_batch (sort_key ob_created_at (pending d));
         sent = takeWhile send rows
     in if sent = rows
        then (sent, Inr (length rows, d\<lparr>db_outbox_messages :=
          update_where (\<lambda>m. ob_id m \<in> ob_id ` set rows)
            (\<lambda>m. m\<lparr>ob_published_at := Some now, ob_attempts := ob_attempts m + 1\<rparr>) (db_outbox_messages d)\<rparr>))
        else (sent, Inl (ValueError ''delivery failed'')))"

lemma publish_once_sent: "publish_once send now d = (sent, r) \<Longrightarrow> set sent \<subseteq> set (pending d)"
proof -
  assume a: "publish_once send now d = (sent, r)"
  have "set sent \<subseteq> set (take publish_batch (sort_key ob_created_at (pending d)))"
    using a set_takeWhileD by (fastforce simp: publish_once_def Let_def split: if_splits)
  also have "\<dots> \<subseteq> set (sort_key ob_created_at (pending d))" by (rule set_take_subset)
  finally show ?thesis by simp
qed

text \<open>Publishing is at-least-once: when a run succeeds, a message is pending after it only if it was
  pending before and not sent, every message that left the pending state was delivered in this run, and the
  run sent as many messages as it reports, oldest first, up to the batch size.\<close>

theorem publish_once_marks_sent:
  assumes "publish_once send now d = (sent, Inr (n, d'))" "distinct (map ob_id (db_outbox_messages d))"
  shows "map ob_id (pending d') = map ob_id (filter (\<lambda>m. m \<notin> set sent) (pending d)) \<and> n = length sent \<and>
    n = min publish_batch (length (pending d)) \<and> sorted (map ob_created_at sent) \<and> list_all send sent"
proof -
  let ?rows = "take publish_batch (sort_key ob_created_at (pending d))"
  let ?mark = "\<lambda>m :: outbox_message. m\<lparr>ob_published_at := Some now, ob_attempts := ob_attempts m + 1\<rparr>"
  have sent: "sent = ?rows" and n: "n = length ?rows" and tw: "takeWhile send ?rows = ?rows"
    and d': "d' = d\<lparr>db_outbox_messages := update_where (\<lambda>m. ob_id m \<in> ob_id ` set ?rows) ?mark (db_outbox_messages d)\<rparr>"
    using assms(1) by (auto simp: publish_once_def Let_def split: if_splits)
  have sub: "set ?rows \<subseteq> set (db_outbox_messages d)"
    using publish_once_sent [OF assms(1)] sent by (auto simp: pending_def)
  have inj: "ob_id m \<in> ob_id ` set ?rows \<longleftrightarrow> m \<in> set ?rows" if "m \<in> set (db_outbox_messages d)" for m
    using that sub assms(2) by (auto simp: distinct_map dest: inj_onD)
  have filt: "map ob_id (filter (\<lambda>m. ob_published_at m = None) (update_where (\<lambda>m. ob_id m \<in> ob_id ` set ?rows) ?mark ms))
      = map ob_id (filter (\<lambda>m. ob_published_at m = None \<and> m \<notin> set ?rows) ms)" if "set ms \<subseteq> set (db_outbox_messages d)" for ms
    using that by (induction ms) (auto simp: update_where_def inj)
  have "map ob_id (pending d') = map ob_id (filter (\<lambda>m. m \<notin> set sent) (pending d))"
    unfolding pending_def filter_filter using filt [of "db_outbox_messages d"] by (simp add: d' sent conj_commute)
  moreover have "sorted (map ob_created_at ?rows)" by (metis sorted_sort_key sorted_wrt_take take_map)
  moreover have "list_all send ?rows" using tw by (metis list_all_iff set_takeWhileD)
  ultimately show ?thesis by (simp add: sent n)
qed

theorem publish_once_marks_sent_witness:
  "\<exists>d'. publish_once (\<lambda>_. True) 5 (empty_db id) = ([], Inr (0, d')) \<and> pending d' = []"
proof -
  obtain d' where r: "publish_once (\<lambda>_. True) 5 (empty_db id) = ([], Inr (0, d'))"
    by (simp add: publish_once_def pending_def)
  have "map ob_id (pending d') = map ob_id (filter (\<lambda>m. m \<notin> set []) (pending (empty_db id)))"
    using publish_once_marks_sent [OF r] by simp
  then have "pending d' = []" by (simp add: pending_def)
  with r show ?thesis by blast
qed

end
