(* ===== verification/StatusPublishing.thy ===== *)
theory StatusPublishing
  imports Config
begin

section \<open>Publishing status lists\<close>

text \<open>
  \<open>src/taxstamps/services/statuslists.py\<close>: the next free index, and the snapshots whose newest
  version is what verifiers see. Abstractly a purpose has a set of flagged indices; \<open>set_flag\<close>
  publishes the set with one more element.
\<close>

definition rstrip_slash :: "string \<Rightarrow> string" where
  "rstrip_slash s = rev (dropWhile (\<lambda>c. c = CHR ''/'') (rev s))"

definition allocate_index :: "db \<Rightarrow> int result" where
  "allocate_index d =
    (let nxt = (if db_stamps d = [] then 0 else Max (set (map st_status_list_index (db_stamps d))) + 1)
     in if nxt \<ge> DEFAULT_LIST_SIZE_BITS
        then Inl (StatusListServiceError ''status list exhausted: rotate to a new list credential'') else Inr nxt)"

definition list_credential_id :: "settings \<Rightarrow> string \<Rightarrow> string" where
  "list_credential_id s purpose =
    (let base = rstrip_slash (cf_status_list_base_url s)
     in (if base = [] then ''urn:blueeconomy:taxstamps'' else base) @ ''/status-list/'' @ purpose)"

text \<open>\<open>ORDER BY version DESC LIMIT 1\<close>; the versions of a purpose are different.\<close>

definition latest_snapshot :: "db \<Rightarrow> string \<Rightarrow> status_list_snapshot option" where
  "latest_snapshot d purpose =
    (let rows = sort_key sn_version (filter (\<lambda>s. sn_purpose s = purpose) (db_status_list_snapshots d))
     in if rows = [] then None else Some (last rows))"

definition current_list :: "'sk env \<Rightarrow> string \<Rightarrow> db \<Rightarrow> status_list result" where
  "current_list env purpose d =
    (case latest_snapshot d purpose of
       None \<Rightarrow> status_list_new DEFAULT_LIST_SIZE_BITS None
     | Some row \<Rightarrow> (case sn_credential row of
           JObj doc \<Rightarrow> rbind (parse_status_list_credential (en_decompress env) doc) (\<lambda>(_, l). Inr l)
         | _ \<Rightarrow> Inl (AttributeError ''get'')))"

definition max_version :: "db \<Rightarrow> string \<Rightarrow> int" where
  "max_version d purpose = (case latest_snapshot d purpose of None \<Rightarrow> 0 | Some row \<Rightarrow> sn_version row)"

definition set_flag :: "'sk env \<Rightarrow> datetime \<Rightarrow> string \<Rightarrow> int \<Rightarrow> db \<Rightarrow> db result" where
  "set_flag env now purpose index d =
    (if purpose \<notin> set PURPOSES then Inl (StatusListServiceError (''unknown purpose '' @ purpose))
     else rbind (current_list env purpose d) (\<lambda>l.
          rbind (sl_set l index True) (\<lambda>l'.
          rbind (build_status_list_credential (en_sha256 env) (en_sign env) (en_compress env) (iso_now now)
                   (ucs_of (list_credential_id (en_settings env) purpose)) (ucs_of (issuer env)) purpose l'
                   (Some (en_signing_key env)) (Some (verification_method env))) (\<lambda>credential.
            insert_status_list_snapshot \<lparr>sn_purpose = purpose, sn_version = max_version d purpose + 1,
              sn_credential = JObj credential, sn_published_at = now\<rparr> d))))"

definition current_credential :: "db \<Rightarrow> string \<Rightarrow> json option" where
  "current_credential d purpose = map_option sn_credential (latest_snapshot d purpose)"

subsection \<open>Flagged indices\<close>

definition flagged :: "'sk env \<Rightarrow> db \<Rightarrow> string \<Rightarrow> int \<Rightarrow> bool" where
  "flagged env d purpose index = (rbind (current_list env purpose d) (\<lambda>l. sl_get l index) = Inr True)"

text \<open>Every purpose's newest snapshot can be read back as a list of the default size.\<close>

definition list_ok :: "'sk env \<Rightarrow> db \<Rightarrow> string \<Rightarrow> bool" where
  "list_ok env d purpose = (case current_list env purpose d of
     Inl _ \<Rightarrow> False | Inr l \<Rightarrow> wf_status_list l \<and> sl_size_bits l = DEFAULT_LIST_SIZE_BITS)"

definition lists_ok :: "'sk env \<Rightarrow> db \<Rightarrow> bool" where
  "lists_ok env d = list_all (list_ok env d) PURPOSES"

definition gzip_ok :: "'sk env \<Rightarrow> bool" where
  "gzip_ok env = (\<forall>b. en_decompress env (en_compress env b) = Inr b)"

lemma list_okE:
  assumes "list_ok env d purpose"
  obtains l where "current_list env purpose d = Inr l" "wf_status_list l" "sl_size_bits l = DEFAULT_LIST_SIZE_BITS"
  using assms by (auto simp: list_ok_def split: sum.splits)

lemma list_ok_empty: "db_status_list_snapshots d = [] \<Longrightarrow> list_ok env d purpose"
proof -
  assume "db_status_list_snapshots d = []"
  then have c: "current_list env purpose d = status_list_new DEFAULT_LIST_SIZE_BITS None"
    by (simp add: current_list_def latest_snapshot_def)
  obtain l where l: "status_list_new DEFAULT_LIST_SIZE_BITS None = Inr l"
    by (simp add: status_list_new_def DEFAULT_LIST_SIZE_BITS_def)
  with status_list_new_wf [OF l] c show ?thesis by (simp add: list_ok_def)
qed

lemma flagged_empty: "db_status_list_snapshots d = [] \<Longrightarrow> \<not> flagged env d purpose i"
proof
  assume "db_status_list_snapshots d = []" and f: "flagged env d purpose i"
  then have "current_list env purpose d = status_list_new DEFAULT_LIST_SIZE_BITS None" by (simp add: current_list_def latest_snapshot_def)
  with f obtain l where l: "status_list_new DEFAULT_LIST_SIZE_BITS None = Inr l" "sl_get l i = Inr True" by (auto simp: flagged_def rbind_eq_Inr)
  then have "0 \<le> i" "i < DEFAULT_LIST_SIZE_BITS" using status_list_new_wf [OF l(1)]
    by (auto simp: sl_get_def rbind_eq_Inr check_index_def check_eq_Inr)
  with status_list_new_clear [OF l(1)] l(2) show False by simp
qed

lemma current_list_same: "db_status_list_snapshots d' = db_status_list_snapshots d \<Longrightarrow> current_list env p d' = current_list env p d"
  by (simp add: current_list_def latest_snapshot_def)

lemma lists_ok_same: "db_status_list_snapshots d' = db_status_list_snapshots d \<Longrightarrow> lists_ok env d' = lists_ok env d"
  by (simp add: lists_ok_def list_ok_def current_list_same [of d' d] list_all_iff)

lemma flagged_same: "db_status_list_snapshots d' = db_status_list_snapshots d \<Longrightarrow> flagged env d' p i = flagged env d p i"
  by (simp add: flagged_def current_list_same [of d' d])

lemma version_bound:
  assumes "s \<in> set (db_status_list_snapshots d)"
  shows "sn_version s \<le> max_version d (sn_purpose s)"
proof -
  let ?rows = "sort_key sn_version (filter (\<lambda>r. sn_purpose r = sn_purpose s) (db_status_list_snapshots d))"
  have s: "s \<in> set ?rows" using assms by simp
  then obtain ys y where ys: "?rows = ys @ [y]" by (cases ?rows rule: rev_cases) auto
  have "sorted (map sn_version ?rows)" by simp
  with s ys have "sn_version s \<le> sn_version y" by (auto simp: sorted_append)
  then show ?thesis using ys by (simp add: max_version_def latest_snapshot_def Let_def)
qed

lemma latest_after_insert:
  assumes "db_status_list_snapshots d' = db_status_list_snapshots d @ [r]" "sn_version r = max_version d (sn_purpose r) + 1"
  shows "latest_snapshot d' p = (if p = sn_purpose r then Some r else latest_snapshot d p)"
proof (cases "p = sn_purpose r")
  case True
  let ?rows = "filter (\<lambda>s. sn_purpose s = p) (db_status_list_snapshots d)"
  have "sort_key sn_version (?rows @ [r]) = sort_key sn_version ?rows @ [r]"
    by (rule sort_key_snoc) (use version_bound True assms(2) in \<open>fastforce\<close>)
  with True show ?thesis by (simp add: latest_snapshot_def assms(1) Let_def)
qed (simp add: latest_snapshot_def assms(1))

lemma set_flag_effect:
  assumes "set_flag env now purpose index d = Inr d'"
  obtains l l' doc row where "purpose \<in> set PURPOSES" "current_list env purpose d = Inr l" "sl_set l index True = Inr l'"
    "build_status_list_credential (en_sha256 env) (en_sign env) (en_compress env) (iso_now now)
       (ucs_of (list_credential_id (en_settings env) purpose)) (ucs_of (issuer env)) purpose l'
       (Some (en_signing_key env)) (Some (verification_method env)) = Inr doc"
    "row = \<lparr>sn_purpose = purpose, sn_version = max_version d purpose + 1, sn_credential = JObj doc, sn_published_at = now\<rparr>"
    "d' = d\<lparr>db_status_list_snapshots := db_status_list_snapshots d @ [row]\<rparr>"
  using assms by (auto simp: set_flag_def rbind_eq_Inr split: if_splits dest!: insert_status_list_snapshot_ok)

lemma set_flag_fields:
  assumes "set_flag env now purpose index d = Inr d'"
  obtains rows where "d' = d\<lparr>db_status_list_snapshots := rows\<rparr>"
  by (rule set_flag_effect [OF assms]) (use that in blast)

lemma current_list_built:
  assumes "latest_snapshot d p = Some row" "sn_credential row = JObj doc"
    and "build_status_list_credential h s (en_compress env) n lid did p l k vm = Inr doc"
    and "wf_status_list l" "sl_size_bits l = DEFAULT_LIST_SIZE_BITS" "gzip_ok env"
  shows "current_list env p d = Inr l"
proof -
  have "en_decompress env (en_compress env (sl_bits l)) = Inr (sl_bits l)" using assms(6) by (simp add: gzip_ok_def)
  from parse_built_list [where decompress = "en_decompress env", OF assms(3-5) this] show ?thesis
    using assms(1,2) by (simp add: current_list_def)
qed

lemma set_flag_current:
  assumes "set_flag env now purpose index d = Inr d'" "list_ok env d purpose" "gzip_ok env"
  shows "\<exists>l l'. current_list env purpose d = Inr l \<and> wf_status_list l \<and> sl_set l index True = Inr l' \<and>
    wf_status_list l' \<and> sl_size_bits l' = DEFAULT_LIST_SIZE_BITS \<and> current_list env purpose d' = Inr l' \<and>
    max_version d' purpose = max_version d purpose + 1"
    and "p \<noteq> purpose \<Longrightarrow> current_list env p d' = current_list env p d \<and> max_version d' p = max_version d p"
proof -
  obtain l l' doc row where s: "purpose \<in> set PURPOSES" "current_list env purpose d = Inr l" "sl_set l index True = Inr l'"
    "build_status_list_credential (en_sha256 env) (en_sign env) (en_compress env) (iso_now now)
       (ucs_of (list_credential_id (en_settings env) purpose)) (ucs_of (issuer env)) purpose l'
       (Some (en_signing_key env)) (Some (verification_method env)) = Inr doc"
    "row = \<lparr>sn_purpose = purpose, sn_version = max_version d purpose + 1, sn_credential = JObj doc, sn_published_at = now\<rparr>"
    "d' = d\<lparr>db_status_list_snapshots := db_status_list_snapshots d @ [row]\<rparr>"
    by (rule set_flag_effect [OF assms(1)])
  obtain "wf_status_list l" "sl_size_bits l = DEFAULT_LIST_SIZE_BITS" by (rule list_okE [OF assms(2)]) (use s(2) in simp)
  note wf = this
  have wf': "wf_status_list l'" "sl_size_bits l' = DEFAULT_LIST_SIZE_BITS" using sl_set_wf [OF wf(1) s(3)] wf(2) by simp_all
  have latest: "latest_snapshot d' q = (if q = purpose then Some row else latest_snapshot d q)" for q
    using latest_after_insert [of d' d row q] s(5,6) by simp
  have "current_list env purpose d' = Inr l'"
    by (rule current_list_built [OF _ _ s(4) wf' assms(3), where row = row]) (simp_all add: latest s(5))
  with s wf wf' latest show "\<exists>l l'. current_list env purpose d = Inr l \<and> wf_status_list l \<and> sl_set l index True = Inr l' \<and>
    wf_status_list l' \<and> sl_size_bits l' = DEFAULT_LIST_SIZE_BITS \<and> current_list env purpose d' = Inr l' \<and>
    max_version d' purpose = max_version d purpose + 1" by (simp add: max_version_def)
  show "p \<noteq> purpose \<Longrightarrow> current_list env p d' = current_list env p d \<and> max_version d' p = max_version d p"
    by (simp add: current_list_def max_version_def latest)
qed

lemma set_flag_flags:
  assumes "set_flag env now purpose index d = Inr d'" "list_ok env d purpose" "gzip_ok env"
  shows "flagged env d' p i \<longleftrightarrow> flagged env d p i \<or> (p = purpose \<and> i = index)"
proof (cases "p = purpose")
  case True
  obtain l l' where "current_list env purpose d = Inr l" "wf_status_list l" "sl_set l index True = Inr l'" "current_list env purpose d' = Inr l'"
    using set_flag_current(1) [OF assms] by blast
  with True show ?thesis using sl_get_set [of l index True l' i] by (auto simp: flagged_def)
next
  case False
  with set_flag_current(2) [OF assms, of p] show ?thesis by (simp add: flagged_def)
qed

lemma set_flag_lists_ok:
  assumes "set_flag env now purpose index d = Inr d'" "lists_ok env d" "gzip_ok env"
  shows "lists_ok env d'"
proof -
  have "purpose \<in> set PURPOSES" by (rule set_flag_effect [OF assms(1)])
  then have ok: "list_ok env d purpose" using assms(2) by (simp add: lists_ok_def list_all_iff)
  have "list_ok env d' p" if "p \<in> set PURPOSES" for p
  proof (cases "p = purpose")
    case True
    with set_flag_current(1) [OF assms(1) ok assms(3)] show ?thesis by (auto simp: list_ok_def)
  next
    case False
    with set_flag_current(2) [OF assms(1) ok assms(3), of p] assms(2) that show ?thesis
      by (simp add: list_ok_def lists_ok_def list_all_iff)
  qed
  then show ?thesis by (simp add: lists_ok_def list_all_iff)
qed

text \<open>C37: Raising a flag refines inserting an element: when \<open>set_flag\<close> returns, the published flags are the
  old ones plus the given index of the given purpose - no flag of this or another purpose is lost or
  invented - every list stays readable, and the purpose's version has increased by one. Relied on: gzip
  gives back what it compressed.\<close>

theorem set_flag_refines_insert:
  assumes "set_flag env now purpose index d = Inr d'" "lists_ok env d" "gzip_ok env"
  shows "{(p, i). flagged env d' p i} = insert (purpose, index) {(p, i). flagged env d p i} \<and> lists_ok env d' \<and>
    max_version d' purpose = max_version d purpose + 1 \<and> 0 \<le> index \<and> index < DEFAULT_LIST_SIZE_BITS"
proof -
  have "purpose \<in> set PURPOSES" by (rule set_flag_effect [OF assms(1)])
  then have ok: "list_ok env d purpose" using assms(2) by (simp add: lists_ok_def list_all_iff)
  have "0 \<le> index \<and> index < DEFAULT_LIST_SIZE_BITS"
    using set_flag_current(1) [OF assms(1) ok assms(3)] slb.put_range sl_set_wf by metis
  then show ?thesis
    using set_flag_flags [OF assms(1) ok assms(3)] set_flag_lists_ok [OF assms] set_flag_current(1) [OF assms(1) ok assms(3)] by auto
qed

subsection \<open>Signing does not fail on text\<close>

lemma no_surrogate_ucs_of [simp]: "list_all (\<lambda>c. \<not> is_surrogate c) (ucs_of s)"
  using jcs_ok_text by simp

lemma issue_proof_total:
  assumes "jcs_ok (JObj doc)" "ucs_of ''proof'' \<notin> fst ` set doc"
    and "jcs_ok (JStr vm)" "jcs_ok (JStr purpose)" "jcs_ok (JStr now_iso)"
  shows "succeeds (issue_proof sha256 sign now_iso doc key vm purpose None)"
proof -
  have o: "jcs_ok (JObj (proof_options_of now_iso vm purpose))"
    using assms(3-5) by (simp add: proof_options_of_def del: ucs_of_append)
  obtain x where x: "canonicalize_bytes (JObj (proof_options_of now_iso vm purpose)) = Inr x" by (rule canonicalize_totalE [OF o])
  obtain y where y: "canonicalize_bytes (JObj doc) = Inr y" by (rule canonicalize_totalE [OF assms(1)])
  show ?thesis using assms(2) x y by (simp add: issue_proof_def hash_data_def Let_def)
qed

lemma jcs_ok_b64u: "list_all (\<lambda>c. \<not> is_surrogate c) (b64u_encode b)"
  using b64u_encode_codes by (fastforce simp: list_all_iff is_surrogate_def)

lemma is_surrogate_u: "\<not> is_surrogate 117"
  by (simp add: is_surrogate_def)

lemma set_flag_total:
  assumes "purpose \<in> set PURPOSES" "list_ok env d purpose" "0 \<le> index" "index < DEFAULT_LIST_SIZE_BITS"
    and "jcs_ok (JStr (sk_kid (en_signing_key env)))" "0 \<le> max_version d purpose" "max_version d purpose < 2147483647"
  shows "\<exists>d'. set_flag env now purpose index d = Inr d'"
proof -
  obtain l where l: "current_list env purpose d = Inr l" "wf_status_list l" "sl_size_bits l = DEFAULT_LIST_SIZE_BITS" by (rule list_okE [OF assms(2)])
  obtain l' where l': "sl_set l index True = Inr l'"
    using slb.put_total [OF l(2), of index True] assms(3,4) l(3) by (auto simp: succeeds_iff)
  let ?lid = "ucs_of (list_credential_id (en_settings env) purpose)"
  have "verification_method env \<noteq> []" by (simp add: verification_method_def)
  then obtain u vm where vm: "verification_method env = u # vm" by (cases "verification_method env") auto
  have "jcs_ok (JStr (verification_method env))" using assms(5) by (simp add: verification_method_def del: ucs_of_append)
  then have vm_ok: "jcs_ok (JStr (u # vm))" by (simp only: vm)
  have "succeeds (build_status_list_credential (en_sha256 env) (en_sign env) (en_compress env) (iso_now now) ?lid
     (ucs_of (issuer env)) purpose l' (Some (en_signing_key env)) (Some (u # vm)))"
    using assms(1) vm_ok
    by (simp add: build_status_list_credential_def Let_def del: ucs_of_append)
      (rule issue_proof_total, simp_all add: VC_CONTEXT_def sl_encode_def jcs_ok_b64u iso_now_def list_all_append is_surrogate_u del: ucs_of_append)
  then obtain doc where doc: "build_status_list_credential (en_sha256 env) (en_sign env) (en_compress env) (iso_now now) ?lid
     (ucs_of (issuer env)) purpose l' (Some (en_signing_key env)) (Some (verification_method env)) = Inr doc"
    by (auto simp: succeeds_iff vm)
  have "(purpose, max_version d purpose + 1) \<notin> (\<lambda>s. (sn_purpose s, sn_version s)) ` set (db_status_list_snapshots d)"
    using version_bound by fastforce
  moreover have "length purpose \<le> 16" using assms(1) by (auto simp: PURPOSES_def)
  ultimately show ?thesis
    using assms(1,6,7) l l' doc
    by (simp add: set_flag_def insert_status_list_snapshot_def constraint_simps rbind_eq_Inr)
qed

lemma toy_set_flag:
  assumes "purpose \<in> set PURPOSES" "list_ok toy_env d purpose" "0 \<le> index" "index < DEFAULT_LIST_SIZE_BITS"
    and "0 \<le> max_version d purpose" "max_version d purpose < 2147483647"
  shows "\<exists>d'. set_flag toy_env now purpose index d = Inr d'"
  by (rule set_flag_total [OF assms(1-4) _ assms(5,6)]) (simp add: toy_env_def)

lemma gzip_ok_toy [simp]: "gzip_ok toy_env"
  by (simp add: gzip_ok_def)

theorem set_flag_refines_insert_witness:
  "\<exists>d'. set_flag toy_env 0 ''void'' 7 (empty_db id) = Inr d' \<and> flagged toy_env d' ''void'' 7 \<and> lists_ok toy_env d'"
proof -
  have ok: "lists_ok toy_env (empty_db id)" by (simp add: lists_ok_def list_ok_empty list_all_iff)
  obtain d' where d': "set_flag toy_env 0 ''void'' 7 (empty_db id) = Inr d'"
    using toy_set_flag [of "''void''" "empty_db id" 7 0]
    by (auto simp: PURPOSES_def list_ok_empty DEFAULT_LIST_SIZE_BITS_def max_version_def latest_snapshot_def)
  from set_flag_refines_insert [OF d' ok] d' show ?thesis by auto
qed

subsection \<open>Index allocation\<close>

lemma allocate_index_fresh:
  assumes "allocate_index d = Inr i"
  shows "i \<notin> st_status_list_index ` set (db_stamps d)" "i < DEFAULT_LIST_SIZE_BITS"
    and "(\<And>s. s \<in> set (db_stamps d) \<Longrightarrow> 0 \<le> st_status_list_index s) \<Longrightarrow> 0 \<le> i"
proof -
  have i: "i = (if db_stamps d = [] then 0 else Max (st_status_list_index ` set (db_stamps d)) + 1)" "i < DEFAULT_LIST_SIZE_BITS"
    using assms by (auto simp: allocate_index_def Let_def split: if_splits)
  then show "i < DEFAULT_LIST_SIZE_BITS" by simp
  have "st_status_list_index s < i" if "s \<in> set (db_stamps d)" for s
  proof -
    have "st_status_list_index s \<le> Max (st_status_list_index ` set (db_stamps d))" using that by simp
    moreover have "db_stamps d \<noteq> []" using that by auto
    ultimately show ?thesis using i(1) by simp
  qed
  note less = this
  then show "i \<notin> st_status_list_index ` set (db_stamps d)" by blast
  show "(\<And>s. s \<in> set (db_stamps d) \<Longrightarrow> 0 \<le> st_status_list_index s) \<Longrightarrow> 0 \<le> i"
    using less i(1) by (cases "db_stamps d") (simp, metis list.set_intros(1) order.strict_trans1 order_less_imp_le)
qed

end
