(* ===== verification/Money.thy ===== *)
theory Money
  imports PyText
begin

section \<open>Exact money\<close>

text \<open>
  \<open>src/taxstamps/domain/money.py\<close>: amounts are integer kobo; ad valorem duty is computed
  in basis points and rounded half up to the kobo, in integers only.
\<close>

definition NGN :: string where
  "NGN = ''NGN''"

definition require_ngn :: "string \<Rightarrow> string result" where
  "require_ngn currency =
     (if currency \<noteq> NGN
      then Inl (MoneyError (''unsupported currency '' @ py_repr currency @ '': excise is assessed in NGN''))
      else Inr NGN)"

definition ad_valorem_kobo :: "int \<Rightarrow> int \<Rightarrow> int result" where
  "ad_valorem_kobo customs_value_kobo rate_basis_points =
     (if customs_value_kobo < 0 then Inl (MoneyError ''customs value cannot be negative'')
      else if rate_basis_points < 0 then Inl (MoneyError ''rate cannot be negative'')
      else Inr ((customs_value_kobo * rate_basis_points + 5000) div 10000))"

lemma ad_valorem_zero_rate: "0 \<le> v \<Longrightarrow> ad_valorem_kobo v 0 = Inr 0"
  by (simp add: ad_valorem_kobo_def)

lemma ad_valorem_nonneg: "ad_valorem_kobo v bp = Inr d \<Longrightarrow> 0 \<le> d"
  by (auto simp: ad_valorem_kobo_def pos_imp_zdiv_nonneg_iff split: if_splits)

lemma ad_valorem_mono:
  assumes "ad_valorem_kobo v bp = Inr d" "ad_valorem_kobo w cp = Inr e" "v \<le> w" "bp \<le> cp"
  shows "d \<le> e"
proof -
  have "v * bp \<le> w * cp"
    using assms by (intro mult_mono) (auto simp: ad_valorem_kobo_def split: if_splits)
  then show ?thesis
    using assms by (auto simp: ad_valorem_kobo_def zdiv_mono1 split: if_splits)
qed

text \<open>The duty is the exact product rounded half up: d is the result exactly when
  10000 d - 5000 <= value * rate < 10000 d + 5000, so it is never off by more than half a kobo
  and a tie goes up.\<close>

theorem ad_valorem_half_up:
  assumes "0 \<le> v" "0 \<le> bp"
  shows "ad_valorem_kobo v bp = Inr d \<longleftrightarrow> 10000 * d - 5000 \<le> v * bp \<and> v * bp < 10000 * d + 5000"
proof -
  have "(v * bp + 5000) div 10000 = d \<longleftrightarrow> 10000 * d \<le> v * bp + 5000 \<and> v * bp + 5000 < 10000 * d + 10000"
    by auto
  then show ?thesis
    using assms by (auto simp: ad_valorem_kobo_def)
qed

theorem ad_valorem_half_up_witness:
  "ad_valorem_kobo 12345 3000 = Inr 3704 \<and> ad_valorem_kobo 5 1000 = Inr 1 \<and> ad_valorem_kobo 4 1000 = Inr 0"
  using ad_valorem_half_up [of 12345 3000 3704] ad_valorem_half_up [of 5 1000 1]
    ad_valorem_half_up [of 4 1000 0] by simp

end
