(* ===== verification/Tariff.thy ===== *)
theory Tariff
  imports Money PyTime
begin

section \<open>The excise tariff\<close>

text \<open>
  \<open>src/taxstamps/domain/tariff.py\<close>: the effective-dated rate table, the lookup of the rate
  of an HS code on a date and the duty of one declaration line.
\<close>

record TariffRate =
  hs_prefix :: string
  rate_category :: string
  rate_unit :: string
  specific_kobo :: int
  ad_valorem_bp :: int
  effective_from :: date
  effective_to :: "date option"
  statutory_ref :: string

record LineDuty =
  duty_tariff :: TariffRate
  specific_duty_kobo :: int
  ad_valorem_duty_kobo :: int

definition total_kobo :: "LineDuty \<Rightarrow> int" where
  "total_kobo d = specific_duty_kobo d + ad_valorem_duty_kobo d"

definition TARIFF_TABLE :: "TariffRate list" where
  "TARIFF_TABLE = [
    \<lparr>hs_prefix = ''2402'', rate_category = ''tobacco'', rate_unit = ''STICK'',
      specific_kobo = 600, ad_valorem_bp = 0,
      effective_from = mk_date 2023 6 1, effective_to = Some (mk_date 2026 6 30),
      statutory_ref = ''Finance Act 2020 s.13; Nigeria Customs Excise Tariff (2023 review)''\<rparr>,
    \<lparr>hs_prefix = ''2402'', rate_category = ''tobacco'', rate_unit = ''STICK'',
      specific_kobo = 800, ad_valorem_bp = 0,
      effective_from = mk_date 2026 7 1, effective_to = None,
      statutory_ref = ''2026 Fiscal Policy Measures: excise on tobacco, NGN 8.00/stick (2026-2028)''\<rparr>,
    \<lparr>hs_prefix = ''2203'', rate_category = ''alcohol'', rate_unit = ''LITRE'',
      specific_kobo = 7200, ad_valorem_bp = 0,
      effective_from = mk_date 2023 6 1, effective_to = Some (mk_date 2026 6 30),
      statutory_ref = ''Finance Act 2020 s.13; Nigeria Customs Excise Tariff (2023 review)''\<rparr>,
    \<lparr>hs_prefix = ''2203'', rate_category = ''alcohol'', rate_unit = ''LITRE'',
      specific_kobo = 8000, ad_valorem_bp = 0,
      effective_from = mk_date 2026 7 1, effective_to = None,
      statutory_ref = ''2026 Fiscal Policy Measures: excise on beer, NGN 80.00/litre''\<rparr>,
    \<lparr>hs_prefix = ''2208'', rate_category = ''alcohol'', rate_unit = ''LITRE'',
      specific_kobo = 6000, ad_valorem_bp = 2000,
      effective_from = mk_date 2023 6 1, effective_to = Some (mk_date 2026 6 30),
      statutory_ref = ''Finance Act 2020 s.13; Nigeria Customs Excise Tariff (2023 review)''\<rparr>,
    \<lparr>hs_prefix = ''2208'', rate_category = ''alcohol'', rate_unit = ''LITRE'',
      specific_kobo = 7500, ad_valorem_bp = 3000,
      effective_from = mk_date 2026 7 1, effective_to = None,
      statutory_ref = ''2026 Fiscal Policy Measures: excise on spirits, 30% ad valorem + NGN 75.00/litre''\<rparr>,
    \<lparr>hs_prefix = ''2202'', rate_category = ''beverages'', rate_unit = ''LITRE'',
      specific_kobo = 1000, ad_valorem_bp = 0,
      effective_from = mk_date 2022 6 1, effective_to = None,
      statutory_ref = ''Finance Act 2021 s.17: NGN 10/litre on non-alcoholic, carbonated and sweetened beverages''\<rparr>,
    \<lparr>hs_prefix = ''30'', rate_category = ''pharmaceuticals'', rate_unit = ''UNIT'',
      specific_kobo = 0, ad_valorem_bp = 0,
      effective_from = mk_date 2020 1 1, effective_to = None,
      statutory_ref = ''Zero-rated: pharmaceutical products carry no federal excise (stamp traceability only)''\<rparr>]"

definition HS_CATEGORY :: "string \<rightharpoonup> string" where
  "HS_CATEGORY = map_of [(''24'', ''tobacco''), (''22'', ''alcohol''), (''30'', ''pharmaceuticals'')]"

definition HEADING_CATEGORY :: "string \<rightharpoonup> string" where
  "HEADING_CATEGORY = map_of [(''2202'', ''beverages''), (''2203'', ''alcohol''),
     (''2208'', ''alcohol''), (''2402'', ''tobacco'')]"

definition hs_digits :: "string \<Rightarrow> string" where
  "hs_digits hs_code = filter is_digit hs_code"

definition category_for_hs :: "string \<Rightarrow> string option" where
  "category_for_hs hs_code =
    (let hs = hs_digits hs_code; heading = take 4 hs
     in case HEADING_CATEGORY heading of Some c \<Rightarrow> Some c | None \<Rightarrow> HS_CATEGORY (take 2 hs))"

definition starts_with :: "'a list \<Rightarrow> 'a list \<Rightarrow> bool" where
  "starts_with s p = (take (length p) s = p)"

definition in_force :: "date \<Rightarrow> TariffRate \<Rightarrow> bool" where
  "in_force on r = (effective_from r \<le> on
     \<and> (case effective_to r of None \<Rightarrow> True | Some t \<Rightarrow> on \<le> t))"

definition rate_candidates :: "string \<Rightarrow> date \<Rightarrow> TariffRate list" where
  "rate_candidates hs_code on =
     filter (\<lambda>r. starts_with (hs_digits hs_code) (hs_prefix r) \<and> in_force on r) TARIFF_TABLE"

definition rate_for :: "string \<Rightarrow> date \<Rightarrow> TariffRate option" where
  "rate_for hs_code on =
    (case sort_key (\<lambda>r. - int (length (hs_prefix r))) (rate_candidates hs_code on) of
       [] \<Rightarrow> None
     | r # _ \<Rightarrow> Some r)"

definition compute_line_duty :: "string \<Rightarrow> int \<Rightarrow> int \<Rightarrow> date \<Rightarrow> LineDuty option result" where
  "compute_line_duty hs_code quantity customs_value_kobo on =
    (if quantity < 0 then Inl (ExciseError ''quantity cannot be negative'')
     else if customs_value_kobo < 0 then Inl (ExciseError ''customs value cannot be negative'')
     else case rate_for hs_code on of
       None \<Rightarrow> Inr None
     | Some rate \<Rightarrow>
         rbind (ad_valorem_kobo customs_value_kobo (ad_valorem_bp rate)) (\<lambda>ad_valorem.
           Inr (Some \<lparr>duty_tariff = rate, specific_duty_kobo = specific_kobo rate * quantity,
                      ad_valorem_duty_kobo = ad_valorem\<rparr>)))"

subsection \<open>The schedule the table encodes\<close>

text \<open>
  The published schedule as a decision on the heading and the date: category, kobo per unit
  and basis points.
\<close>

definition two_step :: "date \<Rightarrow> string \<Rightarrow> int \<times> int \<Rightarrow> int \<times> int \<Rightarrow> (string \<times> int \<times> int) option" where
  "two_step on c old new =
     (if on < mk_date 2023 6 1 then None
      else if on < mk_date 2026 7 1 then Some (c, old) else Some (c, new))"

definition schedule :: "string \<Rightarrow> date \<Rightarrow> (string \<times> int \<times> int) option" where
  "schedule hs on =
     (if take 4 hs = ''2402'' then two_step on ''tobacco'' (600, 0) (800, 0)
      else if take 4 hs = ''2203'' then two_step on ''alcohol'' (7200, 0) (8000, 0)
      else if take 4 hs = ''2208'' then two_step on ''alcohol'' (6000, 2000) (7500, 3000)
      else if take 4 hs = ''2202'' then (if on < mk_date 2022 6 1 then None else Some (''beverages'', 1000, 0))
      else if take 2 hs = ''30'' then (if on < mk_date 2020 1 1 then None else Some (''pharmaceuticals'', 0, 0))
      else None)"

definition rate_figures :: "TariffRate \<Rightarrow> string \<times> int \<times> int" where
  "rate_figures r = (rate_category r, specific_kobo r, ad_valorem_bp r)"

lemma take4_take2: "take 4 hs = [a, b, c, d] \<Longrightarrow> take 2 hs = [a, b]"
proof -
  assume "take 4 hs = [a, b, c, d]"
  then have "take 2 (take 4 hs) = take 2 [a, b, c, d]" by simp
  then show ?thesis by (simp add: min_def)
qed

lemma starts_with_lits:
  "starts_with hs [a, b, c, d] \<longleftrightarrow> take 4 hs = [a, b, c, d]" "starts_with hs [a, b] \<longleftrightarrow> take 2 hs = [a, b]"
  by (simp_all add: starts_with_def eval_nat_numeral)

lemma heading_cases:
  obtains (h2402) "take 4 hs = ''2402''" "take 2 hs = ''24''"
  | (h2203) "take 4 hs = ''2203''" "take 2 hs = ''22''"
  | (h2208) "take 4 hs = ''2208''" "take 2 hs = ''22''"
  | (h2202) "take 4 hs = ''2202''" "take 2 hs = ''22''"
  | (other) "take 4 hs \<noteq> ''2402''" "take 4 hs \<noteq> ''2203''" "take 4 hs \<noteq> ''2208''" "take 4 hs \<noteq> ''2202''"
proof -
  consider "take 4 hs = ''2402''" | "take 4 hs = ''2203''" | "take 4 hs = ''2208''" | "take 4 hs = ''2202''"
    | "take 4 hs \<notin> {''2402'', ''2203'', ''2208'', ''2202''}"
    by blast
  then show thesis
    by cases (use that take4_take2 [of hs] in simp_all)
qed

lemmas table_unfold = TARIFF_TABLE_def in_force_def tariff_dates starts_with_lits rate_candidates_def

lemma candidates_at_most_one: "length (rate_candidates hs_code on) \<le> 1"
  by (cases rule: heading_cases [of "hs_digits hs_code"]) (simp_all add: table_unfold)

lemma rate_for_single:
  "rate_for hs_code on = (case rate_candidates hs_code on of [] \<Rightarrow> None | r # _ \<Rightarrow> Some r)"
  using candidates_at_most_one [of hs_code on]
  by (cases "rate_candidates hs_code on") (auto simp: rate_for_def)

lemma rate_for_schedule_aux:
  "map_option rate_figures (rate_for hs_code on) = schedule (hs_digits hs_code) on"
  by (cases rule: heading_cases [of "hs_digits hs_code"])
    (simp_all add: rate_for_single table_unfold schedule_def two_step_def rate_figures_def)

text \<open>C28: The lookup over the effective-dated table is the published schedule: for every HS
  code and date it yields exactly the category and rates of the heading in force, nothing
  outside the schedule, and never has two candidates to choose between.\<close>

theorem rate_for_schedule:
  "map_option rate_figures (rate_for hs_code on) = schedule (hs_digits hs_code) on
   \<and> length (rate_candidates hs_code on) \<le> 1"
  using rate_for_schedule_aux candidates_at_most_one by blast

lemma rate_for_in_table: "rate_for hs_code on = Some r \<Longrightarrow> r \<in> set TARIFF_TABLE"
  using list.set_intros(1) [of r]
  by (fastforce simp: rate_for_single rate_candidates_def split: list.splits
      dest: arg_cong [of "filter _ _" _ set])

lemma table_rates_nonneg: "r \<in> set TARIFF_TABLE \<Longrightarrow> 0 \<le> specific_kobo r \<and> 0 \<le> ad_valorem_bp r"
  by (auto simp: TARIFF_TABLE_def)

lemma table_category:
  "r \<in> set TARIFF_TABLE \<Longrightarrow> rate_category r \<in> {''tobacco'', ''alcohol'', ''pharmaceuticals'', ''beverages''}"
  by (auto simp: TARIFF_TABLE_def)

subsection \<open>Duty of a line\<close>

lemma rate_for_SomeD:
  assumes "rate_for hs_code on = Some r"
  shows "schedule (hs_digits hs_code) on = Some (rate_figures r)"
  using rate_for_schedule_aux [of hs_code on] assms by simp

lemma compute_line_duty_ok:
  assumes "0 \<le> q" "0 \<le> v"
  shows "compute_line_duty hs q v on =
    Inr (map_option (\<lambda>r. \<lparr>duty_tariff = r, specific_duty_kobo = specific_kobo r * q,
                           ad_valorem_duty_kobo = (v * ad_valorem_bp r + 5000) div 10000\<rparr>) (rate_for hs on))"
proof (cases "rate_for hs on")
  case None
  with assms show ?thesis by (simp add: compute_line_duty_def)
next
  case (Some r)
  then have "0 \<le> ad_valorem_bp r"
    using rate_for_in_table table_rates_nonneg by blast
  with Some assms show ?thesis
    by (simp add: compute_line_duty_def ad_valorem_kobo_def)
qed

lemma compute_line_duty_nonneg:
  assumes "compute_line_duty hs q v on = Inr (Some d)"
  shows "0 \<le> specific_duty_kobo d" "0 \<le> ad_valorem_duty_kobo d" "0 \<le> total_kobo d"
proof -
  have q: "0 \<le> q" and v: "0 \<le> v"
    using assms by (auto simp: compute_line_duty_def split: if_splits)
  obtain r where r: "rate_for hs on = Some r"
    and d: "d = \<lparr>duty_tariff = r, specific_duty_kobo = specific_kobo r * q,
      ad_valorem_duty_kobo = (v * ad_valorem_bp r + 5000) div 10000\<rparr>"
    using assms compute_line_duty_ok [OF q v, of hs on] by auto
  have "0 \<le> specific_kobo r" "0 \<le> ad_valorem_bp r"
    using table_rates_nonneg [OF rate_for_in_table [OF r]] by auto
  then show "0 \<le> specific_duty_kobo d" "0 \<le> ad_valorem_duty_kobo d" "0 \<le> total_kobo d"
    using q v by (simp_all add: d total_kobo_def pos_imp_zdiv_nonneg_iff)
qed

text \<open>For non-negative quantity and value the duty of a line never raises: it is None
  exactly when the schedule has no rate, and otherwise the scheduled rate per unit times the
  quantity plus the scheduled share of the customs value, rounded half up.\<close>

theorem compute_line_duty_schedule:
  assumes "0 \<le> q" "0 \<le> v"
  shows "case schedule (hs_digits hs) on of
      None \<Rightarrow> compute_line_duty hs q v on = Inr None
    | Some (c, sp, bp) \<Rightarrow> (\<exists>d. compute_line_duty hs q v on = Inr (Some d)
        \<and> rate_category (duty_tariff d) = c \<and> specific_duty_kobo d = sp * q
        \<and> 10000 * ad_valorem_duty_kobo d - 5000 \<le> v * bp
        \<and> v * bp < 10000 * ad_valorem_duty_kobo d + 5000
        \<and> total_kobo d = specific_duty_kobo d + ad_valorem_duty_kobo d)"
proof (cases "rate_for hs on")
  case None
  then have "schedule (hs_digits hs) on = None"
    using rate_for_schedule_aux [of hs on] by simp
  with None assms show ?thesis by (simp add: compute_line_duty_ok)
next
  case (Some r)
  then have "schedule (hs_digits hs) on = Some (rate_figures r)"
    by (rule rate_for_SomeD)
  moreover have "10000 * ((v * ad_valorem_bp r + 5000) div 10000) - 5000 \<le> v * ad_valorem_bp r"
    and "v * ad_valorem_bp r < 10000 * ((v * ad_valorem_bp r + 5000) div 10000) + 5000"
    by auto
  ultimately show ?thesis
    using assms Some by (simp add: compute_line_duty_ok rate_figures_def total_kobo_def)
qed

theorem compute_line_duty_schedule_witness:
  "\<exists>d. compute_line_duty ''2208.30'' 700 1000001 (mk_date 2026 7 1) = Inr (Some d)
     \<and> specific_duty_kobo d = 7500 * 700 \<and> 10000 * ad_valorem_duty_kobo d - 5000 \<le> 1000001 * 3000"
  using compute_line_duty_schedule [of 700 1000001 "''2208.30''" "mk_date 2026 7 1"]
  by (auto simp: schedule_def two_step_def hs_digits_def is_digit_def is_ascii_digit_def tariff_dates)

lemma schedule_mono:
  assumes "schedule hs on = Some (c, sp, bp)" "schedule hs on' = Some (c', sp', bp')" "on \<le> on'"
  shows "c' = c \<and> sp \<le> sp' \<and> bp \<le> bp'"
  using assms by (auto simp: schedule_def two_step_def split: if_splits)

text \<open>A later date, a larger quantity or a larger customs value never lowers the duty of an
  HS code: in particular the change of rates on 2026-07-01 lowers no duty.\<close>

theorem compute_line_duty_mono:
  assumes "compute_line_duty hs q v on = Inr (Some d)" "compute_line_duty hs q' v' on' = Inr (Some d')"
    and le: "q \<le> q'" "v \<le> v'" "on \<le> on'"
  shows "total_kobo d \<le> total_kobo d'"
proof -
  have pos: "0 \<le> q" "0 \<le> v" "0 \<le> q'" "0 \<le> v'"
    using assms by (auto simp: compute_line_duty_def split: if_splits)
  obtain r where r: "rate_for hs on = Some r"
    and d: "d = \<lparr>duty_tariff = r, specific_duty_kobo = specific_kobo r * q,
      ad_valorem_duty_kobo = (v * ad_valorem_bp r + 5000) div 10000\<rparr>"
    using assms(1) compute_line_duty_ok [OF pos(1,2), of hs on] by auto
  obtain r' where r': "rate_for hs on' = Some r'"
    and d': "d' = \<lparr>duty_tariff = r', specific_duty_kobo = specific_kobo r' * q',
      ad_valorem_duty_kobo = (v' * ad_valorem_bp r' + 5000) div 10000\<rparr>"
    using assms(2) compute_line_duty_ok [OF pos(3,4), of hs on'] by auto
  have step: "specific_kobo r \<le> specific_kobo r'" "ad_valorem_bp r \<le> ad_valorem_bp r'"
    using schedule_mono [of "hs_digits hs" on _ _ _ on'] rate_for_SomeD [OF r] rate_for_SomeD [OF r'] le
    by (auto simp: rate_figures_def)
  have nn: "0 \<le> specific_kobo r'" "0 \<le> ad_valorem_bp r"
    using table_rates_nonneg rate_for_in_table r r' by blast+
  have "specific_kobo r * q \<le> specific_kobo r' * q'"
    using step nn le pos by (intro mult_mono) auto
  moreover have "v * ad_valorem_bp r \<le> v' * ad_valorem_bp r'"
    using step nn le pos by (intro mult_mono) auto
  ultimately show ?thesis
    by (simp add: d d' total_kobo_def add_mono zdiv_mono1)
qed

theorem compute_line_duty_mono_witness:
  "\<exists>d d'. compute_line_duty ''2402'' 10 0 (mk_date 2026 6 30) = Inr (Some d)
     \<and> compute_line_duty ''2402'' 10 0 (mk_date 2026 7 1) = Inr (Some d')
     \<and> total_kobo d \<le> total_kobo d'"
proof -
  have "rate_for ''2402'' (mk_date 2026 6 30) \<noteq> None" "rate_for ''2402'' (mk_date 2026 7 1) \<noteq> None"
    by code_simp+
  then have "\<exists>d. compute_line_duty ''2402'' 10 0 (mk_date 2026 6 30) = Inr (Some d)"
    and "\<exists>d. compute_line_duty ''2402'' 10 0 (mk_date 2026 7 1) = Inr (Some d)"
    by (auto simp: compute_line_duty_ok)
  moreover have "mk_date 2026 6 30 \<le> mk_date 2026 7 1" by (simp add: tariff_dates)
  ultimately show ?thesis
    using compute_line_duty_mono [of "''2402''" 10 0 "mk_date 2026 6 30" _ 10 0 "mk_date 2026 7 1"] by blast
qed

subsection \<open>The category map\<close>

text \<open>The category recorded from the tariff entry of a rated HS code is the one the
  category map gives the code.\<close>

theorem category_of_rated:
  assumes "rate_for hs_code on = Some r"
  shows "category_for_hs hs_code = Some (rate_category r)"
  using rate_for_SomeD [OF assms]
  by (cases rule: heading_cases [of "hs_digits hs_code"])
    (auto simp: schedule_def two_step_def rate_figures_def category_for_hs_def HEADING_CATEGORY_def
      HS_CATEGORY_def Let_def split: if_splits)

theorem category_of_rated_witness:
  "\<exists>r. rate_for ''2202.10'' (mk_date 2024 1 1) = Some r
     \<and> category_for_hs ''2202.10'' = Some (rate_category r)"
proof -
  have "rate_for ''2202.10'' (mk_date 2024 1 1) \<noteq> None" by code_simp
  then show ?thesis using category_of_rated by blast
qed

text \<open>The converse fails: wine (heading 2204) and every other chapter 22 or 24 heading
  without a tariff entry has a stamp category but no rate on any date, so an assessment treats
  the line as not stamp-bearing although the category map promises None for such codes.\<close>

theorem category_without_rate:
  "category_for_hs ''2204'' = Some ''alcohol'' \<and> category_for_hs ''2401'' = Some ''tobacco''
   \<and> (\<forall>on. rate_for ''2204'' on = None \<and> rate_for ''2401'' on = None)"
proof -
  have "rate_for ''2204'' on = None" "rate_for ''2401'' on = None" for on
    using rate_for_schedule_aux [of "''2204''" on] rate_for_schedule_aux [of "''2401''" on]
    by (simp_all add: schedule_def hs_digits_def is_digit_def is_ascii_digit_def)
  moreover have "category_for_hs ''2204'' = Some ''alcohol''" "category_for_hs ''2401'' = Some ''tobacco''"
    by code_simp+
  ultimately show ?thesis by blast
qed

end
