(* ===== verification/Assessments.thy ===== *)
theory Assessments
  imports Config Tariff
begin

section \<open>Assessments\<close>

text \<open>
  \<open>src/taxstamps/services/assessments.py\<close>: pricing a declaration with the tariff in force, and
  the maker-checker decisions with their risk-tiered number of approvals. The rows an operation
  adds are written when the session flushes, parents before children; the identifiers are drawn in
  the order of the code.
\<close>

definition LOW_THRESHOLD_KOBO :: int where
  "LOW_THRESHOLD_KOBO = 100000000"

definition STANDARD_THRESHOLD_KOBO :: int where
  "STANDARD_THRESHOLD_KOBO = 2500000000"

definition risk_tier_for :: "int \<Rightarrow> risk_tier \<times> int" where
  "risk_tier_for total_duty_kobo =
    (if total_duty_kobo \<ge> STANDARD_THRESHOLD_KOBO then (HIGH, 3)
     else if total_duty_kobo \<ge> LOW_THRESHOLD_KOBO then (STANDARD, 2)
     else (LOW, 1))"

subsection \<open>Pricing\<close>

definition assessment_row :: "uuid \<Rightarrow> uuid \<Rightarrow> declaration_line \<Rightarrow> LineDuty \<Rightarrow> assessment_line" where
  "assessment_row u a line duty =
    \<lparr>al_id = u, al_assessment_id = a, al_hs_code = dl_hs_code line, al_category = rate_category (duty_tariff duty),
     al_quantity = dl_quantity line, al_unit = dl_unit line, al_customs_value_kobo = dl_customs_value_kobo line,
     al_specific_duty_kobo = specific_duty_kobo duty, al_ad_valorem_duty_kobo = ad_valorem_duty_kobo duty,
     al_total_duty_kobo = total_kobo duty, al_statutory_ref = statutory_ref (duty_tariff duty),
     al_tariff_effective_from = effective_from (duty_tariff duty)\<rparr>"

text \<open>The loop over the lines: whether a stamp-bearing line was seen, the duty, the stamps, the new rows.\<close>

fun price_lines ::
  "uuid \<Rightarrow> date \<Rightarrow> declaration_line list \<Rightarrow> bool \<times> int \<times> int \<times> assessment_line list \<Rightarrow> db
    \<Rightarrow> ((bool \<times> int \<times> int \<times> assessment_line list) \<times> db) result" where
  "price_lines a on [] acc d = Inr (acc, d)"
| "price_lines a on (line # lines) (saw, duty_sum, stamps, rows) d =
    rbind (compute_line_duty (dl_hs_code line) (dl_quantity line) (dl_customs_value_kobo line) on) (\<lambda>duty.
      case duty of
        None \<Rightarrow> price_lines a on lines (saw, duty_sum, stamps, rows) d
      | Some duty \<Rightarrow>
          let (u, d1) = uuid4 d
          in price_lines a on lines (True, duty_sum + total_kobo duty, stamps + dl_stamps_required line,
               rows @ [assessment_row u a line duty]) d1)"

fun insert_all :: "('a \<Rightarrow> db \<Rightarrow> db result) \<Rightarrow> 'a list \<Rightarrow> db \<Rightarrow> db result" where
  "insert_all ins [] d = Inr d"
| "insert_all ins (r # rs) d = rbind (ins r d) (insert_all ins rs)"

definition declaration_lines_of :: "db \<Rightarrow> uuid \<Rightarrow> declaration_line list" where
  "declaration_lines_of d i = filter (\<lambda>l. dl_declaration_id l = i) (db_declaration_lines d)"

definition create_assessment ::
  "datetime \<Rightarrow> customs_declaration \<Rightarrow> string \<Rightarrow> string \<Rightarrow> date option \<Rightarrow> db \<Rightarrow> (assessment \<times> db) result" where
  "create_assessment now decl submitted_by idempotency_key on_date d =
    (case find (\<lambda>a. as_idempotency_key a = idempotency_key) (db_assessments d) of
       Some existing \<Rightarrow> Inr (existing, d)
     | None \<Rightarrow>
         let lines = declaration_lines_of d (dc_id decl)
         in if lines = [] then Inl (AssessmentError ''empty-declaration'' ''declaration has no line items'')
            else let on = (case on_date of Some x \<Rightarrow> x | None \<Rightarrow> date_of now);
                     (u, d1) = uuid4 d
                 in rbind (price_lines u on lines (False, 0, 0, []) d1) (\<lambda>((saw_stamp_bearing, duty_sum, stamps, rows), d2).
                    if \<not> saw_stamp_bearing
                    then Inl (AssessmentError ''not-stamp-bearing'' ''no line item maps to a stamp category'')
                    else let (tier, approvals) = risk_tier_for duty_sum;
                             a = \<lparr>as_id = u, as_declaration_id = dc_id decl, as_status = AS_PENDING_APPROVAL,
                                  as_currency = ''NGN'', as_total_duty_kobo = duty_sum, as_stamps_required = stamps,
                                  as_risk_tier = tier, as_approvals_required = approvals, as_submitted_by = submitted_by,
                                  as_submitted_at = now, as_decided_at = None, as_idempotency_key = idempotency_key\<rparr>
                         in rbind (insert_assessment a d2) (\<lambda>d3.
                            rbind (insert_all insert_assessment_line rows d3) (\<lambda>d4. Inr (a, d4)))))"

subsection \<open>Decisions\<close>

definition approvals_of :: "db \<Rightarrow> uuid \<Rightarrow> approval list" where
  "approvals_of d i = filter (\<lambda>p. ap_assessment_id p = i) (db_approvals d)"

definition find_assessment :: "db \<Rightarrow> uuid \<Rightarrow> assessment option" where
  "find_assessment d i = find (\<lambda>a. as_id a = i) (db_assessments d)"

definition parse_decision :: "string \<Rightarrow> approval_decision option" where
  "parse_decision s = (if s = ''APPROVE'' then Some APPROVE else if s = ''REJECT'' then Some REJECT else None)"

definition record_decision ::
  "datetime \<Rightarrow> uuid \<Rightarrow> string \<Rightarrow> string \<Rightarrow> string \<Rightarrow> db \<Rightarrow> (assessment \<times> db) result" where
  "record_decision now assessment_id principal_sub decision reason d =
    (case find_assessment d assessment_id of
       None \<Rightarrow> Inl (AssessmentError ''not-found'' ''assessment not found'')
     | Some a \<Rightarrow>
       (case parse_decision decision of
          None \<Rightarrow> Inl (AssessmentError ''invalid-decision'' decision)
        | Some dec \<Rightarrow>
            if principal_sub = as_submitted_by a
            then Inl (AssessmentError ''self-approval'' ''the submitter cannot approve their own assessment'')
            else if filter (\<lambda>p. ap_principal_sub p = principal_sub) (approvals_of d assessment_id) \<noteq> []
            then Inl (AssessmentError ''duplicate-decision'' ''principal already decided on this assessment'')
            else if as_status a \<noteq> AS_PENDING_APPROVAL
            then Inl (AssessmentError ''invalid-state'' (''assessment is '' @ assessment_status_text (as_status a)))
            else let level = int (length (approvals_of d assessment_id)) + 1; (u, d1) = uuid4 d
                 in rbind (insert_approval \<lparr>ap_id = u, ap_assessment_id = assessment_id, ap_principal_sub = principal_sub,
                      ap_decision = dec, ap_level = level, ap_reason = reason, ap_decided_at = now\<rparr> d1) (\<lambda>d2.
                    let approvals = length (filter (\<lambda>p. ap_decision p = APPROVE) (approvals_of d2 assessment_id));
                        a' = (if dec = REJECT then a\<lparr>as_status := AS_REJECTED, as_decided_at := Some now\<rparr>
                              else if int approvals \<ge> as_approvals_required a
                              then a\<lparr>as_status := AS_APPROVED, as_decided_at := Some now\<rparr>
                              else a)
                    in Inr (a', update_assessment assessment_id (\<lambda>_. a') d2))))"


subsection \<open>What pricing computes\<close>

text \<open>The reference: by the published schedule, line by line.\<close>

definition stamp_bearing :: "date \<Rightarrow> declaration_line \<Rightarrow> bool" where
  "stamp_bearing on l = (schedule (hs_digits (dl_hs_code l)) on \<noteq> None)"

definition line_due :: "date \<Rightarrow> declaration_line \<Rightarrow> int" where
  "line_due on l = (case schedule (hs_digits (dl_hs_code l)) on of
     None \<Rightarrow> 0
   | Some (c, per_unit, basis_points) \<Rightarrow> per_unit * dl_quantity l + (dl_customs_value_kobo l * basis_points + 5000) div 10000)"

definition prices_line :: "date \<Rightarrow> declaration_line \<Rightarrow> assessment_line \<Rightarrow> bool" where
  "prices_line on l r = (al_hs_code r = dl_hs_code l \<and> al_quantity r = dl_quantity l \<and> al_unit r = dl_unit l \<and>
     al_customs_value_kobo r = dl_customs_value_kobo l \<and> al_total_duty_kobo r = line_due on l \<and>
     map_option fst (schedule (hs_digits (dl_hs_code l)) on) = Some (al_category r) \<and>
     al_total_duty_kobo r = al_specific_duty_kobo r + al_ad_valorem_duty_kobo r)"

lemma compute_line_duty_due:
  assumes "compute_line_duty (dl_hs_code l) (dl_quantity l) (dl_customs_value_kobo l) on = Inr duty"
  shows "(duty \<noteq> None) = stamp_bearing on l" "duty = None \<Longrightarrow> line_due on l = 0"
    and "duty = Some x \<Longrightarrow> total_kobo x = line_due on l \<and> prices_line on l (assessment_row u a l x)"
proof -
  have nn: "0 \<le> dl_quantity l" "0 \<le> dl_customs_value_kobo l" using assms by (auto simp: compute_line_duty_def split: if_splits)
  have d: "duty = map_option (\<lambda>r. \<lparr>duty_tariff = r, specific_duty_kobo = specific_kobo r * dl_quantity l,
      ad_valorem_duty_kobo = (dl_customs_value_kobo l * ad_valorem_bp r + 5000) div 10000\<rparr>) (rate_for (dl_hs_code l) on)"
    using assms compute_line_duty_ok [OF nn, of "dl_hs_code l" on] by simp
  note sched = rate_for_schedule_aux [of "dl_hs_code l" on, symmetric]
  show "(duty \<noteq> None) = stamp_bearing on l" "duty = None \<Longrightarrow> line_due on l = 0"
    by (auto simp: d stamp_bearing_def line_due_def sched)
  show "duty = Some x \<Longrightarrow> total_kobo x = line_due on l \<and> prices_line on l (assessment_row u a l x)"
    by (auto simp: d line_due_def sched rate_figures_def total_kobo_def prices_line_def assessment_row_def)
qed

lemma assessment_row_of [simp]: "al_assessment_id (assessment_row u a l x) = a"
  by (simp add: assessment_row_def)

lemma price_lines_spec:
  assumes "price_lines a on ls (saw, t, n, rows) d = Inr ((saw', t', n', rows'), d')"
  shows "\<exists>rs k. rows' = rows @ rs \<and> d' = d\<lparr>db_next_uuid := k\<rparr> \<and> list_all2 (prices_line on) (filter (stamp_bearing on) ls) rs \<and>
    t' = t + sum_list (map (line_due on) ls) \<and> n' = n + sum_list (map dl_stamps_required (filter (stamp_bearing on) ls)) \<and>
    (saw' \<longleftrightarrow> saw \<or> rs \<noteq> []) \<and> list_all (\<lambda>r. al_assessment_id r = a) rs"
  using assms
proof (induction ls arbitrary: saw t n rows d)
  case Nil
  then show ?case by (auto intro: exI [of _ "db_next_uuid d'"])
next
  case (Cons l ls)
  then obtain duty where duty: "compute_line_duty (dl_hs_code l) (dl_quantity l) (dl_customs_value_kobo l) on = Inr duty"
    by (auto simp: rbind_eq_Inr)
  note due = compute_line_duty_due [OF duty]
  show ?case
  proof (cases duty)
    case None
    with Cons.IH [of saw t n rows d] Cons.prems duty due(1,2) show ?thesis by auto
  next
    case (Some x)
    obtain u d1 where u: "uuid4 d = (u, d1)" by fastforce
    with Cons.prems duty Some have "price_lines a on ls (True, t + total_kobo x, n + dl_stamps_required l, rows @ [assessment_row u a l x]) d1
        = Inr ((saw', t', n', rows'), d')" by simp
    from Cons.IH [OF this] obtain rs k where "rows' = rows @ assessment_row u a l x # rs" "d' = d1\<lparr>db_next_uuid := k\<rparr>"
      "list_all2 (prices_line on) (filter (stamp_bearing on) ls) rs" "t' = t + total_kobo x + sum_list (map (line_due on) ls)"
      "n' = n + dl_stamps_required l + sum_list (map dl_stamps_required (filter (stamp_bearing on) ls))" "saw'"
      "list_all (\<lambda>r. al_assessment_id r = a) rs" by auto
    with due(1) due(3) [OF Some] uuid4_fields [OF u] Some show ?thesis
      by (intro exI [of _ "assessment_row u a l x # rs"] exI [of _ k]) simp
  qed
qed

lemma insert_all_lines: "insert_all insert_assessment_line rows d = Inr d' \<Longrightarrow>
    d' = d\<lparr>db_assessment_lines := db_assessment_lines d @ rows\<rparr>"
proof (induction rows arbitrary: d)
  case (Cons r rs)
  then obtain d1 where "insert_assessment_line r d = Inr d1" "insert_all insert_assessment_line rs d1 = Inr d'"
    by (auto simp: rbind_eq_Inr)
  with Cons.IH [of d1] insert_assessment_line_ok [of r d d1] show ?case by simp
qed simp

lemma create_assessment_effect:
  assumes "create_assessment now decl sub key on_date d = Inr (a, d')" "key \<notin> as_idempotency_key ` set (db_assessments d)"
  defines "on \<equiv> (case on_date of Some x \<Rightarrow> x | None \<Rightarrow> date_of now)" and "ls \<equiv> declaration_lines_of d (dc_id decl)"
  shows "\<exists>rs k u. d' = d\<lparr>db_assessments := db_assessments d @ [a], db_assessment_lines := db_assessment_lines d @ rs, db_next_uuid := k\<rparr> \<and>
    a = \<lparr>as_id = u, as_declaration_id = dc_id decl, as_status = AS_PENDING_APPROVAL, as_currency = ''NGN'',
       as_total_duty_kobo = sum_list (map (line_due on) ls),
       as_stamps_required = sum_list (map dl_stamps_required (filter (stamp_bearing on) ls)),
       as_risk_tier = fst (risk_tier_for (sum_list (map (line_due on) ls))),
       as_approvals_required = snd (risk_tier_for (sum_list (map (line_due on) ls))), as_submitted_by = sub,
       as_submitted_at = now, as_decided_at = None, as_idempotency_key = key\<rparr> \<and>
    list_all2 (prices_line on) (filter (stamp_bearing on) ls) rs \<and> list_all (\<lambda>r. al_assessment_id r = u) rs \<and> rs \<noteq> [] \<and>
    u \<notin> as_id ` set (db_assessments d)"
proof -
  have none: "find (\<lambda>a. as_idempotency_key a = key) (db_assessments d) = None"
    using assms(2) by (auto simp: find_None_set)
  obtain u d1 where u: "uuid4 d = (u, d1)" by fastforce
  from assms(1) none u obtain saw t n rows d2 where p: "price_lines u on ls (False, 0, 0, []) d1 = Inr ((saw, t, n, rows), d2)" "saw"
    and i: "\<exists>d3. insert_assessment a d2 = Inr d3 \<and> insert_all insert_assessment_line rows d3 = Inr d'"
    and a: "a = \<lparr>as_id = u, as_declaration_id = dc_id decl, as_status = AS_PENDING_APPROVAL, as_currency = ''NGN'',
       as_total_duty_kobo = t, as_stamps_required = n, as_risk_tier = fst (risk_tier_for t), as_approvals_required = snd (risk_tier_for t),
       as_submitted_by = sub, as_submitted_at = now, as_decided_at = None, as_idempotency_key = key\<rparr>"
    by (cases on_date) (auto simp: create_assessment_def Let_def rbind_eq_Inr on_def ls_def split: if_splits prod.splits)
  obtain rs k where rs: "rows = rs" "d2 = d1\<lparr>db_next_uuid := k\<rparr>" "list_all2 (prices_line on) (filter (stamp_bearing on) ls) rs"
    "t = sum_list (map (line_due on) ls)" "n = sum_list (map dl_stamps_required (filter (stamp_bearing on) ls))" "rs \<noteq> []"
    "list_all (\<lambda>r. al_assessment_id r = u) rs"
    using price_lines_spec [OF p(1)] p(2) by auto
  obtain d3 where d3: "insert_assessment a d2 = Inr d3" "insert_all insert_assessment_line rows d3 = Inr d'" using i by blast
  have "u \<notin> as_id ` set (db_assessments d)"
    using d3(1) a rs(2) uuid4_fields [OF u] by (auto simp: insert_assessment_def rbind_eq_Inr constraint_simps)
  then show ?thesis
    using rs a uuid4_fields [OF u] insert_assessment_ok [OF d3(1)] insert_all_lines [OF d3(2)]
    by (intro exI [of _ rs] exI [of _ k] exI [of _ u]) (simp only:, simp)
qed

text \<open>C21: Pricing is the published schedule: a newly created assessment charges exactly the sum over the
  declaration's lines of the duty the schedule in force prescribes, requires the stamps of the
  stamp-bearing lines and no others, records one line per stamp-bearing line with its category and duty,
  and its risk tier and number of approvals are those of its total.\<close>

theorem assessment_prices_schedule:
  assumes "create_assessment now decl sub key on_date d = Inr (a, d')" "key \<notin> as_idempotency_key ` set (db_assessments d)"
    and "on = (case on_date of Some x \<Rightarrow> x | None \<Rightarrow> date_of now)" "ls = declaration_lines_of d (dc_id decl)"
  shows "as_total_duty_kobo a = sum_list (map (line_due on) ls) \<and>
    as_stamps_required a = sum_list (map dl_stamps_required (filter (stamp_bearing on) ls)) \<and>
    (as_risk_tier a, as_approvals_required a) = risk_tier_for (as_total_duty_kobo a) \<and>
    as_status a = AS_PENDING_APPROVAL \<and> as_submitted_by a = sub \<and> db_assessments d' = db_assessments d @ [a] \<and>
    (\<exists>rs. db_assessment_lines d' = db_assessment_lines d @ rs \<and> rs \<noteq> [] \<and>
       list_all2 (prices_line on) (filter (stamp_bearing on) ls) rs \<and> list_all (\<lambda>r. al_assessment_id r = as_id a) rs)"
  using create_assessment_effect [OF assms(1,2)] unfolding assms(3,4) [symmetric] by auto

subsection \<open>Maker and checker\<close>

text \<open>
  What the approvals of an assessment say of it: nobody decides twice, the submitter never decides,
  the number required is the one of the risk tier, and the status is the one the decisions imply.
\<close>

definition all_approve :: "approval list \<Rightarrow> bool" where
  "all_approve ps = list_all (\<lambda>p. ap_decision p = APPROVE) ps"

definition decided_ok :: "assessment \<Rightarrow> approval list \<Rightarrow> bool" where
  "decided_ok a ps =
    (distinct (map ap_principal_sub ps) \<and> as_submitted_by a \<notin> ap_principal_sub ` set ps \<and>
     (as_risk_tier a, as_approvals_required a) = risk_tier_for (as_total_duty_kobo a) \<and>
     (if as_status a = AS_PENDING_APPROVAL then all_approve ps \<and> int (length ps) < as_approvals_required a
      else if as_status a = AS_REJECTED
      then ps \<noteq> [] \<and> ap_decision (last ps) = REJECT \<and> all_approve (butlast ps) \<and> int (length ps) \<le> as_approvals_required a
      else all_approve ps \<and> int (length ps) = as_approvals_required a))"

definition decisions_ok :: "db \<Rightarrow> bool" where
  "decisions_ok d =
    (distinct (map as_id (db_assessments d)) \<and>
     list_all (\<lambda>a. decided_ok a (approvals_of d (as_id a))) (db_assessments d) \<and>
     list_all (\<lambda>p. ap_assessment_id p \<in> as_id ` set (db_assessments d)) (db_approvals d))"

lemma risk_tier_for_pos: "0 < snd (risk_tier_for t)"
  by (simp add: risk_tier_for_def)

lemma find_assessment_Some: "find_assessment d i = Some a \<Longrightarrow> a \<in> set (db_assessments d) \<and> as_id a = i"
  by (auto simp: find_assessment_def dest: find_SomeD)

lemma find_unique:
  assumes "distinct (map key rows)" "r \<in> set rows"
  shows "find (\<lambda>x. key x = key r) rows = Some r"
  using assms by (induction rows) auto

lemma unique_row: "distinct (map key rows) \<Longrightarrow> r \<in> set rows \<Longrightarrow> s \<in> set rows \<Longrightarrow> key r = key s \<Longrightarrow> r = s"
  by (auto simp: distinct_map dest: inj_onD)

definition decide :: "datetime \<Rightarrow> approval_decision \<Rightarrow> nat \<Rightarrow> assessment \<Rightarrow> assessment" where
  "decide now dec n a =
    (if dec = REJECT then a\<lparr>as_status := AS_REJECTED, as_decided_at := Some now\<rparr>
     else if int n + 1 \<ge> as_approvals_required a then a\<lparr>as_status := AS_APPROVED, as_decided_at := Some now\<rparr>
     else a)"

lemma record_decision_effect:
  assumes "record_decision now i who decision reason d = Inr (a', d')"
  shows "\<exists>a p dec. find_assessment d i = Some a \<and> parse_decision decision = Some dec \<and> who \<noteq> as_submitted_by a \<and>
    who \<notin> ap_principal_sub ` set (approvals_of d i) \<and> as_status a = AS_PENDING_APPROVAL \<and>
    p = \<lparr>ap_id = db_uuids d (db_next_uuid d), ap_assessment_id = i, ap_principal_sub = who, ap_decision = dec,
         ap_level = int (length (approvals_of d i)) + 1, ap_reason = reason, ap_decided_at = now\<rparr> \<and>
    a' = decide now dec (length (filter (\<lambda>q. ap_decision q = APPROVE) (approvals_of d i))) a \<and>
    d' = d\<lparr>db_approvals := db_approvals d @ [p], db_assessments := update_where (\<lambda>x. as_id x = i) (\<lambda>_. a') (db_assessments d), db_next_uuid := Suc (db_next_uuid d)\<rparr>"
proof -
  obtain u d1 where u: "uuid4 d = (u, d1)" by fastforce
  obtain a dec where a: "find_assessment d i = Some a" "parse_decision decision = Some dec"
    using assms by (auto simp: record_decision_def split: option.splits)
  have g: "who \<noteq> as_submitted_by a" "who \<notin> ap_principal_sub ` set (approvals_of d i)" "as_status a = AS_PENDING_APPROVAL"
    using assms by (auto simp: record_decision_def a filter_empty_conv split: if_splits)
  then have f: "filter (\<lambda>p. ap_principal_sub p = who) (approvals_of d i) = []" by (auto simp: filter_empty_conv)
  let ?p = "\<lparr>ap_id = u, ap_assessment_id = i, ap_principal_sub = who, ap_decision = dec,
         ap_level = int (length (approvals_of d i)) + 1, ap_reason = reason, ap_decided_at = now\<rparr>"
  obtain d2 where d2: "insert_approval ?p d1 = Inr d2"
    using assms by (auto simp: record_decision_def a g f u rbind_eq_Inr)
  have e: "d2 = d\<lparr>db_approvals := db_approvals d @ [?p], db_next_uuid := Suc (db_next_uuid d)\<rparr>"
    using insert_approval_ok [OF d2] uuid4_fields [OF u] by simp
  have "u = db_uuids d (db_next_uuid d)" using u by (simp add: uuid4_def)
  moreover have "approvals_of d2 i = approvals_of d i @ [?p]" by (simp add: e approvals_of_def)
  then have n: "length (filter (\<lambda>q. ap_decision q = APPROVE) (approvals_of d2 i)) =
      length (filter (\<lambda>q. ap_decision q = APPROVE) (approvals_of d i)) + (if dec = APPROVE then 1 else 0)" by simp
  have "record_decision now i who decision reason d = Inr (decide now dec (length (filter (\<lambda>q. ap_decision q = APPROVE) (approvals_of d i))) a,
     update_assessment i (\<lambda>_. decide now dec (length (filter (\<lambda>q. ap_decision q = APPROVE) (approvals_of d i))) a) d2)"
    unfolding record_decision_def a option.case Let_def u prod.case d2 rbind_Inr n using g f
    by (cases dec) (simp_all add: decide_def)
  then have "a' = decide now dec (length (filter (\<lambda>q. ap_decision q = APPROVE) (approvals_of d i))) a \<and>
     d' = update_assessment i (\<lambda>_. a') d2" using assms by auto
  ultimately show ?thesis
    using a g e by (intro exI [of _ a] exI [of _ ?p] exI [of _ dec]) (simp add: update_assessment_def)
qed

text \<open>C13: A decision is recorded only by a checker: it succeeds only on a pending assessment, for a principal
  who is not the submitter and has not decided before; it adds exactly that decision, at the next level; a
  rejection rejects, and an approval approves exactly when it completes the number the risk tier asks for.
  Other assessments stay as they are.\<close>

theorem record_decision_maker_checker:
  assumes "record_decision now i who decision reason d = Inr (a', d')" "decisions_ok d"
  shows "\<exists>a p. a \<in> set (db_assessments d) \<and> as_id a = i \<and> as_status a = AS_PENDING_APPROVAL \<and>
    who \<noteq> as_submitted_by a \<and> who \<notin> ap_principal_sub ` set (approvals_of d i) \<and>
    approvals_of d' i = approvals_of d i @ [p] \<and> ap_principal_sub p = who \<and>
    ap_level p = int (length (approvals_of d i)) + 1 \<and> decision_text (ap_decision p) = decision \<and>
    as_status a' = (if decision = ''REJECT'' then AS_REJECTED
      else if ap_level p = snd (risk_tier_for (as_total_duty_kobo a)) then AS_APPROVED else AS_PENDING_APPROVAL) \<and>
    filter (\<lambda>x. as_id x \<noteq> i) (db_assessments d') = filter (\<lambda>x. as_id x \<noteq> i) (db_assessments d)"
proof -
  obtain a p dec where e: "find_assessment d i = Some a" "parse_decision decision = Some dec" "who \<noteq> as_submitted_by a"
    "who \<notin> ap_principal_sub ` set (approvals_of d i)" "as_status a = AS_PENDING_APPROVAL"
    "p = \<lparr>ap_id = db_uuids d (db_next_uuid d), ap_assessment_id = i, ap_principal_sub = who, ap_decision = dec,
         ap_level = int (length (approvals_of d i)) + 1, ap_reason = reason, ap_decided_at = now\<rparr>"
    "a' = decide now dec (length (filter (\<lambda>q. ap_decision q = APPROVE) (approvals_of d i))) a"
    "d' = d\<lparr>db_approvals := db_approvals d @ [p], db_assessments := update_where (\<lambda>x. as_id x = i) (\<lambda>_. a') (db_assessments d), db_next_uuid := Suc (db_next_uuid d)\<rparr>"
    using record_decision_effect [OF assms(1)] by blast
  have a: "a \<in> set (db_assessments d)" "as_id a = i" using find_assessment_Some [OF e(1)] by auto
  have ok: "decided_ok a (approvals_of d i)" using assms(2) a by (auto simp: decisions_ok_def list_all_iff)
  then have n: "filter (\<lambda>q. ap_decision q = APPROVE) (approvals_of d i) = approvals_of d i" "int (length (approvals_of d i)) < as_approvals_required a"
    "as_approvals_required a = snd (risk_tier_for (as_total_duty_kobo a))"
    using e(5) by (auto simp: decided_ok_def all_approve_def list_all_iff split: prod.splits) (metis snd_conv)+
  have dec: "decision_text dec = decision" "(decision = ''REJECT'') = (dec = REJECT)"
    using e(2) by (auto simp: parse_decision_def split: if_splits)
  have "filter (\<lambda>x. as_id x \<noteq> i) (update_where (\<lambda>x. as_id x = i) (\<lambda>_. a') rows) = filter (\<lambda>x. as_id x \<noteq> i) rows" for rows
    using a by (induction rows) (auto simp: update_where_def e(7) decide_def)
  moreover have "approvals_of d' i = approvals_of d i @ [p]" by (simp add: e(8) approvals_of_def e(6))
  ultimately show ?thesis
    using a e(3-5) n dec by (intro exI [of _ a] exI [of _ p]) (auto simp: e(6-8) decide_def)
qed

lemma decisions_ok_insert:
  assumes "decisions_ok d" "as_id a \<notin> as_id ` set (db_assessments d)" "as_status a = AS_PENDING_APPROVAL"
    and "(as_risk_tier a, as_approvals_required a) = risk_tier_for (as_total_duty_kobo a)"
    and "db_assessments d' = db_assessments d @ [a]" "db_approvals d' = db_approvals d"
  shows "decisions_ok d'"
proof -
  have "approvals_of d (as_id a) = []"
    using assms(1,2) by (simp add: decisions_ok_def approvals_of_def list_all_iff filter_empty_conv) metis
  moreover have "approvals_of d' = approvals_of d" using assms(6) by (simp add: approvals_of_def fun_eq_iff)
  moreover have "0 < as_approvals_required a" using risk_tier_for_pos [of "as_total_duty_kobo a"] assms(4) by (metis snd_conv)
  ultimately have "decided_ok a (approvals_of d' (as_id a))" "approvals_of d' = approvals_of d"
    using assms(3,4) by (simp_all add: decided_ok_def all_approve_def)
  with assms show ?thesis by (auto simp: decisions_ok_def list_all_iff)
qed

lemma create_assessment_decisions_ok:
  assumes "decisions_ok d" "create_assessment now decl sub key on_date d = Inr (a, d')"
  shows "decisions_ok d'"
proof (cases "key \<in> as_idempotency_key ` set (db_assessments d)")
  case True
  then have "find (\<lambda>a. as_idempotency_key a = key) (db_assessments d) \<noteq> None" by (auto simp: find_None_set)
  then have "d' = d" using assms(2) by (auto simp: create_assessment_def)
  with assms(1) show ?thesis by simp
next
  case False
  from create_assessment_effect [OF assms(2) this] obtain u where
    "as_id a = u" "u \<notin> as_id ` set (db_assessments d)" "as_status a = AS_PENDING_APPROVAL"
    "(as_risk_tier a, as_approvals_required a) = risk_tier_for (as_total_duty_kobo a)"
    "db_assessments d' = db_assessments d @ [a]" "db_approvals d' = db_approvals d" by auto
  with decisions_ok_insert [OF assms(1), of a d'] show ?thesis by simp
qed

text \<open>A change of one assessment that its approvals allow.\<close>

lemma decisions_ok_update:
  assumes "decisions_ok d" "a \<in> set (db_assessments d)" "as_id a' = as_id a"
    and "db_assessments d' = update_where (\<lambda>x. as_id x = as_id a) (\<lambda>_. a') (db_assessments d)"
    and "db_approvals d' = db_approvals d @ ps" "list_all (\<lambda>p. ap_assessment_id p = as_id a) ps"
    and "decided_ok a' (approvals_of d (as_id a) @ ps)"
  shows "decisions_ok d'"
proof -
  have ids: "map as_id (db_assessments d') = map as_id (db_assessments d)"
    unfolding assms(4) by (rule map_update_where) (use assms(3) in simp)
  have ap: "approvals_of d' i = approvals_of d i @ (if i = as_id a then ps else [])" for i
    using assms(5,6) by (auto simp: approvals_of_def list_all_iff filter_empty_conv)
  have "decided_ok x (approvals_of d' (as_id x))" if "x \<in> set (db_assessments d')" for x
  proof -
    have "\<exists>y \<in> set (db_assessments d). x = (if as_id y = as_id a then a' else y)"
      using that unfolding assms(4) set_update_where .
    then obtain y where y: "y \<in> set (db_assessments d)" "x = (if as_id y = as_id a then a' else y)" ..
    show ?thesis
    proof (cases "as_id y = as_id a")
      case True
      with y assms(3,7) show ?thesis by (simp add: ap)
    next
      case False
      with y assms(1) show ?thesis by (simp add: ap decisions_ok_def list_all_iff)
    qed
  qed
  moreover have "ap_assessment_id p \<in> as_id ` set (db_assessments d')" if "p \<in> set (db_approvals d')" for p
  proof -
    have "as_id ` set (db_assessments d') = as_id ` set (db_assessments d)" using ids by (metis list.set_map)
    with that assms(1,2,5,6) show ?thesis by (auto simp: decisions_ok_def list_all_iff)
  qed
  moreover have "distinct (map as_id (db_assessments d'))" using assms(1) by (simp add: ids decisions_ok_def)
  ultimately show ?thesis by (simp add: decisions_ok_def list_all_iff)
qed

lemma decided_ok_decide:
  assumes "decided_ok a ps" "as_status a = AS_PENDING_APPROVAL" "ap_principal_sub p \<noteq> as_submitted_by a"
    and "ap_principal_sub p \<notin> ap_principal_sub ` set ps" "ap_decision p = dec"
  shows "decided_ok (decide now dec (length (filter (\<lambda>q. ap_decision q = APPROVE) ps)) a) (ps @ [p])"
proof -
  have "filter (\<lambda>q. ap_decision q = APPROVE) ps = ps"
    using assms(1,2) by (simp add: decided_ok_def all_approve_def list_all_iff)
  with assms show ?thesis by (cases dec) (auto simp: decided_ok_def decide_def all_approve_def)
qed

lemma record_decision_decisions_ok:
  assumes "decisions_ok d" "record_decision now i who decision reason d = Inr (a', d')"
  shows "decisions_ok d'"
proof -
  obtain a p dec where e: "find_assessment d i = Some a" "who \<noteq> as_submitted_by a"
    "who \<notin> ap_principal_sub ` set (approvals_of d i)" "as_status a = AS_PENDING_APPROVAL"
    "p = \<lparr>ap_id = db_uuids d (db_next_uuid d), ap_assessment_id = i, ap_principal_sub = who, ap_decision = dec,
         ap_level = int (length (approvals_of d i)) + 1, ap_reason = reason, ap_decided_at = now\<rparr>"
    "a' = decide now dec (length (filter (\<lambda>q. ap_decision q = APPROVE) (approvals_of d i))) a"
    "d' = d\<lparr>db_approvals := db_approvals d @ [p], db_assessments := update_where (\<lambda>x. as_id x = i) (\<lambda>_. a') (db_assessments d), db_next_uuid := Suc (db_next_uuid d)\<rparr>"
    using record_decision_effect [OF assms(2)] by blast
  have a: "a \<in> set (db_assessments d)" "as_id a = i" using find_assessment_Some [OF e(1)] by auto
  have "decided_ok a (approvals_of d i)" using assms(1) a by (auto simp: decisions_ok_def list_all_iff)
  then have "decided_ok a' (approvals_of d i @ [p])" using e decided_ok_decide [of a "approvals_of d i" p dec now] by simp
  with a e show ?thesis by (intro decisions_ok_update [OF assms(1) a(1), of a' d' "[p]"]) (simp_all add: decide_def)
qed

subsection \<open>Refusals\<close>

text \<open>Every refusal of a decision is one of five, in this order of precedence, and leaves the database as it
  was: unknown assessment, unknown decision, self-approval, second decision by the same principal, and an
  assessment that is not pending.\<close>

theorem record_decision_refusals:
  "record_decision now i who decision reason d =
    (case find_assessment d i of
       None \<Rightarrow> Inl (AssessmentError ''not-found'' ''assessment not found'')
     | Some a \<Rightarrow>
         if decision \<notin> {''APPROVE'', ''REJECT''} then Inl (AssessmentError ''invalid-decision'' decision)
         else if who = as_submitted_by a
         then Inl (AssessmentError ''self-approval'' ''the submitter cannot approve their own assessment'')
         else if who \<in> ap_principal_sub ` set (approvals_of d i)
         then Inl (AssessmentError ''duplicate-decision'' ''principal already decided on this assessment'')
         else if as_status a \<noteq> AS_PENDING_APPROVAL
         then Inl (AssessmentError ''invalid-state'' (''assessment is '' @ assessment_status_text (as_status a)))
         else record_decision now i who decision reason d)"
  by (auto simp: record_decision_def parse_decision_def filter_empty_conv split: option.split)

subsection \<open>The chain of approvals completes\<close>

fun approve_all :: "datetime \<Rightarrow> uuid \<Rightarrow> string list \<Rightarrow> db \<Rightarrow> db result" where
  "approve_all now i [] d = Inr d"
| "approve_all now i (who # whos) d = rbind (record_decision now i who ''APPROVE'' [] d) (\<lambda>(_, d'). approve_all now i whos d')"

definition fresh_approval_ids :: "db \<Rightarrow> bool" where
  "fresh_approval_ids d = (inj (db_uuids d) \<and> list_all (\<lambda>p. \<forall>k \<ge> db_next_uuid d. db_uuids d k \<noteq> ap_id p) (db_approvals d))"

lemma approve_step:
  assumes "a \<in> set (db_assessments d)" "as_status a = AS_PENDING_APPROVAL" "who \<noteq> as_submitted_by a"
    and "who \<notin> ap_principal_sub ` set (approvals_of d (as_id a))" "length who \<le> 256" "fresh_approval_ids d" "decisions_ok d"
  shows "\<exists>a' d'. record_decision now (as_id a) who ''APPROVE'' [] d = Inr (a', d')"
proof -
  let ?ps = "approvals_of d (as_id a)" and ?u = "db_uuids d (db_next_uuid d)"
  have f: "find_assessment d (as_id a) = Some a"
    unfolding find_assessment_def by (rule find_unique) (use assms(1,7) in \<open>auto simp: decisions_ok_def\<close>)
  have "decided_ok a ?ps" using assms(1,7) by (simp add: decisions_ok_def list_all_iff)
  then have "int (length ?ps) < as_approvals_required a" "as_approvals_required a = snd (risk_tier_for (as_total_duty_kobo a))"
    using assms(2) by (auto simp: decided_ok_def) (metis snd_conv)
  then have n: "int (length ?ps) < 3" by (auto simp: risk_tier_for_def split: if_splits)
  let ?p = "\<lparr>ap_id = ?u, ap_assessment_id = as_id a, ap_principal_sub = who, ap_decision = APPROVE,
      ap_level = int (length ?ps) + 1, ap_reason = [], ap_decided_at = now\<rparr>"
  have "?u \<notin> ap_id ` set (db_approvals d)" using assms(6) by (fastforce simp: fresh_approval_ids_def list_all_iff)
  moreover have "(as_id a, who) \<notin> (\<lambda>p. (ap_assessment_id p, ap_principal_sub p)) ` set (db_approvals d)"
    using assms(4) by (auto simp: approvals_of_def)
  ultimately obtain d2 where "insert_approval ?p (d\<lparr>db_next_uuid := Suc (db_next_uuid d)\<rparr>) = Inr d2"
    using assms(1,5) n by (simp add: insert_approval_def constraint_simps rbind_eq_Inr)
  then show ?thesis
    using f assms(2-4) by (auto simp: record_decision_def parse_decision_def uuid4_def Let_def filter_empty_conv)
qed

lemma approve_all_completes:
  assumes "a \<in> set (db_assessments d)" "as_status a = AS_PENDING_APPROVAL" "distinct whos" "as_submitted_by a \<notin> set whos"
    and "set whos \<inter> ap_principal_sub ` set (approvals_of d (as_id a)) = {}" "list_all (\<lambda>w. length w \<le> 256) whos"
    and "int (length whos) \<le> as_approvals_required a - int (length (approvals_of d (as_id a)))"
    and "fresh_approval_ids d" "decisions_ok d"
  shows "\<exists>d' b. approve_all now (as_id a) whos d = Inr d' \<and> find_assessment d' (as_id a) = Some b \<and>
    as_status b = (if int (length (approvals_of d (as_id a))) + int (length whos) = as_approvals_required a
      then AS_APPROVED else AS_PENDING_APPROVAL)"
  using assms
proof (induction whos arbitrary: a d)
  case Nil
  have "find_assessment d (as_id a) = Some a"
    unfolding find_assessment_def by (rule find_unique) (use Nil in \<open>auto simp: decisions_ok_def\<close>)
  moreover have "decided_ok a (approvals_of d (as_id a))" using Nil by (simp add: decisions_ok_def list_all_iff)
  ultimately show ?case using Nil(2) by (auto simp: decided_ok_def)
next
  case (Cons who whos)
  obtain a' d1 where r: "record_decision now (as_id a) who ''APPROVE'' [] d = Inr (a', d1)"
    using approve_step [OF Cons.prems(1,2)] Cons.prems by fastforce
  from record_decision_effect [OF r] obtain b p where e: "find_assessment d (as_id a) = Some b"
    "p = \<lparr>ap_id = db_uuids d (db_next_uuid d), ap_assessment_id = as_id a, ap_principal_sub = who, ap_decision = APPROVE,
         ap_level = int (length (approvals_of d (as_id a))) + 1, ap_reason = [], ap_decided_at = now\<rparr>"
    "a' = decide now APPROVE (length (filter (\<lambda>q. ap_decision q = APPROVE) (approvals_of d (as_id a)))) b"
    "d1 = d\<lparr>db_approvals := db_approvals d @ [p], db_assessments := update_where (\<lambda>x. as_id x = as_id a) (\<lambda>_. a') (db_assessments d), db_next_uuid := Suc (db_next_uuid d)\<rparr>"
    by (auto simp: parse_decision_def)
  have "b \<in> set (db_assessments d)" "as_id b = as_id a" using find_assessment_Some [OF e(1)] by auto
  then have b: "b = a" using Cons.prems(1,9) unique_row [of as_id] by (fastforce simp: decisions_ok_def)
  have ok1: "decisions_ok d1" by (rule record_decision_decisions_ok [OF Cons.prems(9) r])
  have ap1: "approvals_of d1 (as_id a) = approvals_of d (as_id a) @ [p]" by (simp add: e(4) approvals_of_def e(2))
  have "decided_ok a (approvals_of d (as_id a))" using Cons.prems(1,9) by (simp add: decisions_ok_def list_all_iff)
  then have all: "filter (\<lambda>q. ap_decision q = APPROVE) (approvals_of d (as_id a)) = approvals_of d (as_id a)"
    using Cons.prems(2) by (auto simp: decided_ok_def all_approve_def list_all_iff)
  have id': "as_id a' = as_id a" "as_submitted_by a' = as_submitted_by a" "as_approvals_required a' = as_approvals_required a"
    by (simp_all add: e(3) b decide_def)
  have mem: "a' \<in> set (db_assessments d1)" using Cons.prems(1) by (auto simp: e(4) set_update_where intro!: bexI [of _ a])
  have found: "find_assessment d1 (as_id a) = Some a'"
    unfolding find_assessment_def id'(1) [symmetric] by (rule find_unique) (use mem ok1 in \<open>auto simp: decisions_ok_def\<close>)
  show ?case
  proof (cases whos)
    case Nil
    then have "as_status a' = (if int (length (approvals_of d (as_id a))) + 1 = as_approvals_required a
        then AS_APPROVED else AS_PENDING_APPROVAL)"
      using Cons.prems(2,7) by (simp add: e(3) b all decide_def)
    with r Nil found show ?thesis by simp
  next
    case (Cons w ws)
    then have pend: "as_status a' = AS_PENDING_APPROVAL" using Cons.prems(2,7) by (simp add: e(3) b all decide_def)
    have fresh1: "fresh_approval_ids d1" using Cons.prems(8) by (auto simp: fresh_approval_ids_def e(2,4) list_all_iff inj_eq)
    have "\<exists>d' b. approve_all now (as_id a') whos d1 = Inr d' \<and> find_assessment d' (as_id a') = Some b \<and>
      as_status b = (if int (length (approvals_of d1 (as_id a'))) + int (length whos) = as_approvals_required a'
        then AS_APPROVED else AS_PENDING_APPROVAL)"
      by (rule Cons.IH [OF mem pend])
        (use Cons.prems id' ap1 ok1 fresh1 in \<open>auto simp: e(2)\<close>)
    with r id' ap1 show ?thesis by (auto simp: ac_simps)
  qed
qed

text \<open>C20: The approval chain completes, and not early: on a pending assessment nobody has decided yet, any
  distinct principals other than the submitter can approve one after the other, up to the number required;
  the assessment is approved after exactly the number of approvals its duty's risk tier asks for and is
  still pending after fewer. Relied on: new identifiers are new and the subjects fit their column.\<close>

theorem approval_chain_completes:
  assumes "a \<in> set (db_assessments d)" "as_status a = AS_PENDING_APPROVAL" "approvals_of d (as_id a) = []"
    and "distinct whos" "as_submitted_by a \<notin> set whos" "list_all (\<lambda>w. length w \<le> 256) whos"
    and "int (length whos) \<le> snd (risk_tier_for (as_total_duty_kobo a))" "fresh_approval_ids d" "decisions_ok d"
  shows "\<exists>d' b. approve_all now (as_id a) whos d = Inr d' \<and> find_assessment d' (as_id a) = Some b \<and>
    as_status b = (if int (length whos) = snd (risk_tier_for (as_total_duty_kobo a)) then AS_APPROVED else AS_PENDING_APPROVAL)"
proof -
  have "as_approvals_required a = snd (risk_tier_for (as_total_duty_kobo a))"
    using assms(1,9) by (auto simp: decisions_ok_def decided_ok_def list_all_iff) (metis snd_conv)
  with approve_all_completes [OF assms(1,2,4,5) _ assms(6) _ assms(8,9)] assms(3,7) show ?thesis by simp
qed

subsection \<open>Examples\<close>

definition toy_assessment :: "int \<Rightarrow> assessment" where
  "toy_assessment duty = \<lparr>as_id = 100, as_declaration_id = 0, as_status = AS_PENDING_APPROVAL, as_currency = ''NGN'',
     as_total_duty_kobo = duty, as_stamps_required = 2, as_risk_tier = fst (risk_tier_for duty),
     as_approvals_required = snd (risk_tier_for duty), as_submitted_by = ''maker'', as_submitted_at = 0, as_decided_at = None,
     as_idempotency_key = ''k''\<rparr>"

definition toy_db :: "int \<Rightarrow> db" where
  "toy_db duty = (empty_db id)\<lparr>db_assessments := [toy_assessment duty]\<rparr>"

lemma toy_db_ok: "decisions_ok (toy_db duty)" "fresh_approval_ids (toy_db duty)" "approvals_of (toy_db duty) i = []"
  using risk_tier_for_pos [of duty]
  by (simp_all add: decisions_ok_def toy_db_def toy_assessment_def decided_ok_def approvals_of_def all_approve_def
      fresh_approval_ids_def)

theorem approval_chain_completes_witness:
  "(\<exists>d b. approve_all 1 100 [''c1'', ''c2''] (toy_db 100000000) = Inr d \<and> find_assessment d 100 = Some b \<and> as_status b = AS_APPROVED) \<and>
   (\<exists>d b. approve_all 1 100 [''c1''] (toy_db 100000000) = Inr d \<and> find_assessment d 100 = Some b \<and> as_status b = AS_PENDING_APPROVAL)"
proof -
  have a: "toy_assessment 100000000 \<in> set (db_assessments (toy_db 100000000))" "as_id (toy_assessment 100000000) = 100"
    "as_status (toy_assessment 100000000) = AS_PENDING_APPROVAL" "as_submitted_by (toy_assessment 100000000) = ''maker''"
    "snd (risk_tier_for (as_total_duty_kobo (toy_assessment 100000000))) = 2"
    by (simp_all add: toy_db_def toy_assessment_def risk_tier_for_def LOW_THRESHOLD_KOBO_def STANDARD_THRESHOLD_KOBO_def)
  show ?thesis
    using approval_chain_completes [OF a(1,3) toy_db_ok(3), of "[''c1'', ''c2'']" 1]
      approval_chain_completes [OF a(1,3) toy_db_ok(3), of "[''c1'']" 1] toy_db_ok(1,2)
    by (simp add: a)
qed

theorem record_decision_maker_checker_witness:
  "\<exists>a' d'. record_decision 1 100 ''c1'' ''APPROVE'' [] (toy_db 5) = Inr (a', d') \<and> as_status a' = AS_APPROVED"
proof -
  have a: "toy_assessment 5 \<in> set (db_assessments (toy_db 5))" "as_id (toy_assessment 5) = 100"
    by (simp_all add: toy_db_def toy_assessment_def)
  obtain a' d' where r: "record_decision 1 100 ''c1'' ''APPROVE'' [] (toy_db 5) = Inr (a', d')"
    using approve_step [OF a(1), of "''c1''" 1] toy_db_ok by (auto simp: toy_assessment_def)
  have "as_status a' = AS_APPROVED"
    using record_decision_maker_checker [OF r toy_db_ok(1)]
    by (auto simp: toy_db_ok(3)) (auto simp: toy_db_def toy_assessment_def risk_tier_for_def LOW_THRESHOLD_KOBO_def STANDARD_THRESHOLD_KOBO_def)
  with r show ?thesis by blast
qed

definition toy_declaration :: customs_declaration where
  "toy_declaration = \<lparr>dc_id = 50, dc_declaration_ref = ''D-1'', dc_consignee_tin = ''T'', dc_consignee_name = ''N'',
     dc_source_event_id = ''e'', dc_occurred_at = 0, dc_envelope = JNull, dc_received_at = 0\<rparr>"

definition toy_line :: "uuid \<Rightarrow> string \<Rightarrow> declaration_line" where
  "toy_line u hs = \<lparr>dl_id = u, dl_declaration_id = 50, dl_hs_code = hs, dl_description = [], dl_quantity = 10, dl_unit = ''STICK'',
     dl_customs_value_kobo = 100, dl_stamps_required = 7\<rparr>"

definition toy_declared :: db where
  "toy_declared = (empty_db id)\<lparr>db_declarations := [toy_declaration], db_declaration_lines := [toy_line 51 ''2402.20'', toy_line 52 ''9999'']\<rparr>"

theorem assessment_prices_schedule_witness:
  "\<exists>a d'. create_assessment 0 toy_declaration ''maker'' ''k'' (Some (mk_date 2024 1 1)) toy_declared = Inr (a, d') \<and>
     as_total_duty_kobo a = 6000 \<and> as_stamps_required a = 7 \<and> as_approvals_required a = 1"
proof -
  let ?on = "mk_date 2024 1 1"
  have ls: "declaration_lines_of toy_declared (dc_id toy_declaration) = [toy_line 51 ''2402.20'', toy_line 52 ''9999'']"
    by (simp add: declaration_lines_of_def toy_declared_def toy_line_def toy_declaration_def)
  have sched: "schedule (hs_digits ''2402.20'') ?on = Some (''tobacco'', 600, 0)" "schedule (hs_digits ''9999'') ?on = None"
    by code_simp+
  then obtain r where r: "rate_for ''2402.20'' ?on = Some r" "specific_kobo r = 600" "rate_category r = ''tobacco''" "ad_valorem_bp r = 0"
    "rate_for ''9999'' ?on = None"
    using rate_for_schedule_aux [of "''2402.20''" ?on] rate_for_schedule_aux [of "''9999''" ?on] by (auto simp: rate_figures_def)
  have none: "''k'' \<notin> as_idempotency_key ` set (db_assessments toy_declared)" by (simp add: toy_declared_def)
  have "succeeds (create_assessment 0 toy_declaration ''maker'' ''k'' (Some ?on) toy_declared)"
    unfolding create_assessment_def ls
    using none by (simp add: toy_line_def compute_line_duty_ok r uuid4_def Let_def toy_declared_def)
      (simp add: toy_declared_def toy_declaration_def assessment_row_def total_kobo_def insert_assessment_def insert_assessment_line_def constraint_simps
        risk_tier_for_def LOW_THRESHOLD_KOBO_def STANDARD_THRESHOLD_KOBO_def succeeds_iff rbind_eq_Inr r)
  then obtain a d' where c: "create_assessment 0 toy_declaration ''maker'' ''k'' (Some ?on) toy_declared = Inr (a, d')"
    by (auto simp: succeeds_iff)
  have "as_total_duty_kobo a = 6000 \<and> as_stamps_required a = 7 \<and> as_approvals_required a = 1"
    using assessment_prices_schedule [OF c none refl refl]
    by (auto simp: ls toy_line_def line_due_def stamp_bearing_def sched risk_tier_for_def LOW_THRESHOLD_KOBO_def STANDARD_THRESHOLD_KOBO_def)
  with c show ?thesis by blast
qed

end
