(* ===== verification/JournalPosting.thy ===== *)
theory JournalPosting
  imports Config
begin

section \<open>The double-entry journal\<close>

text \<open>
  \<open>src/taxstamps/services/journal.py\<close> and the deferred trigger \<open>check_journal_balanced\<close> of
  the migration, which rejects the COMMIT of a journal whose legs do not balance. A ledger is seen
  abstractly as the balance of every account; posting a journal adds its legs to it.
\<close>

type_synonym leg = "string \<times> int \<times> int"

fun add_legs :: "uuid \<Rightarrow> leg list \<Rightarrow> db \<Rightarrow> db result" where
  "add_legs j [] d = Inr d"
| "add_legs j ((account, debit, credit) # legs) d =
    (if debit < 0 \<or> credit < 0 \<or> (debit \<noteq> 0 \<and> credit \<noteq> 0)
     then Inl (JournalError (''illegal leg for '' @ account @ '': debit '' @ str_int debit @ '' credit '' @ str_int credit))
     else let (u, d1) = uuid4 d
          in rbind (insert_ledger_entry \<lparr>le_id = u, le_journal_id = j, le_account = account,
               le_debit_kobo = debit, le_credit_kobo = credit\<rparr> d1) (add_legs j legs))"

definition leg_debits :: "leg list \<Rightarrow> int" where
  "leg_debits legs = sum_list (map (\<lambda>(_, debit, _). debit) legs)"

definition leg_credits :: "leg list \<Rightarrow> int" where
  "leg_credits legs = sum_list (map (\<lambda>(_, _, credit). credit) legs)"

definition post_journal :: "datetime \<Rightarrow> string \<Rightarrow> string \<Rightarrow> leg list \<Rightarrow> db \<Rightarrow> (journal \<times> db) result" where
  "post_journal now reference narration legs d =
    (if length legs < 2 then Inl (JournalError ''a journal requires at least two legs'')
     else if leg_debits legs \<noteq> leg_credits legs
     then Inl (JournalError (''unbalanced journal: debits '' @ str_int (leg_debits legs) @ '' <> credits '' @ str_int (leg_credits legs)))
     else if leg_debits legs = 0 then Inl (JournalError ''zero-amount journals are not postable'')
     else let (u, d1) = uuid4 d;
              j = \<lparr>jn_id = u, jn_reference = reference, jn_narration = narration, jn_posted_at = now\<rparr>
          in rbind (insert_journal j d1) (\<lambda>d2. rbind (add_legs u legs d2) (\<lambda>d3. Inr (j, d3))))"

subsection \<open>The balance trigger\<close>

definition entries_of :: "db \<Rightarrow> uuid \<Rightarrow> ledger_entry list" where
  "entries_of d j = filter (\<lambda>e. le_journal_id e = j) (db_ledger_entries d)"

definition check_journal_balanced :: "db \<Rightarrow> uuid \<Rightarrow> bool" where
  "check_journal_balanced d j =
    (sum_list (map le_debit_kobo (entries_of d j)) = sum_list (map le_credit_kobo (entries_of d j)))"

text \<open>COMMIT: the trigger runs for the journals of the new entries; those of old ones passed before.\<close>

definition commit :: "db \<Rightarrow> db result" where
  "commit d = (if list_all (\<lambda>e. check_journal_balanced d (le_journal_id e)) (db_ledger_entries d)
               then Inr d else Inl (CheckViolation ''trg_journal_balanced''))"

text \<open>Every journal balances, and every entry belongs to a journal.\<close>

definition ledger_ok :: "db \<Rightarrow> bool" where
  "ledger_ok d = (list_all (\<lambda>j. check_journal_balanced d (jn_id j)) (db_journals d) \<and>
     list_all (\<lambda>e. le_journal_id e \<in> jn_id ` set (db_journals d)) (db_ledger_entries d))"

subsection \<open>What posting does\<close>

definition entry_leg :: "ledger_entry \<Rightarrow> leg" where
  "entry_leg e = (le_account e, le_debit_kobo e, le_credit_kobo e)"

lemma entry_leg_simp [simp]:
  "entry_leg \<lparr>le_id = u, le_journal_id = j, le_account = a, le_debit_kobo = x, le_credit_kobo = y\<rparr> = (a, x, y)"
  by (simp add: entry_leg_def)

lemma add_legs_entries:
  "add_legs j legs d = Inr d' \<Longrightarrow> \<exists>es n. d' = d\<lparr>db_ledger_entries := db_ledger_entries d @ es, db_next_uuid := n\<rparr> \<and>
    map entry_leg es = legs \<and> list_all (\<lambda>e. le_journal_id e = j \<and> 0 \<le> le_debit_kobo e \<and> 0 \<le> le_credit_kobo e) es"
proof (induction legs arbitrary: d)
  case Nil
  then show ?case by (intro exI [of _ "[]"] exI [of _ "db_next_uuid d"]) simp
next
  case (Cons leg legs)
  obtain account debit credit where leg: "leg = (account, debit, credit)" by (cases leg)
  obtain u d1 where u: "uuid4 d = (u, d1)" by fastforce
  let ?e = "\<lparr>le_id = u, le_journal_id = j, le_account = account, le_debit_kobo = debit, le_credit_kobo = credit\<rparr>"
  from Cons.prems u leg obtain d2 where d2: "insert_ledger_entry ?e d1 = Inr d2" "add_legs j legs d2 = Inr d'" "0 \<le> debit" "0 \<le> credit"
    by (auto simp: rbind_eq_Inr split: if_splits)
  obtain es n where es: "d' = d2\<lparr>db_ledger_entries := db_ledger_entries d2 @ es, db_next_uuid := n\<rparr>" "map entry_leg es = legs"
    "list_all (\<lambda>e. le_journal_id e = j \<and> 0 \<le> le_debit_kobo e \<and> 0 \<le> le_credit_kobo e) es"
    using Cons.IH [OF d2(2)] by blast
  have "d2 = d\<lparr>db_ledger_entries := db_ledger_entries d @ [?e], db_next_uuid := Suc (db_next_uuid d)\<rparr>"
    using insert_ledger_entry_ok [OF d2(1)] uuid4_fields [OF u] by simp
  with es d2(3,4) leg show ?case by (intro exI [of _ "?e # es"] exI [of _ n]) simp
qed

lemma post_journal_effect:
  assumes "post_journal now reference narration legs d = Inr (j, d')"
  obtains es n where "d' = d\<lparr>db_journals := db_journals d @ [j], db_ledger_entries := db_ledger_entries d @ es, db_next_uuid := n\<rparr>"
    "map entry_leg es = legs" "list_all (\<lambda>e. le_journal_id e = jn_id j \<and> 0 \<le> le_debit_kobo e \<and> 0 \<le> le_credit_kobo e) es"
    "jn_id j \<notin> jn_id ` set (db_journals d)" "jn_reference j = reference" "jn_reference j \<notin> jn_reference ` set (db_journals d)"
    "leg_debits legs = leg_credits legs" "0 < leg_debits legs" "length reference \<le> 128"
proof -
  obtain u d1 where u: "uuid4 d = (u, d1)" by fastforce
  then obtain d2 where j: "j = \<lparr>jn_id = u, jn_reference = reference, jn_narration = narration, jn_posted_at = now\<rparr>"
    and d2: "insert_journal j d1 = Inr d2" "add_legs u legs d2 = Inr d'" and bal: "leg_debits legs = leg_credits legs" "leg_debits legs \<noteq> 0"
    using assms by (auto simp: post_journal_def rbind_eq_Inr Let_def split: if_splits)
  obtain es n where es: "d' = d2\<lparr>db_ledger_entries := db_ledger_entries d2 @ es, db_next_uuid := n\<rparr>" "map entry_leg es = legs"
    "list_all (\<lambda>e. le_journal_id e = u \<and> 0 \<le> le_debit_kobo e \<and> 0 \<le> le_credit_kobo e) es"
    using add_legs_entries [OF d2(2)] by blast
  have "leg_debits legs = sum_list (map le_debit_kobo es)"
    unfolding leg_debits_def es(2) [symmetric] by (simp add: comp_def entry_leg_def)
  moreover have "0 \<le> sum_list (map le_debit_kobo es)" by (rule sum_list_nonneg) (use es(3) in \<open>auto simp: list_all_iff\<close>)
  ultimately have "0 < leg_debits legs" using bal(2) by simp
  moreover have "jn_id j \<notin> jn_id ` set (db_journals d)" "jn_reference j \<notin> jn_reference ` set (db_journals d)" "length reference \<le> 128"
    using d2(1) uuid4_fields [OF u] j by (auto simp: insert_journal_def rbind_eq_Inr constraint_simps)
  ultimately show ?thesis
    using es bal j insert_journal_ok [OF d2(1)] uuid4_fields [OF u] by (intro that [where es = es and n = n]) simp_all
qed


lemma entries_of_append: "entries_of (d\<lparr>db_ledger_entries := xs @ ys\<rparr>) j = filter (\<lambda>e. le_journal_id e = j) xs @ filter (\<lambda>e. le_journal_id e = j) ys"
  by (simp add: entries_of_def)

text \<open>A balanced journal with a new id may be added with its entries.\<close>

lemma ledger_ok_new_journal:
  assumes ok: "ledger_ok d" and d': "db_journals d' = db_journals d @ [j]" "db_ledger_entries d' = db_ledger_entries d @ es"
    and es: "list_all (\<lambda>e. le_journal_id e = jn_id j) es" and fresh: "jn_id j \<notin> jn_id ` set (db_journals d)"
    and bal: "leg_debits (map entry_leg es) = leg_credits (map entry_leg es)"
  shows "ledger_ok d'" "entries_of d' (jn_id j) = es"
proof -
  have old: "filter (\<lambda>e. le_journal_id e = jn_id j) (db_ledger_entries d) = []"
    using ok fresh by (simp add: ledger_ok_def list_all_iff filter_empty_conv) metis
  have new: "filter (\<lambda>e. le_journal_id e = jn_id j) es = es"
    using es by (auto simp: list_all_iff)
  show ej: "entries_of d' (jn_id j) = es" by (simp add: entries_of_def d' old new)
  have "entries_of d' (jn_id k) = entries_of d (jn_id k)" if "k \<in> set (db_journals d)" for k
  proof -
    have "jn_id k \<noteq> jn_id j" using that fresh by (metis image_eqI)
    then have "filter (\<lambda>e. le_journal_id e = jn_id k) es = []" using es by (auto simp: list_all_iff filter_empty_conv)
    then show ?thesis by (simp add: entries_of_def d')
  qed
  moreover have "check_journal_balanced d' (jn_id j)"
    using bal by (simp add: check_journal_balanced_def ej leg_debits_def leg_credits_def comp_def entry_leg_def)
  ultimately have "list_all (\<lambda>k. check_journal_balanced d' (jn_id k)) (db_journals d')"
    using ok by (auto simp: ledger_ok_def list_all_iff check_journal_balanced_def d')
  moreover have "list_all (\<lambda>e. le_journal_id e \<in> jn_id ` set (db_journals d')) (db_ledger_entries d')"
    using ok es by (auto simp: ledger_ok_def list_all_iff d')
  ultimately show "ledger_ok d'" by (simp add: ledger_ok_def)
qed

lemma post_journal_ledger_ok:
  assumes "ledger_ok d" "post_journal now reference narration legs d = Inr (j, d')"
  shows "ledger_ok d'" "map entry_leg (entries_of d' (jn_id j)) = legs"
proof -
  obtain es n where d': "d' = d\<lparr>db_journals := db_journals d @ [j], db_ledger_entries := db_ledger_entries d @ es, db_next_uuid := n\<rparr>"
    and legs: "map entry_leg es = legs" and es: "list_all (\<lambda>e. le_journal_id e = jn_id j \<and> 0 \<le> le_debit_kobo e \<and> 0 \<le> le_credit_kobo e) es"
    and fresh: "jn_id j \<notin> jn_id ` set (db_journals d)" and bal: "leg_debits legs = leg_credits legs"
    by (rule post_journal_effect [OF assms(2)])
  have "list_all (\<lambda>e. le_journal_id e = jn_id j) es" using es by (simp add: list_all_iff)
  note new = ledger_ok_new_journal [OF assms(1) _ _ this fresh, of d']
  show "ledger_ok d'" by (rule new(1)) (simp_all add: d' legs bal)
  have "entries_of d' (jn_id j) = es" by (rule new(2)) (simp_all add: d' legs bal)
  then show "map entry_leg (entries_of d' (jn_id j)) = legs" by (simp add: legs)
qed

lemma ledger_ok_commit: "ledger_ok d \<Longrightarrow> commit d = Inr d"
  by (auto simp: ledger_ok_def commit_def list_all_iff)

lemma ledger_ok_same: "db_journals d' = db_journals d \<Longrightarrow> db_ledger_entries d' = db_ledger_entries d \<Longrightarrow> ledger_ok d' \<longleftrightarrow> ledger_ok d"
  by (simp add: ledger_ok_def check_journal_balanced_def entries_of_def)

subsection \<open>The ledger as balances of accounts\<close>

type_synonym balances = "string \<Rightarrow> int"

definition balances_of :: "db \<Rightarrow> balances" where
  "balances_of d a = sum_list (map (\<lambda>e. if le_account e = a then le_debit_kobo e - le_credit_kobo e else 0) (db_ledger_entries d))"

definition post_leg :: "leg \<Rightarrow> balances \<Rightarrow> balances" where
  "post_leg = (\<lambda>(account, debit, credit) b. b(account := b account + debit - credit))"

lemma fold_post_leg: "fold post_leg legs b a = b a + sum_list (map (\<lambda>(account, debit, credit). if account = a then debit - credit else 0) legs)"
  by (induction legs arbitrary: b) (auto simp: post_leg_def)

lemma balances_post_legs:
  "map entry_leg es = legs \<Longrightarrow> balances_of (d\<lparr>db_ledger_entries := db_ledger_entries d @ es\<rparr>) = fold post_leg legs (balances_of d)"
  by (rule ext, unfold fold_post_leg) (auto simp: balances_of_def entry_leg_def comp_def)

text \<open>C35: Posting refines double-entry bookkeeping: when \<open>post_journal\<close> returns, exactly the given legs
  have been added to the account balances, the new journal's debits equal its credits and are positive,
  every journal of the ledger still balances and the deferred trigger lets the transaction commit.\<close>

theorem post_journal_refines:
  assumes "ledger_ok d" "post_journal now reference narration legs d = Inr (j, d')"
  shows "balances_of d' = fold post_leg legs (balances_of d) \<and> map entry_leg (entries_of d' (jn_id j)) = legs \<and>
    leg_debits legs = leg_credits legs \<and> 0 < leg_debits legs \<and> ledger_ok d' \<and> commit d' = Inr d'"
proof -
  obtain es n where d': "d' = d\<lparr>db_journals := db_journals d @ [j], db_ledger_entries := db_ledger_entries d @ es, db_next_uuid := n\<rparr>"
    and legs: "map entry_leg es = legs" and bal: "leg_debits legs = leg_credits legs" "0 < leg_debits legs"
    by (rule post_journal_effect [OF assms(2)])
  have "balances_of d' = balances_of (d\<lparr>db_ledger_entries := db_ledger_entries d @ es\<rparr>)"
    by (rule ext) (simp add: balances_of_def d')
  with balances_post_legs [OF legs, of d] bal post_journal_ledger_ok [OF assms] ledger_ok_commit show ?thesis by metis
qed

theorem post_journal_refines_witness:
  "\<exists>j d'. post_journal 0 ''r'' ''n'' [(''a'', 5, 0), (''b'', 0, 5)] (empty_db id) = Inr (j, d') \<and> balances_of d' ''a'' = 5"
proof -
  have "succeeds (post_journal 0 ''r'' ''n'' [(''a'', 5, 0), (''b'', 0, 5)] (empty_db id))"
    by (simp add: post_journal_def leg_debits_def leg_credits_def uuid4_def insert_journal_def insert_ledger_entry_def constraint_simps
        first_violation.simps Let_def empty_db_def rbind_def)
  then obtain j d' where r: "post_journal 0 ''r'' ''n'' [(''a'', 5, 0), (''b'', 0, 5)] (empty_db id) = Inr (j, d')"
    by (auto simp: succeeds_iff)
  have "ledger_ok (empty_db id)" by (simp add: ledger_ok_def)
  from post_journal_refines [OF this r] have "balances_of d' = fold post_leg [(''a'', 5, 0), (''b'', 0, 5)] (balances_of (empty_db id))"
    by blast
  then have "balances_of d' ''a'' = 5" by (simp add: post_leg_def balances_of_def)
  with r show ?thesis by blast
qed

end
