(* ===== verification/Payments.thy ===== *)
theory Payments
  imports Assessments JournalPosting
begin

section \<open>Payment intents and receipts\<close>

text \<open>
  \<open>src/taxstamps/services/payments.py\<close>. A receipt whose amount and currency are exactly the
  intent's settles it and posts the journal; anything else is kept as a quarantined receipt.
\<close>

definition find_intent :: "db \<Rightarrow> uuid \<Rightarrow> payment_intent option" where
  "find_intent d i = find (\<lambda>p. pi_id p = i) (db_payment_intents d)"

definition create_intent :: "settings \<Rightarrow> datetime \<Rightarrow> assessment \<Rightarrow> db \<Rightarrow> (payment_intent \<times> db) result" where
  "create_intent s now a d =
    (if \<not> payment_rail_configured s
     then Inl (PaymentError ''rail-unavailable''
       ''no payment rail configured (TAXSTAMPS_PAYMENT_RAIL / TAXSTAMPS_FINANCIAL_CONTROLS_ENDPOINT)'')
     else if as_status a \<noteq> AS_APPROVED
     then Inl (PaymentError ''invalid-state'' (''assessment is '' @ assessment_status_text (as_status a) @ '', expected APPROVED''))
     else case find (\<lambda>p. pi_assessment_id p = as_id a) (db_payment_intents d) of
       Some existing \<Rightarrow> Inr (existing, d)
     | None \<Rightarrow>
         let (u, d1) = uuid4 d;
             intent = \<lparr>pi_id = u, pi_assessment_id = as_id a, pi_rail = cf_payment_rail s,
               pi_expected_amount_kobo = as_total_duty_kobo a, pi_currency = ''NGN'', pi_status = PI_PENDING,
               pi_created_at = now, pi_settled_at = None\<rparr>
         in rbind (insert_payment_intent intent (update_assessment (as_id a) (\<lambda>x. x\<lparr>as_status := AS_PAYMENT_PENDING\<rparr>) d1))
              (\<lambda>d2. Inr (intent, d2)))"

definition quarantined :: "uuid \<Rightarrow> string \<Rightarrow> int \<Rightarrow> string \<Rightarrow> string \<Rightarrow> datetime \<Rightarrow> payment_receipt" where
  "quarantined u ref amount_kobo currency reason now =
    \<lparr>pr_id = u, pr_payment_intent_id = None, pr_external_reference = ref, pr_amount_kobo = amount_kobo,
     pr_currency = currency, pr_status = PR_QUARANTINED, pr_quarantine_reason = reason, pr_received_at = now\<rparr>"

definition settlement_legs :: "int \<Rightarrow> leg list" where
  "settlement_legs amount_kobo =
    [(''assets:financial-controls-clearing'', amount_kobo, 0), (''revenue:excise-duty-payable'', 0, amount_kobo)]"

definition record_receipt ::
  "datetime \<Rightarrow> uuid \<Rightarrow> string \<Rightarrow> int \<Rightarrow> string \<Rightarrow> db \<Rightarrow> (payment_receipt \<times> db) result" where
  "record_receipt now intent_id external_reference amount_kobo currency d =
    (case find (\<lambda>r. pr_external_reference r = external_reference) (db_payment_receipts d) of
       Some existing \<Rightarrow> Inr (existing, d)
     | None \<Rightarrow>
       (case find_intent d intent_id of
          None \<Rightarrow> Inl NoResultFound
        | Some locked \<Rightarrow>
          let (u, d1) = uuid4 d in
          if pi_status locked = PI_SETTLED
          then let r = quarantined u external_reference amount_kobo currency ''intent already settled'' now
               in rbind (insert_payment_receipt r d1) (\<lambda>d2. Inr (r, d2))
          else if \<not> (amount_kobo = pi_expected_amount_kobo locked \<and> currency = pi_currency locked)
          then let reason = ''amount mismatch: expected '' @ str_int (pi_expected_amount_kobo locked) @ '' '' @ pi_currency locked @
                     '', received '' @ str_int amount_kobo @ '' '' @ currency;
                   r = quarantined u external_reference amount_kobo currency reason now
               in rbind (insert_payment_receipt r d1) (\<lambda>d2. Inr (r, d2))
          else let r = \<lparr>pr_id = u, pr_payment_intent_id = Some (pi_id locked), pr_external_reference = external_reference,
                     pr_amount_kobo = amount_kobo, pr_currency = currency, pr_status = PR_APPLIED,
                     pr_quarantine_reason = [], pr_received_at = now\<rparr>
               in rbind (insert_payment_receipt r d1) (\<lambda>d2.
                  let d3 = update_intent (pi_id locked) (\<lambda>p. p\<lparr>pi_status := PI_SETTLED, pi_settled_at := Some now\<rparr>) d2
                  in (case find_assessment d3 (pi_assessment_id locked) of
                       None \<Rightarrow> Inl NoResultFound
                     | Some a \<Rightarrow>
                         rbind (post_journal now (''excise-settlement:'' @ external_reference)
                                  (''Excise duty settlement for assessment '' @ uuid_str (as_id a)) (settlement_legs amount_kobo)
                                  (update_assessment (as_id a) (\<lambda>x. x\<lparr>as_status := AS_PAID\<rparr>) d3))
                           (\<lambda>(_, d4). Inr (r, d4))))))"

subsection \<open>Effects\<close>

lemma create_intent_effect:
  assumes "create_intent s now a d = Inr (p, d')" "as_id a \<notin> pi_assessment_id ` set (db_payment_intents d)"
  shows "payment_rail_configured s \<and> as_status a = AS_APPROVED \<and>
    p = \<lparr>pi_id = db_uuids d (db_next_uuid d), pi_assessment_id = as_id a, pi_rail = cf_payment_rail s,
      pi_expected_amount_kobo = as_total_duty_kobo a, pi_currency = ''NGN'', pi_status = PI_PENDING,
      pi_created_at = now, pi_settled_at = None\<rparr> \<and> pi_id p \<notin> pi_id ` set (db_payment_intents d) \<and> 0 < as_total_duty_kobo a \<and>
    d' = d\<lparr>db_payment_intents := db_payment_intents d @ [p],
      db_assessments := update_where (\<lambda>x. as_id x = as_id a) (\<lambda>x. x\<lparr>as_status := AS_PAYMENT_PENDING\<rparr>) (db_assessments d),
      db_next_uuid := Suc (db_next_uuid d)\<rparr>"
proof -
  have none: "find (\<lambda>p. pi_assessment_id p = as_id a) (db_payment_intents d) = None" using assms(2) by (simp add: find_None_set) (metis imageI)
  have g: "payment_rail_configured s" "as_status a = AS_APPROVED" using assms(1) by (auto simp: create_intent_def split: if_splits)
  let ?p = "\<lparr>pi_id = db_uuids d (db_next_uuid d), pi_assessment_id = as_id a, pi_rail = cf_payment_rail s,
      pi_expected_amount_kobo = as_total_duty_kobo a, pi_currency = ''NGN'', pi_status = PI_PENDING,
      pi_created_at = now, pi_settled_at = None\<rparr>"
  let ?d1 = "update_assessment (as_id a) (\<lambda>x. x\<lparr>as_status := AS_PAYMENT_PENDING\<rparr>) (d\<lparr>db_next_uuid := Suc (db_next_uuid d)\<rparr>)"
  have "create_intent s now a d = rbind (insert_payment_intent ?p ?d1) (\<lambda>d2. Inr (?p, d2))"
    by (simp add: create_intent_def none g uuid4_def Let_def)
  with assms(1) have d2: "insert_payment_intent p ?d1 = Inr d'" and p: "p = ?p" by (auto simp: rbind_eq_Inr)
  from d2 have "pi_id p \<notin> pi_id ` set (db_payment_intents d)" "0 < pi_expected_amount_kobo p"
    by (auto simp: insert_payment_intent_def rbind_eq_Inr constraint_simps update_assessment_def)
  with g p insert_payment_intent_ok [OF d2] show ?thesis by (simp add: update_assessment_def)
qed

text \<open>The three ways a receipt is recorded.\<close>

definition receipt_replayed :: "string \<Rightarrow> payment_receipt \<Rightarrow> db \<Rightarrow> db \<Rightarrow> bool" where
  "receipt_replayed ref r d d' = (d' = d \<and> r \<in> set (db_payment_receipts d) \<and> pr_external_reference r = ref)"

definition receipt_quarantined :: "uuid \<Rightarrow> string \<Rightarrow> int \<Rightarrow> string \<Rightarrow> payment_receipt \<Rightarrow> db \<Rightarrow> db \<Rightarrow> bool" where
  "receipt_quarantined i ref amount currency r d d' =
    (\<exists>p. find_intent d i = Some p \<and> (pi_status p = PI_SETTLED \<or> amount \<noteq> pi_expected_amount_kobo p \<or> currency \<noteq> pi_currency p) \<and>
     pr_status r = PR_QUARANTINED \<and> pr_payment_intent_id r = None \<and> pr_external_reference r = ref \<and> pr_amount_kobo r = amount \<and>
     ref \<notin> pr_external_reference ` set (db_payment_receipts d) \<and>
     d' = d\<lparr>db_payment_receipts := db_payment_receipts d @ [r], db_next_uuid := Suc (db_next_uuid d)\<rparr>)"

definition receipt_applied :: "datetime \<Rightarrow> uuid \<Rightarrow> string \<Rightarrow> int \<Rightarrow> string \<Rightarrow> payment_receipt \<Rightarrow> db \<Rightarrow> db \<Rightarrow> bool" where
  "receipt_applied now i ref amount currency r d d' =
    (\<exists>p a j es n. find_intent d i = Some p \<and> pi_status p \<noteq> PI_SETTLED \<and> amount = pi_expected_amount_kobo p \<and> currency = pi_currency p \<and>
     find_assessment d (pi_assessment_id p) = Some a \<and>
     pr_status r = PR_APPLIED \<and> pr_payment_intent_id r = Some (pi_id p) \<and> pr_external_reference r = ref \<and> pr_amount_kobo r = amount \<and>
     pr_currency r = currency \<and> ref \<notin> pr_external_reference ` set (db_payment_receipts d) \<and>
     jn_id j \<notin> jn_id ` set (db_journals d) \<and> map entry_leg es = settlement_legs amount \<and> list_all (\<lambda>e. le_journal_id e = jn_id j) es \<and>
     d' = d\<lparr>db_payment_receipts := db_payment_receipts d @ [r],
       db_payment_intents := update_where (\<lambda>x. pi_id x = pi_id p) (\<lambda>x. x\<lparr>pi_status := PI_SETTLED, pi_settled_at := Some now\<rparr>) (db_payment_intents d),
       db_assessments := update_where (\<lambda>x. as_id x = as_id a) (\<lambda>x. x\<lparr>as_status := AS_PAID\<rparr>) (db_assessments d),
       db_journals := db_journals d @ [j], db_ledger_entries := db_ledger_entries d @ es, db_next_uuid := n\<rparr>)"


lemma find_intent_Some: "find_intent d i = Some p \<Longrightarrow> p \<in> set (db_payment_intents d) \<and> pi_id p = i"
  by (auto simp: find_intent_def dest: find_SomeD)

lemma record_receipt_cases:
  assumes "record_receipt now i ref amount currency d = Inr (r, d')"
  shows "receipt_replayed ref r d d' \<or> receipt_quarantined i ref amount currency r d d' \<or> receipt_applied now i ref amount currency r d d'"
proof (cases "find (\<lambda>r. pr_external_reference r = ref) (db_payment_receipts d)")
  case (Some existing)
  with assms show ?thesis using find_SomeD [OF Some] by (simp add: record_receipt_def receipt_replayed_def)
next
  case None
  then have new: "ref \<notin> pr_external_reference ` set (db_payment_receipts d)" by (auto simp: find_None_set)
  obtain p where p: "find_intent d i = Some p"
    using assms None by (auto simp: record_receipt_def split: option.splits)
  let ?d1 = "d\<lparr>db_next_uuid := Suc (db_next_uuid d)\<rparr>" and ?u = "db_uuids d (db_next_uuid d)"
  show ?thesis
  proof (cases "pi_status p = PI_SETTLED \<or> amount \<noteq> pi_expected_amount_kobo p \<or> currency \<noteq> pi_currency p")
    case True
    then obtain reason where "r = quarantined ?u ref amount currency reason now" "insert_payment_receipt r ?d1 = Inr d'"
      using assms by (auto simp: record_receipt_def None p uuid4_def Let_def rbind_eq_Inr split: if_splits)
    with True p new insert_payment_receipt_ok [of r ?d1 d'] show ?thesis by (simp add: receipt_quarantined_def quarantined_def)
  next
    case False
    let ?r = "\<lparr>pr_id = ?u, pr_payment_intent_id = Some (pi_id p), pr_external_reference = ref,
                     pr_amount_kobo = amount, pr_currency = currency, pr_status = PR_APPLIED,
                     pr_quarantine_reason = [], pr_received_at = now\<rparr>"
    from False assms obtain d2 where d2: "insert_payment_receipt ?r ?d1 = Inr d2"
      by (auto simp: record_receipt_def None p uuid4_def Let_def rbind_eq_Inr)
    let ?d3 = "update_intent (pi_id p) (\<lambda>p. p\<lparr>pi_status := PI_SETTLED, pi_settled_at := Some now\<rparr>) d2"
    from False assms d2 obtain a j where a: "find_assessment ?d3 (pi_assessment_id p) = Some a"
      and j: "post_journal now (''excise-settlement:'' @ ref)
                                  (''Excise duty settlement for assessment '' @ uuid_str (as_id a)) (settlement_legs amount)
                                  (update_assessment (as_id a) (\<lambda>x. x\<lparr>as_status := AS_PAID\<rparr>) ?d3) = Inr (j, d')" and r: "r = ?r"
      by (auto simp: record_receipt_def None p uuid4_def Let_def rbind_eq_Inr split: option.splits)
    have e2: "d2 = d\<lparr>db_payment_receipts := db_payment_receipts d @ [?r], db_next_uuid := Suc (db_next_uuid d)\<rparr>"
      using insert_payment_receipt_ok [OF d2] by simp
    obtain es n where es: "d' = (update_assessment (as_id a) (\<lambda>x. x\<lparr>as_status := AS_PAID\<rparr>) ?d3)\<lparr>db_journals := db_journals d @ [j], db_ledger_entries := db_ledger_entries d @ es, db_next_uuid := n\<rparr>"
      "map entry_leg es = settlement_legs amount" "list_all (\<lambda>e. le_journal_id e = jn_id j) es" "jn_id j \<notin> jn_id ` set (db_journals d)"
      by (rule post_journal_effect [OF j]) (auto simp: update_assessment_def update_intent_def e2 list_all_iff intro: that)
    have a': "find_assessment d (pi_assessment_id p) = Some a" using a by (simp add: find_assessment_def update_intent_def e2)
    have "receipt_applied now i ref amount currency r d d'"
      unfolding receipt_applied_def
      by (rule exI [of _ p], rule exI [of _ a], rule exI [of _ j], rule exI [of _ es], rule exI [of _ n])
        (use False p a' new es in \<open>auto simp: r update_assessment_def update_intent_def e2\<close>)
    then show ?thesis by blast
  qed
qed


subsection \<open>Receipts, intents, assessments and the ledger agree\<close>

definition applied_to :: "payment_receipt list \<Rightarrow> uuid \<Rightarrow> payment_receipt list" where
  "applied_to rs i = filter (\<lambda>r. pr_payment_intent_id r = Some i) rs"

definition intent_ok :: "payment_receipt list \<Rightarrow> payment_intent \<Rightarrow> bool" where
  "intent_ok rs p = (map (\<lambda>r. (pr_amount_kobo r, pr_currency r)) (applied_to rs (pi_id p)) =
     (if pi_status p = PI_SETTLED then [(pi_expected_amount_kobo p, pi_currency p)] else []))"

definition paid_ok :: "payment_intent list \<Rightarrow> assessment \<Rightarrow> bool" where
  "paid_ok ps a =
    (case find (\<lambda>p. pi_assessment_id p = as_id a) ps of
       None \<Rightarrow> as_status a \<in> {AS_PENDING_APPROVAL, AS_REJECTED, AS_APPROVED}
     | Some p \<Rightarrow> pi_expected_amount_kobo p = as_total_duty_kobo a \<and> pi_currency p = ''NGN'' \<and>
         as_status a \<in> (if pi_status p = PI_SETTLED then {AS_PAID, AS_ISSUING} else {AS_PAYMENT_PENDING}))"

definition receipt_ok :: "payment_intent list \<Rightarrow> payment_receipt \<Rightarrow> bool" where
  "receipt_ok ps r = ((pr_status r = PR_APPLIED) = (pr_payment_intent_id r \<noteq> None) \<and>
     pr_payment_intent_id r \<in> insert None (Some ` pi_id ` set ps))"

definition applied_total :: "payment_receipt list \<Rightarrow> int" where
  "applied_total rs = sum_list (map pr_amount_kobo (filter (\<lambda>r. pr_status r = PR_APPLIED) rs))"

definition payments_ok :: "db \<Rightarrow> bool" where
  "payments_ok d =
    (distinct (map pi_id (db_payment_intents d)) \<and> distinct (map pi_assessment_id (db_payment_intents d)) \<and>
     distinct (map as_id (db_assessments d)) \<and>
     list_all (paid_ok (db_payment_intents d)) (db_assessments d) \<and>
     list_all (intent_ok (db_payment_receipts d)) (db_payment_intents d) \<and>
     list_all (receipt_ok (db_payment_intents d)) (db_payment_receipts d) \<and>
     list_all (\<lambda>p. pi_assessment_id p \<in> as_id ` set (db_assessments d)) (db_payment_intents d))"

text \<open>The ledger's two accounts hold what the applied receipts brought in.\<close>

definition ledger_matches :: "db \<Rightarrow> bool" where
  "ledger_matches d =
    (balances_of d ''assets:financial-controls-clearing'' = applied_total (db_payment_receipts d) \<and>
     balances_of d ''revenue:excise-duty-payable'' = - applied_total (db_payment_receipts d))"

lemma payments_ok_same:
  "db_payment_intents d' = db_payment_intents d \<Longrightarrow> db_assessments d' = db_assessments d \<Longrightarrow>
   db_payment_receipts d' = db_payment_receipts d \<Longrightarrow> payments_ok d' \<longleftrightarrow> payments_ok d"
  by (simp add: payments_ok_def)

lemma ledger_matches_same:
  "db_payment_receipts d' = db_payment_receipts d \<Longrightarrow> db_ledger_entries d' = db_ledger_entries d \<Longrightarrow> ledger_matches d' \<longleftrightarrow> ledger_matches d"
  by (simp add: ledger_matches_def balances_of_def)

lemma find_map_update:
  assumes "\<And>x. key (f x) = key x"
  shows "find (\<lambda>x. key x = k) (update_where P f xs) =
    map_option (\<lambda>x. if P x then f x else x) (find (\<lambda>x. key x = k) xs)"
  using assms by (induction xs) (auto simp: update_where_def)

lemma find_snoc: "find P (xs @ [x]) = (case find P xs of None \<Rightarrow> if P x then Some x else None | Some y \<Rightarrow> Some y)"
  by (induction xs) auto

text \<open>A change of one assessment within what its intent allows.\<close>

lemma payments_ok_status:
  assumes "payments_ok d" "db_payment_intents d' = db_payment_intents d" "db_payment_receipts d' = db_payment_receipts d"
    and "db_assessments d' = update_where (\<lambda>x. as_id x = i) f (db_assessments d)" "\<And>x. as_id (f x) = as_id x"
    and "\<And>x. x \<in> set (db_assessments d) \<Longrightarrow> as_id x = i \<Longrightarrow> paid_ok (db_payment_intents d) x \<Longrightarrow> paid_ok (db_payment_intents d) (f x)"
  shows "payments_ok d'"
proof -
  have ids: "map as_id (db_assessments d') = map as_id (db_assessments d)"
    unfolding assms(4) by (rule map_update_where) (rule assms(5))
  then have "as_id ` set (db_assessments d') = as_id ` set (db_assessments d)" by (metis list.set_map)
  moreover have "list_all (paid_ok (db_payment_intents d)) (db_assessments d')"
    using assms(1,6) by (auto simp: assms(4) set_update_where payments_ok_def list_all_iff)
  ultimately show ?thesis using assms(1-3) ids by (simp add: payments_ok_def)
qed

lemma payments_ok_new_assessment:
  assumes "payments_ok d" "db_payment_intents d' = db_payment_intents d" "db_payment_receipts d' = db_payment_receipts d"
    and "db_assessments d' = db_assessments d @ [a]" "as_id a \<notin> as_id ` set (db_assessments d)" "as_status a = AS_PENDING_APPROVAL"
  shows "payments_ok d'"
proof -
  have "find (\<lambda>p. pi_assessment_id p = as_id a) (db_payment_intents d) = None"
    using assms(1,5) by (simp add: find_None_set payments_ok_def list_all_iff) metis
  then have "paid_ok (db_payment_intents d) a" using assms(6) by (simp add: paid_ok_def)
  with assms show ?thesis by (auto simp: payments_ok_def list_all_iff)
qed

lemma create_intent_payments_ok:
  assumes "payments_ok d" "a \<in> set (db_assessments d)" "create_intent s now a d = Inr (p, d')"
  shows "payments_ok d'"
proof -
  have appr: "as_status a = AS_APPROVED" using assms(3) by (auto simp: create_intent_def split: if_splits)
  have "paid_ok (db_payment_intents d) a" using assms(1,2) by (simp add: payments_ok_def list_all_iff)
  then have none: "find (\<lambda>p. pi_assessment_id p = as_id a) (db_payment_intents d) = None"
    using appr by (auto simp: paid_ok_def split: option.splits if_splits)
  then have new: "as_id a \<notin> pi_assessment_id ` set (db_payment_intents d)" by (auto simp: find_None_set)
  note e = create_intent_effect [OF assms(3) new]
  let ?f = "\<lambda>x :: assessment. x\<lparr>as_status := AS_PAYMENT_PENDING\<rparr>"
  have d': "db_payment_intents d' = db_payment_intents d @ [p]" "db_payment_receipts d' = db_payment_receipts d"
    "db_assessments d' = update_where (\<lambda>x. as_id x = as_id a) ?f (db_assessments d)"
    and p: "pi_assessment_id p = as_id a" "pi_expected_amount_kobo p = as_total_duty_kobo a" "pi_currency p = ''NGN''" "pi_status p = PI_PENDING"
      "pi_id p \<notin> pi_id ` set (db_payment_intents d)"
    using e by auto
  have ids: "map as_id (db_assessments d') = map as_id (db_assessments d)" unfolding d'(3) by (rule map_update_where) simp
  then have idset: "as_id ` set (db_assessments d') = as_id ` set (db_assessments d)" by (metis list.set_map)
  have "applied_to (db_payment_receipts d) (pi_id p) = []"
  proof -
    have "pr_payment_intent_id r \<noteq> Some (pi_id p)" if "r \<in> set (db_payment_receipts d)" for r
    proof
      assume r: "pr_payment_intent_id r = Some (pi_id p)"
      have "receipt_ok (db_payment_intents d) r" using that assms(1) by (simp add: payments_ok_def list_all_iff)
      with r have "Some (pi_id p) \<in> Some ` pi_id ` set (db_payment_intents d)" by (simp add: receipt_ok_def)
      with p(5) show False by blast
    qed
    then show ?thesis by (simp add: applied_to_def filter_empty_conv)
  qed
  then have "intent_ok (db_payment_receipts d) p" by (simp add: intent_ok_def p(4))
  moreover have "paid_ok (db_payment_intents d @ [p]) x" if x: "x \<in> set (db_assessments d')" for x
  proof -
    have "\<exists>y \<in> set (db_assessments d). x = (if as_id y = as_id a then ?f y else y)"
      using x unfolding d'(3) set_update_where .
    then obtain y where y: "y \<in> set (db_assessments d)" "x = (if as_id y = as_id a then ?f y else y)" ..
    show ?thesis
    proof (cases "as_id y = as_id a")
      case True
      then have "y = a" using unique_row [of as_id] y(1) assms(1,2) by (auto simp: payments_ok_def)
      with y(2) none p show ?thesis by (simp add: paid_ok_def find_snoc)
    next
      case False
      moreover have "paid_ok (db_payment_intents d) y" using y(1) assms(1) by (simp add: payments_ok_def list_all_iff)
      ultimately show ?thesis using y(2) p(1) by (auto simp: paid_ok_def find_snoc split: option.splits)
    qed
  qed
  moreover have "list_all (receipt_ok (db_payment_intents d @ [p])) (db_payment_receipts d)"
    using assms(1) by (auto simp: payments_ok_def receipt_ok_def list_all_iff)
  ultimately show ?thesis
    using assms(1,2) p new ids idset by (auto simp: payments_ok_def d' list_all_iff)
qed

lemma applied_to_snoc: "applied_to (rs @ [r]) i = applied_to rs i @ (if pr_payment_intent_id r = Some i then [r] else [])"
  by (simp add: applied_to_def)

lemma receipt_quarantined_ok:
  assumes "payments_ok d" "receipt_quarantined i ref amount currency r d d'"
  shows "payments_ok d'" "applied_total (db_payment_receipts d') = applied_total (db_payment_receipts d)"
proof -
  have r: "pr_status r = PR_QUARANTINED" "pr_payment_intent_id r = None"
    and d': "db_payment_receipts d' = db_payment_receipts d @ [r]" "db_payment_intents d' = db_payment_intents d" "db_assessments d' = db_assessments d"
    using assms(2) by (auto simp: receipt_quarantined_def)
  have "intent_ok (db_payment_receipts d @ [r]) = intent_ok (db_payment_receipts d)"
    by (simp add: fun_eq_iff intent_ok_def applied_to_snoc r)
  moreover have "receipt_ok (db_payment_intents d) r" by (simp add: receipt_ok_def r)
  ultimately show "payments_ok d'" "applied_total (db_payment_receipts d') = applied_total (db_payment_receipts d)"
    using assms(1) by (simp_all add: payments_ok_def applied_total_def d' r)
qed

lemma settlement_balances:
  "fold post_leg (settlement_legs n) b ''assets:financial-controls-clearing'' = b ''assets:financial-controls-clearing'' + n"
  "fold post_leg (settlement_legs n) b ''revenue:excise-duty-payable'' = b ''revenue:excise-duty-payable'' - n"
  by (simp_all add: settlement_legs_def post_leg_def)

lemma receipt_applied_ok:
  assumes "payments_ok d" "ledger_matches d" "receipt_applied now i ref amount currency r d d'"
  shows "payments_ok d'" "ledger_matches d'"
proof -
  obtain p a j es n where e: "find_intent d i = Some p" "pi_status p \<noteq> PI_SETTLED" "amount = pi_expected_amount_kobo p" "currency = pi_currency p"
     "find_assessment d (pi_assessment_id p) = Some a" "pr_status r = PR_APPLIED" "pr_payment_intent_id r = Some (pi_id p)"
     "pr_amount_kobo r = amount" "pr_currency r = currency" "map entry_leg es = settlement_legs amount"
     "d' = d\<lparr>db_payment_receipts := db_payment_receipts d @ [r],
       db_payment_intents := update_where (\<lambda>x. pi_id x = pi_id p) (\<lambda>x. x\<lparr>pi_status := PI_SETTLED, pi_settled_at := Some now\<rparr>) (db_payment_intents d),
       db_assessments := update_where (\<lambda>x. as_id x = as_id a) (\<lambda>x. x\<lparr>as_status := AS_PAID\<rparr>) (db_assessments d),
       db_journals := db_journals d @ [j], db_ledger_entries := db_ledger_entries d @ es, db_next_uuid := n\<rparr>"
    using assms(3) unfolding receipt_applied_def by blast
  have p: "p \<in> set (db_payment_intents d)" using find_intent_Some [OF e(1)] by simp
  have a: "a \<in> set (db_assessments d)" "as_id a = pi_assessment_id p" using find_assessment_Some [OF e(5)] by auto
  let ?fi = "\<lambda>x. x\<lparr>pi_status := PI_SETTLED, pi_settled_at := Some now\<rparr> :: payment_intent" and ?fa = "\<lambda>x. x\<lparr>as_status := AS_PAID\<rparr> :: assessment"
  let ?is = "update_where (\<lambda>x. pi_id x = pi_id p) ?fi (db_payment_intents d)" and ?as = "update_where (\<lambda>x. as_id x = as_id a) ?fa (db_assessments d)"
  have same: "map pi_id ?is = map pi_id (db_payment_intents d)" "map pi_assessment_id ?is = map pi_assessment_id (db_payment_intents d)"
    "map as_id ?as = map as_id (db_assessments d)"
    by (rule map_update_where, simp)+
  then have sets: "pi_id ` set ?is = pi_id ` set (db_payment_intents d)" "as_id ` set ?as = as_id ` set (db_assessments d)"
    "pi_assessment_id ` set ?is = pi_assessment_id ` set (db_payment_intents d)" by (metis list.set_map)+
  have "paid_ok ?is x" if x: "x \<in> set ?as" for x
  proof -
    have "\<exists>y \<in> set (db_assessments d). x = (if as_id y = as_id a then ?fa y else y)" using x unfolding set_update_where .
    then obtain y where y: "y \<in> set (db_assessments d)" "x = (if as_id y = as_id a then ?fa y else y)" ..
    have yok: "paid_ok (db_payment_intents d) y" using y(1) assms(1) by (simp add: payments_ok_def list_all_iff)
    have upd: "find (\<lambda>q. pi_assessment_id q = as_id y) ?is =
       map_option (\<lambda>q. if pi_id q = pi_id p then ?fi q else q) (find (\<lambda>q. pi_assessment_id q = as_id y) (db_payment_intents d))"
      by (rule find_map_update) simp
    have fp: "find (\<lambda>q. pi_assessment_id q = pi_assessment_id p) (db_payment_intents d) = Some p"
      by (rule find_unique) (use p assms(1) in \<open>auto simp: payments_ok_def\<close>)
    show ?thesis
    proof (cases "as_id y = as_id a")
      case True
      with yok upd fp a y(2) show ?thesis by (simp add: paid_ok_def)
    next
      case False
      have "pi_id q \<noteq> pi_id p" if q: "find (\<lambda>q. pi_assessment_id q = as_id y) (db_payment_intents d) = Some q" for q
      proof
        assume "pi_id q = pi_id p"
        moreover have "q \<in> set (db_payment_intents d)" "pi_assessment_id q = as_id y" using find_SomeD [OF q] by auto
        ultimately have "q = p" using p assms(1) unique_row [of pi_id] by (auto simp: payments_ok_def)
        with False a \<open>pi_assessment_id q = as_id y\<close> show False by simp
      qed
      with yok upd y(2) False show ?thesis by (auto simp: paid_ok_def split: option.splits)
    qed
  qed
  moreover have "intent_ok (db_payment_receipts d @ [r]) x" if x: "x \<in> set ?is" for x
  proof -
    have "\<exists>y \<in> set (db_payment_intents d). x = (if pi_id y = pi_id p then ?fi y else y)" using x unfolding set_update_where .
    then obtain y where y: "y \<in> set (db_payment_intents d)" "x = (if pi_id y = pi_id p then ?fi y else y)" ..
    have yok: "intent_ok (db_payment_receipts d) y" using y(1) assms(1) by (simp add: payments_ok_def list_all_iff)
    show ?thesis
    proof (cases "pi_id y = pi_id p")
      case True
      then have "y = p" using y(1) p assms(1) unique_row [of pi_id] by (auto simp: payments_ok_def)
      with yok y(2) e(2-4,7-9) show ?thesis by (simp add: intent_ok_def applied_to_snoc)
    next
      case False
      with yok y(2) e(7) show ?thesis by (auto simp: intent_ok_def applied_to_snoc)
    qed
  qed
  moreover have "list_all (receipt_ok ?is) (db_payment_receipts d @ [r])"
    using assms(1) e(6,7) p by (auto simp: receipt_ok_def sets payments_ok_def list_all_iff)
  moreover have "pi_assessment_id x \<in> as_id ` set ?as" if "x \<in> set ?is" for x
  proof -
    have "pi_assessment_id x \<in> pi_assessment_id ` set (db_payment_intents d)" using that sets(3) by blast
    then show ?thesis using assms(1) unfolding sets(2) by (auto simp: payments_ok_def list_all_iff)
  qed
  ultimately show "payments_ok d'" using assms(1) same by (simp add: payments_ok_def e(11) list_all_iff)
  have "balances_of d' = balances_of (d\<lparr>db_ledger_entries := db_ledger_entries d @ es\<rparr>)" by (rule ext) (simp add: balances_of_def e(11))
  also have "\<dots> = fold post_leg (settlement_legs amount) (balances_of d)" by (rule balances_post_legs [OF e(10)])
  finally show "ledger_matches d'"
    using assms(2) e(6,8) by (simp add: ledger_matches_def settlement_balances applied_total_def) (simp add: e(11) applied_total_def)
qed

lemma record_receipt_ok:
  assumes "record_receipt now i ref amount currency d = Inr (r, d')" "payments_ok d" "ledger_matches d"
  shows "payments_ok d' \<and> ledger_matches d'"
proof -
  consider "receipt_replayed ref r d d'" | "receipt_quarantined i ref amount currency r d d'" | "receipt_applied now i ref amount currency r d d'"
    using record_receipt_cases [OF assms(1)] by blast
  then show ?thesis
  proof cases
    case 1
    then show ?thesis using assms(2,3) by (simp add: receipt_replayed_def)
  next
    case 2
    then have "db_ledger_entries d' = db_ledger_entries d" by (auto simp: receipt_quarantined_def)
    with receipt_quarantined_ok [OF assms(2) 2] assms(3) show ?thesis by (simp add: ledger_matches_def balances_of_def)
  next
    case 3
    with receipt_applied_ok [OF assms(2,3)] show ?thesis by blast
  qed
qed

text \<open>C14: A remittance settles only what it matches: recording a receipt either replays the receipt already stored
  under the reference and changes nothing, or quarantines it because the intent is settled or the amount or
  currency differs, changing nothing but the receipts, or applies it - the amount and currency are exactly the
  unsettled intent's - and then settles the intent, marks the assessment paid and posts the balanced journal.
  Afterwards every paid assessment still has exactly one applied receipt, of exactly the assessed duty, and the
  two ledger accounts hold exactly the applied amounts.\<close>

theorem receipt_exact_or_quarantined:
  assumes "record_receipt now i ref amount currency d = Inr (r, d')" "payments_ok d" "ledger_matches d"
  shows "(receipt_replayed ref r d d' \<or> receipt_quarantined i ref amount currency r d d' \<or> receipt_applied now i ref amount currency r d d') \<and>
    payments_ok d' \<and> ledger_matches d'"
  using record_receipt_cases [OF assms(1)] record_receipt_ok [OF assms] by blast

text \<open>Recording is idempotent in the reference: after a receipt has been recorded, any further remittance under
  the same reference - even for another intent, amount or currency - returns that receipt and changes nothing.\<close>

theorem receipt_replay:
  assumes "record_receipt now i ref amount currency d = Inr (r, d')"
  shows "record_receipt now' i' ref amount' currency' d' = Inr (r, d')"
proof (cases "find (\<lambda>r. pr_external_reference r = ref) (db_payment_receipts d)")
  case (Some x)
  then show ?thesis using assms by (auto simp: record_receipt_def)
next
  case None
  then have "ref \<notin> pr_external_reference ` set (db_payment_receipts d)" by (auto simp: find_None_set)
  then have "db_payment_receipts d' = db_payment_receipts d @ [r]" "pr_external_reference r = ref"
    using record_receipt_cases [OF assms] by (auto simp: receipt_replayed_def receipt_quarantined_def receipt_applied_def)
  with None show ?thesis by (simp add: record_receipt_def find_snoc)
qed

lemma zero_duty_unpayable:
  assumes "as_total_duty_kobo a = 0" "as_id a \<notin> pi_assessment_id ` set (db_payment_intents d)"
  shows "\<not> succeeds (create_intent s now a d)"
proof
  assume "succeeds (create_intent s now a d)"
  then obtain p d' where "create_intent s now a d = Inr (p, d')" by (auto simp: succeeds_iff)
  with create_intent_effect [OF _ assms(2)] assms(1) show False by fastforce
qed

text \<open>Goods the schedule rates at zero cannot be paid for, so they can never be stamped: an assessment of
  medicines only (chapter 30, which the tariff lists at a zero rate) has a duty of zero, and no payment
  intent can be created for it in any later state of the database.\<close>

theorem medicines_unpayable:
  assumes "create_assessment now decl sub key on_date d = Inr (a, d')" "key \<notin> as_idempotency_key ` set (db_assessments d)"
    and "list_all (\<lambda>l. take 2 (hs_digits (dl_hs_code l)) = ''30'') (declaration_lines_of d (dc_id decl))"
    and "as_id b = as_id a" "as_total_duty_kobo b = as_total_duty_kobo a" "as_id b \<notin> pi_assessment_id ` set (db_payment_intents e)"
  shows "as_total_duty_kobo a = 0 \<and> \<not> succeeds (create_intent s later b e)"
proof -
  let ?on = "case on_date of Some x \<Rightarrow> x | None \<Rightarrow> date_of now"
  have z: "line_due ?on l = 0" if "take 2 (hs_digits (dl_hs_code l)) = ''30''" for l
  proof -
    have "take 4 (hs_digits (dl_hs_code l)) \<notin> {''2402'', ''2203'', ''2208'', ''2202''}"
      using that take4_take2 [of "hs_digits (dl_hs_code l)"] by auto
    then show ?thesis using that by (simp add: line_due_def schedule_def)
  qed
  have "as_total_duty_kobo a = sum_list (map (line_due ?on) (declaration_lines_of d (dc_id decl)))"
    using create_assessment_effect [OF assms(1,2)] by auto
  also have "map (line_due ?on) (declaration_lines_of d (dc_id decl)) = map (\<lambda>_. 0) (declaration_lines_of d (dc_id decl))"
    using assms(3) z by (auto simp: list_all_iff)
  finally have "as_total_duty_kobo a = 0" by simp
  with zero_duty_unpayable [of b e s later] assms(5,6) show ?thesis by simp
qed

subsection \<open>Examples\<close>

definition toy_intent :: payment_intent where
  "toy_intent = \<lparr>pi_id = 200, pi_assessment_id = 100, pi_rail = ''mojaloop'', pi_expected_amount_kobo = 500, pi_currency = ''NGN'',
     pi_status = PI_PENDING, pi_created_at = 0, pi_settled_at = None\<rparr>"

definition toy_paying :: db where
  "toy_paying = (empty_db id)\<lparr>db_assessments := [(toy_assessment 500)\<lparr>as_status := AS_PAYMENT_PENDING\<rparr>], db_payment_intents := [toy_intent]\<rparr>"

lemma toy_paying_ok: "payments_ok toy_paying" "ledger_matches toy_paying"
  by (simp_all add: payments_ok_def ledger_matches_def toy_paying_def toy_intent_def toy_assessment_def paid_ok_def intent_ok_def applied_to_def
      applied_total_def balances_of_def)

lemma toy_receipt:
  obtains r d' where "record_receipt 9 200 ''ref'' 500 ''NGN'' toy_paying = Inr (r, d')"
proof -
  have "succeeds (record_receipt 9 200 ''ref'' 500 ''NGN'' toy_paying)"
    by (simp add: record_receipt_def toy_paying_def toy_intent_def toy_assessment_def uuid4_def Let_def find_intent_def find_assessment_def
        insert_payment_receipt_def constraint_simps update_intent_def update_assessment_def update_where_def rbind_def
        post_journal_def settlement_legs_def leg_debits_def leg_credits_def insert_journal_def insert_ledger_entry_def first_violation.simps)
  then show ?thesis using that by (auto simp: succeeds_iff)
qed

theorem receipt_exact_or_quarantined_witness:
  "\<exists>r d'. record_receipt 9 200 ''ref'' 500 ''NGN'' toy_paying = Inr (r, d') \<and> payments_ok d' \<and> ledger_matches d'"
  by (rule toy_receipt) (use receipt_exact_or_quarantined toy_paying_ok in blast)

theorem receipt_replay_witness:
  "\<exists>r d'. record_receipt 9 200 ''ref'' 500 ''NGN'' toy_paying = Inr (r, d') \<and> record_receipt 10 7 ''ref'' 1 ''USD'' d' = Inr (r, d')"
  by (rule toy_receipt) (use receipt_replay in blast)

definition toy_medicine :: db where
  "toy_medicine = (empty_db id)\<lparr>db_declarations := [toy_declaration], db_declaration_lines := [toy_line 51 ''3004'']\<rparr>"

theorem medicines_unpayable_witness:
  "\<exists>a d'. create_assessment 0 toy_declaration ''maker'' ''k'' (Some (mk_date 2024 1 1)) toy_medicine = Inr (a, d') \<and>
     as_stamps_required a = 7 \<and> \<not> succeeds (create_intent toy_settings 1 (a\<lparr>as_status := AS_APPROVED\<rparr>) d')"
proof -
  let ?on = "mk_date 2024 1 1"
  have ls: "declaration_lines_of toy_medicine (dc_id toy_declaration) = [toy_line 51 ''3004'']"
    by (simp add: declaration_lines_of_def toy_medicine_def toy_line_def toy_declaration_def)
  have sched: "schedule (hs_digits ''3004'') ?on = Some (''pharmaceuticals'', 0, 0)" "take 2 (hs_digits ''3004'') = ''30''"
    by code_simp+
  then obtain r where r: "rate_for ''3004'' ?on = Some r" "specific_kobo r = 0" "rate_category r = ''pharmaceuticals''" "ad_valorem_bp r = 0"
    using rate_for_schedule_aux [of "''3004''" ?on] by (auto simp: rate_figures_def)
  have none: "''k'' \<notin> as_idempotency_key ` set (db_assessments toy_medicine)" by (simp add: toy_medicine_def)
  have "succeeds (create_assessment 0 toy_declaration ''maker'' ''k'' (Some ?on) toy_medicine)"
    unfolding create_assessment_def ls
    using none by (simp add: toy_line_def compute_line_duty_ok r uuid4_def Let_def toy_medicine_def)
      (simp add: toy_medicine_def toy_declaration_def assessment_row_def total_kobo_def insert_assessment_def insert_assessment_line_def constraint_simps
        risk_tier_for_def LOW_THRESHOLD_KOBO_def STANDARD_THRESHOLD_KOBO_def succeeds_iff rbind_eq_Inr r)
  then obtain a d' where c: "create_assessment 0 toy_declaration ''maker'' ''k'' (Some ?on) toy_medicine = Inr (a, d')"
    by (auto simp: succeeds_iff)
  have pi: "db_payment_intents toy_medicine = []" by (simp add: toy_medicine_def)
  have sb: "stamp_bearing ?on (toy_line 51 ''3004'')" "dl_stamps_required (toy_line 51 ''3004'') = 7"
    by (simp_all add: stamp_bearing_def toy_line_def sched)
  have e: "as_stamps_required a = 7" "db_payment_intents d' = []"
    using create_assessment_effect [OF c none, unfolded ls] by (auto simp: pi sb)
  have "\<not> succeeds (create_intent toy_settings 1 (a\<lparr>as_status := AS_APPROVED\<rparr>) d')"
    using medicines_unpayable [OF c none, of "a\<lparr>as_status := AS_APPROVED\<rparr>" d' toy_settings 1] by (simp add: ls toy_line_def sched e)
  with c e show ?thesis by blast
qed

end
