(* ===== verification/Issuance.thy ===== *)
theory Issuance
  imports Outbox StatusPublishing Payments Serials Quality Merkle
begin

section \<open>Batches and stamps\<close>

text \<open>
  \<open>src/taxstamps/services/issuance.py\<close>: one batch per paid assessment, issued in chunks, each a
  transaction; the Merkle anchor, the acceptance sampling and the activation of the whole batch. A
  stamp is inserted at the end of its turn of the loop, which is when the next index allocation
  flushes it. Lines of equal duty, which the ORDER BY of \<open>_primary_line\<close> leaves unordered, are
  taken in insertion order.
\<close>

definition primary_line :: "db \<Rightarrow> uuid \<Rightarrow> assessment_line result" where
  "primary_line d assessment_id =
    (case sort_key (\<lambda>l. - al_total_duty_kobo l) (filter (\<lambda>l. al_assessment_id l = assessment_id) (db_assessment_lines d)) of
       [] \<Rightarrow> Inl (IssuanceError ''no-lines'' ''assessment has no stamp-bearing lines'')
     | l # _ \<Rightarrow> Inr l)"

definition create_batch :: "datetime \<Rightarrow> assessment \<Rightarrow> db \<Rightarrow> (stamp_batch \<times> db) result" where
  "create_batch now a d =
    (if as_status a \<noteq> AS_PAID
     then Inl (IssuanceError ''invalid-state'' (''assessment is '' @ assessment_status_text (as_status a) @ '', expected PAID''))
     else case find (\<lambda>b. ba_assessment_id b = as_id a) (db_stamp_batches d) of
       Some existing \<Rightarrow> Inr (existing, d)
     | None \<Rightarrow>
         if as_stamps_required a \<le> 0
         then Inl (IssuanceError ''nothing-to-issue'' ''assessment requires zero stamps'')
         else rbind (primary_line d (as_id a)) (\<lambda>line.
           case CATEGORIES (al_category line) of
             None \<Rightarrow> Inl (KeyError (al_category line))
           | Some category_code \<Rightarrow>
               let (u, d1) = uuid4 d;
                   batch = \<lparr>ba_id = u, ba_assessment_id = as_id a, ba_category_code = category_code, ba_year = year_of now,
                     ba_quantity = as_stamps_required a, ba_issued_count = 0, ba_status = BS_PENDING, ba_merkle_root = [],
                     ba_created_at = now, ba_completed_at = None\<rparr>
               in rbind (insert_stamp_batch batch (update_assessment (as_id a) (\<lambda>x. x\<lparr>as_status := AS_ISSUING\<rparr>) d1))
                    (\<lambda>d2. Inr (batch, d2))))"

text \<open>The upsert on \<open>serial_counters\<close>: the first sequence of the claimed block.\<close>

definition claim_serial_block :: "string \<Rightarrow> int \<Rightarrow> int \<Rightarrow> db \<Rightarrow> (int \<times> db) result" where
  "claim_serial_block cat yr n d =
    (let is_row = (\<lambda>c. sc_category_code c = cat \<and> sc_year c = yr);
         next_sequence = (case find is_row (db_serial_counters d) of None \<Rightarrow> n | Some c \<Rightarrow> sc_next_sequence c + n);
         rows = (if find is_row (db_serial_counters d) = None
                 then db_serial_counters d @ [\<lparr>sc_category_code = cat, sc_year = yr, sc_next_sequence = n\<rparr>]
                 else update_where is_row (\<lambda>c. c\<lparr>sc_next_sequence := sc_next_sequence c + n\<rparr>) (db_serial_counters d))
     in rbind (first_violation [varchar 3 cat, integer32 yr, bigint n, bigint next_sequence])
          (\<lambda>_. Inr (next_sequence - n, d\<lparr>db_serial_counters := rows\<rparr>)))"

subsection \<open>One chunk\<close>

definition find_batch :: "db \<Rightarrow> uuid \<Rightarrow> stamp_batch option" where
  "find_batch d i = find (\<lambda>b. ba_id b = i) (db_stamp_batches d)"

definition find_declaration :: "db \<Rightarrow> uuid \<Rightarrow> customs_declaration option" where
  "find_declaration d i = find (\<lambda>r. dc_id r = i) (db_declarations d)"

definition per_stamp_entry :: "string \<Rightarrow> int \<Rightarrow> (ucs \<times> json) list \<Rightarrow> (ucs \<times> json) list" where
  "per_stamp_entry lid index e =
     dict_set (ucs_of ''statusListIndex'') (jstr (str_int index))
       (dict_set (ucs_of ''id'') (jstr (lid @ ''#'' @ str_int index)) e)"

text \<open>What is the same for every stamp of a chunk.\<close>

record issue_context =
  ic_batch :: stamp_batch
  ic_assessment :: assessment
  ic_declaration :: customs_declaration
  ic_line :: assessment_line
  ic_now :: datetime
  ic_valid_until :: datetime
  ic_entries :: "(string \<times> (ucs \<times> json) list) list"

definition stamp_document :: "'sk env \<Rightarrow> issue_context \<Rightarrow> string \<Rightarrow> int \<Rightarrow> (ucs \<times> json) list" where
  "stamp_document env c serial index =
     build_stamp_credential (ucs_of (issuer env @ ''/credentials/'' @ serial)) (ucs_of (issuer env)) (ucs_of serial)
       (ucs_of (al_hs_code (ic_line c))) (ucs_of (dc_declaration_ref (ic_declaration c)))
       (ucs_of (dc_consignee_tin (ic_declaration c))) (as_total_duty_kobo (ic_assessment c))
       (ucs_of (strftime_seconds (ic_now c))) (ucs_of (strftime_seconds (ic_valid_until c)))
       (map (\<lambda>(lid, e). JObj (per_stamp_entry lid index e)) (ic_entries c))"

definition issue_stamp :: "'sk env \<Rightarrow> issue_context \<Rightarrow> int \<Rightarrow> db \<Rightarrow> db result" where
  "issue_stamp env c sequence d =
    rbind (build_serial (ba_category_code (ic_batch c)) (ba_year (ic_batch c)) sequence) (\<lambda>serial.
    rbind (allocate_index d) (\<lambda>index.
    rbind (issue_proof (en_sha256 env) (en_sign env) (iso_now (ic_now c)) (stamp_document env c serial index)
             (en_signing_key env) (verification_method env) (ucs_of ''assertionMethod'') None) (\<lambda>signed_vc.
      let (u, d1) = uuid4 d
      in insert_stamp \<lparr>st_id = u, st_batch_id = ba_id (ic_batch c), st_serial = serial,
           st_category_code = ba_category_code (ic_batch c), st_year = ba_year (ic_batch c), st_sequence = sequence,
           st_status = SS_ISSUED, st_hs_code = al_hs_code (ic_line c),
           st_declaration_ref = dc_declaration_ref (ic_declaration c), st_consignee_tin = dc_consignee_tin (ic_declaration c),
           st_duty_paid_kobo = as_total_duty_kobo (ic_assessment c), st_status_list_index = index,
           st_credential = JObj signed_vc, st_valid_from = ic_now c, st_valid_until = ic_valid_until c,
           st_activated_at = None, st_first_scan_at = None, st_first_scan_verifier = [],
           st_first_scan_lat_micros = None, st_first_scan_long_micros = None, st_created_at = ic_now c\<rparr> d1)))"

fun issue_stamps :: "'sk env \<Rightarrow> issue_context \<Rightarrow> int \<Rightarrow> nat \<Rightarrow> db \<Rightarrow> db result" where
  "issue_stamps env c sequence 0 d = Inr d"
| "issue_stamps env c sequence (Suc n) d = rbind (issue_stamp env c sequence d) (issue_stamps env c (sequence + 1) n)"

definition status_entries :: "settings \<Rightarrow> (string \<times> (ucs \<times> json) list) list result" where
  "status_entries s = map_result (\<lambda>p. rbind (status_entry (ucs_of (list_credential_id s p)) 0 p)
     (\<lambda>e. Inr (list_credential_id s p, e))) [''void'', ''expired'', ''suspect'']"

definition chunk_size_of :: "settings \<Rightarrow> int option \<Rightarrow> int" where
  "chunk_size_of s chunk_size = (case chunk_size of Some n \<Rightarrow> if n = 0 then cf_issuance_chunk_size s else n
     | None \<Rightarrow> cf_issuance_chunk_size s)"

definition issue_chunk :: "'sk env \<Rightarrow> datetime \<Rightarrow> uuid \<Rightarrow> int option \<Rightarrow> db \<Rightarrow> (int \<times> db) result" where
  "issue_chunk env now batch_id chunk_size d =
    (case find_batch d batch_id of
       None \<Rightarrow> Inl NoResultFound
     | Some locked \<Rightarrow>
         if ba_status locked \<notin> {BS_PENDING, BS_ISSUING} then Inr (0, d)
         else let remaining = ba_quantity locked - ba_issued_count locked
              in if remaining \<le> 0
                 then rbind (update_batch batch_id (\<lambda>b. b\<lparr>ba_status := BS_ISSUED\<rparr>) d) (\<lambda>d1. Inr (0, d1))
                 else let size = min (chunk_size_of (en_settings env) chunk_size) remaining
                      in rbind (claim_serial_block (ba_category_code locked) (ba_year locked) size d) (\<lambda>(base, d1).
                         case find_assessment d1 (ba_assessment_id locked) of
                           None \<Rightarrow> Inl NoResultFound
                         | Some a \<Rightarrow> (case find_declaration d1 (as_declaration_id a) of
                               None \<Rightarrow> Inl NoResultFound
                             | Some decl \<Rightarrow>
                                 rbind (primary_line d1 (as_id a)) (\<lambda>line.
                                 rbind (status_entries (en_settings env)) (\<lambda>entries.
                                 rbind (issue_stamps env \<lparr>ic_batch = locked, ic_assessment = a, ic_declaration = decl, ic_line = line,
                                          ic_now = now, ic_valid_until = add_days now (cf_stamp_validity_days (en_settings env)),
                                          ic_entries = entries\<rparr> base (nat size) d1) (\<lambda>d2.
                                 rbind (update_batch batch_id (\<lambda>b. b\<lparr>ba_issued_count := ba_issued_count b + size,
                                          ba_status := if ba_issued_count b + size < ba_quantity b then BS_ISSUING else BS_ISSUED\<rparr>) d2)
                                   (\<lambda>d3. Inr (size, d3))))))))"

subsection \<open>Finalising, inspecting, activating\<close>

definition batch_stamps :: "db \<Rightarrow> uuid \<Rightarrow> stamp list" where
  "batch_stamps d i = filter (\<lambda>s. st_batch_id s = i) (db_stamps d)"

definition finalize_batch :: "'sk env \<Rightarrow> datetime \<Rightarrow> uuid \<Rightarrow> string \<Rightarrow> db \<Rightarrow> (stamp_batch \<times> db) result" where
  "finalize_batch env now batch_id principal_sub d =
    (case find_batch d batch_id of
       None \<Rightarrow> Inl NoResultFound
     | Some locked \<Rightarrow>
         if ba_status locked \<noteq> BS_ISSUED
         then Inl (IssuanceError ''invalid-state'' (''batch is '' @ batch_status_text (ba_status locked) @ '', expected ISSUED''))
         else rbind (map_result (\<lambda>s. utf8_encode (ucs_of (st_serial s))) (sort_key st_sequence (batch_stamps d batch_id))) (\<lambda>leaves.
              let root = merkle_root (en_sha256 env) leaves;
                  finalized = locked\<lparr>ba_merkle_root := root, ba_status := BS_READY\<rparr>
              in rbind (update_batch batch_id (\<lambda>_. finalized) d) (\<lambda>d1.
                 rbind (enqueue env now ''stamps.issued.v1''
                          [(ucs_of ''batchId'', jstr (uuid_str (ba_id locked))),
                           (ucs_of ''assessmentId'', jstr (uuid_str (ba_assessment_id locked))),
                           (ucs_of ''categoryCode'', jstr (ba_category_code locked)),
                           (ucs_of ''quantity'', JInt (ba_quantity locked)),
                           (ucs_of ''merkleRoot'', jstr root)]
                          principal_sub ''excise-officer'' (Some (uuid_str (ba_assessment_id locked))) d1)
                   (\<lambda>(_, d2). Inr (finalized, d2)))))"

definition record_inspection :: "datetime \<Rightarrow> uuid \<Rightarrow> int \<Rightarrow> string \<Rightarrow> db \<Rightarrow> (inspection \<times> db) result" where
  "record_inspection now batch_id defectives inspector_sub d =
    (case find_batch d batch_id of
       None \<Rightarrow> Inl NoResultFound
     | Some locked \<Rightarrow>
         if ba_status locked \<notin> {BS_READY, BS_ACTIVE}
         then Inl (IssuanceError ''invalid-state'' (''batch is '' @ batch_status_text (ba_status locked) @ '', expected READY''))
         else rbind (plan_for_lot (ba_quantity locked)) (\<lambda>plan.
              rbind (evaluate_sample plan defectives) (\<lambda>passed.
              let (u, d1) = uuid4 d;
                  row = \<lparr>in_id = u, in_batch_id = ba_id locked, in_lot_size = ba_quantity locked,
                    in_code_letter = plan_code_letter plan, in_sample_size = plan_sample_size plan, in_accept = plan_accept plan,
                    in_reject = plan_reject plan, in_defectives = defectives, in_result = (if passed then PASS else FAIL),
                    in_inspector_sub = inspector_sub, in_created_at = now\<rparr>
              in rbind (insert_inspection row d1) (\<lambda>d2.
                 if passed then Inr (row, d2)
                 else rbind (update_batch batch_id (\<lambda>b. b\<lparr>ba_status := BS_INSPECTION_FAILED\<rparr>) d2) (\<lambda>d3. Inr (row, d3))))))"

definition activate_batch :: "'sk env \<Rightarrow> datetime \<Rightarrow> uuid \<Rightarrow> string \<Rightarrow> db \<Rightarrow> (int \<times> db) result" where
  "activate_batch env now batch_id principal_sub d =
    (case find_batch d batch_id of
       None \<Rightarrow> Inl NoResultFound
     | Some locked \<Rightarrow>
         if ba_status locked \<noteq> BS_READY
         then Inl (IssuanceError ''invalid-state'' (''batch is '' @ batch_status_text (ba_status locked) @ '', expected READY''))
         else if \<not> list_ex (\<lambda>i. in_batch_id i = ba_id locked \<and> in_result i = PASS) (db_inspections d)
         then Inl (IssuanceError ''inspection-required'' ''batch has no passing inspection'')
         else let ready = (\<lambda>s. st_batch_id s = ba_id locked \<and> st_status s = SS_ISSUED);
                  rowcount = int (length (filter ready (db_stamps d)))
              in rbind (update_stamps ready (\<lambda>s. s\<lparr>st_status := SS_ACTIVE, st_activated_at := Some now\<rparr>) d) (\<lambda>d1.
                 rbind (update_batch batch_id (\<lambda>b. b\<lparr>ba_status := BS_ACTIVE\<rparr>) d1) (\<lambda>d2.
                 rbind (enqueue env now ''stamps.activated.v1''
                          [(ucs_of ''batchId'', jstr (uuid_str (ba_id locked))), (ucs_of ''activatedCount'', JInt rowcount)]
                          principal_sub ''excise-officer'' (Some (uuid_str (ba_assessment_id locked))) d2)
                   (\<lambda>(_, d3). Inr (rowcount, d3)))))"


subsection \<open>Claiming blocks of sequences\<close>

text \<open>
  The contract of an allocator that counts per key: a claim starts where the key's counter stands and
  moves only that counter. That no two blocks of a key overlap follows, whatever the order of the claims.
\<close>

locale block_allocator =
  fixes upcoming :: "'s \<Rightarrow> 'k \<Rightarrow> int"
    and claim :: "'k \<Rightarrow> int \<Rightarrow> 's \<Rightarrow> 'e + (int \<times> 's)"
  assumes claim_base: "claim k n s = Inr (b, s') \<Longrightarrow> b = upcoming s k"
    and claim_moves: "claim k n s = Inr (b, s') \<Longrightarrow> upcoming s' j = upcoming s j + (if j = k then n else 0)"
begin

fun claims :: "('k \<times> int) list \<Rightarrow> 's \<Rightarrow> 'e + (('k \<times> int \<times> int) list \<times> 's)" where
  "claims [] s = Inr ([], s)"
| "claims ((k, n) # ks) s = rbind (claim k n s) (\<lambda>(b, s1). rbind (claims ks s1) (\<lambda>(bs, s2). Inr ((k, b, n) # bs, s2)))"

lemma claims_above: "claims ks s = Inr (bs, s') \<Longrightarrow> list_all (\<lambda>(k, n). 0 \<le> n) ks \<Longrightarrow>
    list_all (\<lambda>(k, b, n). upcoming s k \<le> b \<and> b + n \<le> upcoming s' k \<and> 0 \<le> n) bs \<and> (\<forall>k. upcoming s k \<le> upcoming s' k)"
proof (induction ks arbitrary: s bs)
  case (Cons kn ks)
  obtain k n where kn: "kn = (k, n)" by fastforce
  with Cons.prems obtain b s1 bs' where c: "claim k n s = Inr (b, s1)" "claims ks s1 = Inr (bs', s')" "bs = (k, b, n) # bs'" "0 \<le> n"
    by (auto simp: rbind_eq_Inr)
  from Cons.IH [OF c(2)] Cons.prems(2) have
    ih: "list_all (\<lambda>(k, b, n). upcoming s1 k \<le> b \<and> b + n \<le> upcoming s' k \<and> 0 \<le> n) bs'" "\<And>j. upcoming s1 j \<le> upcoming s' j" by simp_all
  note step = claim_base [OF c(1)] claim_moves [OF c(1)]
  have up: "upcoming s j \<le> upcoming s1 j" for j using step(2) c(4) by simp
  have "upcoming s j \<le> b'" if "upcoming s1 j \<le> b'" for j b' using up [of j] that by linarith
  then have "list_all (\<lambda>(k, b, n). upcoming s k \<le> b \<and> b + n \<le> upcoming s' k \<and> 0 \<le> n) bs'"
    using ih(1) by (auto simp: list_all_iff)
  moreover have "b + n \<le> upcoming s' k" using step ih(2) [of k] by simp
  moreover have "upcoming s j \<le> upcoming s' j" for j using up [of j] ih(2) [of j] by linarith
  ultimately show ?case using c(3,4) step(1) by simp
qed simp

lemma claims_disjoint: "claims ks s = Inr (bs, s') \<Longrightarrow> list_all (\<lambda>(k, n). 0 \<le> n) ks \<Longrightarrow>
    sorted_wrt (\<lambda>(k, b, n) (k', b', n'). k = k' \<longrightarrow> b + n \<le> b') bs"
proof (induction ks arbitrary: s bs)
  case (Cons kn ks)
  obtain k n where kn: "kn = (k, n)" by fastforce
  with Cons.prems obtain b s1 bs' where c: "claim k n s = Inr (b, s1)" "claims ks s1 = Inr (bs', s')" "bs = (k, b, n) # bs'"
    by (auto simp: rbind_eq_Inr)
  have "list_all (\<lambda>(k, b, n). upcoming s1 k \<le> b \<and> b + n \<le> upcoming s' k \<and> 0 \<le> n) bs'"
    using claims_above [OF c(2)] Cons.prems(2) by simp
  moreover have "upcoming s1 k = b + n" using claim_base [OF c(1)] claim_moves [OF c(1)] by simp
  ultimately show ?case using Cons.IH [OF c(2)] Cons.prems(2) c(3) by (auto simp: list_all_iff)
qed simp

end

definition counter_of :: "db \<Rightarrow> string \<times> int \<Rightarrow> int" where
  "counter_of d = (\<lambda>(cat, yr). case find (\<lambda>c. sc_category_code c = cat \<and> sc_year c = yr) (db_serial_counters d) of
     None \<Rightarrow> 0 | Some c \<Rightarrow> sc_next_sequence c)"

lemma find_update_other:
  assumes "\<And>x. Q (f x) = Q x" "\<And>x. P x \<Longrightarrow> \<not> Q x"
  shows "find Q (update_where P f xs) = find Q xs"
  using assms by (induction xs) (auto simp: update_where_def)

lemma find_update_same:
  assumes "\<And>x. P (f x) = P x"
  shows "find P (update_where P f xs) = map_option f (find P xs)"
  using assms by (induction xs) (auto simp: update_where_def)

lemma claim_effect:
  assumes "claim_serial_block cat yr n d = Inr (base, d')"
  shows "\<exists>rows. d' = d\<lparr>db_serial_counters := rows\<rparr>" "base = counter_of d (cat, yr)"
    "counter_of d' j = counter_of d j + (if j = (cat, yr) then n else 0)"
proof -
  let ?P = "\<lambda>c. sc_category_code c = cat \<and> sc_year c = yr" and ?f = "\<lambda>c :: serial_counter. c\<lparr>sc_next_sequence := sc_next_sequence c + n\<rparr>"
  show "\<exists>rows. d' = d\<lparr>db_serial_counters := rows\<rparr>" "base = counter_of d (cat, yr)"
    using assms by (auto simp: claim_serial_block_def Let_def rbind_eq_Inr counter_of_def split: option.splits)
  show "counter_of d' j = counter_of d j + (if j = (cat, yr) then n else 0)"
  proof (cases "find ?P (db_serial_counters d)")
    case None
    then have "d' = d\<lparr>db_serial_counters := db_serial_counters d @ [\<lparr>sc_category_code = cat, sc_year = yr, sc_next_sequence = n\<rparr>]\<rparr>"
      using assms by (auto simp: claim_serial_block_def Let_def rbind_eq_Inr)
    with None show ?thesis by (cases j) (auto simp: counter_of_def find_snoc split: option.splits)
  next
    case (Some c)
    then have d': "d' = d\<lparr>db_serial_counters := update_where ?P ?f (db_serial_counters d)\<rparr>"
      using assms by (auto simp: claim_serial_block_def Let_def rbind_eq_Inr)
    obtain cat' yr' where j: "j = (cat', yr')" by fastforce
    show ?thesis
    proof (cases "j = (cat, yr)")
      case True
      then show ?thesis using Some find_update_same [of ?P ?f "db_serial_counters d"] by (simp add: counter_of_def d')
    next
      case False
      then have "find (\<lambda>c. sc_category_code c = cat' \<and> sc_year c = yr') (update_where ?P ?f (db_serial_counters d)) =
          find (\<lambda>c. sc_category_code c = cat' \<and> sc_year c = yr') (db_serial_counters d)"
        using j by (intro find_update_other) auto
      with False j show ?thesis by (auto simp: counter_of_def d')
    qed
  qed
qed

interpretation serial_blocks: block_allocator counter_of "\<lambda>(cat, yr). claim_serial_block cat yr"
proof unfold_locales
  fix k :: "string \<times> int" and j n s b s'
  assume a: "(case k of (cat, yr) \<Rightarrow> claim_serial_block cat yr) n s = Inr (b, s')"
  obtain cat yr where k: "k = (cat, yr)" by fastforce
  with a have c: "claim_serial_block cat yr n s = Inr (b, s')" by simp
  show "b = counter_of s k" using claim_effect(2) [OF c] k by simp
  show "counter_of s' j = counter_of s j + (if j = k then n else 0)" using claim_effect(3) [OF c] k by simp
qed


text \<open>Several issuers, one after the other.\<close>

fun claim_blocks :: "((string \<times> int) \<times> int) list \<Rightarrow> db \<Rightarrow> (((string \<times> int) \<times> int \<times> int) list \<times> db) result" where
  "claim_blocks [] d = Inr ([], d)"
| "claim_blocks (((cat, yr), n) # ks) d =
    rbind (claim_serial_block cat yr n d) (\<lambda>(b, d1). rbind (claim_blocks ks d1) (\<lambda>(bs, d2). Inr (((cat, yr), b, n) # bs, d2)))"

lemma claim_blocks_claims: "claim_blocks ks d = serial_blocks.claims ks d"
  by (induction ks d rule: claim_blocks.induct) (auto simp: rbind_def split: sum.splits)

text \<open>C17: Two issuers never receive overlapping sequences: however many blocks are claimed, of whatever categories and
  years and in whatever order, each block of a category and year begins where or after the previous one ended.\<close>

theorem serial_blocks_disjoint:
  assumes "claim_blocks ks d = Inr (bs, d')" "list_all (\<lambda>(k, n). 0 \<le> n) ks"
  shows "sorted_wrt (\<lambda>(k, b, n) (k', b', n'). k = k' \<longrightarrow> b + n \<le> b') bs"
  using assms unfolding claim_blocks_claims by (rule serial_blocks.claims_disjoint)

theorem serial_blocks_disjoint_witness:
  "\<exists>bs d'. claim_blocks [((''TBC'', 2026), 5), ((''ALC'', 2026), 3), ((''TBC'', 2026), 2)] (empty_db id) = Inr (bs, d') \<and>
     sorted_wrt (\<lambda>(k, b, n) (k', b', n'). k = k' \<longrightarrow> b + n \<le> b') bs"
proof -
  have "succeeds (claim_blocks [((''TBC'', 2026), 5), ((''ALC'', 2026), 3), ((''TBC'', 2026), 2)] (empty_db id))"
    by (simp add: claim_serial_block_def Let_def first_violation.simps varchar_def bigint_def integer32_def update_where_def)
  then obtain bs d' where c: "claim_blocks [((''TBC'', 2026), 5), ((''ALC'', 2026), 3), ((''TBC'', 2026), 2)] (empty_db id) = Inr (bs, d')"
    by (auto simp: succeeds_iff)
  from serial_blocks_disjoint [OF c] c show ?thesis by auto
qed

subsection \<open>What a chunk adds\<close>

text \<open>A stamp of a chunk: its serial is the one of its sequence, its credential is signed over its own data.\<close>

definition issued_stamp :: "'sk env \<Rightarrow> issue_context \<Rightarrow> int \<Rightarrow> stamp \<Rightarrow> bool" where
  "issued_stamp env c seq s =
    (build_serial (ba_category_code (ic_batch c)) (ba_year (ic_batch c)) seq = Inr (st_serial s) \<and>
     (\<exists>vc. issue_proof (en_sha256 env) (en_sign env) (iso_now (ic_now c)) (stamp_document env c (st_serial s) (st_status_list_index s))
             (en_signing_key env) (verification_method env) (ucs_of ''assertionMethod'') None = Inr vc \<and> st_credential s = JObj vc) \<and>
     st_batch_id s = ba_id (ic_batch c) \<and> st_category_code s = ba_category_code (ic_batch c) \<and> st_year s = ba_year (ic_batch c) \<and>
     st_sequence s = seq \<and> st_status s = SS_ISSUED \<and> st_duty_paid_kobo s = as_total_duty_kobo (ic_assessment c) \<and>
     st_hs_code s = al_hs_code (ic_line c) \<and> st_declaration_ref s = dc_declaration_ref (ic_declaration c) \<and>
     st_consignee_tin s = dc_consignee_tin (ic_declaration c) \<and>
     st_valid_from s = ic_now c \<and> st_valid_until s = ic_valid_until c \<and> st_first_scan_at s = None \<and> st_first_scan_verifier s = [])"

definition stamps_distinct :: "stamp list \<Rightarrow> bool" where
  "stamps_distinct ss = (distinct (map st_id ss) \<and> distinct (map st_serial ss) \<and> distinct (map st_status_list_index ss) \<and>
     list_all (\<lambda>s. 0 \<le> st_status_list_index s \<and> st_status_list_index s < DEFAULT_LIST_SIZE_BITS) ss)"

lemma stamps_distinct_keys:
  assumes "map st_id ss' = map st_id ss" "map st_serial ss' = map st_serial ss" "map st_status_list_index ss' = map st_status_list_index ss"
  shows "stamps_distinct ss' = stamps_distinct ss"
proof -
  let ?Q = "\<lambda>i. 0 \<le> i \<and> i < DEFAULT_LIST_SIZE_BITS"
  have "list_all (\<lambda>s. ?Q (st_status_list_index s)) xs = list_all ?Q (map st_status_list_index xs)" for xs
    by (simp add: list.pred_map comp_def)
  from this [of ss] this [of ss'] show ?thesis unfolding stamps_distinct_def assms by simp
qed

lemma issue_stamp_effect:
  assumes "issue_stamp env c seq d = Inr d'" "stamps_distinct (db_stamps d)"
  shows "\<exists>s k. d' = d\<lparr>db_stamps := db_stamps d @ [s], db_next_uuid := k\<rparr> \<and> issued_stamp env c seq s \<and> stamps_distinct (db_stamps d @ [s])"
proof -
  obtain serial index vc where b: "build_serial (ba_category_code (ic_batch c)) (ba_year (ic_batch c)) seq = Inr serial"
    "allocate_index d = Inr index" "issue_proof (en_sha256 env) (en_sign env) (iso_now (ic_now c)) (stamp_document env c serial index)
             (en_signing_key env) (verification_method env) (ucs_of ''assertionMethod'') None = Inr vc"
    using assms(1) unfolding issue_stamp_def rbind_eq_Inr by blast
  obtain u d1 where u: "uuid4 d = (u, d1)" by fastforce
  let ?s = "\<lparr>st_id = u, st_batch_id = ba_id (ic_batch c), st_serial = serial,
           st_category_code = ba_category_code (ic_batch c), st_year = ba_year (ic_batch c), st_sequence = seq,
           st_status = SS_ISSUED, st_hs_code = al_hs_code (ic_line c),
           st_declaration_ref = dc_declaration_ref (ic_declaration c), st_consignee_tin = dc_consignee_tin (ic_declaration c),
           st_duty_paid_kobo = as_total_duty_kobo (ic_assessment c), st_status_list_index = index,
           st_credential = JObj vc, st_valid_from = ic_now c, st_valid_until = ic_valid_until c,
           st_activated_at = None, st_first_scan_at = None, st_first_scan_verifier = [],
           st_first_scan_lat_micros = None, st_first_scan_long_micros = None, st_created_at = ic_now c\<rparr>"
  have i: "insert_stamp ?s d1 = Inr d'"
    using assms(1) by (simp add: issue_stamp_def b u)
  have d1: "d1 = d\<lparr>db_next_uuid := Suc (db_next_uuid d)\<rparr>" by (rule uuid4_fields [OF u])
  have new: "u \<notin> st_id ` set (db_stamps d)" "serial \<notin> st_serial ` set (db_stamps d)"
    using i by (simp_all add: insert_stamp_def rbind_eq_Inr constraint_simps d1)
  have "0 \<le> index" by (rule allocate_index_fresh(3) [OF b(2)]) (use assms(2) in \<open>simp add: stamps_distinct_def list_all_iff\<close>)
  then have "stamps_distinct (db_stamps d @ [?s])"
    using new assms(2) allocate_index_fresh(1,2) [OF b(2)] by (simp add: stamps_distinct_def)
  moreover have "issued_stamp env c seq ?s" using b by (simp add: issued_stamp_def)
  ultimately show ?thesis using insert_stamp_ok [OF i] d1 by (intro exI [of _ ?s] exI [of _ "Suc (db_next_uuid d)"]) simp
qed

fun issued_run :: "'sk env \<Rightarrow> issue_context \<Rightarrow> int \<Rightarrow> stamp list \<Rightarrow> bool" where
  "issued_run env c seq [] = True"
| "issued_run env c seq (s # ss) = (issued_stamp env c seq s \<and> issued_run env c (seq + 1) ss)"

lemma issue_stamps_effect:
  assumes "issue_stamps env c seq n d = Inr d'" "stamps_distinct (db_stamps d)"
  shows "\<exists>ss k. d' = d\<lparr>db_stamps := db_stamps d @ ss, db_next_uuid := k\<rparr> \<and> length ss = n \<and> issued_run env c seq ss \<and>
    stamps_distinct (db_stamps d @ ss)"
  using assms
proof (induction n arbitrary: seq d)
  case 0
  then show ?case by (auto intro!: exI [of _ "db_next_uuid d'"])
next
  case (Suc n)
  then obtain d1 where d1: "issue_stamp env c seq d = Inr d1" "issue_stamps env c (seq + 1) n d1 = Inr d'" by (auto simp: rbind_eq_Inr)
  obtain s k where s: "d1 = d\<lparr>db_stamps := db_stamps d @ [s], db_next_uuid := k\<rparr>" "issued_stamp env c seq s" "stamps_distinct (db_stamps d @ [s])"
    using issue_stamp_effect [OF d1(1) Suc.prems(2)] by blast
  from Suc.IH [OF d1(2)] s obtain ss k' where "d' = d1\<lparr>db_stamps := db_stamps d1 @ ss, db_next_uuid := k'\<rparr>" "length ss = n"
    "issued_run env c (seq + 1) ss" "stamps_distinct (db_stamps d1 @ ss)" by auto
  with s show ?case by (intro exI [of _ "s # ss"] exI [of _ k']) simp
qed

lemma issued_run_all: "issued_run env c seq ss \<Longrightarrow> s \<in> set ss \<Longrightarrow> \<exists>i. seq \<le> i \<and> i < seq + int (length ss) \<and> issued_stamp env c i s"
proof (induction ss arbitrary: seq)
  case (Cons a ss)
  show ?case
  proof (cases "s = a")
    case True
    with Cons.prems show ?thesis by (intro exI [of _ seq]) simp
  next
    case False
    with Cons.IH [of "seq + 1"] Cons.prems obtain i where "seq + 1 \<le> i" "i < seq + 1 + int (length ss)" "issued_stamp env c i s" by auto
    then show ?thesis by (intro exI [of _ i]) simp
  qed
qed simp

lemma issued_run_sequences: "issued_run env c seq ss \<Longrightarrow> map st_sequence ss = [seq..seq + int (length ss) - 1]"
  by (induction ss arbitrary: seq) (auto simp: issued_stamp_def upto_rec1 algebra_simps)


lemma find_batch_Some: "find_batch d i = Some b \<Longrightarrow> b \<in> set (db_stamp_batches d) \<and> ba_id b = i"
  by (auto simp: find_batch_def dest: find_SomeD)

lemma find_declaration_Some: "find_declaration d i = Some r \<Longrightarrow> r \<in> set (db_declarations d) \<and> dc_id r = i"
  by (auto simp: find_declaration_def dest: find_SomeD)

lemma primary_line_Some:
  assumes "primary_line d i = Inr l"
  shows "l \<in> set (db_assessment_lines d)" "al_assessment_id l = i"
    "\<And>k. k \<in> set (db_assessment_lines d) \<Longrightarrow> al_assessment_id k = i \<Longrightarrow> al_total_duty_kobo k \<le> al_total_duty_kobo l"
proof -
  let ?ls = "sort_key (\<lambda>l. - al_total_duty_kobo l) (filter (\<lambda>l. al_assessment_id l = i) (db_assessment_lines d))"
  obtain ls where ls: "?ls = l # ls" using assms by (auto simp: primary_line_def split: list.splits)
  then have "l \<in> set ?ls" by simp
  then show "l \<in> set (db_assessment_lines d)" "al_assessment_id l = i" by simp_all
  fix k assume k: "k \<in> set (db_assessment_lines d)" "al_assessment_id k = i"
  then have "k \<in> set ?ls" by simp
  moreover have "sorted (map (\<lambda>l. - al_total_duty_kobo l) ?ls)" by simp
  ultimately show "al_total_duty_kobo k \<le> al_total_duty_kobo l" unfolding ls by auto
qed

lemma issue_chunk_effect:
  assumes "issue_chunk env now i chunk d = Inr (n, d')" "stamps_distinct (db_stamps d)"
  obtains (idle) b where "find_batch d i = Some b" "ba_status b \<notin> {BS_PENDING, BS_ISSUING}" "n = 0" "d' = d"
  | (complete) b where "find_batch d i = Some b" "ba_status b \<in> {BS_PENDING, BS_ISSUING}" "ba_quantity b \<le> ba_issued_count b" "n = 0"
      "d' = d\<lparr>db_stamp_batches := update_where (\<lambda>b. ba_id b = i) (\<lambda>b. b\<lparr>ba_status := BS_ISSUED\<rparr>) (db_stamp_batches d)\<rparr>"
  | (issued) b a c ss rows k where "find_batch d i = Some b" "ba_status b \<in> {BS_PENDING, BS_ISSUING}" "ba_issued_count b < ba_quantity b"
      "n = min (chunk_size_of (en_settings env) chunk) (ba_quantity b - ba_issued_count b)"
      "find_assessment d (ba_assessment_id b) = Some a" "ic_batch c = b" "ic_assessment c = a" "ic_now c = now"
      "ic_valid_until c = add_days now (cf_stamp_validity_days (en_settings env))" "status_entries (en_settings env) = Inr (ic_entries c)"
      "issued_run env c (counter_of d (ba_category_code b, ba_year b)) ss" "length ss = nat n" "stamps_distinct (db_stamps d @ ss)"
      "d' = d\<lparr>db_serial_counters := rows, db_stamps := db_stamps d @ ss, db_next_uuid := k,
        db_stamp_batches := update_where (\<lambda>b. ba_id b = i) (\<lambda>b. b\<lparr>ba_issued_count := ba_issued_count b + n,
           ba_status := if ba_issued_count b + n < ba_quantity b then BS_ISSUING else BS_ISSUED\<rparr>) (db_stamp_batches d)\<rparr>"
proof -
  obtain b where b: "find_batch d i = Some b" using assms(1) by (auto simp: issue_chunk_def split: option.splits)
  show thesis
  proof (cases "ba_status b \<in> {BS_PENDING, BS_ISSUING}")
    case False
    with assms(1) b idle show thesis by (simp add: issue_chunk_def split: if_splits)
  next
    case active: True
    show thesis
    proof (cases "ba_quantity b \<le> ba_issued_count b")
      case True
      with assms(1) b active have "n = 0" "update_batch i (\<lambda>b. b\<lparr>ba_status := BS_ISSUED\<rparr>) d = Inr d'"
        by (auto simp: issue_chunk_def Let_def rbind_eq_Inr)
      with complete [OF b active True] update_batch_ok show thesis by blast
    next
      case False
      let ?n = "min (chunk_size_of (en_settings env) chunk) (ba_quantity b - ba_issued_count b)"
      obtain base d1 where c: "claim_serial_block (ba_category_code b) (ba_year b) ?n d = Inr (base, d1)"
        using assms(1) b active False by (auto simp: issue_chunk_def Let_def rbind_eq_Inr)
      obtain a decl where a: "find_assessment d1 (ba_assessment_id b) = Some a" "find_declaration d1 (as_declaration_id a) = Some decl"
        using assms(1) b active False c by (auto simp: issue_chunk_def Let_def split: option.splits)
      obtain line entries where le: "primary_line d1 (as_id a) = Inr line" "status_entries (en_settings env) = Inr entries"
        using assms(1) b active False c a by (auto simp: issue_chunk_def Let_def rbind_eq_Inr)
      let ?c = "\<lparr>ic_batch = b, ic_assessment = a, ic_declaration = decl, ic_line = line,
                                          ic_now = now, ic_valid_until = add_days now (cf_stamp_validity_days (en_settings env)),
                                          ic_entries = entries\<rparr>"
      let ?f = "\<lambda>b. b\<lparr>ba_issued_count := ba_issued_count b + ?n, ba_status := if ba_issued_count b + ?n < ba_quantity b then BS_ISSUING else BS_ISSUED\<rparr>"
      obtain d2 where d2: "issue_stamps env ?c base (nat ?n) d1 = Inr d2" "update_batch i ?f d2 = Inr d'" and n: "n = ?n"
        using assms(1) b active False c a le by (auto simp: issue_chunk_def Let_def rbind_eq_Inr)
      obtain rows where rows: "d1 = d\<lparr>db_serial_counters := rows\<rparr>" "base = counter_of d (ba_category_code b, ba_year b)"
        using claim_effect(1,2) [OF c] by blast
      obtain ss k where ss: "d2 = d1\<lparr>db_stamps := db_stamps d1 @ ss, db_next_uuid := k\<rparr>" "length ss = nat ?n" "issued_run env ?c base ss"
        "stamps_distinct (db_stamps d1 @ ss)"
        using issue_stamps_effect [OF d2(1)] assms(2) rows(1) by auto
      show thesis
        by (rule issued [OF b active _ n, of a ?c ss k rows])
          (use False a rows ss le n update_batch_ok [OF d2(2)] in \<open>simp_all add: find_assessment_def\<close>)
    qed
  qed
qed


end
