(* ===== verification/BatchInvariant.thy ===== *)
theory BatchInvariant
  imports Issuance
begin

section \<open>What holds of batches and stamps at all times\<close>

text \<open>
  \<open>issuance_ok\<close>: a batch belongs to an assessment in issuance and asks for exactly its stamps, has
  issued as many stamps as it counts and never more than it asks for; only a batch with a passing
  inspection is active, and only stamps of such a batch leave the issued state other than by being
  voided. Every operation of \<open>services/issuance.py\<close> keeps it.
\<close>

subsection \<open>Batches, stamps and assessments agree\<close>

definition batch_ok :: "assessment list \<Rightarrow> stamp list \<Rightarrow> inspection list \<Rightarrow> stamp_batch \<Rightarrow> bool" where
  "batch_ok as ss is b =
    ((\<exists>a \<in> set as. as_id a = ba_assessment_id b \<and> as_status a = AS_ISSUING \<and> as_stamps_required a = ba_quantity b) \<and>
     ba_issued_count b = int (length (filter (\<lambda>s. st_batch_id s = ba_id b) ss)) \<and> ba_issued_count b \<le> ba_quantity b \<and> 0 < ba_quantity b \<and>
     (ba_status b \<in> {BS_PENDING, BS_ISSUING} \<or> ba_issued_count b = ba_quantity b) \<and>
     (ba_status b = BS_ACTIVE \<longrightarrow> (\<exists>i \<in> set is. in_batch_id i = ba_id b \<and> in_result i = PASS)) \<and>
     (ba_status b \<in> {BS_ACTIVE, BS_INSPECTION_FAILED} \<or>
       list_all (\<lambda>s. st_batch_id s = ba_id b \<longrightarrow> st_status s \<in> {SS_ISSUED, SS_VOID}) ss))"

definition stamp_ok :: "stamp_batch list \<Rightarrow> inspection list \<Rightarrow> stamp \<Rightarrow> bool" where
  "stamp_ok bs is s =
    (build_serial (st_category_code s) (st_year s) (st_sequence s) = Inr (st_serial s) \<and>
     (st_batch_id s, st_category_code s, st_year s) \<in> (\<lambda>b. (ba_id b, ba_category_code b, ba_year b)) ` set bs \<and>
     (st_status s \<in> {SS_ISSUED, SS_VOID} \<or> (\<exists>i \<in> set is. in_batch_id i = st_batch_id s \<and> in_result i = PASS)))"

lemma stamp_ok_batch: "stamp_ok bs is s \<Longrightarrow> st_batch_id s \<in> ba_id ` set bs"
  unfolding stamp_ok_def by (metis (no_types, lifting) fst_conv image_iff)

definition inspection_ok :: "inspection \<Rightarrow> bool" where
  "inspection_ok i = (\<exists>plan. plan_for_lot (in_lot_size i) = Inr plan \<and> in_sample_size i = plan_sample_size plan \<and> in_accept i = plan_accept plan \<and>
     0 \<le> in_defectives i \<and> in_defectives i \<le> in_sample_size i \<and> (in_result i = PASS) = (in_defectives i \<le> in_accept i))"

definition issuance_ok :: "db \<Rightarrow> bool" where
  "issuance_ok d =
    (distinct (map ba_id (db_stamp_batches d)) \<and> distinct (map ba_assessment_id (db_stamp_batches d)) \<and>
     distinct (map as_id (db_assessments d)) \<and> stamps_distinct (db_stamps d) \<and>
     list_all (batch_ok (db_assessments d) (db_stamps d) (db_inspections d)) (db_stamp_batches d) \<and>
     list_all (stamp_ok (db_stamp_batches d) (db_inspections d)) (db_stamps d) \<and>
     list_all inspection_ok (db_inspections d))"

lemma issuance_ok_same:
  assumes "db_stamp_batches d' = db_stamp_batches d" "db_stamps d' = db_stamps d" "db_inspections d' = db_inspections d"
    "db_assessments d' = db_assessments d"
  shows "issuance_ok d' \<longleftrightarrow> issuance_ok d"
  by (simp add: issuance_ok_def assms)

text \<open>A change of assessments that leaves those being issued alone.\<close>

lemma issuance_ok_assessments:
  assumes "issuance_ok d" "db_stamp_batches d' = db_stamp_batches d" "db_stamps d' = db_stamps d" "db_inspections d' = db_inspections d"
    and "distinct (map as_id (db_assessments d'))"
    and "\<And>a. a \<in> set (db_assessments d) \<Longrightarrow> as_status a = AS_ISSUING \<Longrightarrow> a \<in> set (db_assessments d')"
  shows "issuance_ok d'"
proof -
  have "batch_ok (db_assessments d') (db_stamps d) (db_inspections d) b" if "batch_ok (db_assessments d) (db_stamps d) (db_inspections d) b" for b
    using that assms(6) unfolding batch_ok_def by blast
  with assms(1-5) show ?thesis by (auto simp: issuance_ok_def list_all_iff)
qed

lemma create_batch_effect:
  assumes "create_batch now a d = Inr (b, d')" "issuance_ok d" "a \<in> set (db_assessments d)"
  shows "as_status a = AS_PAID \<and> 0 < as_stamps_required a \<and> ba_id b \<notin> ba_id ` set (db_stamp_batches d) \<and>
    as_id a \<notin> ba_assessment_id ` set (db_stamp_batches d) \<and>
    ba_assessment_id b = as_id a \<and> ba_quantity b = as_stamps_required a \<and> ba_issued_count b = 0 \<and> ba_status b = BS_PENDING \<and>
    ba_year b = year_of now \<and> (\<exists>l. primary_line d (as_id a) = Inr l \<and> CATEGORIES (al_category l) = Some (ba_category_code b)) \<and>
    d' = d\<lparr>db_stamp_batches := db_stamp_batches d @ [b],
      db_assessments := update_where (\<lambda>x. as_id x = as_id a) (\<lambda>x. x\<lparr>as_status := AS_ISSUING\<rparr>) (db_assessments d),
      db_next_uuid := Suc (db_next_uuid d)\<rparr>"
proof -
  have paid: "as_status a = AS_PAID" using assms(1) by (auto simp: create_batch_def split: if_splits)
  have "ba_assessment_id x \<noteq> as_id a" if x: "x \<in> set (db_stamp_batches d)" for x
  proof
    assume "ba_assessment_id x = as_id a"
    moreover obtain y where "y \<in> set (db_assessments d)" "as_id y = ba_assessment_id x" "as_status y = AS_ISSUING"
      using assms(2) x by (auto simp: issuance_ok_def batch_ok_def list_all_iff)
    ultimately show False using unique_row [of as_id "db_assessments d" y a] assms(2,3) paid by (auto simp: issuance_ok_def)
  qed
  then have none: "find (\<lambda>b. ba_assessment_id b = as_id a) (db_stamp_batches d) = None"
    and new: "as_id a \<notin> ba_assessment_id ` set (db_stamp_batches d)" by (simp add: find_None_set, fastforce)
  have q: "0 < as_stamps_required a" using assms(1) paid none by (auto simp: create_batch_def split: if_splits)
  then obtain l where l: "primary_line d (as_id a) = Inr l" using assms(1) paid none by (auto simp: create_batch_def rbind_eq_Inr)
  then obtain cat where cat: "CATEGORIES (al_category l) = Some cat"
    using assms(1) paid none q by (auto simp: create_batch_def split: option.splits)
  let ?b = "\<lparr>ba_id = db_uuids d (db_next_uuid d), ba_assessment_id = as_id a, ba_category_code = cat, ba_year = year_of now,
                     ba_quantity = as_stamps_required a, ba_issued_count = 0, ba_status = BS_PENDING, ba_merkle_root = [],
                     ba_created_at = now, ba_completed_at = None\<rparr>"
  let ?d1 = "update_assessment (as_id a) (\<lambda>x. x\<lparr>as_status := AS_ISSUING\<rparr>) (d\<lparr>db_next_uuid := Suc (db_next_uuid d)\<rparr>)"
  have "create_batch now a d = rbind (insert_stamp_batch ?b ?d1) (\<lambda>d2. Inr (?b, d2))"
    using q by (simp add: create_batch_def paid none l cat uuid4_def Let_def)
  with assms(1) have i: "insert_stamp_batch ?b ?d1 = Inr d'" and b: "b = ?b" by (auto simp: rbind_eq_Inr)
  have "ba_id ?b \<notin> ba_id ` set (db_stamp_batches d)"
    using i by (simp add: insert_stamp_batch_def rbind_eq_Inr constraint_simps update_assessment_def)
  with paid q l cat new b insert_stamp_batch_ok [OF i] show ?thesis by (simp add: update_assessment_def)
qed

lemma create_batch_issuance_ok:
  assumes "create_batch now a d = Inr (b, d')" "issuance_ok d" "a \<in> set (db_assessments d)"
  shows "issuance_ok d'"
proof -
  note e = create_batch_effect [OF assms]
  let ?f = "\<lambda>x :: assessment. x\<lparr>as_status := AS_ISSUING\<rparr>"
  have ids: "map as_id (update_where (\<lambda>x. as_id x = as_id a) ?f (db_assessments d)) = map as_id (db_assessments d)"
    by (rule map_update_where) simp
  let ?d1 = "d\<lparr>db_assessments := update_where (\<lambda>x. as_id x = as_id a) ?f (db_assessments d)\<rparr>"
  have one: "issuance_ok ?d1"
  proof (rule issuance_ok_assessments [OF assms(2)])
    show "distinct (map as_id (db_assessments ?d1))" using assms(2) ids by (simp add: issuance_ok_def)
    fix x assume "x \<in> set (db_assessments d)" "as_status x = AS_ISSUING"
    then show "x \<in> set (db_assessments ?d1)" by (auto simp: set_update_where intro!: bexI [of _ x])
  qed simp_all
  have nostamps': "st_batch_id s \<noteq> ba_id b" if "s \<in> set (db_stamps d)" for s
  proof -
    have "stamp_ok (db_stamp_batches d) (db_inspections d) s" using that assms(2) by (simp add: issuance_ok_def list_all_iff)
    then have "st_batch_id s \<in> ba_id ` set (db_stamp_batches d)" by (rule stamp_ok_batch)
    with e show ?thesis by auto
  qed
  then have nostamps: "filter (\<lambda>s. st_batch_id s = ba_id b) (db_stamps d) = []" by (simp add: filter_empty_conv)
  have "?f a \<in> set (db_assessments ?d1)" using assms(3) by (auto simp: set_update_where intro!: bexI [of _ a])
  then have "batch_ok (db_assessments ?d1) (db_stamps d) (db_inspections d) b"
    using e nostamps nostamps' by (auto simp: batch_ok_def list_all_iff intro!: bexI [of _ "?f a"])
  moreover have "list_all (stamp_ok (db_stamp_batches d @ [b]) (db_inspections d)) (db_stamps d)"
    using assms(2) by (auto simp: issuance_ok_def stamp_ok_def list_all_iff)
  ultimately show ?thesis using one e by (simp add: issuance_ok_def)
qed

lemma batch_ok_mono:
  assumes "batch_ok as ss is b" "set is \<subseteq> set is'"
  shows "batch_ok as ss is' b"
  using assms unfolding batch_ok_def by blast

lemma stamp_ok_mono:
  assumes "stamp_ok bs is s" "set is \<subseteq> set is'"
  shows "stamp_ok bs is' s"
  using assms unfolding stamp_ok_def by blast

text \<open>A change of one batch that keeps its identity.\<close>

lemma issuance_ok_batch:
  assumes "issuance_ok d" "db_stamp_batches d' = update_where (\<lambda>b. ba_id b = i) f (db_stamp_batches d)"
    and "db_stamps d' = db_stamps d" "db_inspections d' = db_inspections d @ is" "db_assessments d' = db_assessments d" "list_all inspection_ok is"
    and "\<And>b. b \<in> set (db_stamp_batches d) \<Longrightarrow> ba_id b = i \<Longrightarrow> ba_id (f b) = ba_id b \<and> ba_assessment_id (f b) = ba_assessment_id b \<and>
      ba_category_code (f b) = ba_category_code b \<and> ba_year (f b) = ba_year b"
    and "\<And>b. b \<in> set (db_stamp_batches d) \<Longrightarrow> ba_id b = i \<Longrightarrow> batch_ok (db_assessments d) (db_stamps d) (db_inspections d) b \<Longrightarrow>
      batch_ok (db_assessments d) (db_stamps d) (db_inspections d @ is) (f b)"
  shows "issuance_ok d'"
proof -
  have same: "map ba_id (db_stamp_batches d') = map ba_id (db_stamp_batches d)"
    "map ba_assessment_id (db_stamp_batches d') = map ba_assessment_id (db_stamp_batches d)"
    "map (\<lambda>b. (ba_id b, ba_category_code b, ba_year b)) (db_stamp_batches d') = map (\<lambda>b. (ba_id b, ba_category_code b, ba_year b)) (db_stamp_batches d)"
    unfolding assms(2) by (rule map_update_where, simp add: assms(7))+
  have "batch_ok (db_assessments d) (db_stamps d) (db_inspections d @ is) x" if x: "x \<in> set (db_stamp_batches d')" for x
  proof -
    have "\<exists>y \<in> set (db_stamp_batches d). x = (if ba_id y = i then f y else y)" using x unfolding assms(2) set_update_where .
    then obtain y where y: "y \<in> set (db_stamp_batches d)" "x = (if ba_id y = i then f y else y)" ..
    have ok: "batch_ok (db_assessments d) (db_stamps d) (db_inspections d) y" using y(1) assms(1) by (simp add: issuance_ok_def list_all_iff)
    show ?thesis
    proof (cases "ba_id y = i")
      case True
      with assms(8) [OF y(1) True ok] y(2) show ?thesis by simp
    next
      case False
      have "batch_ok (db_assessments d) (db_stamps d) (db_inspections d @ is) y" by (rule batch_ok_mono [OF ok]) simp
      with y(2) False show ?thesis by simp
    qed
  qed
  moreover have "stamp_ok (db_stamp_batches d') (db_inspections d @ is) s" if "s \<in> set (db_stamps d)" for s
  proof -
    have ok: "stamp_ok (db_stamp_batches d) (db_inspections d @ is) s"
      using that assms(1) by - (rule stamp_ok_mono [of _ "db_inspections d"], simp_all add: issuance_ok_def list_all_iff)
    have "(\<lambda>b. (ba_id b, ba_category_code b, ba_year b)) ` set (db_stamp_batches d') = (\<lambda>b. (ba_id b, ba_category_code b, ba_year b)) ` set (db_stamp_batches d)"
      using arg_cong [OF same(3), of set] by (simp only: list.set_map)
    with ok show ?thesis by (simp only: stamp_ok_def)
  qed
  ultimately have new: "list_all (batch_ok (db_assessments d) (db_stamps d) (db_inspections d @ is)) (db_stamp_batches d')"
    "list_all (stamp_ok (db_stamp_batches d') (db_inspections d @ is)) (db_stamps d)" by (simp_all only: list_all_iff) blast+
  have "list_all inspection_ok (db_inspections d @ is)" using assms(1,6) by (simp add: issuance_ok_def)
  with new show ?thesis
    using assms(1) unfolding issuance_ok_def assms(3-5) same(1,2) by blast
qed

lemma issuance_ok_chunk:
  assumes "issuance_ok d" "b \<in> set (db_stamp_batches d)" "ba_status b \<in> {BS_PENDING, BS_ISSUING}" "ba_issued_count b + n \<le> ba_quantity b" "0 \<le> n"
    and "stamps_distinct (db_stamps d @ ss)" "length ss = nat n" "list_all (\<lambda>s. \<exists>seq. issued_stamp env c seq s) ss" "ic_batch c = b"
    and "db_stamps d' = db_stamps d @ ss" "db_inspections d' = db_inspections d" "db_assessments d' = db_assessments d"
    and "db_stamp_batches d' = update_where (\<lambda>x. ba_id x = ba_id b) (\<lambda>b. b\<lparr>ba_issued_count := ba_issued_count b + n,
           ba_status := if ba_issued_count b + n < ba_quantity b then BS_ISSUING else BS_ISSUED\<rparr>) (db_stamp_batches d)"
  shows "issuance_ok d'"
proof -
  let ?f = "\<lambda>b. b\<lparr>ba_issued_count := ba_issued_count b + n, ba_status := if ba_issued_count b + n < ba_quantity b then BS_ISSUING else BS_ISSUED\<rparr>"
  have same: "map ba_id (db_stamp_batches d') = map ba_id (db_stamp_batches d)"
    "map ba_assessment_id (db_stamp_batches d') = map ba_assessment_id (db_stamp_batches d)"
    "map (\<lambda>b. (ba_id b, ba_category_code b, ba_year b)) (db_stamp_batches d') = map (\<lambda>b. (ba_id b, ba_category_code b, ba_year b)) (db_stamp_batches d)"
    unfolding assms(13) by (rule map_update_where, simp)+
  have new: "st_batch_id s = ba_id b \<and> st_status s = SS_ISSUED \<and> st_category_code s = ba_category_code b \<and> st_year s = ba_year b \<and>
      build_serial (st_category_code s) (st_year s) (st_sequence s) = Inr (st_serial s)" if "s \<in> set ss" for s
    using that assms(8,9) by (auto simp: list_all_iff issued_stamp_def)
  have ssf: "filter (\<lambda>s. st_batch_id s = ba_id b) ss = ss" by (rule filter_True) (use new in blast)
  have cnt: "filter (\<lambda>s. st_batch_id s = i) (db_stamps d @ ss) = filter (\<lambda>s. st_batch_id s = i) (db_stamps d) @ (if i = ba_id b then ss else [])" for i
    using new by (auto simp: filter_empty_conv)
  have "batch_ok (db_assessments d) (db_stamps d @ ss) (db_inspections d) x" if x: "x \<in> set (db_stamp_batches d')" for x
  proof -
    have "\<exists>y \<in> set (db_stamp_batches d). x = (if ba_id y = ba_id b then ?f y else y)" using x unfolding assms(13) set_update_where .
    then obtain y where y: "y \<in> set (db_stamp_batches d)" "x = (if ba_id y = ba_id b then ?f y else y)" ..
    have ok: "batch_ok (db_assessments d) (db_stamps d) (db_inspections d) y" using y(1) assms(1) by (simp add: issuance_ok_def list_all_iff)
    show ?thesis
    proof (cases "ba_id y = ba_id b")
      case True
      then have yb: "y = b" using unique_row [of ba_id "db_stamp_batches d" y b] y(1) assms(1,2) by (simp add: issuance_ok_def)
      have "ba_issued_count b + n = int (length (filter (\<lambda>s. st_batch_id s = ba_id b) (db_stamps d @ ss)))"
        using ok assms(5,7) ssf by (simp add: yb batch_ok_def)
      moreover have "list_all (\<lambda>s. st_batch_id s = ba_id b \<longrightarrow> st_status s \<in> {SS_ISSUED, SS_VOID}) (db_stamps d @ ss)"
        using ok new assms(3) by (auto simp: yb batch_ok_def list_all_iff)
      ultimately show ?thesis using ok assms(4) y(2) by (auto simp: batch_ok_def yb)
    next
      case False
      then have "list_all (\<lambda>s. st_batch_id s = ba_id y \<longrightarrow> st_status s \<in> {SS_ISSUED, SS_VOID}) ss" using new by (auto simp: list_all_iff)
      with ok y(2) False show ?thesis unfolding batch_ok_def cnt by auto
    qed
  qed
  moreover have "stamp_ok (db_stamp_batches d') (db_inspections d) s" if s: "s \<in> set (db_stamps d @ ss)" for s
  proof -
    have sets: "(\<lambda>b. (ba_id b, ba_category_code b, ba_year b)) ` set (db_stamp_batches d') = (\<lambda>b. (ba_id b, ba_category_code b, ba_year b)) ` set (db_stamp_batches d)"
      using arg_cong [OF same(3), of set] by (simp only: list.set_map)
    show ?thesis
    proof (cases "s \<in> set (db_stamps d)")
      case True
      then have "stamp_ok (db_stamp_batches d) (db_inspections d) s" using assms(1) by (simp add: issuance_ok_def list_all_iff)
      with sets show ?thesis by (simp only: stamp_ok_def)
    next
      case False
      with s have "s \<in> set ss" by simp
      from new [OF this] assms(2) show ?thesis unfolding stamp_ok_def sets by (auto intro!: image_eqI [of _ _ b])
    qed
  qed
  ultimately have "list_all (batch_ok (db_assessments d) (db_stamps d @ ss) (db_inspections d)) (db_stamp_batches d')"
    "list_all (stamp_ok (db_stamp_batches d') (db_inspections d)) (db_stamps d @ ss)" by (simp_all only: list_all_iff) blast+
  with assms(1,6) show ?thesis unfolding issuance_ok_def assms(10-12) same(1,2) by blast
qed

lemma issue_chunk_issuance_ok:
  assumes "issue_chunk env now i chunk d = Inr (n, d')" "issuance_ok d" "0 \<le> chunk_size_of (en_settings env) chunk"
  shows "issuance_ok d'"
proof -
  have "stamps_distinct (db_stamps d)" using assms(2) by (simp add: issuance_ok_def)
  from assms(1) this show ?thesis
  proof (cases rule: issue_chunk_effect)
    case (idle b)
    with assms(2) show ?thesis by simp
  next
    case (complete b)
    note b = find_batch_Some [OF complete(1)]
    show ?thesis
    proof (rule issuance_ok_batch [OF assms(2), of d' i "\<lambda>b. b\<lparr>ba_status := BS_ISSUED\<rparr>" "[]"])
      fix x assume "x \<in> set (db_stamp_batches d)" "ba_id x = i" "batch_ok (db_assessments d) (db_stamps d) (db_inspections d) x"
      moreover from this b have "x = b" using unique_row [of ba_id "db_stamp_batches d" x b] assms(2) by (simp add: issuance_ok_def)
      ultimately show "batch_ok (db_assessments d) (db_stamps d) (db_inspections d @ []) (x\<lparr>ba_status := BS_ISSUED\<rparr>)"
        using complete(2,3) by (auto simp: batch_ok_def)
    qed (simp_all add: complete)
  next
    case (issued b a c ss rows k)
    note b = find_batch_Some [OF issued(1)]
    have "list_all (\<lambda>s. \<exists>seq. issued_stamp env c seq s) ss"
      using issued_run_all [OF issued(11)] by (auto simp: list_all_iff)
    then show ?thesis
      using issued b assms(3)
      by (intro issuance_ok_chunk [OF assms(2), of b n ss env c d']) simp_all
  qed
qed

lemma finalize_batch_effect:
  assumes "finalize_batch env now i who d = Inr (b', d')"
  shows "\<exists>b leaves msg k. find_batch d i = Some b \<and> ba_status b = BS_ISSUED \<and>
    map_result (\<lambda>s. utf8_encode (ucs_of (st_serial s))) (sort_key st_sequence (batch_stamps d i)) = Inr leaves \<and>
    b' = b\<lparr>ba_merkle_root := merkle_root (en_sha256 env) leaves, ba_status := BS_READY\<rparr> \<and>
    ob_published_at msg = None \<and> ob_topic msg = ''stamps.issued'' \<and>
    d' = d\<lparr>db_stamp_batches := update_where (\<lambda>x. ba_id x = i) (\<lambda>_. b') (db_stamp_batches d),
      db_outbox_messages := db_outbox_messages d @ [msg], db_next_uuid := k\<rparr>"
proof -
  obtain b where b: "find_batch d i = Some b" using assms by (auto simp: finalize_batch_def split: option.splits)
  then have st: "ba_status b = BS_ISSUED" using assms by (auto simp: finalize_batch_def split: if_splits)
  from b st assms obtain leaves where l: "map_result (\<lambda>s. utf8_encode (ucs_of (st_serial s))) (sort_key st_sequence (batch_stamps d i)) = Inr leaves"
    by (auto simp: finalize_batch_def rbind_eq_Inr)
  let ?b = "b\<lparr>ba_merkle_root := merkle_root (en_sha256 env) leaves, ba_status := BS_READY\<rparr>"
  from b st l assms obtain d1 msg where d1: "update_batch i (\<lambda>_. ?b) d = Inr d1" and b': "b' = ?b"
    and q: "\<exists>r pid. enqueue env now ''stamps.issued.v1'' r pid ''excise-officer'' (Some (uuid_str (ba_assessment_id b))) d1 = Inr (msg, d')"
    by (auto simp: finalize_batch_def rbind_eq_Inr Let_def)
  obtain k where "d' = d1\<lparr>db_outbox_messages := db_outbox_messages d1 @ [msg], db_next_uuid := k\<rparr>" "ob_published_at msg = None"
    "map_of TOPIC_BY_EVENT ''stamps.issued.v1'' = Some (ob_topic msg)"
    using q by (auto elim!: enqueue_effect)
  with b st l b' update_batch_ok [OF d1] show ?thesis by (intro exI [of _ b] exI [of _ leaves] exI [of _ msg] exI [of _ k]) (simp add: TOPIC_BY_EVENT_def)
qed


lemma batch_is_found:
  assumes "issuance_ok d" "find_batch d i = Some b" "x \<in> set (db_stamp_batches d)" "ba_id x = i"
  shows "x = b"
  using unique_row [of ba_id "db_stamp_batches d" x b] find_batch_Some [OF assms(2)] assms by (simp add: issuance_ok_def)

lemma finalize_batch_issuance_ok:
  assumes "finalize_batch env now i who d = Inr (b', d')" "issuance_ok d"
  shows "issuance_ok d'"
proof -
  obtain b leaves msg k where e: "find_batch d i = Some b" "ba_status b = BS_ISSUED"
    "b' = b\<lparr>ba_merkle_root := merkle_root (en_sha256 env) leaves, ba_status := BS_READY\<rparr>"
    "d' = d\<lparr>db_stamp_batches := update_where (\<lambda>x. ba_id x = i) (\<lambda>_. b') (db_stamp_batches d),
      db_outbox_messages := db_outbox_messages d @ [msg], db_next_uuid := k\<rparr>"
    using finalize_batch_effect [OF assms(1)] by blast
  show ?thesis
  proof (rule issuance_ok_batch [OF assms(2), of d' i "\<lambda>_. b'" "[]"])
    fix x assume x: "x \<in> set (db_stamp_batches d)" "ba_id x = i"
    have xb: "x = b" by (rule batch_is_found [OF assms(2) e(1) x])
    then show "ba_id b' = ba_id x \<and> ba_assessment_id b' = ba_assessment_id x \<and> ba_category_code b' = ba_category_code x \<and> ba_year b' = ba_year x"
      by (simp add: e(3))
    show "batch_ok (db_assessments d) (db_stamps d) (db_inspections d @ []) b'"
      if "batch_ok (db_assessments d) (db_stamps d) (db_inspections d) x"
      using that e(2) by (simp add: xb e(3) batch_ok_def)
  qed (simp_all add: e(4))
qed

lemma record_inspection_effect:
  assumes "record_inspection now i defectives who d = Inr (row, d')"
  shows "\<exists>b plan k. find_batch d i = Some b \<and> ba_status b \<in> {BS_READY, BS_ACTIVE} \<and> plan_for_lot (ba_quantity b) = Inr plan \<and>
    evaluate_sample plan defectives = Inr (in_result row = PASS) \<and> inspection_ok row \<and> in_batch_id row = i \<and> in_lot_size row = ba_quantity b \<and>
    in_defectives row = defectives \<and> in_inspector_sub row = who \<and>
    d' = d\<lparr>db_inspections := db_inspections d @ [row], db_next_uuid := k,
      db_stamp_batches := (if in_result row = PASS then db_stamp_batches d
        else update_where (\<lambda>b. ba_id b = i) (\<lambda>b. b\<lparr>ba_status := BS_INSPECTION_FAILED\<rparr>) (db_stamp_batches d))\<rparr>"
proof -
  obtain b where b: "find_batch d i = Some b" using assms by (auto simp: record_inspection_def split: option.splits)
  then have st: "ba_status b \<in> {BS_READY, BS_ACTIVE}" using assms by (auto simp: record_inspection_def split: if_splits)
  from b st assms obtain plan passed where p: "plan_for_lot (ba_quantity b) = Inr plan" "evaluate_sample plan defectives = Inr passed"
    by (auto simp: record_inspection_def rbind_eq_Inr)
  let ?row = "\<lparr>in_id = db_uuids d (db_next_uuid d), in_batch_id = ba_id b, in_lot_size = ba_quantity b,
                    in_code_letter = plan_code_letter plan, in_sample_size = plan_sample_size plan, in_accept = plan_accept plan,
                    in_reject = plan_reject plan, in_defectives = defectives, in_result = (if passed then PASS else FAIL),
                    in_inspector_sub = who, in_created_at = now\<rparr>"
  let ?d1 = "d\<lparr>db_next_uuid := Suc (db_next_uuid d)\<rparr>" and ?f = "\<lambda>b. b\<lparr>ba_status := BS_INSPECTION_FAILED\<rparr>"
  have eq: "record_inspection now i defectives who d = rbind (insert_inspection ?row ?d1) (\<lambda>d2. if passed then Inr (?row, d2)
      else rbind (update_batch i ?f d2) (\<lambda>d3. Inr (?row, d3)))"
    unfolding record_inspection_def b option.case using st by (simp add: p uuid4_def Let_def)
  then obtain d2 where d2: "insert_inspection ?row ?d1 = Inr d2"
      "(if passed then Inr (?row, d2) else rbind (update_batch i ?f d2) (\<lambda>d3. Inr (?row, d3))) = Inr (row, d')"
    using assms unfolding eq rbind_eq_Inr by blast
  then have row: "row = ?row" and d': "if passed then d' = d2 else update_batch i ?f d2 = Inr d'"
    by (auto simp: rbind_eq_Inr split: if_splits)
  have dd: "d' = (if passed then d2 else d2\<lparr>db_stamp_batches := update_where (\<lambda>b. ba_id b = i) ?f (db_stamp_batches d2)\<rparr>)"
    using d' update_batch_ok [of i ?f d2 d'] by (auto split: if_splits)
  have "inspection_ok ?row" using p by (auto simp: inspection_ok_def evaluate_sample_def split: if_splits)
  moreover have "ba_id b = i" using find_batch_Some [OF b] by simp
  ultimately show ?thesis
    using b st p row dd insert_inspection_ok [OF d2(1)]
    by (intro exI [of _ b] exI [of _ plan] exI [of _ "Suc (db_next_uuid d)"]) (cases passed; simp)
qed

lemma record_inspection_issuance_ok:
  assumes "record_inspection now i defectives who d = Inr (row, d')" "issuance_ok d"
  shows "issuance_ok d'"
proof -
  obtain b plan k where e: "find_batch d i = Some b" "ba_status b \<in> {BS_READY, BS_ACTIVE}" "inspection_ok row"
    "d' = d\<lparr>db_inspections := db_inspections d @ [row], db_next_uuid := k,
      db_stamp_batches := (if in_result row = PASS then db_stamp_batches d
        else update_where (\<lambda>b. ba_id b = i) (\<lambda>b. b\<lparr>ba_status := BS_INSPECTION_FAILED\<rparr>) (db_stamp_batches d))\<rparr>"
    using record_inspection_effect [OF assms(1)] by blast
  let ?f = "\<lambda>b. if in_result row = PASS then b else b\<lparr>ba_status := BS_INSPECTION_FAILED\<rparr>"
  show ?thesis
  proof (rule issuance_ok_batch [OF assms(2), of d' i ?f "[row]"])
    show "db_stamp_batches d' = update_where (\<lambda>b. ba_id b = i) ?f (db_stamp_batches d)"
      by (cases "in_result row = PASS") (simp_all add: e(4) update_where_def)
    fix x assume x: "x \<in> set (db_stamp_batches d)" "ba_id x = i" "batch_ok (db_assessments d) (db_stamps d) (db_inspections d) x"
    have xb: "x = b" by (rule batch_is_found [OF assms(2) e(1) x(1,2)])
    have "batch_ok (db_assessments d) (db_stamps d) (db_inspections d @ [row]) x" by (rule batch_ok_mono [OF x(3)]) auto
    then show "batch_ok (db_assessments d) (db_stamps d) (db_inspections d @ [row]) (?f x)"
      using e(2) by (auto simp: xb batch_ok_def)
  qed (simp_all add: e(3,4))
qed

text \<open>A change of stamps that keeps what was issued.\<close>

lemma issuance_ok_stamps:
  assumes "issuance_ok d" "db_stamps d' = update_where P f (db_stamps d)"
    and "db_stamp_batches d' = db_stamp_batches d" "db_inspections d' = db_inspections d" "db_assessments d' = db_assessments d"
    and "\<And>s. s \<in> set (db_stamps d) \<Longrightarrow> P s \<Longrightarrow> st_id (f s) = st_id s \<and> st_batch_id (f s) = st_batch_id s \<and> st_serial (f s) = st_serial s \<and>
      st_category_code (f s) = st_category_code s \<and> st_year (f s) = st_year s \<and> st_sequence (f s) = st_sequence s \<and>
      st_status_list_index (f s) = st_status_list_index s \<and> (st_status (f s) = SS_VOID \<or> st_status s \<notin> {SS_ISSUED, SS_VOID})"
  shows "issuance_ok d'"
proof -
  have same: "map st_id (db_stamps d') = map st_id (db_stamps d)" "map st_serial (db_stamps d') = map st_serial (db_stamps d)"
    "map st_status_list_index (db_stamps d') = map st_status_list_index (db_stamps d)"
    unfolding assms(2) by (rule map_update_where, use assms(6) in blast)+
  have distinct: "stamps_distinct (db_stamps d')"
    using assms(1) stamps_distinct_keys [OF same] by (simp add: issuance_ok_def)
  have from_old: "\<exists>r \<in> set (db_stamps d). st_batch_id s = st_batch_id r \<and> st_serial s = st_serial r \<and> st_category_code s = st_category_code r \<and>
      st_year s = st_year r \<and> st_sequence s = st_sequence r \<and> (st_status s = st_status r \<or> st_status s = SS_VOID \<or> st_status r \<notin> {SS_ISSUED, SS_VOID})"
    if s: "s \<in> set (db_stamps d')" for s
  proof -
    have "\<exists>r \<in> set (db_stamps d). s = (if P r then f r else r)" using s unfolding assms(2) set_update_where .
    then obtain r where r: "r \<in> set (db_stamps d)" "s = (if P r then f r else r)" ..
    then show ?thesis using assms(6) [OF r(1)] by (cases "P r") auto
  qed
  have count: "length (filter (\<lambda>s. st_batch_id s = i) (db_stamps d')) = length (filter (\<lambda>s. st_batch_id s = i) (db_stamps d))" for i
  proof -
    have m: "map st_batch_id (db_stamps d') = map st_batch_id (db_stamps d)"
      unfolding assms(2) by (rule map_update_where) (use assms(6) in blast)
    have c: "length (filter (\<lambda>s. st_batch_id s = i) ss) = count_list (map st_batch_id ss) i" for ss
      by (induction ss) auto
    show ?thesis by (simp only: c m)
  qed
  have "batch_ok (db_assessments d) (db_stamps d') (db_inspections d) b" if ok: "batch_ok (db_assessments d) (db_stamps d) (db_inspections d) b" for b
  proof (cases "ba_status b \<in> {BS_ACTIVE, BS_INSPECTION_FAILED}")
    case True
    then show ?thesis using ok by (auto simp: batch_ok_def count)
  next
    case False
    then have old: "list_all (\<lambda>s. st_batch_id s = ba_id b \<longrightarrow> st_status s \<in> {SS_ISSUED, SS_VOID}) (db_stamps d)" using ok by (simp add: batch_ok_def)
    have "st_status s \<in> {SS_ISSUED, SS_VOID}" if "s \<in> set (db_stamps d')" "st_batch_id s = ba_id b" for s
      using from_old [OF that(1)] old that(2) by (auto simp: list_all_iff)
    then have "list_all (\<lambda>s. st_batch_id s = ba_id b \<longrightarrow> st_status s \<in> {SS_ISSUED, SS_VOID}) (db_stamps d')" by (simp add: list_all_iff)
    then show ?thesis using ok False by (auto simp: batch_ok_def count)
  qed
  moreover have "stamp_ok (db_stamp_batches d) (db_inspections d) s" if s: "s \<in> set (db_stamps d')" for s
  proof -
    obtain r where r: "r \<in> set (db_stamps d)" "st_batch_id s = st_batch_id r" "st_serial s = st_serial r" "st_category_code s = st_category_code r"
      "st_year s = st_year r" "st_sequence s = st_sequence r" "st_status s = st_status r \<or> st_status s = SS_VOID \<or> st_status r \<notin> {SS_ISSUED, SS_VOID}"
      using from_old [OF s] by blast
    have "stamp_ok (db_stamp_batches d) (db_inspections d) r" using r(1) assms(1) by (simp add: issuance_ok_def list_all_iff)
    with r show ?thesis by (auto simp: stamp_ok_def)
  qed
  ultimately have "list_all (batch_ok (db_assessments d) (db_stamps d') (db_inspections d)) (db_stamp_batches d)"
    "list_all (stamp_ok (db_stamp_batches d) (db_inspections d)) (db_stamps d')"
    using assms(1) by (simp_all add: issuance_ok_def list_all_iff)
  with assms(1) distinct show ?thesis unfolding issuance_ok_def assms(3-5) by blast
qed


lemma activate_batch_effect:
  assumes "activate_batch env now i who d = Inr (n, d')"
  shows "\<exists>b msg k. find_batch d i = Some b \<and> ba_status b = BS_READY \<and> (\<exists>r \<in> set (db_inspections d). in_batch_id r = i \<and> in_result r = PASS) \<and>
    n = int (length (filter (\<lambda>s. st_batch_id s = i \<and> st_status s = SS_ISSUED) (db_stamps d))) \<and>
    ob_published_at msg = None \<and> ob_topic msg = ''stamps.activated'' \<and>
    d' = d\<lparr>db_stamps := update_where (\<lambda>s. st_batch_id s = i \<and> st_status s = SS_ISSUED)
        (\<lambda>s. s\<lparr>st_status := SS_ACTIVE, st_activated_at := Some now\<rparr>) (db_stamps d),
      db_stamp_batches := update_where (\<lambda>x. ba_id x = i) (\<lambda>b. b\<lparr>ba_status := BS_ACTIVE\<rparr>) (db_stamp_batches d),
      db_outbox_messages := db_outbox_messages d @ [msg], db_next_uuid := k\<rparr>"
proof -
  obtain b where b: "find_batch d i = Some b" using assms by (auto simp: activate_batch_def split: option.splits)
  have bi: "ba_id b = i" using find_batch_Some [OF b] by simp
  have st: "ba_status b = BS_READY" using assms b by (auto simp: activate_batch_def split: if_splits)
  have ins: "list_ex (\<lambda>r. in_batch_id r = i \<and> in_result r = PASS) (db_inspections d)"
    using assms b st bi by (auto simp: activate_batch_def split: if_splits)
  let ?ready = "\<lambda>s. st_batch_id s = i \<and> st_status s = SS_ISSUED" and ?n = "int (length (filter (\<lambda>s. st_batch_id s = i \<and> st_status s = SS_ISSUED) (db_stamps d)))"
  have eq: "activate_batch env now i who d = rbind (update_stamps ?ready (\<lambda>s. s\<lparr>st_status := SS_ACTIVE, st_activated_at := Some now\<rparr>) d) (\<lambda>d1.
                 rbind (update_batch i (\<lambda>b. b\<lparr>ba_status := BS_ACTIVE\<rparr>) d1) (\<lambda>d2.
                 rbind (enqueue env now ''stamps.activated.v1''
                          [(ucs_of ''batchId'', jstr (uuid_str (ba_id b))), (ucs_of ''activatedCount'', JInt ?n)]
                          who ''excise-officer'' (Some (uuid_str (ba_assessment_id b))) d2)
                   (\<lambda>(_, d3). Inr (?n, d3))))"
    unfolding activate_batch_def b option.case using st ins bi by (simp add: Let_def)
  obtain d1 d2 m where d: "update_stamps ?ready (\<lambda>s. s\<lparr>st_status := SS_ACTIVE, st_activated_at := Some now\<rparr>) d = Inr d1"
      "update_batch i (\<lambda>b. b\<lparr>ba_status := BS_ACTIVE\<rparr>) d1 = Inr d2"
      "enqueue env now ''stamps.activated.v1''
                          [(ucs_of ''batchId'', jstr (uuid_str (ba_id b))), (ucs_of ''activatedCount'', JInt ?n)]
                          who ''excise-officer'' (Some (uuid_str (ba_assessment_id b))) d2 = Inr m"
      "(case m of (_, d3) \<Rightarrow> Inr (?n, d3)) = (Inr (n, d') :: exn + _)"
    using assms unfolding eq rbind_eq_Inr by blast
  obtain msg where m: "m = (msg, d')" "n = ?n" using d(4) by (cases m) auto
  obtain k where k: "d' = d2\<lparr>db_outbox_messages := db_outbox_messages d2 @ [msg], db_next_uuid := k\<rparr>" "ob_published_at msg = None"
    "map_of TOPIC_BY_EVENT ''stamps.activated.v1'' = Some (ob_topic msg)"
    by (rule enqueue_effect [OF d(3) [unfolded m(1)]])
  show ?thesis
    using b st ins m(2) k update_stamps_ok [OF d(1)] update_batch_ok [OF d(2)]
    by (intro exI [of _ b] exI [of _ msg] exI [of _ k]) (simp add: TOPIC_BY_EVENT_def list_ex_iff)
qed

lemma activate_batch_issuance_ok:
  assumes "activate_batch env now i who d = Inr (n, d')" "issuance_ok d"
  shows "issuance_ok d'"
proof -
  let ?ready = "\<lambda>s. st_batch_id s = i \<and> st_status s = SS_ISSUED" and ?g = "\<lambda>s. s\<lparr>st_status := SS_ACTIVE, st_activated_at := Some now\<rparr>"
  obtain b r msg k where e: "find_batch d i = Some b" "ba_status b = BS_READY" "r \<in> set (db_inspections d)" "in_batch_id r = i" "in_result r = PASS"
    "d' = d\<lparr>db_stamps := update_where ?ready ?g (db_stamps d),
      db_stamp_batches := update_where (\<lambda>x. ba_id x = i) (\<lambda>b. b\<lparr>ba_status := BS_ACTIVE\<rparr>) (db_stamp_batches d),
      db_outbox_messages := db_outbox_messages d @ [msg], db_next_uuid := k\<rparr>"
    using activate_batch_effect [OF assms(1)] by blast
  let ?d1 = "d\<lparr>db_stamp_batches := update_where (\<lambda>x. ba_id x = i) (\<lambda>b. b\<lparr>ba_status := BS_ACTIVE\<rparr>) (db_stamp_batches d)\<rparr>"
  have one: "issuance_ok ?d1"
  proof (rule issuance_ok_batch [OF assms(2), of ?d1 i "\<lambda>b. b\<lparr>ba_status := BS_ACTIVE\<rparr>" "[]"])
    fix x assume x: "x \<in> set (db_stamp_batches d)" "ba_id x = i" "batch_ok (db_assessments d) (db_stamps d) (db_inspections d) x"
    have "x = b" by (rule batch_is_found [OF assms(2) e(1) x(1,2)])
    with x(2,3) e(2-5) show "batch_ok (db_assessments d) (db_stamps d) (db_inspections d @ []) (x\<lparr>ba_status := BS_ACTIVE\<rparr>)"
      by (auto simp: batch_ok_def)
  qed simp_all
  have same: "map st_id (update_where ?ready ?g ss) = map st_id ss" "map st_serial (update_where ?ready ?g ss) = map st_serial ss"
    "map st_status_list_index (update_where ?ready ?g ss) = map st_status_list_index ss" "map st_batch_id (update_where ?ready ?g ss) = map st_batch_id ss" for ss
    by (rule map_update_where, simp)+
  have count: "length (filter (\<lambda>s. st_batch_id s = j) (update_where ?ready ?g ss)) = length (filter (\<lambda>s. st_batch_id s = j) ss)" for j ss
    by (induction ss) (auto simp: update_where_def)
  have other: "list_all (\<lambda>s. st_batch_id s = j \<longrightarrow> st_status s \<in> {SS_ISSUED, SS_VOID}) (update_where ?ready ?g ss)"
    if "list_all (\<lambda>s. st_batch_id s = j \<longrightarrow> st_status s \<in> {SS_ISSUED, SS_VOID}) ss" "j \<noteq> i" for j ss
    using that by (induction ss) (auto simp: update_where_def)
  have "batch_ok (db_assessments d) (update_where ?ready ?g (db_stamps d)) (db_inspections d) x" if x: "x \<in> set (db_stamp_batches ?d1)" for x
  proof -
    have ok: "batch_ok (db_assessments d) (db_stamps d) (db_inspections d) x" using one x by (simp add: issuance_ok_def list_all_iff)
    have "\<exists>y \<in> set (db_stamp_batches d). x = (if ba_id y = i then y\<lparr>ba_status := BS_ACTIVE\<rparr> else y)"
      using x by (simp add: set_update_where)
    then obtain y where "x = (if ba_id y = i then y\<lparr>ba_status := BS_ACTIVE\<rparr> else y)" ..
    then have "ba_id x = i \<Longrightarrow> ba_status x = BS_ACTIVE" by (cases "ba_id y = i") simp_all
    then show ?thesis using ok other [of "ba_id x" "db_stamps d"] unfolding batch_ok_def count by blast
  qed
  moreover have "stamp_ok (db_stamp_batches ?d1) (db_inspections d) s" if s: "s \<in> set (update_where ?ready ?g (db_stamps d))" for s
  proof -
    have "\<exists>t \<in> set (db_stamps d). s = (if ?ready t then ?g t else t)" using s unfolding set_update_where .
    then obtain t where t: "t \<in> set (db_stamps d)" "s = (if ?ready t then ?g t else t)" ..
    have "stamp_ok (db_stamp_batches ?d1) (db_inspections d) t" using one t(1) by (simp add: issuance_ok_def list_all_iff)
    with t(2) e(3-5) show ?thesis by (auto simp: stamp_ok_def)
  qed
  ultimately have new: "list_all (batch_ok (db_assessments d) (update_where ?ready ?g (db_stamps d)) (db_inspections d)) (db_stamp_batches ?d1)"
    "list_all (stamp_ok (db_stamp_batches ?d1) (db_inspections d)) (update_where ?ready ?g (db_stamps d))" by (simp_all only: list_all_iff) blast+
  have "stamps_distinct (update_where ?ready ?g (db_stamps d))"
    using one stamps_distinct_keys [OF same(1-3)] by (simp add: issuance_ok_def)
  then have "issuance_ok (?d1\<lparr>db_stamps := update_where ?ready ?g (db_stamps d)\<rparr>)"
    using one new by (simp add: issuance_ok_def)
  then show ?thesis by (rule issuance_ok_same [THEN iffD2, rotated -1]) (simp_all add: e(6))
qed


subsection \<open>What one chunk issues\<close>

lemma credential_entry:
  assumes "status_entry (ucs_of lid) 0 p = Inr e"
  shows "jobj_get (per_stamp_entry lid index e) ''statusPurpose'' = Some (jstr p)"
    "jobj_get (per_stamp_entry lid index e) ''statusListIndex'' = Some (jstr (str_int index))"
  using assms by (auto simp: status_entry_def per_stamp_entry_def jobj_get_def split: if_splits)

definition entry_ok :: "int \<Rightarrow> string \<Rightarrow> json \<Rightarrow> bool" where
  "entry_ok index p v = (case v of
     JObj e \<Rightarrow> jobj_get e ''statusPurpose'' = Some (jstr p) \<and> jobj_get e ''statusListIndex'' = Some (jstr (str_int index))
   | _ \<Rightarrow> False)"

text \<open>What a stamp's credential says: the issuer's proof holds, it names the stamp, and it points into the three lists.\<close>

definition credential_ok :: "'sk env \<Rightarrow> stamp \<Rightarrow> bool" where
  "credential_ok env s =
    (\<exists>doc subject entries. st_credential s = JObj doc \<and>
       verify_proof (en_sha256 env) (en_verify env) doc (public_key env) = Inr () \<and>
       jobj_get doc ''credentialSubject'' = Some (JObj subject) \<and> jobj_get subject ''serial'' = Some (jstr (st_serial s)) \<and>
       jobj_get doc ''credentialStatus'' = Some (JArr entries) \<and> list_all2 (entry_ok (st_status_list_index s)) PURPOSES entries)"

text \<open>The law of a signature scheme the service relies on: it verifies what it signed.\<close>

definition signs_ok :: "'sk env \<Rightarrow> bool" where
  "signs_ok env = (\<forall>m. en_verify env (public_key env) (en_sign env (sk_private_key (en_signing_key env)) m) m)"

lemma status_entries_ok:
  assumes "status_entries s = Inr es"
  shows "list_all2 (\<lambda>p (lid, e). status_entry (ucs_of lid) 0 p = Inr e) PURPOSES es"
  using assms by (auto simp: status_entries_def PURPOSES_def rbind_eq_Inr)

lemma issued_credential:
  assumes "issued_stamp env c seq s" "signs_ok env" "status_entries (en_settings env) = Inr (ic_entries c)"
  shows "credential_ok env s"
proof -
  let ?doc = "stamp_document env c (st_serial s) (st_status_list_index s)"
  obtain vc where vc: "issue_proof (en_sha256 env) (en_sign env) (iso_now (ic_now c)) ?doc
             (en_signing_key env) (verification_method env) (ucs_of ''assertionMethod'') None = Inr vc" "st_credential s = JObj vc"
    using assms(1) unfolding issued_stamp_def by blast
  have v: "verify_proof (en_sha256 env) (en_verify env) vc (public_key env) = Inr ()"
    using verify_issued_aux [where verify = "en_verify env" and public_of = "en_public_of env", OF vc(1)] assms(2)
    by (simp add: signs_ok_def public_key_def)
  obtain pf where "vc = ?doc @ [(ucs_of ''proof'', pf)]" by (rule issue_proof_members [OF vc(1)]) blast
  then have get: "jobj_get vc k = jobj_get ?doc k" if "ucs_of k \<noteq> ucs_of ''proof''" for k
    using that jobj_get_append [of k "[(ucs_of ''proof'', pf)]" ?doc] by simp
  have doc: "\<exists>sub. jobj_get ?doc ''credentialSubject'' = Some (JObj sub) \<and> jobj_get sub ''serial'' = Some (jstr (st_serial s))"
    "jobj_get ?doc ''credentialStatus'' = Some (JArr (map (\<lambda>(lid, e). JObj (per_stamp_entry lid (st_status_list_index s) e)) (ic_entries c)))"
    by (simp_all add: stamp_document_def build_stamp_credential_def jobj_get_def)
  have status: "jobj_get vc ''credentialStatus'' = Some (JArr (map (\<lambda>(lid, e). JObj (per_stamp_entry lid (st_status_list_index s) e)) (ic_entries c)))"
    using get [of "''credentialStatus''"] doc(2) by simp
  obtain sub where subject: "jobj_get vc ''credentialSubject'' = Some (JObj sub)" "jobj_get sub ''serial'' = Some (jstr (st_serial s))"
    using get [of "''credentialSubject''"] doc(1) by auto
  have "list_all2 (entry_ok (st_status_list_index s)) PURPOSES (map (\<lambda>(lid, e). JObj (per_stamp_entry lid (st_status_list_index s) e)) (ic_entries c))"
    unfolding list_all2_map2 using status_entries_ok [OF assms(3)]
    by (rule list_all2_mono) (auto simp: entry_ok_def credential_entry)
  with v vc(2) subject status show ?thesis unfolding credential_ok_def by blast
qed

lemma find_batch_update:
  assumes "db_stamp_batches d' = update_where (\<lambda>b. ba_id b = i) f (db_stamp_batches d)" "\<And>b. ba_id (f b) = ba_id b"
  shows "find_batch d' i = map_option f (find_batch d i)"
  unfolding find_batch_def assms(1) by (rule find_update_same) (simp add: assms(2))

text \<open>C15: A chunk issues exactly what is due: for a batch with stamps left to issue, it adds \<open>min\<close> of the chunk size and
  the remainder, with consecutive sequences starting where the category's counter stands, moves the counter and the
  batch's cursor by as many, and never passes the batch's quantity. Every new stamp carries a credential whose proof
  verifies under the issuer's key, which names the stamp's serial and points to the stamp's own index in all three
  status lists. Relied on: the signature scheme verifies what it signed.\<close>

theorem issue_chunk_exact:
  assumes "issue_chunk env now i chunk d = Inr (n, d')" "issuance_ok d" "0 < chunk_size_of (en_settings env) chunk" "signs_ok env"
    and "find_batch d i = Some b" "ba_status b \<in> {BS_PENDING, BS_ISSUING}" "ba_issued_count b < ba_quantity b"
  shows "n = min (chunk_size_of (en_settings env) chunk) (ba_quantity b - ba_issued_count b) \<and>
    (\<exists>ss. db_stamps d' = db_stamps d @ ss \<and> int (length ss) = n \<and>
       map st_sequence ss = [counter_of d (ba_category_code b, ba_year b)..counter_of d (ba_category_code b, ba_year b) + n - 1] \<and>
       list_all (\<lambda>s. st_batch_id s = i \<and> st_status s = SS_ISSUED \<and> credential_ok env s) ss) \<and>
    (\<exists>b'. find_batch d' i = Some b' \<and> ba_issued_count b' = ba_issued_count b + n \<and> ba_issued_count b' \<le> ba_quantity b' \<and>
       ba_status b' = (if ba_issued_count b' < ba_quantity b' then BS_ISSUING else BS_ISSUED)) \<and> issuance_ok d'"
proof -
  have sd: "stamps_distinct (db_stamps d)" using assms(2) by (simp add: issuance_ok_def)
  have ok': "issuance_ok d'" by (rule issue_chunk_issuance_ok [OF assms(1,2)]) (use assms(3) in simp)
  from assms(1) sd show ?thesis
  proof (cases rule: issue_chunk_effect)
    case (issued x a c ss rows k)
    have x: "x = b" using issued(1) assms(5) by simp
    have bi: "ba_id b = i" using find_batch_Some [OF assms(5)] by simp
    have "list_all (\<lambda>s. st_batch_id s = i \<and> st_status s = SS_ISSUED \<and> credential_ok env s) ss"
    proof -
      have "st_batch_id s = i \<and> st_status s = SS_ISSUED \<and> credential_ok env s" if s: "s \<in> set ss" for s
      proof -
        obtain seq where q: "issued_stamp env c seq s" using issued_run_all [OF issued(11) s] by blast
        with issued_credential [OF q assms(4) issued(10)] show ?thesis using issued(6) x bi by (simp add: issued_stamp_def)
      qed
      then show ?thesis by (simp add: list_all_iff)
    qed
    moreover have "int (length ss) = n" using issued(3,4,12) assms(3) by simp
    moreover have "map st_sequence ss = [counter_of d (ba_category_code b, ba_year b)..counter_of d (ba_category_code b, ba_year b) + n - 1]"
      using issued_run_sequences [OF issued(11)] calculation(2) x by simp
    moreover have "find_batch d' i = Some (b\<lparr>ba_issued_count := ba_issued_count b + n, ba_status := if ba_issued_count b + n < ba_quantity b then BS_ISSUING else BS_ISSUED\<rparr>)"
      using find_batch_update [of d' i "\<lambda>b. b\<lparr>ba_issued_count := ba_issued_count b + n, ba_status := if ba_issued_count b + n < ba_quantity b then BS_ISSUING else BS_ISSUED\<rparr>" d]
        assms(5) by (simp add: issued(14))
    ultimately show ?thesis using issued(4,14) ok' x by auto
  qed (use assms(5-7) in auto)
qed


subsection \<open>Issuing does not fail on its own account\<close>

lemma status_entries_total: "\<exists>es. status_entries s = Inr es"
  by (simp add: status_entries_def status_entry_def PURPOSES_def)

lemma jcs_ok_entry:
  assumes "status_entry (ucs_of lid) 0 p = Inr e"
  shows "jcs_ok (JObj (per_stamp_entry lid index e))"
  using assms by (auto simp: status_entry_def per_stamp_entry_def list_all_append simp del: ucs_of_append split: if_splits)

lemma stamp_proof_total:
  assumes "status_entries (en_settings env) = Inr (ic_entries c)" "\<bar>as_total_duty_kobo (ic_assessment c)\<bar> \<le> max_safe_integer"
    and "jcs_ok (JStr (sk_kid (en_signing_key env)))"
  shows "succeeds (issue_proof sha256 sign (iso_now now) (stamp_document env c serial index) key (verification_method env) (ucs_of ''assertionMethod'') None)"
proof (rule issue_proof_total)
  have "list_all (\<lambda>(lid, e). \<exists>p. status_entry (ucs_of lid) 0 p = Inr e) (ic_entries c)"
    using status_entries_ok [OF assms(1)] by (fastforce simp: PURPOSES_def list_all2_Cons1)
  then have "list_all jcs_ok (map (\<lambda>(lid, e). JObj (per_stamp_entry lid index e)) (ic_entries c))"
    using jcs_ok_entry by (fastforce simp: list_all_iff)
  then show "jcs_ok (JObj (stamp_document env c serial index))"
    using assms(2) by (simp add: stamp_document_def build_stamp_credential_def VC_CONTEXT_def list_all_append del: ucs_of_append)
  show "jcs_ok (JStr (verification_method env))" using assms(3) by (simp add: verification_method_def list_all_append del: ucs_of_append)
qed (simp_all add: stamp_document_def build_stamp_credential_def iso_now_def)


subsection \<open>Issuing a whole batch\<close>

text \<open>
  The loop of \<open>issue_batch\<close> in \<open>api/routes_stamps.py\<close> when it runs to completion: a chunk, and its
  commit, at a time. An exception ends the loop; the chunks before it stay committed, so the result is
  the database together with the outcome. The clock gives the time of each chunk.
\<close>

partial_function (option) issue_loop ::
  "'sk env \<Rightarrow> (nat \<Rightarrow> datetime) \<Rightarrow> uuid \<Rightarrow> int option \<Rightarrow> nat \<Rightarrow> int \<Rightarrow> db \<Rightarrow> (db \<times> int result) option" where
  "issue_loop env clock i chunk k issued d =
    (case issue_chunk env (clock k) i chunk d of
       Inl e \<Rightarrow> Some (d, Inl e)
     | Inr (n, d') \<Rightarrow> if n = 0 then Some (d', Inr issued) else issue_loop env clock i chunk (Suc k) (issued + n) d')"

definition left_to_issue :: "db \<Rightarrow> uuid \<Rightarrow> int" where
  "left_to_issue d i = (case find_batch d i of None \<Rightarrow> 0 | Some b \<Rightarrow> ba_quantity b - ba_issued_count b)"

lemma issue_chunk_progress:
  assumes "issue_chunk env now i chunk d = Inr (n, d')" "issuance_ok d" "0 < chunk_size_of (en_settings env) chunk"
  shows "left_to_issue d' i = left_to_issue d i - n" "n \<noteq> 0 \<Longrightarrow> 0 < n \<and> 0 < left_to_issue d i"
    "n = 0 \<Longrightarrow> \<exists>b. find_batch d' i = Some b \<and> ba_status b \<notin> {BS_PENDING, BS_ISSUING} \<and> ba_issued_count b = ba_quantity b"
    "length (db_stamps d') = length (db_stamps d) + nat n"
proof -
  have sd: "stamps_distinct (db_stamps d)" using assms(2) by (simp add: issuance_ok_def)
  have full: "ba_status b \<in> {BS_PENDING, BS_ISSUING} \<or> ba_issued_count b = ba_quantity b" "ba_issued_count b \<le> ba_quantity b"
    if "find_batch d i = Some b" for b
    using assms(2) find_batch_Some [OF that] by (auto simp: issuance_ok_def batch_ok_def list_all_iff)
  from assms(1) sd have "left_to_issue d' i = left_to_issue d i - n \<and> (n \<noteq> 0 \<longrightarrow> 0 < n \<and> 0 < left_to_issue d i) \<and>
    (n = 0 \<longrightarrow> (\<exists>b. find_batch d' i = Some b \<and> ba_status b \<notin> {BS_PENDING, BS_ISSUING} \<and> ba_issued_count b = ba_quantity b)) \<and>
    length (db_stamps d') = length (db_stamps d) + nat n"
  proof (cases rule: issue_chunk_effect)
    case (idle b)
    with full [OF idle(1)] show ?thesis by auto
  next
    case (complete b)
    have "find_batch d' i = Some (b\<lparr>ba_status := BS_ISSUED\<rparr>)"
      using find_batch_update [of d' i "\<lambda>b. b\<lparr>ba_status := BS_ISSUED\<rparr>" d] complete by simp
    with complete full(2) [OF complete(1)] show ?thesis by (simp add: left_to_issue_def)
  next
    case (issued b a c ss rows k)
    have "find_batch d' i = Some (b\<lparr>ba_issued_count := ba_issued_count b + n, ba_status := if ba_issued_count b + n < ba_quantity b then BS_ISSUING else BS_ISSUED\<rparr>)"
      using find_batch_update [of d' i "\<lambda>b. b\<lparr>ba_issued_count := ba_issued_count b + n, ba_status := if ba_issued_count b + n < ba_quantity b then BS_ISSUING else BS_ISSUED\<rparr>" d]
        issued by simp
    then have "left_to_issue d' i = left_to_issue d i - n" using issued(1) by (simp add: left_to_issue_def)
    moreover have "0 < n" "0 < left_to_issue d i" using issued(1,3,4) assms(3) by (simp_all add: left_to_issue_def)
    moreover have "length (db_stamps d') = length (db_stamps d) + nat n" using issued(12,14) by simp
    ultimately show ?thesis by simp
  qed
  then show "left_to_issue d' i = left_to_issue d i - n" "n \<noteq> 0 \<Longrightarrow> 0 < n \<and> 0 < left_to_issue d i"
    "n = 0 \<Longrightarrow> \<exists>b. find_batch d' i = Some b \<and> ba_status b \<notin> {BS_PENDING, BS_ISSUING} \<and> ba_issued_count b = ba_quantity b"
    "length (db_stamps d') = length (db_stamps d) + nat n" by blast+
qed

lemma issue_loop_terminates_aux:
  assumes "issuance_ok d" "0 < chunk_size_of (en_settings env) chunk"
  shows "\<exists>d' r. issue_loop env clock i chunk k issued d = Some (d', r) \<and> issuance_ok d' \<and>
    (\<forall>m. r = Inr m \<longrightarrow> (\<exists>b. find_batch d' i = Some b \<and> ba_status b \<notin> {BS_PENDING, BS_ISSUING} \<and> ba_issued_count b = ba_quantity b) \<and>
       m - issued = int (length (db_stamps d')) - int (length (db_stamps d)))"
  using assms
proof (induction "nat (left_to_issue d i)" arbitrary: k issued d rule: less_induct)
  case less
  show ?case
  proof (cases "issue_chunk env (clock k) i chunk d")
    case (Inl e)
    then have "issue_loop env clock i chunk k issued d = Some (d, Inl e)" by (subst issue_loop.simps) simp
    with less(2) show ?thesis by simp
  next
    case (Inr nd)
    obtain n d1 where nd: "nd = (n, d1)" by fastforce
    with Inr have c: "issue_chunk env (clock k) i chunk d = Inr (n, d1)" by simp
    have ok: "issuance_ok d1" by (rule issue_chunk_issuance_ok [OF c less(2)]) (use less(3) in simp)
    note progress = issue_chunk_progress [OF c less(2,3)]
    show ?thesis
    proof (cases "n = 0")
      case True
      then have "issue_loop env clock i chunk k issued d = Some (d1, Inr issued)" using c by (subst issue_loop.simps) simp
      with ok progress(3) [OF True] progress(4) True show ?thesis by simp
    next
      case False
      then have step: "issue_loop env clock i chunk k issued d = issue_loop env clock i chunk (Suc k) (issued + n) d1"
        using c by (subst issue_loop.simps) simp
      have pos: "0 < n" "0 < left_to_issue d i" using progress(2) [OF False] by simp_all
      then have "nat (left_to_issue d1 i) < nat (left_to_issue d i)" using progress(1) by simp
      from less(1) [OF this ok less(3), of "Suc k" "issued + n"] show ?thesis
        unfolding step using progress(4) pos by (auto simp: algebra_simps)
    qed
  qed
qed

text \<open>Issuing to completion ends: whatever the chunk size, the loop of the endpoint returns after finitely many
  chunks. When it returns without an exception the batch is completely issued - as many stamps as it asks for, no
  more - and the number it reports is the number of stamps added; an exception leaves a consistent database, from
  which the loop can be run again.\<close>

theorem issue_loop_terminates:
  assumes "issuance_ok d" "0 < chunk_size_of (en_settings env) chunk"
  shows "\<exists>d' r. issue_loop env clock i chunk 0 0 d = Some (d', r) \<and> issuance_ok d' \<and>
    (\<forall>m. r = Inr m \<longrightarrow> (\<exists>b. find_batch d' i = Some b \<and> ba_status b \<notin> {BS_PENDING, BS_ISSUING} \<and> ba_issued_count b = ba_quantity b) \<and>
       m = int (length (db_stamps d')) - int (length (db_stamps d)))"
  using issue_loop_terminates_aux [OF assms, of clock i 0 0] by simp


subsection \<open>Examples\<close>

definition toy_batch :: stamp_batch where
  "toy_batch = \<lparr>ba_id = 300, ba_assessment_id = 100, ba_category_code = ''TBC'', ba_year = 2026, ba_quantity = 2, ba_issued_count = 0,
     ba_status = BS_PENDING, ba_merkle_root = [], ba_created_at = 0, ba_completed_at = None\<rparr>"

definition toy_priced :: assessment_line where
  "toy_priced = \<lparr>al_id = 60, al_assessment_id = 100, al_hs_code = ''2402'', al_category = ''tobacco'', al_quantity = 1, al_unit = ''STICK'',
     al_customs_value_kobo = 0, al_specific_duty_kobo = 500, al_ad_valorem_duty_kobo = 0, al_total_duty_kobo = 500, al_statutory_ref = [],
     al_tariff_effective_from = 0\<rparr>"

definition toy_issuing :: db where
  "toy_issuing = (empty_db id)\<lparr>db_declarations := [toy_declaration\<lparr>dc_id := 0\<rparr>],
     db_assessments := [(toy_assessment 500)\<lparr>as_status := AS_ISSUING\<rparr>],
     db_assessment_lines := [toy_priced], db_stamp_batches := [toy_batch]\<rparr>"

lemma toy_issuing_ok: "issuance_ok toy_issuing" "find_batch toy_issuing 300 = Some toy_batch"
  by (simp_all add: issuance_ok_def toy_issuing_def stamps_distinct_def batch_ok_def toy_batch_def toy_assessment_def find_batch_def)

lemma toy_signs: "signs_ok toy_env"
  by (simp add: signs_ok_def public_key_def toy_sign_def toy_verify_def)

lemma toy_chunk:
  obtains n d' where "issue_chunk toy_env 0 300 (Some 1) toy_issuing = Inr (n, d')"
proof -
  obtain es where es: "status_entries (en_settings toy_env) = Inr es" using status_entries_total by blast
  obtain sn where sn: "build_serial ''TBC'' 2026 0 = Inr sn" "length sn \<le> 32"
  proof -
    have "case build_serial ''TBC'' 2026 0 of Inr s \<Rightarrow> length s \<le> 32 | Inl _ \<Rightarrow> False" by code_simp
    then show ?thesis using that by (auto split: sum.splits)
  qed
  let ?c = "\<lparr>ic_batch = toy_batch, ic_assessment = (toy_assessment 500)\<lparr>as_status := AS_ISSUING\<rparr>, ic_declaration = toy_declaration\<lparr>dc_id := 0\<rparr>,
    ic_line = toy_priced, ic_now = 0, ic_valid_until = add_days 0 (cf_stamp_validity_days (en_settings toy_env)), ic_entries = es\<rparr>"
  obtain vc where vc: "issue_proof toy_hash toy_sign (iso_now 0) (stamp_document toy_env ?c sn 0) (en_signing_key toy_env)
      (verification_method toy_env) (ucs_of ''assertionMethod'') None = Inr vc"
    using stamp_proof_total [of toy_env ?c toy_hash toy_sign 0 sn 0 "en_signing_key toy_env"] es
    by (auto simp: succeeds_iff toy_env_def toy_assessment_def max_safe_integer_def)
  obtain d1 where d1: "claim_serial_block ''TBC'' 2026 1 toy_issuing = Inr (0, d1)" "d1 = toy_issuing\<lparr>db_serial_counters := [\<lparr>sc_category_code = ''TBC'', sc_year = 2026, sc_next_sequence = 1\<rparr>]\<rparr>"
    by (simp add: claim_serial_block_def toy_issuing_def first_violation.simps varchar_def bigint_def integer32_def)
  have st: "succeeds (issue_stamp toy_env ?c 0 d1)"
    using sn vc by (simp add: issue_stamp_def toy_batch_def d1(2) toy_issuing_def allocate_index_def DEFAULT_LIST_SIZE_BITS_def uuid4_def Let_def)
      (simp add: insert_stamp_def constraint_simps toy_batch_def toy_priced_def toy_declaration_def toy_assessment_def succeeds_iff rbind_eq_Inr)
  then obtain d2 where d2: "issue_stamp toy_env ?c 0 d1 = Inr d2" by (auto simp: succeeds_iff)
  have "db_stamp_batches d2 = [toy_batch]"
    using issue_stamp_effect [OF d2] by (auto simp: d1(2) toy_issuing_def stamps_distinct_def)
  then obtain d3 where d3: "update_batch 300 (\<lambda>b. b\<lparr>ba_issued_count := ba_issued_count b + 1,
      ba_status := if ba_issued_count b + 1 < ba_quantity b then BS_ISSUING else BS_ISSUED\<rparr>) d2 = Inr d3"
    by (simp add: update_batch_def update_where_def toy_batch_def constraint_simps rbind_eq_Inr)
  have finds: "find_assessment d1 100 = Some ((toy_assessment 500)\<lparr>as_status := AS_ISSUING\<rparr>)" "find_declaration d1 0 = Some (toy_declaration\<lparr>dc_id := 0\<rparr>)"
    "primary_line d1 100 = Inr toy_priced"
    by (simp_all add: d1(2) toy_issuing_def find_assessment_def find_declaration_def primary_line_def toy_assessment_def toy_priced_def)
  have b: "ba_status toy_batch = BS_PENDING" "ba_quantity toy_batch = 2" "ba_issued_count toy_batch = 0" "ba_category_code toy_batch = ''TBC''"
    "ba_year toy_batch = 2026" "ba_assessment_id toy_batch = 100" "as_id (toy_assessment 500) = 100" "as_declaration_id (toy_assessment 500) = 0"
    by (simp_all add: toy_batch_def toy_assessment_def)
  have "succeeds (issue_chunk toy_env 0 300 (Some 1) toy_issuing)"
    using d1(1) d2 d3 es finds toy_issuing_ok(2)
    by (simp add: issue_chunk_def chunk_size_of_def Let_def b)
  then show ?thesis using that by (auto simp: succeeds_iff)
qed

theorem issue_chunk_exact_witness:
  "\<exists>n d'. issue_chunk toy_env 0 300 (Some 1) toy_issuing = Inr (n, d') \<and> n = 1 \<and> issuance_ok d' \<and>
     (\<exists>s. db_stamps d' = [s] \<and> credential_ok toy_env s)"
proof -
  obtain n d' where c: "issue_chunk toy_env 0 300 (Some 1) toy_issuing = Inr (n, d')" by (rule toy_chunk)
  have e: "n = 1 \<and> issuance_ok d' \<and> (\<exists>ss. db_stamps d' = ss \<and> int (length ss) = n \<and> list_all (credential_ok toy_env) ss)"
    using issue_chunk_exact [OF c toy_issuing_ok(1) _ toy_signs toy_issuing_ok(2)]
    by (auto simp: chunk_size_of_def toy_batch_def list_all_iff) (simp_all add: toy_issuing_def)
  then obtain ss where ss: "db_stamps d' = ss" "length ss = 1" "list_all (credential_ok toy_env) ss" by auto
  then have "\<exists>s. db_stamps d' = [s] \<and> credential_ok toy_env s" by (cases ss) auto
  with c e show ?thesis by blast
qed

theorem issue_loop_terminates_witness:
  "\<exists>d' r. issue_loop toy_env (\<lambda>_. 0) 300 (Some 1) 0 0 toy_issuing = Some (d', r) \<and> issuance_ok d'"
  using issue_loop_terminates [OF toy_issuing_ok(1), of toy_env "Some 1" "\<lambda>_. 0" 300] by (auto simp: chunk_size_of_def)

text \<open>A failed inspection does not stop an active batch: \<open>record_inspection\<close> also accepts an active batch, and when
  it fails the batch is marked INSPECTION_FAILED while every stamp of it that was activated stays active, so it can
  still be scanned as valid.\<close>

theorem failed_inspection_leaves_active:
  assumes "record_inspection now i defectives who d = Inr (row, d')" "find_batch d i = Some b" "ba_status b = BS_ACTIVE" "in_result row = FAIL"
  shows "map_option ba_status (find_batch d' i) = Some BS_INSPECTION_FAILED \<and> db_stamps d' = db_stamps d"
proof -
  obtain k where d': "d' = d\<lparr>db_inspections := db_inspections d @ [row], db_next_uuid := k,
      db_stamp_batches := update_where (\<lambda>b. ba_id b = i) (\<lambda>b. b\<lparr>ba_status := BS_INSPECTION_FAILED\<rparr>) (db_stamp_batches d)\<rparr>"
    using record_inspection_effect [OF assms(1)] assms(4) by auto
  have "find_batch d' i = Some (b\<lparr>ba_status := BS_INSPECTION_FAILED\<rparr>)"
    using find_batch_update [of d' i "\<lambda>b. b\<lparr>ba_status := BS_INSPECTION_FAILED\<rparr>" d] assms(2) by (simp add: d')
  then show ?thesis by (simp add: d')
qed

theorem failed_inspection_leaves_active_witness:
  "\<exists>row d'. record_inspection 0 300 1 ''who'' (toy_issuing\<lparr>db_stamp_batches := [toy_batch\<lparr>ba_status := BS_ACTIVE, ba_issued_count := 2\<rparr>]\<rparr>) = Inr (row, d') \<and>
     map_option ba_status (find_batch d' 300) = Some BS_INSPECTION_FAILED"
proof -
  let ?d = "toy_issuing\<lparr>db_stamp_batches := [toy_batch\<lparr>ba_status := BS_ACTIVE, ba_issued_count := 2\<rparr>]\<rparr>"
  have p: "case plan_for_lot 2 of Inr p \<Rightarrow> evaluate_sample p 1 = Inr False \<and> plan_sample_size p = 2 \<and> length (plan_code_letter p) \<le> 2 \<and> plan_accept p = 0 \<and> plan_reject p = 1 | Inl _ \<Rightarrow> False"
    by code_simp
  then obtain p where p: "plan_for_lot 2 = Inr p" "evaluate_sample p 1 = Inr False" "plan_sample_size p = 2" "length (plan_code_letter p) \<le> 2" "plan_accept p = 0" "plan_reject p = 1"
    by (auto split: sum.splits)
  have f: "find_batch ?d 300 = Some (toy_batch\<lparr>ba_status := BS_ACTIVE, ba_issued_count := 2\<rparr>)" by (simp add: find_batch_def toy_batch_def)
  have "case record_inspection 0 300 1 ''who'' ?d of Inr (row, d') \<Rightarrow> in_result row = FAIL | Inl _ \<Rightarrow> False"
    by (simp add: record_inspection_def f) (simp add: toy_batch_def p Let_def uuid4_def insert_inspection_def constraint_simps toy_issuing_def
        update_batch_def update_where_def rbind_def first_violation.simps)
  then obtain row d' where r: "record_inspection 0 300 1 ''who'' ?d = Inr (row, d')" "in_result row = FAIL"
    by (auto split: sum.splits)
  with failed_inspection_leaves_active [OF r(1) f] show ?thesis by auto
qed

end
