(* ===== verification/FieldVerification.thy ===== *)
theory FieldVerification
  imports BatchInvariant
begin

section \<open>Verification in the field\<close>

text \<open>
  \<open>src/taxstamps/services/verification.py\<close>: the first scan of an active stamp with its valid
  credential consumes it; every attempt is recorded; a repeat from another device flags the stamp in the
  published suspect list; voiding flags it in the void list. The row lock of SELECT ... FOR UPDATE makes
  the scans of a stamp run one after the other, which is how operations run here.
\<close>

subsection \<open>Offline checks of a credential\<close>

text \<open>The zeros of the decimal digits of Unicode 15; nine more digits follow each.\<close>

definition DIGIT_ZEROS :: "nat list" where
  "DIGIT_ZEROS = [
     48, 1632, 1776, 1984, 2406, 2534, 2662, 2790, 2918, 3046, 3174, 3302, 3430, 3558,
     3664, 3792, 3872, 4160, 4240, 6112, 6160, 6470, 6608, 6784, 6800, 6992, 7088, 7232,
     7248, 42528, 43216, 43264, 43472, 43504, 43600, 44016, 65296, 66720, 68912, 69734, 69872, 69942,
     70096, 70384, 70736, 70864, 71248, 71360, 71472, 71904, 72016, 72784, 73040, 73120, 73552, 92768,
     92864, 93008, 120782, 120792, 120802, 120812, 120822, 123200, 123632, 124144, 125264, 130032]"

definition decimal_value :: "nat \<Rightarrow> nat option" where
  "decimal_value c = map_option (\<lambda>z. c - z) (find (\<lambda>z. z \<le> c \<and> c \<le> z + 9) DIGIT_ZEROS)"

definition is_space_code :: "nat \<Rightarrow> bool" where
  "is_space_code c = (c \<in> {9, 10, 11, 12, 13, 28, 29, 30, 31, 32, 133, 160, 5760, 8232, 8233, 8239, 8287, 12288} \<or> (8192 \<le> c \<and> c \<le> 8202))"

text \<open>Digits, single underscores allowed between them.\<close>

fun int_digits :: "bool \<Rightarrow> nat \<Rightarrow> ucs \<Rightarrow> nat option" where
  "int_digits after_digit n [] = (if after_digit then Some n else None)"
| "int_digits after_digit n (c # cs) =
    (case decimal_value c of
       Some v \<Rightarrow> int_digits True (n * 10 + v) cs
     | None \<Rightarrow> if c = 95 \<and> after_digit then int_digits False n cs else None)"

text \<open>\<open>int(text)\<close>, with the interpreter's limit of 4300 digits.\<close>

definition signed_digits :: "int \<Rightarrow> ucs \<Rightarrow> int option" where
  "signed_digits sign s =
    (if 4300 < length (filter (\<lambda>c. c \<noteq> 95) s) then None else map_option (\<lambda>n. sign * int n) (int_digits False 0 s))"

definition int_of_ucs :: "ucs \<Rightarrow> int option" where
  "int_of_ucs s =
    (case rev (dropWhile is_space_code (rev (dropWhile is_space_code s))) of
       [] \<Rightarrow> None
     | c # cs \<Rightarrow> if c = 45 then signed_digits (- 1) cs else if c = 43 then signed_digits 1 cs else signed_digits 1 (c # cs))"

text \<open>\<open>int(value)\<close>. A float is cut at the point; beyond 2 to the 53, where its shortest digits are not its exact
  value, both are far outside every list.\<close>

definition py_int :: "json \<Rightarrow> int result" where
  "py_int v =
    (case v of
       JInt i \<Rightarrow> Inr i
     | JBool b \<Rightarrow> Inr (if b then 1 else 0)
     | JStr s \<Rightarrow> (case int_of_ucs s of Some i \<Rightarrow> Inr i | None \<Rightarrow> Inl (ValueError ''invalid literal for int()''))
     | JFloat (FFin neg rep) \<Rightarrow>
         (let (digits, e) = shortest_digits rep;
              m = (if e \<ge> 0 then int (nat_of_digits digits) * 10 ^ nat e else int (nat_of_digits digits) div 10 ^ nat (- e))
          in Inr (if neg then - m else m))
     | JFloat FNan \<Rightarrow> Inl (ValueError ''cannot convert float NaN to integer'')
     | JFloat _ \<Rightarrow> Inl (OverflowError ''cannot convert float infinity to integer'')
     | _ \<Rightarrow> Inl (TypeError ''int() argument''))"

type_synonym status_lists = "(string \<times> status_list) list"

definition lookup_list :: "status_lists \<Rightarrow> json option \<Rightarrow> status_list option result" where
  "lookup_list sls purpose =
    (case purpose of
       Some (JStr p) \<Rightarrow> Inr (map_of (map (\<lambda>(k, l). (ucs_of k, l)) sls) p)
     | Some (JArr _) \<Rightarrow> Inl (TypeError ''unhashable type'')
     | Some (JObj _) \<Rightarrow> Inl (TypeError ''unhashable type'')
     | _ \<Rightarrow> Inr None)"

definition purpose_text :: "json option \<Rightarrow> string" where
  "purpose_text purpose = (case purpose of Some (JStr p) \<Rightarrow> text_of p | _ \<Rightarrow> ''None'')"

definition entry_failures :: "status_lists \<Rightarrow> json \<Rightarrow> string list result" where
  "entry_failures sls entry =
    (case entry of
       JObj e \<Rightarrow>
         rbind (py_int (case jobj_get e ''statusListIndex'' of Some v \<Rightarrow> v | None \<Rightarrow> jstr ''0'')) (\<lambda>index.
         rbind (lookup_list sls (jobj_get e ''statusPurpose'')) (\<lambda>found.
           case found of
             None \<Rightarrow> Inr []
           | Some l \<Rightarrow> rbind (sl_get l index) (\<lambda>bit.
               Inr (if bit then [''status-flagged:'' @ purpose_text (jobj_get e ''statusPurpose'')] else []))))
     | _ \<Rightarrow> Inl (AttributeError ''get''))"

definition verify_credential_offline :: "'sk env \<Rightarrow> (ucs \<times> json) list \<Rightarrow> status_lists \<Rightarrow> string list result" where
  "verify_credential_offline env credential sls =
    rbind (case verify_proof (en_sha256 env) (en_verify env) credential (public_key env) of
             Inr _ \<Rightarrow> Inr []
           | Inl (VCError reason _) \<Rightarrow> Inr [reason]
           | Inl e \<Rightarrow> Inl e) (\<lambda>proof_failures.
    rbind (case jobj_get credential ''credentialStatus'' of
             None \<Rightarrow> Inr []
           | Some (JObj e) \<Rightarrow> Inr [JObj e]
           | Some (JArr es) \<Rightarrow> Inr es
           | Some (JStr s) \<Rightarrow> Inr (map (\<lambda>c. JStr [c]) s)
           | Some _ \<Rightarrow> Inl (TypeError ''object is not iterable'')) (\<lambda>statuses.
    rbind (map_result (entry_failures sls) statuses) (\<lambda>failures.
      Inr (proof_failures @ concat failures))))"

definition credential_failures :: "'sk env \<Rightarrow> (ucs \<times> json) list option \<Rightarrow> string \<Rightarrow> status_lists \<Rightarrow> string list result" where
  "credential_failures env credential serial sls =
    (case credential of
       None \<Rightarrow> Inr [''credential-required'']
     | Some cred \<Rightarrow>
         rbind (verify_credential_offline env cred sls) (\<lambda>failures.
         rbind (case jobj_get cred ''credentialSubject'' of
                  None \<Rightarrow> Inr None
                | Some (JObj subject) \<Rightarrow> Inr (jobj_get subject ''serial'')
                | Some _ \<Rightarrow> Inl (AttributeError ''get'')) (\<lambda>subject_serial.
           Inr (failures @ (if subject_serial = Some (jstr serial) then [] else [''credential-serial-mismatch''])))))"

subsection \<open>Recording attempts\<close>

text \<open>What a scan presents besides the serial, and what it is told.\<close>

record scan =
  sa_verifier_id :: string
  sa_public_scan :: bool
  sa_lat_micros :: "int option"
  sa_long_micros :: "int option"
  sa_credential :: "(ucs \<times> json) list option"
  sa_consume :: bool

record scan_result =
  re_outcome :: outcome
  re_serial :: string
  re_detail :: string
  re_first_scan :: "(string \<times> string \<times> int option \<times> int option) option"

definition result_of :: "outcome \<Rightarrow> string \<Rightarrow> stamp option \<Rightarrow> string \<Rightarrow> scan_result" where
  "result_of outcome serial stamp detail =
    \<lparr>re_outcome = outcome, re_serial = serial, re_detail = detail,
     re_first_scan = (case stamp of None \<Rightarrow> None
       | Some s \<Rightarrow> (case st_first_scan_at s of None \<Rightarrow> None
           | Some at \<Rightarrow> Some (strftime_seconds at, st_first_scan_verifier s, st_first_scan_lat_micros s, st_first_scan_long_micros s)))\<rparr>"

definition attempt :: "uuid \<Rightarrow> datetime \<Rightarrow> scan \<Rightarrow> string \<Rightarrow> stamp option \<Rightarrow> outcome \<Rightarrow> string \<Rightarrow> verification" where
  "attempt u now sc serial_presented stamp outcome detail =
    \<lparr>ve_id = u, ve_stamp_id = map_option st_id stamp, ve_serial_presented = serial_presented,
     ve_verifier_id = sa_verifier_id sc, ve_public_scan = sa_public_scan sc, ve_outcome = outcome, ve_detail = detail,
     ve_lat_micros = sa_lat_micros sc, ve_long_micros = sa_long_micros sc, ve_verified_at = now\<rparr>"

definition record_attempt :: "datetime \<Rightarrow> scan \<Rightarrow> string \<Rightarrow> stamp option \<Rightarrow> outcome \<Rightarrow> string \<Rightarrow> db \<Rightarrow> db result" where
  "record_attempt now sc serial_presented stamp outcome detail d =
    (let (u, d1) = uuid4 d in insert_verification (attempt u now sc serial_presented stamp outcome detail) d1)"

definition velocity_suspect :: "settings \<Rightarrow> datetime \<Rightarrow> uuid \<Rightarrow> db \<Rightarrow> bool" where
  "velocity_suspect s now stamp_id d =
    (let window_start = sub_hours now (cf_velocity_window_hours s);
         ids = map ve_verifier_id (filter (\<lambda>v. ve_stamp_id v = Some stamp_id \<and> ve_verified_at v \<ge> window_start \<and> ve_verifier_id v \<noteq> [])
                 (db_verifications d))
     in int (length (remdups ids)) \<ge> cf_velocity_distinct_devices s)"

fun join :: "string \<Rightarrow> string list \<Rightarrow> string" where
  "join sep [] = []"
| "join sep [x] = x"
| "join sep (x # xs) = x @ sep @ join sep xs"

definition json_int_opt :: "int option \<Rightarrow> json" where
  "json_int_opt i = (case i of None \<Rightarrow> JNull | Some n \<Rightarrow> JInt n)"

definition serial_error_text :: "exn \<Rightarrow> string" where
  "serial_error_text e = (case e of SerialError s \<Rightarrow> s | _ \<Rightarrow> [])"

subsection \<open>Scanning\<close>

definition find_stamp :: "db \<Rightarrow> string \<Rightarrow> stamp option" where
  "find_stamp d serial = find (\<lambda>s. st_serial s = serial) (db_stamps d)"

text \<open>An attempt that changes nothing but the record of it.\<close>

definition report :: "datetime \<Rightarrow> scan \<Rightarrow> string \<Rightarrow> stamp option \<Rightarrow> outcome \<Rightarrow> string \<Rightarrow> db \<Rightarrow> (scan_result \<times> db) result" where
  "report now sc serial stamp outcome detail d =
    rbind (record_attempt now sc serial stamp outcome detail d) (\<lambda>d1. Inr (result_of outcome serial stamp detail, d1))"

definition repeat_scan :: "'sk env \<Rightarrow> datetime \<Rightarrow> scan \<Rightarrow> stamp \<Rightarrow> db \<Rightarrow> (scan_result \<times> db) result" where
  "repeat_scan env now sc s d =
    (let suspect = (st_first_scan_verifier s \<noteq> sa_verifier_id sc \<and> sa_verifier_id sc \<noteq> []);
         outcome = (if suspect then O_clone_suspect else O_already_verified)
     in rbind (record_attempt now sc (st_serial s) (Some s) outcome ''repeat scan'' d) (\<lambda>d1.
        rbind (if suspect
               then rbind (update_stamps (\<lambda>x. st_id x = st_id s) (\<lambda>x. x\<lparr>st_status := SS_SUSPECT\<rparr>) d1)
                      (set_flag env now ''suspect'' (st_status_list_index s))
               else Inr d1) (\<lambda>d2.
          Inr (result_of outcome (st_serial s) (Some s) ''repeat scan'', d2))))"

definition consume_stamp :: "'sk env \<Rightarrow> datetime \<Rightarrow> scan \<Rightarrow> stamp \<Rightarrow> db \<Rightarrow> (scan_result \<times> db) result" where
  "consume_stamp env now sc s d =
    (let mark = (\<lambda>x. x\<lparr>st_status := SS_CONSUMED, st_first_scan_at := Some now, st_first_scan_verifier := sa_verifier_id sc,
                   st_first_scan_lat_micros := sa_lat_micros sc, st_first_scan_long_micros := sa_long_micros sc\<rparr>)
     in rbind (update_stamps (\<lambda>x. st_id x = st_id s) mark d) (\<lambda>d1.
        rbind (record_attempt now sc (st_serial s) (Some (mark s)) O_valid ''first scan'' d1) (\<lambda>d2.
        rbind (enqueue env now ''stamps.verified.v1''
                 [(ucs_of ''serial'', jstr (st_serial s)),
                  (ucs_of ''batchId'', jstr (uuid_str (st_batch_id s))),
                  (ucs_of ''verifierId'', jstr (sa_verifier_id sc)),
                  (ucs_of ''publicScan'', JBool (sa_public_scan sc)),
                  (ucs_of ''latMicros'', json_int_opt (sa_lat_micros sc)),
                  (ucs_of ''longMicros'', json_int_opt (sa_long_micros sc)),
                  (ucs_of ''velocitySuspect'', JBool (velocity_suspect (en_settings env) now (st_id s) d2))]
                 (if sa_verifier_id sc = [] then ''public'' else sa_verifier_id sc) ''verifier'' (Some (st_declaration_ref s)) d2)
          (\<lambda>(_, d3). Inr (result_of O_valid (st_serial s) (Some (mark s)) ''first scan'', d3)))))"

definition verify_stamp :: "'sk env \<Rightarrow> datetime \<Rightarrow> string \<Rightarrow> scan \<Rightarrow> status_lists \<Rightarrow> db \<Rightarrow> (scan_result \<times> db) result" where
  "verify_stamp env now serial sc sls d =
    (let presented = upper (strip serial)
     in case parse_serial presented of
          Inl e \<Rightarrow>
            rbind (record_attempt now sc (take 64 presented) None O_malformed_serial (serial_error_text e) d)
              (\<lambda>d1. Inr (result_of O_malformed_serial presented None (serial_error_text e), d1))
        | Inr parts \<Rightarrow>
            (case find_stamp d (sp_serial parts) of
               None \<Rightarrow> report now sc (sp_serial parts) None O_unknown_serial [] d
             | Some s \<Rightarrow>
                 if st_status s = SS_VOID then report now sc (st_serial s) (Some s) O_void [] d
                 else if st_status s = SS_EXPIRED \<or> st_valid_until s \<le> now then report now sc (st_serial s) (Some s) O_expired [] d
                 else if st_status s = SS_CONSUMED \<or> st_first_scan_at s \<noteq> None then repeat_scan env now sc s d
                 else if st_status s \<noteq> SS_ACTIVE
                 then report now sc (st_serial s) (Some s) O_not_active (''stamp is '' @ stamp_status_text (st_status s)) d
                 else if \<not> sa_consume sc then report now sc (st_serial s) (Some s) O_active ''non-consuming pre-check'' d
                 else rbind (credential_failures env (sa_credential sc) (st_serial s) sls) (\<lambda>failures.
                   if failures \<noteq> []
                   then report now sc (st_serial s) (Some s) O_invalid_credential (join ''; '' failures) d
                   else consume_stamp env now sc s d)))"

subsection \<open>Voiding\<close>

definition void_stamp :: "'sk env \<Rightarrow> datetime \<Rightarrow> string \<Rightarrow> string \<Rightarrow> string \<Rightarrow> db \<Rightarrow> (stamp \<times> db) result" where
  "void_stamp env now serial reason principal_sub d =
    (if strip reason = [] then Inl (VerificationError ''reason-required'' ''void requires a reason'')
     else case find_stamp d (upper (strip serial)) of
       None \<Rightarrow> Inl (VerificationError ''not-found'' ''unknown serial'')
     | Some s \<Rightarrow>
         if st_status s = SS_VOID then Inr (s, d)
         else rbind (update_stamps (\<lambda>x. st_id x = st_id s) (\<lambda>x. x\<lparr>st_status := SS_VOID\<rparr>) d) (\<lambda>d1.
              rbind (set_flag env now ''void'' (st_status_list_index s) d1) (\<lambda>d2.
              rbind (enqueue env now ''stamps.voided.v1''
                       [(ucs_of ''serial'', jstr (st_serial s)), (ucs_of ''reason'', jstr reason),
                        (ucs_of ''batchId'', jstr (uuid_str (st_batch_id s)))]
                       principal_sub ''excise-approver'' (Some (st_declaration_ref s)) d2)
                (\<lambda>(_, d3). Inr (s\<lparr>st_status := SS_VOID\<rparr>, d3)))))"

subsection \<open>What a scan changes\<close>

lemma record_attempt_effect:
  assumes "record_attempt now sc serial stamp outcome detail d = Inr d'"
  obtains v where "d' = d\<lparr>db_verifications := db_verifications d @ [v], db_next_uuid := Suc (db_next_uuid d)\<rparr>"
    "v = attempt (db_uuids d (db_next_uuid d)) now sc serial stamp outcome detail"
    "case stamp of None \<Rightarrow> True | Some s \<Rightarrow> st_id s \<in> st_id ` set (db_stamps d)"
proof -
  let ?v = "attempt (db_uuids d (db_next_uuid d)) now sc serial stamp outcome detail"
  have i: "insert_verification ?v (d\<lparr>db_next_uuid := Suc (db_next_uuid d)\<rparr>) = Inr d'"
    using assms by (simp add: record_attempt_def uuid4_def)
  have "case stamp of None \<Rightarrow> True | Some s \<Rightarrow> st_id s \<in> st_id ` set (db_stamps d)"
    using i by (auto simp: insert_verification_def rbind_eq_Inr constraint_simps attempt_def split: option.splits)
  then show ?thesis using that insert_verification_ok [OF i] by simp
qed

definition marked :: "datetime \<Rightarrow> scan \<Rightarrow> stamp \<Rightarrow> stamp" where
  "marked now sc s = s\<lparr>st_status := SS_CONSUMED, st_first_scan_at := Some now, st_first_scan_verifier := sa_verifier_id sc,
     st_first_scan_lat_micros := sa_lat_micros sc, st_first_scan_long_micros := sa_long_micros sc\<rparr>"

lemma find_stamp_Some: "find_stamp d serial = Some s \<Longrightarrow> s \<in> set (db_stamps d) \<and> st_serial s = serial"
  by (auto simp: find_stamp_def dest: find_SomeD)

lemma report_effect:
  assumes "report now sc serial stamp outcome detail d = Inr (r, d')"
  obtains v where "r = result_of outcome serial stamp detail" "v = attempt (db_uuids d (db_next_uuid d)) now sc serial stamp outcome detail"
    "d' = d\<lparr>db_verifications := db_verifications d @ [v], db_next_uuid := Suc (db_next_uuid d)\<rparr>"
    "case stamp of None \<Rightarrow> True | Some s \<Rightarrow> st_id s \<in> st_id ` set (db_stamps d)"
  using assms by (auto simp: report_def rbind_eq_Inr elim!: record_attempt_effect)

lemma consume_stamp_effect:
  assumes "consume_stamp env now sc s d = Inr (r, d')"
  obtains v m k where "r = result_of O_valid (st_serial s) (Some (marked now sc s)) ''first scan''"
    "v = attempt (db_uuids d (db_next_uuid d)) now sc (st_serial s) (Some s) O_valid ''first scan''"
    "d' = d\<lparr>db_stamps := update_where (\<lambda>x. st_id x = st_id s) (marked now sc) (db_stamps d),
       db_verifications := db_verifications d @ [v], db_outbox_messages := db_outbox_messages d @ [m], db_next_uuid := k\<rparr>"
    "ob_topic m = ''stamps.verified''" "ob_published_at m = None" "st_id s \<in> st_id ` set (db_stamps d)"
proof -
  let ?P = "\<lambda>x. st_id x = st_id s"
  let ?res = "\<lambda>d2. [(ucs_of ''serial'', jstr (st_serial s)),
                  (ucs_of ''batchId'', jstr (uuid_str (st_batch_id s))),
                  (ucs_of ''verifierId'', jstr (sa_verifier_id sc)),
                  (ucs_of ''publicScan'', JBool (sa_public_scan sc)),
                  (ucs_of ''latMicros'', json_int_opt (sa_lat_micros sc)),
                  (ucs_of ''longMicros'', json_int_opt (sa_long_micros sc)),
                  (ucs_of ''velocitySuspect'', JBool (velocity_suspect (en_settings env) now (st_id s) d2))]"
  have eq: "consume_stamp env now sc s d = rbind (update_stamps ?P (marked now sc) d) (\<lambda>d1.
      rbind (record_attempt now sc (st_serial s) (Some (marked now sc s)) O_valid ''first scan'' d1) (\<lambda>d2.
      rbind (enqueue env now ''stamps.verified.v1'' (?res d2) (if sa_verifier_id sc = [] then ''public'' else sa_verifier_id sc) ''verifier''
               (Some (st_declaration_ref s)) d2)
        (\<lambda>(_, d3). Inr (result_of O_valid (st_serial s) (Some (marked now sc s)) ''first scan'', d3))))"
    by (simp add: consume_stamp_def marked_def [abs_def])
  obtain d1 d2 p where d: "update_stamps ?P (marked now sc) d = Inr d1"
      "record_attempt now sc (st_serial s) (Some (marked now sc s)) O_valid ''first scan'' d1 = Inr d2"
      "enqueue env now ''stamps.verified.v1'' (?res d2) (if sa_verifier_id sc = [] then ''public'' else sa_verifier_id sc) ''verifier''
               (Some (st_declaration_ref s)) d2 = Inr p"
      "(case p of (_, d3) \<Rightarrow> Inr (result_of O_valid (st_serial s) (Some (marked now sc s)) ''first scan'', d3)) = (Inr (r, d') :: exn + _)"
    using assms unfolding eq rbind_eq_Inr by blast
  obtain m where p: "p = (m, d')" and r: "r = result_of O_valid (st_serial s) (Some (marked now sc s)) ''first scan''"
    using d(4) by (cases p) auto
  obtain k where k: "d' = d2\<lparr>db_outbox_messages := db_outbox_messages d2 @ [m], db_next_uuid := k\<rparr>" "ob_published_at m = None"
    "map_of TOPIC_BY_EVENT ''stamps.verified.v1'' = Some (ob_topic m)"
    by (rule enqueue_effect [OF d(3) [unfolded p]])
  have d1: "d1 = d\<lparr>db_stamps := update_where ?P (marked now sc) (db_stamps d)\<rparr>" by (rule update_stamps_ok [OF d(1)])
  have ids: "map st_id (update_where ?P (marked now sc) (db_stamps d)) = map st_id (db_stamps d)" by (rule map_update_where) (simp add: marked_def)
  obtain v where v: "d2 = d1\<lparr>db_verifications := db_verifications d1 @ [v], db_next_uuid := Suc (db_next_uuid d1)\<rparr>"
    "v = attempt (db_uuids d1 (db_next_uuid d1)) now sc (st_serial s) (Some (marked now sc s)) O_valid ''first scan''"
    "st_id (marked now sc s) \<in> st_id ` set (db_stamps d1)"
    by (rule record_attempt_effect [OF d(2)]) simp
  have "st_id s \<in> st_id ` set (db_stamps d)"
    using v(3) arg_cong [OF ids, of set] by (simp add: d1 marked_def image_image del: map_eq_conv)
  then show ?thesis
    using that [of v k m] r v d1 k by (simp add: attempt_def marked_def TOPIC_BY_EVENT_def)
qed

end
