(* ===== verification/Bearer.thy ===== *)
theory Bearer
  imports Config FieldVerification
begin

section \<open>Bearer tokens and verifier credentials\<close>

text \<open>
  \<open>src/taxstamps/api/auth.py\<close> and the identity dependency of \<open>api/deps.py\<close>. The RSA and
  Ed25519 primitives are library code: what they accept as a key and as a signature is the parameter
  \<open>jwk_lib\<close>. The key of a JWKS is kept as the numbers or bytes it was built from. Token text comes from an HTTP
  header, which is Latin-1; the claims of the token are Unicode.

  A bearer token is checked in the order of the code, and every exception is modelled: an \<open>AuthError\<close>
  becomes 401, any other one (a segment that is not JSON, a header that is not an object) escapes.
\<close>

subsection \<open>Exceptions that are value errors\<close>

text \<open>The classes of the service that derive from \<open>ValueError\<close>, and Python's own.\<close>

fun is_value_error :: "exn \<Rightarrow> bool" where
  "is_value_error (KeyError _) = False"
| "is_value_error (TypeError _) = False"
| "is_value_error (OverflowError _) = False"
| "is_value_error (AttributeError _) = False"
| "is_value_error AssertionError = False"
| "is_value_error (RedisUnavailable _) = False"
| "is_value_error (CheckViolation _) = False"
| "is_value_error (UniqueViolation _) = False"
| "is_value_error (ForeignKeyViolation _) = False"
| "is_value_error (DataError _) = False"
| "is_value_error NoResultFound = False"
| "is_value_error (RuntimeError _) = False"
| "is_value_error (HTTPException _ _) = False"
| "is_value_error _ = True"

subsection \<open>Text of JSON values\<close>

text \<open>\<open>str\<close> and \<open>repr\<close> of the values \<open>json.loads\<close> returns. Characters beyond Latin-1 inside a container
  are taken as printable.\<close>

definition repr_ucs :: "ucs \<Rightarrow> ucs" where
  "repr_ucs s = (let q = (if 39 \<in> set s \<and> 34 \<notin> set s then 34 else 39)
     in [q] @ concat (map (\<lambda>c. if c < 256 then ucs_of (repr_char (char_of q) (char_of c)) else [c]) s) @ [q])"

definition comma_space :: "ucs list \<Rightarrow> ucs" where
  "comma_space ts = (case ts of [] \<Rightarrow> [] | t # us \<Rightarrow> t @ concat (map (\<lambda>u. [44, 32] @ u) us))"

definition float_text :: "pyfloat \<Rightarrow> string" where
  "float_text x = (case x of FNan \<Rightarrow> ''nan'' | FInf neg \<Rightarrow> (if neg then ''-inf'' else ''inf'') | FFin neg rep \<Rightarrow> (if neg then ''-'' else []) @ rep)"

fun repr_json :: "json \<Rightarrow> ucs" where
  "repr_json JNull = ucs_of ''None''"
| "repr_json (JBool b) = ucs_of (if b then ''True'' else ''False'')"
| "repr_json (JInt i) = ucs_of (str_int i)"
| "repr_json (JFloat x) = ucs_of (float_text x)"
| "repr_json (JStr s) = repr_ucs s"
| "repr_json (JArr vs) = [91] @ comma_space (map repr_json vs) @ [93]"
| "repr_json (JObj kvs) = [123] @ comma_space (map (\<lambda>(k, v). repr_ucs k @ [58, 32] @ repr_json v) kvs) @ [125]"

definition str_json :: "json \<Rightarrow> ucs" where
  "str_json v = (case v of JStr s \<Rightarrow> s | _ \<Rightarrow> repr_json v)"

lemma text_of_ucs_of [simp]: "text_of (ucs_of s) = s"
  by (simp add: text_of_def ucs_of_def comp_def)

subsection \<open>Identities\<close>

record identity =
  idn_subject :: ucs
  idn_roles :: "json set"
  idn_tenant :: ucs
  idn_clearance :: ucs

text \<open>The subject as the services take it: service text is Latin-1.\<close>

definition subject_of :: "identity \<Rightarrow> string" where
  "subject_of ident = text_of (idn_subject ident)"

definition b64u :: "ucs \<Rightarrow> bytes result" where
  "b64u data = (case urlsafe_b64decode (data @ b64_padding data) of
     Inl e \<Rightarrow> Inl (AuthError ''malformed-token'' e) | Inr bs \<Rightarrow> Inr bs)"

subsection \<open>The keyring\<close>

datatype jwk_key = RS256_key int int | EdDSA_key bytes

record jwk_lib =
  jl_rsa_key :: "int \<Rightarrow> int \<Rightarrow> bool"
  jl_ed25519_key :: "bytes \<Rightarrow> bool"
  jl_verify :: "jwk_key \<Rightarrow> bytes \<Rightarrow> bytes \<Rightarrow> bool"

definition bytes_to_int :: "bytes \<Rightarrow> int" where
  "bytes_to_int bs = foldl (\<lambda>a b. a * 256 + uint b) 0 bs"

definition b64u_member :: "(ucs \<times> json) list \<Rightarrow> string \<Rightarrow> bytes result" where
  "b64u_member jwk k = (case jobj_get jwk k of
     None \<Rightarrow> Inl (KeyError k) | Some (JStr s) \<Rightarrow> b64u s | Some _ \<Rightarrow> Inl (AuthError ''malformed-token'' ''not a string''))"

definition rsa_from_jwk :: "jwk_lib \<Rightarrow> (ucs \<times> json) list \<Rightarrow> jwk_key result" where
  "rsa_from_jwk lib jwk =
    rbind (b64u_member jwk ''n'') (\<lambda>nb. rbind (b64u_member jwk ''e'') (\<lambda>eb.
      let n = bytes_to_int nb; e = bytes_to_int eb
      in if jl_rsa_key lib e n then Inr (RS256_key e n) else Inl (ValueError ''invalid RSA public key'')))"

text \<open>Values a dict can be keyed by; \<open>True\<close> and \<open>1.0\<close> are the key \<open>1\<close>. A NaN is equal to no other.\<close>

definition dict_key :: "json \<Rightarrow> json option result" where
  "dict_key v = (case v of
     JArr _ \<Rightarrow> Inl (TypeError ''unhashable type'') | JObj _ \<Rightarrow> Inl (TypeError ''unhashable type'')
   | JBool b \<Rightarrow> Inr (Some (JInt (if b then 1 else 0)))
   | JFloat FNan \<Rightarrow> Inr None
   | JFloat x \<Rightarrow> Inr (Some (case integral_float x of Some i \<Rightarrow> JInt i | None \<Rightarrow> JFloat x))
   | _ \<Rightarrow> Inr (Some v))"

type_synonym keyring = "(json \<times> jwk_key) list"

definition mk_keyring :: "keyring \<Rightarrow> keyring result" where
  "mk_keyring keys = (if keys = [] then Inl (AuthError ''jwks-empty'' ''JWKS contains no usable keys'') else Inr keys)"

definition jwk_key_of :: "jwk_lib \<Rightarrow> (ucs \<times> json) list \<Rightarrow> jwk_key option result" where
  "jwk_key_of lib jwk =
    (if jobj_get jwk ''kty'' = Some (jstr ''RSA'') then rbind (rsa_from_jwk lib jwk) (\<lambda>k. Inr (Some k))
     else if jobj_get jwk ''kty'' = Some (jstr ''OKP'') \<and> jobj_get jwk ''crv'' = Some (jstr ''Ed25519'')
     then rbind (b64u_member jwk ''x'') (\<lambda>raw.
       if jl_ed25519_key lib raw then Inr (Some (EdDSA_key raw)) else Inl (ValueError ''invalid Ed25519 public key''))
     else Inr None)"

text \<open>One member of \<open>keys\<close>; what goes wrong between \<open>try\<close> and \<open>except\<close> makes the JWKS unavailable. A key
  under a NaN is kept and can never be found.\<close>

definition load_jwk :: "jwk_lib \<Rightarrow> json \<Rightarrow> keyring \<Rightarrow> keyring result" where
  "load_jwk lib v keys =
    (case v of
       JObj jwk \<Rightarrow>
         (let kid = (case jobj_get jwk ''kid'' of None \<Rightarrow> JNull | Some k \<Rightarrow> k)
          in if \<not> json_truthy kid then Inr keys
             else map_error (\<lambda>_. AuthError ''jwks-unavailable'' (''malformed key '' @ text_of (str_json kid)))
               (rbind (jwk_key_of lib jwk) (\<lambda>key.
                  case key of
                    None \<Rightarrow> Inr keys
                  | Some k \<Rightarrow> rbind (dict_key kid) (\<lambda>kd. Inr (dict_set (case kd of Some x \<Rightarrow> x | None \<Rightarrow> kid) k keys)))))
     | _ \<Rightarrow> Inl (AttributeError ''get''))"

fun load_jwks :: "jwk_lib \<Rightarrow> json list \<Rightarrow> keyring \<Rightarrow> keyring result" where
  "load_jwks lib [] keys = Inr keys"
| "load_jwks lib (v # vs) keys = rbind (load_jwk lib v keys) (load_jwks lib vs)"

text \<open>Iterating over a JSON value: an object gives its keys, a text its characters.\<close>

definition json_iter :: "json \<Rightarrow> json list result" where
  "json_iter v = (case v of
     JArr vs \<Rightarrow> Inr vs | JObj kvs \<Rightarrow> Inr (map (\<lambda>kv. JStr (fst kv)) kvs) | JStr s \<Rightarrow> Inr (map (\<lambda>c. JStr [c]) s)
   | _ \<Rightarrow> Inl (TypeError ''object is not iterable''))"

text \<open>
  \<open>JwksKeyring.load\<close>: \<open>file\<close> is what the path holds - nothing when it is not a regular file, the
  exception of reading it, or its text - and \<open>fetch\<close> the outcome of the HTTPS request.
\<close>

definition keyring_load ::
  "jwk_lib \<Rightarrow> (string \<Rightarrow> pyfloat) \<Rightarrow> settings \<Rightarrow> ucs result option \<Rightarrow> (string \<Rightarrow> json result) \<Rightarrow> keyring result" where
  "keyring_load lib rf s file fetch =
    rbind
      (if cf_oidc_jwks_path s \<noteq> [] then
         (case file of
            None \<Rightarrow> Inl (AuthError ''jwks-unavailable'' (cf_oidc_jwks_path s @ '' is not a regular non-symlink file''))
          | Some (Inl e) \<Rightarrow> Inl e
          | Some (Inr text) \<Rightarrow> (case json_loads rf text of None \<Rightarrow> Inl (ValueError ''JSONDecodeError'') | Some v \<Rightarrow> Inr v))
       else if cf_oidc_jwks_url s \<noteq> [] then
         (if take 8 (cf_oidc_jwks_url s) \<noteq> ''https://'' then Inl (AuthError ''jwks-unavailable'' ''JWKS URL must be https://'')
          else fetch (cf_oidc_jwks_url s))
       else Inl (AuthError ''jwks-unavailable'' ''no JWKS source configured''))
      (\<lambda>data. case data of
         JObj doc \<Rightarrow>
           rbind (json_iter (case jobj_get doc ''keys'' of None \<Rightarrow> JArr [] | Some v \<Rightarrow> v)) (\<lambda>ks.
           rbind (load_jwks lib ks []) mk_keyring)
       | _ \<Rightarrow> Inl (AttributeError ''get''))"

definition key_alg :: "jwk_key \<Rightarrow> string" where
  "key_alg key = (case key of RS256_key _ _ \<Rightarrow> ''RS256'' | EdDSA_key _ \<Rightarrow> ''EdDSA'')"

definition keyring_resolve :: "keyring \<Rightarrow> json \<Rightarrow> (string \<times> jwk_key) result" where
  "keyring_resolve keys kid =
    rbind (dict_key kid) (\<lambda>k.
      case (case k of None \<Rightarrow> None | Some x \<Rightarrow> map_of keys x) of
        None \<Rightarrow> Inl (AuthError ''unknown-kid'' (text_of (str_json kid)))
      | Some key \<Rightarrow> Inr (key_alg key, key))"

subsection \<open>Verifying a token\<close>

definition as_object :: "json \<Rightarrow> (ucs \<times> json) list result" where
  "as_object v = (case v of JObj kvs \<Rightarrow> Inr kvs | _ \<Rightarrow> Inl (AttributeError ''get''))"

definition loads_segment :: "(string \<Rightarrow> pyfloat) \<Rightarrow> ucs \<Rightarrow> json result" where
  "loads_segment rf seg = rbind (b64u seg) (\<lambda>bs.
     case json_loads_bytes rf bs of None \<Rightarrow> Inl (ValueError ''JSONDecodeError'') | Some v \<Rightarrow> Inr v)"

text \<open>\<open>isinstance(v, int)\<close> holds of booleans too.\<close>

definition int_value :: "json option \<Rightarrow> int option" where
  "int_value v = (case v of Some (JInt i) \<Rightarrow> Some i | Some (JBool b) \<Rightarrow> Some (if b then 1 else 0) | _ \<Rightarrow> None)"

definition falsy_to :: "json \<Rightarrow> json option \<Rightarrow> json" where
  "falsy_to dflt v = (case v of None \<Rightarrow> dflt | Some x \<Rightarrow> if json_truthy x then x else dflt)"

text \<open>\<open>set(d.get("roles", []) or [])\<close>: the elements have to be hashable.\<close>

definition role_set :: "(ucs \<times> json) list \<Rightarrow> json set result" where
  "role_set d = rbind (json_iter (falsy_to (JArr []) (jobj_get d ''roles''))) (\<lambda>rs.
     rbind (map_result dict_key rs) (\<lambda>_. Inr (set rs)))"

definition token_roles :: "(ucs \<times> json) list \<Rightarrow> json set result" where
  "token_roles payload =
    rbind (as_object (case jobj_get payload ''realm_access'' of None \<Rightarrow> JObj [] | Some v \<Rightarrow> v)) (\<lambda>realm.
    rbind (role_set realm) (\<lambda>rs.
    rbind (as_object (falsy_to (JObj []) (jobj_get payload ''resource_access''))) (\<lambda>clients.
    rbind (map_result (\<lambda>(c, v). rbind (as_object v) role_set) clients) (\<lambda>rss. Inr (rs \<union> \<Union> (set rss))))))"

definition audiences :: "json option \<Rightarrow> json list" where
  "audiences aud = (case aud of Some (JArr vs) \<Rightarrow> vs | Some v \<Rightarrow> [v] | None \<Rightarrow> [JNull])"

text \<open>The claims of a token whose signature holds; \<open>now\<close> is the clock in whole seconds.\<close>

definition check_claims :: "settings \<Rightarrow> int \<Rightarrow> (ucs \<times> json) list \<Rightarrow> identity result" where
  "check_claims s now payload =
    rbind (check (case int_value (jobj_get payload ''exp'') of Some e \<Rightarrow> now < e | None \<Rightarrow> False) (AuthError ''token-expired'' [])) (\<lambda>_.
    rbind (check (cf_oidc_issuer s = [] \<or> jobj_get payload ''iss'' = Some (jstr (cf_oidc_issuer s))) (AuthError ''issuer-mismatch'' [])) (\<lambda>_.
    rbind (check (cf_oidc_audience s = [] \<or> jstr (cf_oidc_audience s) \<in> set (audiences (jobj_get payload ''aud'')))
      (AuthError ''audience-mismatch'' [])) (\<lambda>_.
    rbind (token_roles payload) (\<lambda>roles.
      case jobj_get payload ''sub'' of
        Some (JStr (u # t)) \<Rightarrow>
          Inr \<lparr>idn_subject = u # t, idn_roles = roles, idn_tenant = str_json (falsy_to (jstr []) (jobj_get payload ''tenant'')),
               idn_clearance = str_json (falsy_to (jstr []) (jobj_get payload ''clearance''))\<rparr>
      | _ \<Rightarrow> Inl (AuthError ''malformed-token'' ''sub missing'')))))"

definition verify_bearer ::
  "jwk_lib \<Rightarrow> (string \<Rightarrow> pyfloat) \<Rightarrow> settings \<Rightarrow> int \<Rightarrow> keyring \<Rightarrow> string \<Rightarrow> identity result" where
  "verify_bearer lib rf s now keys token =
    (case split_on 46 (ucs_of token) of
       [p0, p1, p2] \<Rightarrow>
         rbind (loads_segment rf p0) (\<lambda>header.
         rbind (loads_segment rf p1) (\<lambda>payload.
         rbind (as_object header) (\<lambda>h.
         rbind (keyring_resolve keys (case jobj_get h ''kid'' of None \<Rightarrow> JStr [] | Some k \<Rightarrow> k)) (\<lambda>(alg, key).
         rbind (check (jobj_get h ''alg'' = Some (jstr alg))
           (AuthError ''unsupported-alg'' (case jobj_get h ''alg'' of None \<Rightarrow> ''None'' | Some v \<Rightarrow> text_of (repr_json v)))) (\<lambda>_.
         rbind (b64u p2) (\<lambda>signature.
         rbind (check (jl_verify lib key signature (ascii_of_codes (p0 @ [46] @ p1))) (AuthError ''invalid-signature'' [])) (\<lambda>_.
         rbind (as_object payload) (check_claims s now))))))))
     | _ \<Rightarrow> Inl (AuthError ''malformed-token'' []))"

subsection \<open>The identity of a request\<close>

definition auth_to_http :: "exn \<Rightarrow> exn" where
  "auth_to_http e = (case e of AuthError reason _ \<Rightarrow> HTTPException 401 reason | _ \<Rightarrow> e)"

definition get_identity ::
  "jwk_lib \<Rightarrow> (string \<Rightarrow> pyfloat) \<Rightarrow> settings \<Rightarrow> int \<Rightarrow> keyring option \<Rightarrow> string \<Rightarrow> identity result" where
  "get_identity lib rf s now keys authorization =
    (case (if oidc_configured s then keys else None) of
       None \<Rightarrow> Inl (HTTPException 503 ''auth-oidc-unavailable'')
     | Some ring \<Rightarrow>
         if take 7 authorization \<noteq> ''Bearer '' then Inl (HTTPException 401 ''missing-bearer'')
         else map_error auth_to_http (verify_bearer lib rf s now ring (strip (drop 7 authorization))))"

definition hash_verifier_credential :: "(bytes \<Rightarrow> bytes) \<Rightarrow> string \<Rightarrow> string \<Rightarrow> string" where
  "hash_verifier_credential sha256 verifier_id credential =
    hexdigest (sha256 (utf8_of (''verifier:'' @ verifier_id @ '':'' @ credential)))"


subsection \<open>What an accepted request proves\<close>

text \<open>The claims an accepted payload has, of which identity.\<close>

definition claims_hold :: "settings \<Rightarrow> int \<Rightarrow> (ucs \<times> json) list \<Rightarrow> identity \<Rightarrow> bool" where
  "claims_hold s now payload ident =
    ((\<exists>e. int_value (jobj_get payload ''exp'') = Some e \<and> now < e) \<and>
     jobj_get payload ''iss'' = Some (jstr (cf_oidc_issuer s)) \<and>
     (cf_oidc_audience s = [] \<or> jstr (cf_oidc_audience s) \<in> set (audiences (jobj_get payload ''aud''))) \<and>
     idn_subject ident \<noteq> [] \<and> jobj_get payload ''sub'' = Some (JStr (idn_subject ident)) \<and>
     token_roles payload = Inr (idn_roles ident))"

lemma check_claims_hold:
  assumes "check_claims s now payload = Inr ident" "cf_oidc_issuer s \<noteq> []"
  shows "claims_hold s now payload ident"
proof -
  obtain rs where r: "case int_value (jobj_get payload ''exp'') of Some e \<Rightarrow> now < e | None \<Rightarrow> False"
    "jobj_get payload ''iss'' = Some (jstr (cf_oidc_issuer s))"
    "cf_oidc_audience s = [] \<or> jstr (cf_oidc_audience s) \<in> set (audiences (jobj_get payload ''aud''))" "token_roles payload = Inr rs"
    and sub: "(case jobj_get payload ''sub'' of
        Some (JStr (u # t)) \<Rightarrow>
          Inr \<lparr>idn_subject = u # t, idn_roles = rs, idn_tenant = str_json (falsy_to (jstr []) (jobj_get payload ''tenant'')),
               idn_clearance = str_json (falsy_to (jstr []) (jobj_get payload ''clearance''))\<rparr>
      | _ \<Rightarrow> Inl (AuthError ''malformed-token'' ''sub missing'')) = Inr ident"
    using assms unfolding check_claims_def rbind_eq_Inr check_eq_Inr by blast
  have "\<exists>u t. jobj_get payload ''sub'' = Some (JStr (u # t)) \<and> idn_subject ident = u # t \<and> idn_roles ident = rs"
    using sub by (simp split: option.splits json.splits list.splits) auto
  with r show ?thesis by (auto simp: claims_hold_def split: option.splits)
qed

text \<open>A token signed by a key of the ring.\<close>

definition signed_token ::
  "jwk_lib \<Rightarrow> (string \<Rightarrow> pyfloat) \<Rightarrow> keyring \<Rightarrow> string \<Rightarrow> jwk_key \<Rightarrow> (ucs \<times> json) list \<Rightarrow> bool" where
  "signed_token lib rf keys token key payload =
    (\<exists>p0 p1 p2 header sig.
       split_on 46 (ucs_of token) = [p0, p1, p2] \<and> loads_segment rf p0 = Inr (JObj header) \<and> loads_segment rf p1 = Inr (JObj payload) \<and>
       key \<in> snd ` set keys \<and> jobj_get header ''alg'' = Some (jstr (key_alg key)) \<and>
       b64u p2 = Inr sig \<and> jl_verify lib key sig (ascii_of_codes (p0 @ [46] @ p1)))"

lemma keyring_resolve_Inr: "keyring_resolve keys kid = Inr (alg, key) \<Longrightarrow> alg = key_alg key \<and> key \<in> snd ` set keys"
  by (auto simp: keyring_resolve_def rbind_eq_Inr split: option.splits) (metis image_eqI map_of_SomeD snd_conv)

lemma as_object_Inr: "as_object v = Inr kvs \<longleftrightarrow> v = JObj kvs"
  by (cases v) (auto simp: as_object_def)

lemma verify_bearer_signed:
  assumes "verify_bearer lib rf s now keys token = Inr ident"
  obtains key payload where "signed_token lib rf keys token key payload" "check_claims s now payload = Inr ident"
proof -
  obtain p0 p1 p2 where p: "split_on 46 (ucs_of token) = [p0, p1, p2]"
    using assms by (auto simp: verify_bearer_def split: list.splits)
  obtain hv pv h payload alg key sig where
    "loads_segment rf p0 = Inr (JObj h)" "loads_segment rf p1 = Inr (JObj payload)"
    "keyring_resolve keys (case jobj_get h ''kid'' of None \<Rightarrow> JStr [] | Some k \<Rightarrow> k) = Inr (alg, key)"
    "jobj_get h ''alg'' = Some (jstr alg)" "b64u p2 = Inr sig"
    "jl_verify lib key sig (ascii_of_codes (p0 @ [46] @ p1))" "check_claims s now payload = Inr ident"
    using assms by (auto simp: verify_bearer_def p rbind_eq_Inr check_eq_Inr as_object_Inr)
  with p keyring_resolve_Inr show ?thesis by (intro that [of key payload]) (auto simp: signed_token_def)
qed

text \<open>C11: Authentication is fail-closed. A request gets an identity only when OIDC is configured, its keyring is loaded,
  and the header carries a bearer token of three parts whose signature, over exactly the first two parts,
  verifies under a key of the ring with the algorithm of that key - the token cannot choose another one -, that
  has not expired, was issued by the configured issuer and, where one is configured, for the configured
  audience; subject and roles are the token's. Without OIDC every request is answered 503.\<close>

theorem identity_authenticated:
  "(get_identity lib rf s now keys authorization = Inr ident \<longrightarrow>
      oidc_configured s \<and> take 7 authorization = ''Bearer '' \<and>
      (\<exists>ring key payload. keys = Some ring \<and> signed_token lib rf ring (strip (drop 7 authorization)) key payload \<and> claims_hold s now payload ident)) \<and>
   (\<not> oidc_configured s \<longrightarrow> get_identity lib rf s now keys authorization = Inl (HTTPException 503 ''auth-oidc-unavailable''))"
proof (intro conjI impI)
  show "\<not> oidc_configured s \<Longrightarrow> get_identity lib rf s now keys authorization = Inl (HTTPException 503 ''auth-oidc-unavailable'')"
    by (simp add: get_identity_def)
next
  assume a: "get_identity lib rf s now keys authorization = Inr ident"
  then obtain ring where r: "oidc_configured s" "keys = Some ring" "take 7 authorization = ''Bearer ''"
    "verify_bearer lib rf s now ring (strip (drop 7 authorization)) = Inr ident"
    by (auto simp: get_identity_def map_error_eq_Inr split: option.splits if_splits)
  obtain key payload where "signed_token lib rf ring (strip (drop 7 authorization)) key payload" "check_claims s now payload = Inr ident"
    by (rule verify_bearer_signed [OF r(4)])
  moreover have "cf_oidc_issuer s \<noteq> []" using r(1) by (simp add: oidc_configured_def)
  ultimately have e: "\<exists>ring key payload. keys = Some ring \<and> signed_token lib rf ring (strip (drop 7 authorization)) key payload \<and> claims_hold s now payload ident"
    using r(2) check_claims_hold by blast
  show "oidc_configured s" by (rule r(1))
  show "take 7 authorization = ''Bearer ''" by (rule r(3))
  show "\<exists>ring key payload. keys = Some ring \<and> signed_token lib rf ring (strip (drop 7 authorization)) key payload \<and> claims_hold s now payload ident"
    by (rule e)
qed

subsection \<open>An example\<close>

definition toy_lib :: jwk_lib where
  "toy_lib = \<lparr>jl_rsa_key = (\<lambda>_ _. True), jl_ed25519_key = (\<lambda>_. True),
     jl_verify = (\<lambda>key sig m. case key of EdDSA_key pk \<Rightarrow> toy_verify pk sig m | _ \<Rightarrow> False)\<rparr>"

definition toy_ring :: keyring where
  "toy_ring = [(jstr ''k'', EdDSA_key [7])]"

definition toy_oidc :: settings where
  "toy_oidc = toy_settings\<lparr>cf_oidc_jwks_path := ''/j'', cf_oidc_issuer := ''iss''\<rparr>"

text \<open>A token is built from the text of its header and of its payload.\<close>

definition toy_text :: "string \<Rightarrow> string" where
  "toy_text s = map (\<lambda>c. if c = CHR ''!'' then char_of (34 :: nat) else c) s"

definition toy_header :: bytes where
  "toy_header = utf8_of (toy_text ''{!alg!:!EdDSA!,!kid!:!k!}'')"

definition toy_payload :: bytes where
  "toy_payload = utf8_of (toy_text ''{!exp!:9,!iss!:!iss!,!sub!:!ada!,!realm_access!:{!roles!:[!auditor!]}}'')"

definition mk_token :: "bytes \<Rightarrow> bytes \<Rightarrow> (bytes \<Rightarrow> bytes) \<Rightarrow> ucs" where
  "mk_token header payload sign =
    (let p0 = b64u_encode header; p1 = b64u_encode payload
     in p0 @ [46] @ p1 @ [46] @ b64u_encode (sign (ascii_of_codes (p0 @ [46] @ p1))))"

lemma b64u_encode_decode: "b64u (b64u_encode data) = Inr data"
  using b64u_decode_encode [of data]
  by (auto simp: b64u_decode_def b64u_def split: if_splits sum.splits)

lemma verify_bearer_token:
  assumes "token = text_of (mk_token header payload sign)" "json_loads_bytes rf header = Some (JObj h)" "json_loads_bytes rf payload = Some (JObj p)"
    and "keyring_resolve keys (case jobj_get h ''kid'' of None \<Rightarrow> JStr [] | Some k \<Rightarrow> k) = Inr (alg, key)" "jobj_get h ''alg'' = Some (jstr alg)"
    and "\<And>m. jl_verify lib key (sign m) m"
  shows "verify_bearer lib rf s now keys token = check_claims s now p"
proof -
  let ?p0 = "b64u_encode header" and ?p1 = "b64u_encode payload"
  let ?p2 = "b64u_encode (sign (ascii_of_codes (?p0 @ [46] @ ?p1)))"
  have codes: "u < 256" "u \<noteq> 46" if "u \<in> set (b64u_encode x)" for u x
    using b64u_encode_codes [OF that] by simp_all
  have "ucs_of token = mk_token header payload sign"
    using codes by (auto simp: assms(1) ucs_of_def text_of_def mk_token_def Let_def intro!: map_idI)
  then have tk: "ucs_of token = ?p0 @ 46 # (?p1 @ 46 # ?p2)" by (simp add: mk_token_def Let_def)
  have dot: "46 \<notin> set (b64u_encode x)" for x using codes(2) by blast
  have "split_on 46 (ucs_of token) = [?p0, ?p1, ?p2]"
    unfolding tk by (subst split_on_append [OF dot], subst split_on_append [OF dot]) (simp add: split_on_no_sep [OF dot])
  then show ?thesis
    using assms(2-6) by (simp add: verify_bearer_def loads_segment_def b64u_encode_decode as_object_def)
qed

definition toy_authorization :: string where
  "toy_authorization = ''Bearer '' @ text_of (mk_token toy_header toy_payload (toy_sign [7]))"

lemma toy_header_loads: "json_loads_bytes (\<lambda>_. FNan) toy_header = Some (JObj [(ucs_of ''alg'', jstr ''EdDSA''), (ucs_of ''kid'', jstr ''k'')])"
  by code_simp

lemma toy_payload_loads: "json_loads_bytes (\<lambda>_. FNan) toy_payload =
   Some (JObj [(ucs_of ''exp'', JInt 9), (ucs_of ''iss'', jstr ''iss''), (ucs_of ''sub'', jstr ''ada''),
     (ucs_of ''realm_access'', JObj [(ucs_of ''roles'', JArr [jstr ''auditor''])])])"
  by code_simp

lemma strip_token: "strip (text_of (mk_token header payload sign)) = text_of (mk_token header payload sign)"
proof -
  have "\<not> is_space (char_of u)" if "u \<in> set (mk_token header payload sign)" for u
  proof -
    have "(\<exists>x. u \<in> set (b64u_encode x)) \<or> u = 46" using that by (auto simp: mk_token_def Let_def)
    moreover have "\<exists>v<64. u = sextet_char v" if "u \<in> set (b64u_encode x)" for x
      using that sextets_bound [OF map_unat_bytes, of x] by (auto simp: b64u_encode_def list_all_iff)
    ultimately obtain v where "u = 46 \<or> v < 64 \<and> u = sextet_char v" by blast
    then have "u < 128" "33 \<le> u" by (auto simp: sextet_char_def)
    then show ?thesis by (simp add: is_space_def)
  qed
  then have n: "\<forall>c \<in> set (text_of (mk_token header payload sign)). \<not> is_space c" by (auto simp: text_of_def)
  have d: "dropWhile is_space cs = cs" if "\<forall>c \<in> set cs. \<not> is_space c" for cs using that by (cases cs) auto
  show ?thesis using n by (simp add: strip_def lstrip_def rstrip_def d)
qed

definition toy_identity :: identity where
  "toy_identity = \<lparr>idn_subject = ucs_of ''ada'', idn_roles = {jstr ''auditor''}, idn_tenant = [], idn_clearance = []\<rparr>"

lemma toy_identity_accepted: "get_identity toy_lib (\<lambda>_. FNan) toy_oidc 8 (Some toy_ring) toy_authorization = Inr toy_identity"
proof -
  have "verify_bearer toy_lib (\<lambda>_. FNan) toy_oidc 8 toy_ring (text_of (mk_token toy_header toy_payload (toy_sign [7]))) =
    check_claims toy_oidc 8 [(ucs_of ''exp'', JInt 9), (ucs_of ''iss'', jstr ''iss''), (ucs_of ''sub'', jstr ''ada''),
     (ucs_of ''realm_access'', JObj [(ucs_of ''roles'', JArr [jstr ''auditor''])])]"
    by (rule verify_bearer_token [OF refl toy_header_loads toy_payload_loads, where alg = "''EdDSA''" and key = "EdDSA_key [7]"])
      (simp_all add: jobj_get_def keyring_resolve_def dict_key_def toy_ring_def key_alg_def toy_lib_def toy_verify_def toy_sign_def)
  also have "\<dots> = Inr toy_identity"
    by code_simp
  finally show ?thesis
    by (simp add: get_identity_def toy_authorization_def strip_token oidc_configured_def toy_oidc_def toy_settings_def default_settings_def)
qed

theorem identity_authenticated_witness:
  "(\<exists>key payload. signed_token toy_lib (\<lambda>_. FNan) toy_ring (strip (drop 7 toy_authorization)) key payload \<and> claims_hold toy_oidc 8 payload toy_identity) \<and>
   get_identity toy_lib (\<lambda>_. FNan) toy_settings 8 (Some toy_ring) toy_authorization = Inl (HTTPException 503 ''auth-oidc-unavailable'')"
  using identity_authenticated [of toy_lib "\<lambda>_. FNan" toy_oidc 8 "Some toy_ring" toy_authorization toy_identity] toy_identity_accepted
    identity_authenticated [of toy_lib "\<lambda>_. FNan" toy_settings 8 "Some toy_ring" toy_authorization]
  by (simp add: oidc_configured_def toy_settings_def default_settings_def)

text \<open>A token whose parts decode but are not JSON is not answered 401: the exception escapes.\<close>

lemma non_json_token_escapes:
  "get_identity toy_lib (\<lambda>_. FNan) toy_oidc 8 (Some toy_ring) ''Bearer AAAA.AAAA.AAAA'' = Inl (ValueError ''JSONDecodeError'')"
  by code_simp

end
