(* ===== verification/Policy.thy ===== *)
theory Policy
  imports Bearer
begin

section \<open>The policy engine\<close>

text \<open>
  \<open>src/taxstamps/api/pbac.py\<close>: rules read from JSON, validated, and matched against an identity;
  what no rule matches is denied. The directory is the list of its \<open>*.policy.json\<close> files, each with its
  text or the exception of reading it. The shipped policy, \<open>policies/tax-stamps.policy.json\<close>, is
  given as the value \<open>json.loads\<close> returns for it.
\<close>

subsection \<open>Rules\<close>

record rule =
  ru_name :: ucs
  ru_roles :: "ucs set"
  ru_resource :: ucs
  ru_action :: ucs
  ru_tenant :: ucs
  ru_clearance :: "ucs set"
  ru_classification :: "ucs set"

definition ANY :: ucs where
  "ANY = ucs_of ''*''"

definition rule_matches :: "rule \<Rightarrow> identity \<Rightarrow> string \<Rightarrow> string \<Rightarrow> string \<Rightarrow> bool" where
  "rule_matches r ident resource action classification =
    (if ANY \<notin> ru_roles r \<and> JStr ` ru_roles r \<inter> idn_roles ident = {} then False
     else if ru_resource r \<noteq> ANY \<and> ru_resource r \<noteq> ucs_of resource then False
     else if ru_action r \<noteq> ANY \<and> ru_action r \<noteq> ucs_of action then False
     else if ru_tenant r \<noteq> ANY \<and> ru_tenant r \<noteq> idn_tenant ident then False
     else if ANY \<notin> ru_clearance r \<and> idn_clearance ident \<notin> ru_clearance r then False
     else if ANY \<notin> ru_classification r \<and> ucs_of classification \<notin> ru_classification r then False
     else True)"

subsection \<open>Validation\<close>

definition CLASSIFICATIONS :: "string list" where
  "CLASSIFICATIONS = [''PUBLIC'', ''INTERNAL'', ''CONFIDENTIAL'', ''RESTRICTED'', ''FIDUCIARY_SEGREGATED'']"

definition ALLOWED_FIELDS :: "string list" where
  "ALLOWED_FIELDS = [''name'', ''roles'', ''resource'', ''action'', ''tenant'', ''clearance'', ''classification'']"

text \<open>\<open>_IDENT_RE\<close>; its \<open>$\<close> also matches before a final line feed.\<close>

definition ident_head :: "nat \<Rightarrow> bool" where
  "ident_head u = ((97 \<le> u \<and> u \<le> 122) \<or> (48 \<le> u \<and> u \<le> 57))"

definition ident_core :: "ucs \<Rightarrow> bool" where
  "ident_core s = (case s of [] \<Rightarrow> False
     | u # t \<Rightarrow> ident_head u \<and> list_all (\<lambda>v. ident_head v \<or> v \<in> {45, 46, 58, 95}) t \<and> length t \<le> 127)"

definition ident_match :: "ucs \<Rightarrow> bool" where
  "ident_match s = (ident_core s \<or> (s \<noteq> [] \<and> last s = 10 \<and> ident_core (butlast s)))"

definition json_texts :: "json \<Rightarrow> ucs list option" where
  "json_texts v = (case v of
     JArr vs \<Rightarrow> if list_all (\<lambda>x. case x of JStr _ \<Rightarrow> True | _ \<Rightarrow> False) vs
                then Some (map (\<lambda>x. case x of JStr s \<Rightarrow> s | _ \<Rightarrow> []) vs) else None
   | _ \<Rightarrow> None)"

definition require_texts :: "json option \<Rightarrow> string \<Rightarrow> ucs list result" where
  "require_texts v message = (case v of None \<Rightarrow> Inr [ANY]
     | Some x \<Rightarrow> (case json_texts x of Some ts \<Rightarrow> Inr ts | None \<Rightarrow> Inl (PolicyError message)))"

definition require_ident :: "string \<Rightarrow> json \<Rightarrow> ucs result" where
  "require_ident message v = (case v of
     JStr s \<Rightarrow> if s = ANY \<or> ident_match s then Inr s else Inl (PolicyError message) | _ \<Rightarrow> Inl (PolicyError message))"

definition validate_rule :: "string \<Rightarrow> json \<Rightarrow> rule result" where
  "validate_rule source raw =
    (case raw of
       JObj d \<Rightarrow>
         if \<not> fst ` set d \<subseteq> set (map ucs_of ALLOWED_FIELDS) then Inl (PolicyError (source @ '': unknown rule fields''))
         else (case (jobj_get d ''name'', jobj_get d ''roles'', jobj_get d ''resource'', jobj_get d ''action'') of
             (Some name, Some roles, Some resource, Some action) \<Rightarrow>
               (case name of
                  JStr (u # t) \<Rightarrow>
                    (let at = source @ '' rule '' @ text_of (u # t) @ '': ''
                     in case json_texts roles of
                          Some (r # rs) \<Rightarrow>
                            rbind (require_ident (at @ ''malformed identifier'') resource) (\<lambda>res.
                            rbind (require_ident (at @ ''malformed identifier'') action) (\<lambda>act.
                            rbind (case jobj_get d ''tenant'' of None \<Rightarrow> Inr ANY | Some (JStr (v # w)) \<Rightarrow> Inr (v # w)
                                   | Some _ \<Rightarrow> Inl (PolicyError (at @ ''tenant must be a non-empty string or *''))) (\<lambda>tenant.
                            rbind (require_texts (jobj_get d ''clearance'') (at @ ''clearance must be a string list'')) (\<lambda>clearance.
                            rbind (require_texts (jobj_get d ''classification'') (at @ ''classification must be a string list'')) (\<lambda>classification.
                              if \<not> set classification \<subseteq> insert ANY (set (map ucs_of CLASSIFICATIONS))
                              then Inl (PolicyError (at @ ''unknown classification labels''))
                              else Inr \<lparr>ru_name = u # t, ru_roles = set (r # rs), ru_resource = res, ru_action = act, ru_tenant = tenant,
                                        ru_clearance = set clearance, ru_classification = set classification\<rparr>)))))
                        | _ \<Rightarrow> Inl (PolicyError (at @ ''roles must be a non-empty string list'')))
                | _ \<Rightarrow> Inl (PolicyError (source @ '': rule name must be a non-empty string'')))
           | _ \<Rightarrow> Inl (PolicyError (source @ '': rule missing required field'')))
     | _ \<Rightarrow> Inl (PolicyError (source @ '': rule is not an object'')))"

subsection \<open>Loading\<close>

text \<open>Names are unique over all files of the directory.\<close>

fun add_rules :: "string \<Rightarrow> json list \<Rightarrow> rule list \<Rightarrow> rule list result" where
  "add_rules source [] acc = Inr acc"
| "add_rules source (raw # raws) acc =
    rbind (validate_rule source raw) (\<lambda>r.
      if ru_name r \<in> ru_name ` set acc
      then Inl (PolicyError (source @ '': duplicate rule name '' @ text_of (repr_ucs (ru_name r))))
      else add_rules source raws (acc @ [r]))"

definition load_doc :: "string \<Rightarrow> json \<Rightarrow> rule list \<Rightarrow> rule list result" where
  "load_doc source doc acc =
    (case doc of
       JObj d \<Rightarrow>
         if jobj_get d ''version'' \<noteq> Some (jstr ''1.0'') then Inl (PolicyError (source @ '': version must be 1.0''))
         else (case jobj_get d ''policies'' of
             Some (JArr raws) \<Rightarrow> add_rules source raws acc
           | _ \<Rightarrow> Inl (PolicyError (source @ '': policies must be an array'')))
     | _ \<Rightarrow> Inl (PolicyError (source @ '': version must be 1.0'')))"

definition load_file :: "(string \<Rightarrow> pyfloat) \<Rightarrow> string \<times> (string + ucs) \<Rightarrow> rule list \<Rightarrow> rule list result" where
  "load_file rf = (\<lambda>(source, content) acc.
    case content of
      Inl e \<Rightarrow> Inl (PolicyError (source @ '': malformed JSON: '' @ e))
    | Inr text \<Rightarrow> (case json_loads rf text of
          None \<Rightarrow> Inl (PolicyError (source @ '': malformed JSON: JSONDecodeError''))
        | Some doc \<Rightarrow> load_doc source doc acc))"

record policy_engine =
  en_rules :: "rule list"
  en_denied_total :: int

definition mk_engine :: "rule list \<Rightarrow> policy_engine result" where
  "mk_engine rules = (if rules = [] then Inl (PolicyError ''no policy rules loaded'') else Inr \<lparr>en_rules = rules, en_denied_total = 0\<rparr>)"

fun load_files :: "(string \<Rightarrow> pyfloat) \<Rightarrow> (string \<times> (string + ucs)) list \<Rightarrow> rule list \<Rightarrow> rule list result" where
  "load_files rf [] acc = Inr acc"
| "load_files rf (f # fs) acc = rbind (load_file rf f acc) (load_files rf fs)"

definition engine_load :: "(string \<Rightarrow> pyfloat) \<Rightarrow> string \<Rightarrow> (string \<times> (string + ucs)) list option \<Rightarrow> policy_engine result" where
  "engine_load rf policy_dir dir =
    (case dir of
       None \<Rightarrow> Inl (PolicyError (''policy directory '' @ policy_dir @ '' does not exist''))
     | Some files \<Rightarrow>
         if files = [] then Inl (PolicyError (''policy directory '' @ policy_dir @ '' contains no *.policy.json files''))
         else rbind (load_files rf (sort_key (\<lambda>f. ucs_of (fst f)) files) []) mk_engine)"

text \<open>\<open>allow\<close> counts the denials.\<close>

definition allow :: "policy_engine \<Rightarrow> identity \<Rightarrow> string \<Rightarrow> string \<Rightarrow> string \<Rightarrow> bool \<times> policy_engine" where
  "allow e ident resource action classification =
    (if list_ex (\<lambda>r. rule_matches r ident resource action classification) (en_rules e) then (True, e)
     else (False, e\<lparr>en_denied_total := en_denied_total e + 1\<rparr>))"

definition require_policy :: "policy_engine \<Rightarrow> identity \<Rightarrow> string \<Rightarrow> string \<Rightarrow> string \<Rightarrow> unit result" where
  "require_policy e ident resource action classification =
    check (fst (allow e ident resource action classification)) (HTTPException 403 ''pbac-denied'')"

subsection \<open>The shipped policy\<close>

definition SHIPPED_POLICY :: json where
  "SHIPPED_POLICY = JObj [(ucs_of ''version'', jstr ''1.0''), (ucs_of ''policies'', JArr
    [JObj [(ucs_of ''name'', jstr ''excise-officer-submits-assessments''),
       (ucs_of ''roles'', JArr [jstr ''excise-officer'', jstr ''customs-officer'']),
       (ucs_of ''resource'', jstr ''assessment''),
       (ucs_of ''action'', jstr ''create''),
       (ucs_of ''tenant'', jstr ''*''),
       (ucs_of ''clearance'', JArr [jstr ''*'']),
       (ucs_of ''classification'', JArr [jstr ''INTERNAL'', jstr ''CONFIDENTIAL''])],
     JObj [(ucs_of ''name'', jstr ''excise-approver-approves-assessments''),
       (ucs_of ''roles'', JArr [jstr ''excise-approver'']),
       (ucs_of ''resource'', jstr ''assessment''),
       (ucs_of ''action'', jstr ''approve''),
       (ucs_of ''tenant'', jstr ''*''),
       (ucs_of ''clearance'', JArr [jstr ''*'']),
       (ucs_of ''classification'', JArr [jstr ''INTERNAL'', jstr ''CONFIDENTIAL''])],
     JObj [(ucs_of ''name'', jstr ''excise-approver-creates-payment-intents''),
       (ucs_of ''roles'', JArr [jstr ''excise-approver'', jstr ''finance-officer'']),
       (ucs_of ''resource'', jstr ''payment''),
       (ucs_of ''action'', jstr ''create''),
       (ucs_of ''tenant'', jstr ''*''),
       (ucs_of ''clearance'', JArr [jstr ''*'']),
       (ucs_of ''classification'', JArr [jstr ''FIDUCIARY_SEGREGATED'', jstr ''CONFIDENTIAL''])],
     JObj [(ucs_of ''name'', jstr ''rail-callback-records-receipts''),
       (ucs_of ''roles'', JArr [jstr ''finance-rail-callback'']),
       (ucs_of ''resource'', jstr ''payment''),
       (ucs_of ''action'', jstr ''settle''),
       (ucs_of ''tenant'', jstr ''*''),
       (ucs_of ''clearance'', JArr [jstr ''*'']),
       (ucs_of ''classification'', JArr [jstr ''FIDUCIARY_SEGREGATED''])],
     JObj [(ucs_of ''name'', jstr ''excise-officer-issues-batches''),
       (ucs_of ''roles'', JArr [jstr ''excise-officer'']),
       (ucs_of ''resource'', jstr ''batch''),
       (ucs_of ''action'', jstr ''issue''),
       (ucs_of ''tenant'', jstr ''*''),
       (ucs_of ''clearance'', JArr [jstr ''*'']),
       (ucs_of ''classification'', JArr [jstr ''CONFIDENTIAL''])],
     JObj [(ucs_of ''name'', jstr ''quality-inspector-records-inspections''),
       (ucs_of ''roles'', JArr [jstr ''quality-inspector'']),
       (ucs_of ''resource'', jstr ''batch''),
       (ucs_of ''action'', jstr ''inspect''),
       (ucs_of ''tenant'', jstr ''*''),
       (ucs_of ''clearance'', JArr [jstr ''*'']),
       (ucs_of ''classification'', JArr [jstr ''CONFIDENTIAL''])],
     JObj [(ucs_of ''name'', jstr ''excise-officer-activates-batches''),
       (ucs_of ''roles'', JArr [jstr ''excise-officer'', jstr ''excise-approver'']),
       (ucs_of ''resource'', jstr ''batch''),
       (ucs_of ''action'', jstr ''activate''),
       (ucs_of ''tenant'', jstr ''*''),
       (ucs_of ''clearance'', JArr [jstr ''*'']),
       (ucs_of ''classification'', JArr [jstr ''CONFIDENTIAL''])],
     JObj [(ucs_of ''name'', jstr ''excise-approver-voids-stamps''),
       (ucs_of ''roles'', JArr [jstr ''excise-approver'']),
       (ucs_of ''resource'', jstr ''stamp''),
       (ucs_of ''action'', jstr ''void''),
       (ucs_of ''tenant'', jstr ''*''),
       (ucs_of ''clearance'', JArr [jstr ''*'']),
       (ucs_of ''classification'', JArr [jstr ''CONFIDENTIAL''])],
     JObj [(ucs_of ''name'', jstr ''officers-read-stamps-and-batches''),
       (ucs_of ''roles'', JArr [jstr ''excise-officer'', jstr ''excise-approver'', jstr ''quality-inspector'', jstr ''finance-officer'', jstr ''auditor'']),
       (ucs_of ''resource'', jstr ''*''),
       (ucs_of ''action'', jstr ''read''),
       (ucs_of ''tenant'', jstr ''*''),
       (ucs_of ''clearance'', JArr [jstr ''*'']),
       (ucs_of ''classification'', JArr [jstr ''*''])],
     JObj [(ucs_of ''name'', jstr ''auditor-runs-ops-verification''),
       (ucs_of ''roles'', JArr [jstr ''auditor'']),
       (ucs_of ''resource'', jstr ''ops''),
       (ucs_of ''action'', jstr ''read''),
       (ucs_of ''tenant'', jstr ''*''),
       (ucs_of ''clearance'', JArr [jstr ''*'']),
       (ucs_of ''classification'', JArr [jstr ''*''])]])]"

definition mk_rule :: "string \<Rightarrow> string list \<Rightarrow> string \<Rightarrow> string \<Rightarrow> string list \<Rightarrow> rule" where
  "mk_rule name roles resource action classification =
    \<lparr>ru_name = ucs_of name, ru_roles = set (map ucs_of roles), ru_resource = ucs_of resource, ru_action = ucs_of action,
     ru_tenant = ANY, ru_clearance = {ANY}, ru_classification = set (map ucs_of classification)\<rparr>"

definition shipped_rules :: "rule list" where
  "shipped_rules =
    [mk_rule ''excise-officer-submits-assessments'' [''excise-officer'', ''customs-officer''] ''assessment'' ''create'' [''INTERNAL'', ''CONFIDENTIAL''],
     mk_rule ''excise-approver-approves-assessments'' [''excise-approver''] ''assessment'' ''approve'' [''INTERNAL'', ''CONFIDENTIAL''],
     mk_rule ''excise-approver-creates-payment-intents'' [''excise-approver'', ''finance-officer''] ''payment'' ''create'' [''FIDUCIARY_SEGREGATED'', ''CONFIDENTIAL''],
     mk_rule ''rail-callback-records-receipts'' [''finance-rail-callback''] ''payment'' ''settle'' [''FIDUCIARY_SEGREGATED''],
     mk_rule ''excise-officer-issues-batches'' [''excise-officer''] ''batch'' ''issue'' [''CONFIDENTIAL''],
     mk_rule ''quality-inspector-records-inspections'' [''quality-inspector''] ''batch'' ''inspect'' [''CONFIDENTIAL''],
     mk_rule ''excise-officer-activates-batches'' [''excise-officer'', ''excise-approver''] ''batch'' ''activate'' [''CONFIDENTIAL''],
     mk_rule ''excise-approver-voids-stamps'' [''excise-approver''] ''stamp'' ''void'' [''CONFIDENTIAL''],
     mk_rule ''officers-read-stamps-and-batches'' [''excise-officer'', ''excise-approver'', ''quality-inspector'', ''finance-officer'', ''auditor''] ''*'' ''read'' [''*''],
     mk_rule ''auditor-runs-ops-verification'' [''auditor''] ''ops'' ''read'' [''*'']]"

subsection \<open>Loaded policies\<close>

text \<open>What validation promises of a rule.\<close>

definition ident_ok :: "ucs \<Rightarrow> bool" where
  "ident_ok s = (s = ANY \<or> ident_match s)"

definition rule_ok :: "rule \<Rightarrow> bool" where
  "rule_ok r =
    (ru_name r \<noteq> [] \<and> ru_roles r \<noteq> {} \<and> ident_ok (ru_resource r) \<and> ident_ok (ru_action r) \<and> ru_tenant r \<noteq> [] \<and>
     ru_classification r \<subseteq> insert ANY (set (map ucs_of CLASSIFICATIONS)))"

lemma require_ident_ok: "require_ident m v = Inr s \<Longrightarrow> ident_ok s"
  by (auto simp: require_ident_def ident_ok_def split: json.splits if_splits)

lemma validate_rule_ok:
  assumes "validate_rule source raw = Inr r" shows "rule_ok r"
proof -
  obtain d where d: "raw = JObj d" "fst ` set d \<subseteq> set (map ucs_of ALLOWED_FIELDS)"
    using assms by (cases raw) (auto simp: validate_rule_def split: if_splits)
  obtain name roles resource action where m: "jobj_get d ''name'' = Some name" "jobj_get d ''roles'' = Some roles"
    "jobj_get d ''resource'' = Some resource" "jobj_get d ''action'' = Some action"
    using assms d by (auto simp: validate_rule_def split: option.splits)
  obtain u t where n: "name = JStr (u # t)"
    using assms d m by (auto simp: validate_rule_def split: json.splits list.splits)
  obtain x xs where x: "json_texts roles = Some (x # xs)"
    using assms d m n by (auto simp: validate_rule_def Let_def split: option.splits list.splits)
  show ?thesis
    using assms d m n x
    by (auto simp: validate_rule_def Let_def rbind_eq_Inr rule_ok_def ANY_def dest: require_ident_ok split: option.splits json.splits list.splits if_splits)
qed

definition rules_ok :: "rule list \<Rightarrow> bool" where
  "rules_ok rules = (list_all rule_ok rules \<and> distinct (map ru_name rules))"

lemma add_rules_ok: "add_rules source raws acc = Inr rules \<Longrightarrow> rules_ok acc \<Longrightarrow> rules_ok rules"
proof (induction source raws acc rule: add_rules.induct)
  case (2 source raw raws acc)
  then obtain r where r: "validate_rule source raw = Inr r" "ru_name r \<notin> ru_name ` set acc" "add_rules source raws (acc @ [r]) = Inr rules"
    by (auto simp: rbind_eq_Inr split: if_splits)
  have "rules_ok (acc @ [r])" using 2(3) r(2) validate_rule_ok [OF r(1)] by (auto simp: rules_ok_def)
  with 2(1) r show ?case by blast
qed simp

lemma load_doc_ok: "load_doc source doc acc = Inr rules \<Longrightarrow> rules_ok acc \<Longrightarrow> rules_ok rules"
  by (auto simp: load_doc_def intro: add_rules_ok split: json.splits if_splits option.splits)

lemma load_files_ok: "load_files rf fs acc = Inr rules \<Longrightarrow> rules_ok acc \<Longrightarrow> rules_ok rules"
proof (induction fs arbitrary: acc)
  case (Cons f fs)
  then obtain mid where m: "load_file rf f acc = Inr mid" "load_files rf fs mid = Inr rules" by (auto simp: rbind_eq_Inr)
  have "rules_ok mid"
    using m(1) Cons.prems(2) by (auto simp: load_file_def intro: load_doc_ok split: prod.splits sum.splits option.splits)
  with Cons.IH m(2) show ?case by blast
qed simp

lemma shipped_rules_loaded: "load_doc source SHIPPED_POLICY [] = Inr shipped_rules"
  by code_simp

lemma engine_load_ok:
  assumes "engine_load rf policy_dir dir = Inr e"
  shows "en_rules e \<noteq> []" "rules_ok (en_rules e)" "en_denied_total e = 0"
proof -
  obtain files where f: "load_files rf (sort_key (\<lambda>f. ucs_of (fst f)) files) [] = Inr (en_rules e)" "en_rules e \<noteq> []" "en_denied_total e = 0"
    using assms by (auto simp: engine_load_def mk_engine_def rbind_eq_Inr split: option.splits if_splits)
  then show "en_rules e \<noteq> []" "en_denied_total e = 0" by simp_all
  show "rules_ok (en_rules e)" by (rule load_files_ok [OF f(1)]) (simp add: rules_ok_def)
qed

text \<open>C25: A policy that loads is well formed: it has a rule, rule names are unique over all files, every rule has a name, a
  role, well-formed resource and action names and known classification labels; and the engine built from it has
  denied nothing yet. The shipped policy is such a policy.\<close>

theorem loaded_policy_wellformed:
  assumes "engine_load rf policy_dir dir = Inr e"
  shows "en_rules e \<noteq> [] \<and> rules_ok (en_rules e) \<and> en_denied_total e = 0"
  using engine_load_ok [OF assms] by simp

definition toy_policy_text :: ucs where
  "toy_policy_text = ucs_of (toy_text ''{!version!:!1.0!,!policies!:[{!name!:!r!,!roles!:[!auditor!],!resource!:!*!,!action!:!read!}]}'')"

lemma toy_policy_loads: "engine_load (\<lambda>_. FNan) ''p'' (Some [(''a.policy.json'', Inr toy_policy_text)]) =
   Inr \<lparr>en_rules = [mk_rule ''r'' [''auditor''] ''*'' ''read'' [''*'']], en_denied_total = 0\<rparr>"
  by code_simp

theorem loaded_policy_wellformed_witness:
  "rules_ok [mk_rule ''r'' [''auditor''] ''*'' ''read'' [''*'']]"
  using loaded_policy_wellformed [OF toy_policy_loads] by simp

subsection \<open>Duties\<close>

definition holds_role :: "identity \<Rightarrow> string \<Rightarrow> bool" where
  "holds_role ident r = (JStr (ucs_of r) \<in> idn_roles ident)"

lemma mk_rule_matches:
  "rule_matches (mk_rule name roles res act classes) ident resource action classification \<longleftrightarrow>
    (''*'' \<in> set roles \<or> (\<exists>r \<in> set roles. holds_role ident r)) \<and> (res = ''*'' \<or> res = resource) \<and> (act = ''*'' \<or> act = action) \<and>
    (''*'' \<in> set classes \<or> classification \<in> set classes)"
proof -
  have any: "ANY \<in> ucs_of ` A \<longleftrightarrow> ''*'' \<in> A" "ucs_of s = ANY \<longleftrightarrow> s = ''*''" for A s by (auto simp: ANY_def)
  have im: "ucs_of x \<in> ucs_of ` A \<longleftrightarrow> x \<in> A" for x A by auto
  show ?thesis
    by (auto simp: rule_matches_def mk_rule_def any im holds_role_def)
qed

definition shipped_engine :: "int \<Rightarrow> policy_engine" where
  "shipped_engine n = \<lparr>en_rules = shipped_rules, en_denied_total = n\<rparr>"

definition permitted :: "identity \<Rightarrow> string \<Rightarrow> string \<Rightarrow> string \<Rightarrow> bool" where
  "permitted ident resource action classification = fst (allow (shipped_engine 0) ident resource action classification)"

lemma permitted_shipped:
  "permitted ident resource action classification \<longleftrightarrow>
    (\<exists>r \<in> set shipped_rules. rule_matches r ident resource action classification)"
  by (auto simp: permitted_def allow_def shipped_engine_def list_ex_iff)

lemmas shipped_decisions = permitted_shipped shipped_rules_def mk_rule_matches

lemma single_role: "idn_roles ident = {role} \<Longrightarrow> a \<noteq> b \<Longrightarrow> \<not> (holds_role ident a \<and> holds_role ident b)"
  unfolding holds_role_def by (metis json.inject(4) singletonD ucs_of_inj)

text \<open>C12: The shipped policy separates duties. Reading is all an auditor can do, and an auditor can do it everywhere. Only an
  approver approves assessments or voids stamps, only an inspector records inspections, only the rail's callback records
  receipts. And nobody with a single role, whatever the role, both submits and approves assessments, issues and
  inspects batches, inspects and activates them, or creates payment intents and settles them.\<close>

theorem shipped_policy_separates_duties:
  "load_doc source SHIPPED_POLICY [] = Inr shipped_rules \<and>
   (idn_roles ident = {jstr ''auditor''} \<longrightarrow> (permitted ident resource action classification \<longleftrightarrow> action = ''read'')) \<and>
   (permitted ident ''assessment'' ''approve'' classification \<longrightarrow> holds_role ident ''excise-approver'') \<and>
   (permitted ident ''stamp'' ''void'' classification \<longrightarrow> holds_role ident ''excise-approver'') \<and>
   (permitted ident ''batch'' ''inspect'' classification \<longrightarrow> holds_role ident ''quality-inspector'') \<and>
   (permitted ident ''payment'' ''settle'' classification \<longrightarrow> holds_role ident ''finance-rail-callback'') \<and>
   (idn_roles ident = {role} \<longrightarrow>
      \<not> (permitted ident ''assessment'' ''create'' c1 \<and> permitted ident ''assessment'' ''approve'' c2) \<and>
      \<not> (permitted ident ''batch'' ''issue'' c1 \<and> permitted ident ''batch'' ''inspect'' c2) \<and>
      \<not> (permitted ident ''batch'' ''inspect'' c1 \<and> permitted ident ''batch'' ''activate'' c2) \<and>
      \<not> (permitted ident ''payment'' ''create'' c1 \<and> permitted ident ''payment'' ''settle'' c2))"
proof (intro conjI impI)
  show "load_doc source SHIPPED_POLICY [] = Inr shipped_rules" by (rule shipped_rules_loaded)
  show "permitted ident resource action classification \<longleftrightarrow> action = ''read''" if "idn_roles ident = {jstr ''auditor''}"
    using that by (auto simp: shipped_decisions holds_role_def)
  show "permitted ident ''assessment'' ''approve'' classification \<Longrightarrow> holds_role ident ''excise-approver''"
    "permitted ident ''stamp'' ''void'' classification \<Longrightarrow> holds_role ident ''excise-approver''"
    "permitted ident ''batch'' ''inspect'' classification \<Longrightarrow> holds_role ident ''quality-inspector''"
    "permitted ident ''payment'' ''settle'' classification \<Longrightarrow> holds_role ident ''finance-rail-callback''"
    by (simp_all add: shipped_decisions)
  assume r: "idn_roles ident = {role}"
  show "\<not> (permitted ident ''assessment'' ''create'' c1 \<and> permitted ident ''assessment'' ''approve'' c2)"
    "\<not> (permitted ident ''batch'' ''issue'' c1 \<and> permitted ident ''batch'' ''inspect'' c2)"
    "\<not> (permitted ident ''batch'' ''inspect'' c1 \<and> permitted ident ''batch'' ''activate'' c2)"
    "\<not> (permitted ident ''payment'' ''create'' c1 \<and> permitted ident ''payment'' ''settle'' c2)"
    using single_role [OF r, of "''excise-officer''" "''excise-approver''"] single_role [OF r, of "''customs-officer''" "''excise-approver''"]
      single_role [OF r, of "''excise-officer''" "''quality-inspector''"] single_role [OF r, of "''quality-inspector''" "''excise-approver''"]
      single_role [OF r, of "''excise-approver''" "''finance-rail-callback''"] single_role [OF r, of "''finance-officer''" "''finance-rail-callback''"]
    by (simp_all add: shipped_decisions) blast+
qed

definition toy_auditor :: identity where
  "toy_auditor = \<lparr>idn_subject = ucs_of ''ada'', idn_roles = {jstr ''auditor''}, idn_tenant = [], idn_clearance = []\<rparr>"

theorem shipped_policy_separates_duties_witness:
  "permitted toy_auditor ''ops'' ''read'' ''INTERNAL'' \<and> \<not> permitted toy_auditor ''stamp'' ''void'' ''CONFIDENTIAL'' \<and>
   \<not> (permitted toy_auditor ''batch'' ''issue'' ''CONFIDENTIAL'' \<and> permitted toy_auditor ''batch'' ''inspect'' ''CONFIDENTIAL'')"
  using shipped_policy_separates_duties [of "[]" toy_auditor "''ops''" "''read''" "''INTERNAL''" "jstr ''auditor''" "''CONFIDENTIAL''" "''CONFIDENTIAL''"]
    shipped_policy_separates_duties [of "[]" toy_auditor "''stamp''" "''void''" "''CONFIDENTIAL''"]
  by (simp add: toy_auditor_def)

end
