(* ===== verification/Boot.thy ===== *)
theory Boot
  imports Policy Outbox
begin

section \<open>Starting the service\<close>

text \<open>
  \<open>src/taxstamps/main.py\<close>, \<open>load_signing_key\<close> of \<open>crypto/eddsa.py\<close> and the start of the two workers
  (\<open>events/consumer.py\<close>, \<open>events/outbox_publisher.py\<close>): the checks that have to pass before anything is served.
  What is read from files is a parameter: what the path holds, and what the PEM parser and Unicode upper-casing make of it.
\<close>

subsection \<open>The signing key\<close>

text \<open>A key file: absent when the path is no regular file or a symbolic link.\<close>

record key_file =
  kf_mode :: nat
  kf_content :: bytes

text \<open>\<open>kl_upper\<close> is \<open>decode("utf-8", "ignore").upper()\<close>; \<open>kl_pem\<close> parses, and tells Ed25519 keys from others.\<close>

record 'sk key_lib =
  kl_upper :: "bytes \<Rightarrow> ucs"
  kl_pem :: "bytes \<Rightarrow> string + 'sk option"

definition PLACEHOLDER_MARKERS :: "string list" where
  "PLACEHOLDER_MARKERS = [''CHANGE_ME'', ''CHANGEME'', ''PLACEHOLDER'', ''DUMMY'', ''EXAMPLE-KEY'', ''REPLACE_ME'']"

fun occurs :: "'a list \<Rightarrow> 'a list \<Rightarrow> bool" where
  "occurs m [] = (m = [])"
| "occurs m (c # s) = (take (length m) (c # s) = m \<or> occurs m s)"

text \<open>Bits 077 of the mode: any access of the group or of others.\<close>

definition shared_mode :: "nat \<Rightarrow> bool" where
  "shared_mode mode = (mode mod 64 \<noteq> 0)"

definition load_signing_key ::
  "'sk key_lib \<Rightarrow> string option \<Rightarrow> string \<Rightarrow> ucs \<Rightarrow> key_file option \<Rightarrow> 'sk signing_key result" where
  "load_signing_key lib permissive path kid file =
    (case file of
       None \<Rightarrow> Inl (JwsError ''key-unavailable'' (''signing key '' @ path @ '' is not a regular non-symlink file''))
     | Some f \<Rightarrow>
         if shared_mode (kf_mode f) \<and> permissive \<noteq> Some ''1''
         then Inl (JwsError ''key-unavailable'' (''signing key '' @ path @ '' must not be group/world-readable''))
         else (case find (\<lambda>m. occurs (ucs_of m) (kl_upper lib (kf_content f))) PLACEHOLDER_MARKERS of
             Some m \<Rightarrow> Inl (JwsError ''placeholder-key'' (''signing key '' @ path @ '' contains placeholder marker '' @ m))
           | None \<Rightarrow>
               (case kl_pem lib (kf_content f) of
                  Inl e \<Rightarrow> Inl (JwsError ''key-unavailable'' (''cannot parse signing key: '' @ e))
                | Inr None \<Rightarrow> Inl (JwsError ''key-unavailable'' ''signing key is not an Ed25519 private key'')
                | Inr (Some key) \<Rightarrow> Inr \<lparr>sk_kid = kid, sk_private_key = key\<rparr>)))"

subsection \<open>The application\<close>

record 'sk application =
  app_settings :: settings
  app_signing_key :: "'sk signing_key"
  app_policy_engine :: policy_engine
  app_keyring :: "keyring option"
  app_kafka_available :: bool

text \<open>What a process finds on its disk and on the network.\<close>

record host =
  ho_permissive :: "string option"
  ho_key_file :: "key_file option"
  ho_policy_files :: "(string \<times> (string + ucs)) list option"
  ho_jwks_file :: "ucs result option"
  ho_jwks_fetch :: "string \<Rightarrow> json result"

definition require_setting :: "string \<Rightarrow> string \<Rightarrow> unit result" where
  "require_setting name v = check (v \<noteq> []) (RuntimeError (name @ '' is required''))"

text \<open>\<open>lifespan\<close>, up to \<open>yield\<close>; \<open>get_settings\<close> validates the database URL. The engine and the Redis client connect lazily.\<close>

definition boot ::
  "'sk key_lib \<Rightarrow> jwk_lib \<Rightarrow> (string \<Rightarrow> pyfloat) \<Rightarrow> settings \<Rightarrow> host \<Rightarrow> 'sk application result" where
  "boot klib jlib rf s ho =
    rbind (db_url_validator (cf_database_url s)) (\<lambda>_.
    rbind (require_setting ''TAXSTAMPS_DATABASE_URL'' (cf_database_url s)) (\<lambda>_.
    rbind (require_setting ''TAXSTAMPS_SIGNING_KEY_PATH'' (cf_signing_key_path s)) (\<lambda>_.
    rbind (require_setting ''TAXSTAMPS_ISSUER_DID'' (cf_issuer_did s)) (\<lambda>_.
    rbind (require_setting ''TAXSTAMPS_POLICY_DIR'' (cf_policy_dir s)) (\<lambda>_.
    rbind (load_signing_key klib (ho_permissive ho) (cf_signing_key_path s) (ucs_of KID) (ho_key_file ho)) (\<lambda>key.
    rbind (engine_load rf (cf_policy_dir s) (ho_policy_files ho)) (\<lambda>engine.
    rbind (if oidc_configured s then rbind (keyring_load jlib rf s (ho_jwks_file ho) (ho_jwks_fetch ho)) (\<lambda>ring. Inr (Some ring)) else Inr None)
      (\<lambda>keys. Inr \<lparr>app_settings = s, app_signing_key = key, app_policy_engine = engine, app_keyring = keys,
         app_kafka_available = kafka_configured s\<rparr>))))))))"

text \<open>The status of an answer: what no handler catches is a 500.\<close>

definition response_status :: "int \<Rightarrow> 'a result \<Rightarrow> int" where
  "response_status success r = (case r of Inr _ \<Rightarrow> success | Inl (HTTPException status _) \<Rightarrow> status | Inl _ \<Rightarrow> 500)"

subsection \<open>The workers\<close>

definition require_worker :: "string \<Rightarrow> bool \<Rightarrow> string \<Rightarrow> unit result" where
  "require_worker name ok worker = check ok (RuntimeError (name @ '' is required for the '' @ worker))"

text \<open>The topics of the consumer, as a regular expression: dots are literal, stars match anything.\<close>

definition topic_regex :: "string \<Rightarrow> string" where
  "topic_regex pattern = ''^'' @ concat (map (\<lambda>c. if c = CHR ''.'' then [CHR 0x5C, CHR ''.''] else if c = CHR ''*'' then ''.*'' else [c]) pattern) @ ''$''"

definition start_consumer ::
  "(string \<Rightarrow> pyfloat) \<Rightarrow> settings \<Rightarrow> (string + ucs) option \<Rightarrow> (key_directory \<times> string) result" where
  "start_consumer rf s file =
    rbind (db_url_validator (cf_database_url s)) (\<lambda>_.
    rbind (require_worker ''TAXSTAMPS_KAFKA_BOOTSTRAP_SERVERS'' (kafka_configured s) ''consumer'') (\<lambda>_.
    rbind (require_worker ''TAXSTAMPS_KEY_DIRECTORY_PATH'' (cf_key_directory_path s \<noteq> []) ''consumer'') (\<lambda>_.
    rbind (require_worker ''TAXSTAMPS_DATABASE_URL'' (cf_database_url s \<noteq> []) ''consumer'') (\<lambda>_.
    rbind (directory_load rf (cf_key_directory_path s) file) (\<lambda>directory.
      Inr (directory, topic_regex (cf_kafka_declarations_topic_pattern s)))))))"

definition start_publisher :: "settings \<Rightarrow> unit result" where
  "start_publisher s =
    rbind (db_url_validator (cf_database_url s)) (\<lambda>_.
    rbind (require_worker ''TAXSTAMPS_KAFKA_BOOTSTRAP_SERVERS'' (kafka_configured s) ''outbox publisher'') (\<lambda>_.
      require_worker ''TAXSTAMPS_DATABASE_URL'' (cf_database_url s \<noteq> []) ''outbox publisher''))"

subsection \<open>Starting is fail-closed\<close>

lemma occurs_append: "occurs m s \<longleftrightarrow> (\<exists>xs ys. s = xs @ m @ ys)"
proof (induction s)
  case (Cons c s)
  show ?case
  proof
    assume "occurs m (c # s)"
    then consider "take (length m) (c # s) = m" | "occurs m s" by auto
    then show "\<exists>xs ys. c # s = xs @ m @ ys"
    proof cases
      case 1
      then have "c # s = [] @ m @ drop (length m) (c # s)" by (metis append.left_neutral append_take_drop_id)
      then show ?thesis by blast
    next
      case 2
      with Cons.IH obtain xs ys where "s = xs @ m @ ys" by blast
      then have "c # s = (c # xs) @ m @ ys" by simp
      then show ?thesis by blast
    qed
  next
    assume "\<exists>xs ys. c # s = xs @ m @ ys"
    then obtain xs ys where e: "c # s = xs @ m @ ys" by blast
    show "occurs m (c # s)"
    proof (cases xs)
      case Nil
      with e have "take (length m) (c # s) = m" by simp
      then show ?thesis by simp
    next
      case (Cons x xs')
      with e have "s = xs' @ m @ ys" by simp
      with Cons.IH show ?thesis by auto
    qed
  qed
qed auto

lemma load_signing_key_Inr:
  assumes "load_signing_key lib permissive path kid file = Inr key"
  obtains f where "file = Some f" "shared_mode (kf_mode f) \<Longrightarrow> permissive = Some ''1''"
    "\<And>m. m \<in> set PLACEHOLDER_MARKERS \<Longrightarrow> \<not> occurs (ucs_of m) (kl_upper lib (kf_content f))"
    "kl_pem lib (kf_content f) = Inr (Some (sk_private_key key))" "sk_kid key = kid"
proof -
  obtain f where f: "file = Some f" "\<not> (shared_mode (kf_mode f) \<and> permissive \<noteq> Some ''1'')"
    using assms by (auto simp: load_signing_key_def split: option.splits if_splits)
  have none: "find (\<lambda>m. occurs (ucs_of m) (kl_upper lib (kf_content f))) PLACEHOLDER_MARKERS = None"
    using assms f by (auto simp: load_signing_key_def split: option.splits)
  have "kl_pem lib (kf_content f) = Inr (Some (sk_private_key key)) \<and> sk_kid key = kid"
    using assms f none by (auto simp: load_signing_key_def split: sum.splits option.splits)
  with f none that [of f] show ?thesis by (auto simp: find_None_iff)
qed

lemma keyring_load_nonempty:
  assumes "keyring_load lib rf s file fetch = Inr ring" shows "ring \<noteq> []"
proof -
  obtain data where data: "(case data of
         JObj doc \<Rightarrow>
           rbind (json_iter (case jobj_get doc ''keys'' of None \<Rightarrow> JArr [] | Some v \<Rightarrow> v)) (\<lambda>ks.
           rbind (load_jwks lib ks []) mk_keyring)
       | _ \<Rightarrow> Inl (AttributeError ''get'')) = Inr ring"
    using assms unfolding keyring_load_def by (elim rbindE)
  then obtain doc where "data = JObj doc" by (cases data) simp_all
  with data obtain keys where "mk_keyring keys = Inr ring" by (auto simp: rbind_eq_Inr)
  then show ?thesis by (auto simp: mk_keyring_def split: if_splits)
qed

text \<open>C24: The service starts only when everything it depends on is there: a PostgreSQL URL, an issuer, the paths of the signing
  key and of the policies, a signing key that parses, is not shared with other users of the host (unless that is explicitly allowed) and holds no placeholder text
  anywhere, a well-formed non-empty policy, and - exactly when OIDC is configured - a non-empty keyring. A service
  started without OIDC answers 503 to every request that needs an identity.\<close>

theorem boot_fail_closed:
  assumes "boot klib jlib rf s ho = Inr app"
  shows "app_settings app = s \<and> take 21 (cf_database_url s) = ''postgresql+asyncpg://'' \<and> cf_issuer_did s \<noteq> [] \<and>
    cf_signing_key_path s \<noteq> [] \<and> cf_policy_dir s \<noteq> [] \<and>
    (\<exists>f. ho_key_file ho = Some f \<and> (kf_mode f mod 64 = 0 \<or> ho_permissive ho = Some ''1'') \<and>
       (\<forall>m \<in> set PLACEHOLDER_MARKERS. \<nexists>xs ys. kl_upper klib (kf_content f) = xs @ ucs_of m @ ys) \<and>
       kl_pem klib (kf_content f) = Inr (Some (sk_private_key (app_signing_key app)))) \<and> sk_kid (app_signing_key app) = ucs_of KID \<and>
    en_rules (app_policy_engine app) \<noteq> [] \<and> rules_ok (en_rules (app_policy_engine app)) \<and>
    (case app_keyring app of
       Some ring \<Rightarrow> oidc_configured s \<and> ring \<noteq> []
     | None \<Rightarrow> \<not> oidc_configured s \<and> (\<forall>now auth. response_status 200 (get_identity jlib rf s now (app_keyring app) auth) = 503))"
proof -
  obtain u key engine keys where paths: "cf_signing_key_path s \<noteq> []" "cf_policy_dir s \<noteq> []"
    and run: "db_url_validator (cf_database_url s) = Inr u" "cf_database_url s \<noteq> []" "cf_issuer_did s \<noteq> []"
    "load_signing_key klib (ho_permissive ho) (cf_signing_key_path s) (ucs_of KID) (ho_key_file ho) = Inr key"
    "engine_load rf (cf_policy_dir s) (ho_policy_files ho) = Inr engine"
    "(if oidc_configured s then rbind (keyring_load jlib rf s (ho_jwks_file ho) (ho_jwks_fetch ho)) (\<lambda>ring. Inr (Some ring)) else Inr None) = Inr keys"
    and app: "app = \<lparr>app_settings = s, app_signing_key = key, app_policy_engine = engine, app_keyring = keys, app_kafka_available = kafka_configured s\<rparr>"
    using assms unfolding boot_def require_setting_def by (elim rbindE) (auto simp: check_eq_Inr)
  have url: "take 21 (cf_database_url s) = ''postgresql+asyncpg://''"
    using run(1,2) by (simp add: db_url_validator_def split: if_splits)
  obtain f where f: "ho_key_file ho = Some f" "shared_mode (kf_mode f) \<Longrightarrow> ho_permissive ho = Some ''1''"
    "\<And>m. m \<in> set PLACEHOLDER_MARKERS \<Longrightarrow> \<not> occurs (ucs_of m) (kl_upper klib (kf_content f))"
    "kl_pem klib (kf_content f) = Inr (Some (sk_private_key key))" "sk_kid key = ucs_of KID"
    using load_signing_key_Inr [OF run(4)] by blast
  have engine: "en_rules engine \<noteq> []" "rules_ok (en_rules engine)" using engine_load_ok [OF run(5)] by simp_all
  have ring: "case keys of Some ring \<Rightarrow> oidc_configured s \<and> ring \<noteq> []
     | None \<Rightarrow> \<not> oidc_configured s \<and> (\<forall>now auth. response_status 200 (get_identity jlib rf s now keys auth) = 503)"
  proof (cases "oidc_configured s")
    case True
    then obtain r where "keyring_load jlib rf s (ho_jwks_file ho) (ho_jwks_fetch ho) = Inr r" "keys = Some r"
      using run(6) by (auto simp: rbind_eq_Inr)
    with True keyring_load_nonempty show ?thesis by simp
  next
    case False
    with run(6) show ?thesis by (auto simp: get_identity_def response_status_def)
  qed
  have "\<exists>f. ho_key_file ho = Some f \<and> (kf_mode f mod 64 = 0 \<or> ho_permissive ho = Some ''1'') \<and>
       (\<forall>m \<in> set PLACEHOLDER_MARKERS. \<nexists>xs ys. kl_upper klib (kf_content f) = xs @ ucs_of m @ ys) \<and>
       kl_pem klib (kf_content f) = Inr (Some (sk_private_key key))"
    using f by (intro exI [of _ f]) (simp add: shared_mode_def occurs_append, blast)
  with url run(3) paths f(5) engine ring show ?thesis
    unfolding app application.select_convs by (intro conjI refl)
qed

definition toy_host :: host where
  "toy_host = \<lparr>ho_permissive = None, ho_key_file = Some \<lparr>kf_mode = 384, kf_content = [75, 69, 89]\<rparr>,
     ho_policy_files = Some [(''a.policy.json'', Inr toy_policy_text)], ho_jwks_file = None, ho_jwks_fetch = \<lambda>_. Inl (ValueError ''offline'')\<rparr>"

definition toy_key_lib :: "bytes key_lib" where
  "toy_key_lib = \<lparr>kl_upper = map unat, kl_pem = \<lambda>b. Inr (Some b)\<rparr>"

definition toy_boot_settings :: settings where
  "toy_boot_settings = default_settings\<lparr>cf_database_url := ''postgresql+asyncpg://db'', cf_signing_key_path := ''k'', cf_issuer_did := ''did:web:x'', cf_policy_dir := ''p''\<rparr>"

lemma toy_boots: "boot toy_key_lib toy_lib (\<lambda>_. FNan) toy_boot_settings toy_host =
   Inr \<lparr>app_settings = toy_boot_settings, app_signing_key = \<lparr>sk_kid = ucs_of KID, sk_private_key = [75, 69, 89]\<rparr>,
     app_policy_engine = \<lparr>en_rules = [mk_rule ''r'' [''auditor''] ''*'' ''read'' [''*'']], en_denied_total = 0\<rparr>, app_keyring = None, app_kafka_available = False\<rparr>"
proof -
  have e: "engine_load (\<lambda>_. FNan) ''p'' (Some [(''a.policy.json'', Inr toy_policy_text)]) =
     Inr \<lparr>en_rules = [mk_rule ''r'' [''auditor''] ''*'' ''read'' [''*'']], en_denied_total = 0\<rparr>" by (rule toy_policy_loads)
  show ?thesis
    by (simp add: boot_def toy_boot_settings_def default_settings_def db_url_validator_def require_setting_def check_def toy_host_def e
        load_signing_key_def shared_mode_def PLACEHOLDER_MARKERS_def toy_key_lib_def ucs_of_def oidc_configured_def kafka_configured_def)
qed

theorem boot_fail_closed_witness:
  "response_status 200 (get_identity toy_lib (\<lambda>_. FNan) toy_boot_settings 0 None ''Bearer x'') = 503"
  using boot_fail_closed [OF toy_boots] by simp

text \<open>A placeholder stops the start, wherever it is in the file.\<close>

lemma placeholder_refused:
  "load_signing_key toy_key_lib None ''k'' (ucs_of KID) (Some \<lparr>kf_mode = 384, kf_content = map word_of_nat (ucs_of ''xDUMMYx'')\<rparr>) =
    Inl (JwsError ''placeholder-key'' ''signing key k contains placeholder marker DUMMY'')"
  by code_simp

end
