(* ===== verification/AuditChain.thy ===== *)
theory AuditChain
  imports Config
begin

section \<open>The audit chain\<close>

text \<open>
  \<open>src/taxstamps/services/audit.py\<close>. An event's hash is SHA-256 over the previous hash, a
  dot and the canonical bytes of its type, payload and time. \<open>json.loads(json.dumps(payload))\<close>
  gives back the payload of a JSON value. The advisory lock makes the transactions that record
  events run one after the other, which is how operations run here. The id of a new row is one more
  than the last (a rolled back transaction leaves a gap in PostgreSQL; the order is the same).
\<close>

definition GENESIS_HASH :: string where
  "GENESIS_HASH = replicate 64 (CHR ''0'')"

definition chain_body :: "string \<Rightarrow> json \<Rightarrow> string \<Rightarrow> json" where
  "chain_body event_type payload created_iso = JObj
     [(ucs_of ''eventType'', jstr event_type), (ucs_of ''payload'', payload), (ucs_of ''recordedAt'', jstr created_iso)]"

definition chain_hash :: "(bytes \<Rightarrow> bytes) \<Rightarrow> string \<Rightarrow> string \<Rightarrow> json \<Rightarrow> string \<Rightarrow> string result" where
  "chain_hash sha256 prev_hash event_type payload created_iso =
    rbind (canonicalize_bytes (chain_body event_type payload created_iso)) (\<lambda>body.
    rbind (ascii_bytes prev_hash) (\<lambda>prev.
      Inr (hexdigest (sha256 (prev @ [46] @ body)))))"

definition audit_rows :: "db \<Rightarrow> audit_event list" where
  "audit_rows d = sort_key ae_id (db_audit_events d)"

definition audit_record :: "'sk env \<Rightarrow> datetime \<Rightarrow> string \<Rightarrow> json \<Rightarrow> db \<Rightarrow> (audit_event \<times> db) result" where
  "audit_record env now event_type payload d =
    (let rows = audit_rows d;
         prev_hash = (if rows = [] then GENESIS_HASH else ae_hash (last rows));
         new_id = (if rows = [] then 1 else ae_id (last rows) + 1);
         created_iso = strftime_micros now
     in rbind (chain_hash (en_sha256 env) prev_hash event_type payload created_iso) (\<lambda>h.
        let event = \<lparr>ae_id = new_id, ae_prev_hash = prev_hash, ae_hash = h, ae_event_type = event_type,
                     ae_payload = payload, ae_created_at = now\<rparr>
        in rbind (insert_audit_event event d) (\<lambda>d1. Inr (event, d1))))"

record chain_verification =
  cv_ok :: bool
  cv_events :: int
  cv_first_bad_id :: "int option"
  cv_detail :: string

fun verify_rows :: "(bytes \<Rightarrow> bytes) \<Rightarrow> string \<Rightarrow> nat \<Rightarrow> audit_event list \<Rightarrow> chain_verification result" where
  "verify_rows sha256 prev n [] = Inr \<lparr>cv_ok = True, cv_events = int n, cv_first_bad_id = None, cv_detail = []\<rparr>"
| "verify_rows sha256 prev n (row # rows) =
    rbind (chain_hash sha256 prev (ae_event_type row) (ae_payload row) (strftime_micros (ae_created_at row))) (\<lambda>expected.
      if ae_prev_hash row \<noteq> prev
      then Inr \<lparr>cv_ok = False, cv_events = ae_id row, cv_first_bad_id = Some (ae_id row), cv_detail = ''prev_hash link broken''\<rparr>
      else if ae_hash row \<noteq> expected
      then Inr \<lparr>cv_ok = False, cv_events = ae_id row, cv_first_bad_id = Some (ae_id row), cv_detail = ''hash mismatch: payload tampered''\<rparr>
      else verify_rows sha256 (ae_hash row) n rows)"

definition verify_chain :: "'sk env \<Rightarrow> db \<Rightarrow> chain_verification result" where
  "verify_chain env d = verify_rows (en_sha256 env) GENESIS_HASH (length (db_audit_events d)) (audit_rows d)"

subsection \<open>Valid chains\<close>

text \<open>The chain as a property of the rows: each links to the one before and has the right hash.\<close>

fun linked :: "(bytes \<Rightarrow> bytes) \<Rightarrow> string \<Rightarrow> audit_event list \<Rightarrow> bool" where
  "linked sha256 prev [] = True"
| "linked sha256 prev (row # rows) =
    (ae_prev_hash row = prev \<and>
     chain_hash sha256 prev (ae_event_type row) (ae_payload row) (strftime_micros (ae_created_at row)) = Inr (ae_hash row) \<and>
     linked sha256 (ae_hash row) rows)"

definition chain_ok :: "'sk env \<Rightarrow> db \<Rightarrow> bool" where
  "chain_ok env d = linked (en_sha256 env) GENESIS_HASH (audit_rows d)"

lemma verify_rows_linked:
  "verify_rows sha256 prev n rows = Inr \<lparr>cv_ok = True, cv_events = int n, cv_first_bad_id = None, cv_detail = []\<rparr> \<longleftrightarrow> linked sha256 prev rows"
  by (induction sha256 prev n rows rule: verify_rows.induct) (auto simp: rbind_eq_Inr)

lemma verify_rows_ok: "verify_rows sha256 prev n rows = Inr v \<Longrightarrow> cv_ok v \<longleftrightarrow> linked sha256 prev rows"
  by (induction sha256 prev n rows rule: verify_rows.induct) (auto simp: rbind_eq_Inr split: if_splits)

definition last_hash :: "string \<Rightarrow> audit_event list \<Rightarrow> string" where
  "last_hash prev rows = (if rows = [] then prev else ae_hash (last rows))"

lemma linked_append:
  "linked sha256 prev (xs @ ys) \<longleftrightarrow> linked sha256 prev xs \<and> linked sha256 (last_hash prev xs) ys"
  by (induction xs arbitrary: prev) (auto simp: last_hash_def)

lemma audit_rows_Nil: "audit_rows d = [] \<longleftrightarrow> db_audit_events d = []"
  by (metis audit_rows_def length_0_conv length_sort)

lemma audit_rows_bound: "x \<in> set (db_audit_events d) \<Longrightarrow> ae_id x \<le> ae_id (last (audit_rows d))"
proof -
  assume x: "x \<in> set (db_audit_events d)"
  then have "audit_rows d \<noteq> []" by (auto simp: audit_rows_Nil)
  then obtain ys y where ys: "audit_rows d = ys @ [y]" by (cases "audit_rows d" rule: rev_cases) auto
  have "x \<in> set (audit_rows d)" using x by (simp add: audit_rows_def)
  moreover have "sorted (map ae_id (audit_rows d))" by (simp add: audit_rows_def)
  ultimately show ?thesis by (auto simp: ys sorted_append)
qed

lemma audit_record_rows:
  assumes "audit_record env now event_type payload d = Inr (event, d')"
  shows "d' = d\<lparr>db_audit_events := db_audit_events d @ [event]\<rparr>" "audit_rows d' = audit_rows d @ [event]"
    "linked (en_sha256 env) (last_hash GENESIS_HASH (audit_rows d)) [event]"
    "ae_event_type event = event_type" "ae_payload event = payload" "ae_created_at event = now"
proof -
  let ?rows = "audit_rows d"
  obtain h where h: "chain_hash (en_sha256 env) (last_hash GENESIS_HASH ?rows) event_type payload (strftime_micros now) = Inr h"
    and e: "event = \<lparr>ae_id = (if ?rows = [] then 1 else ae_id (last ?rows) + 1), ae_prev_hash = last_hash GENESIS_HASH ?rows,
        ae_hash = h, ae_event_type = event_type, ae_payload = payload, ae_created_at = now\<rparr>"
    and i: "insert_audit_event event d = Inr d'"
    using assms by (auto simp: audit_record_def last_hash_def Let_def rbind_eq_Inr)
  show d': "d' = d\<lparr>db_audit_events := db_audit_events d @ [event]\<rparr>" by (rule insert_audit_event_ok [OF i])
  have "\<forall>x \<in> set (db_audit_events d). ae_id x < ae_id event"
  proof
    fix x assume x: "x \<in> set (db_audit_events d)"
    then have "?rows \<noteq> []" by (auto simp: audit_rows_Nil)
    with audit_rows_bound [OF x] e show "ae_id x < ae_id event" by simp
  qed
  then show "audit_rows d' = ?rows @ [event]" by (simp add: audit_rows_def d' sort_key_snoc)
  show "linked (en_sha256 env) (last_hash GENESIS_HASH ?rows) [event]" using h e by simp
  show "ae_event_type event = event_type" "ae_payload event = payload" "ae_created_at event = now" using e by simp_all
qed

lemma audit_record_chain_ok:
  "chain_ok env d \<Longrightarrow> audit_record env now event_type payload d = Inr (event, d') \<Longrightarrow> chain_ok env d'"
  using audit_record_rows(2,3) [of env now event_type payload d event d'] by (simp add: chain_ok_def linked_append)

lemma chain_ok_same_rows: "db_audit_events d' = db_audit_events d \<Longrightarrow> chain_ok env d' \<longleftrightarrow> chain_ok env d"
  by (simp add: chain_ok_def audit_rows_def)

text \<open>C33: Recording keeps the chain verifiable: if the full recomputation accepts the chain, then after an
  event has been recorded it accepts it again, with exactly one event more, the one recorded.\<close>

theorem audit_record_verifies:
  assumes "verify_chain env d = Inr v" "cv_ok v" "audit_record env now event_type payload d = Inr (event, d')"
  shows "verify_chain env d' = Inr \<lparr>cv_ok = True, cv_events = cv_events v + 1, cv_first_bad_id = None, cv_detail = []\<rparr>
    \<and> audit_rows d' = audit_rows d @ [event] \<and> ae_payload event = payload"
proof -
  have l: "linked (en_sha256 env) GENESIS_HASH (audit_rows d)" using assms(1,2) verify_rows_ok by (auto simp: verify_chain_def)
  then have "v = \<lparr>cv_ok = True, cv_events = int (length (db_audit_events d)), cv_first_bad_id = None, cv_detail = []\<rparr>"
    using assms(1) verify_rows_linked [of "en_sha256 env" GENESIS_HASH "length (db_audit_events d)" "audit_rows d"]
    by (simp add: verify_chain_def)
  moreover have "linked (en_sha256 env) GENESIS_HASH (audit_rows d')"
    using l audit_record_rows [OF assms(3)] by (simp add: linked_append)
  ultimately show ?thesis
    using audit_record_rows [OF assms(3)]
      verify_rows_linked [of "en_sha256 env" GENESIS_HASH "length (db_audit_events d')" "audit_rows d'"]
    by (simp add: verify_chain_def)
qed

subsection \<open>Tampering\<close>

text \<open>What was hashed for a chain.\<close>

fun chain_inputs :: "audit_event list \<Rightarrow> bytes list" where
  "chain_inputs [] = []"
| "chain_inputs (row # rows) =
    (case canonicalize_bytes (chain_body (ae_event_type row) (ae_payload row) (strftime_micros (ae_created_at row))) of
       Inl _ \<Rightarrow> chain_inputs rows
     | Inr body \<Rightarrow> (case ascii_bytes (ae_prev_hash row) of Inl _ \<Rightarrow> chain_inputs rows
         | Inr prev \<Rightarrow> (prev @ [46] @ body) # chain_inputs rows))"

definition same_event :: "audit_event \<Rightarrow> audit_event \<Rightarrow> bool" where
  "same_event a b = (ae_event_type a = ae_event_type b \<and> jnorm (ae_payload a) = jnorm (ae_payload b) \<and>
     strftime_micros (ae_created_at a) = strftime_micros (ae_created_at b) \<and> ae_hash a = ae_hash b \<and> ae_prev_hash a = ae_prev_hash b)"

definition wf_event :: "audit_event \<Rightarrow> bool" where
  "wf_event e = (float_free (ae_payload e) \<and> wf_text (ae_payload e))"

lemma chain_hash_input:
  assumes "chain_hash sha256 p t y c = Inr h"
  obtains body prev where "canonicalize_bytes (chain_body t y c) = Inr body" "ascii_bytes p = Inr prev"
    "h = hexdigest (sha256 (prev @ [46] @ body))"
  using assms by (auto simp: chain_hash_def rbind_eq_Inr)

lemma ascii_bytes_inj: "ascii_bytes p = Inr x \<Longrightarrow> ascii_bytes q = Inr x \<Longrightarrow> p = q"
proof -
  assume a: "ascii_bytes p = Inr x" "ascii_bytes q = Inr x"
  have l: "list_all (\<lambda>u. u < 256) (map (of_char :: char \<Rightarrow> nat) s)" for s :: string by (simp add: list_all_iff)
  have "map (word_of_nat :: nat \<Rightarrow> byte) (map of_char p) = map word_of_nat (map of_char q)"
    using a by (auto simp: ascii_bytes_def comp_def split: if_splits)
  then have "map (of_char :: char \<Rightarrow> nat) p = map of_char q" by (rule word_of_nat_map_inj [OF _ l l])
  then show "p = q" by (simp add: inj_map_eq_map inj_on_def)
qed

lemma ascii_bytes_length: "ascii_bytes p = Inr x \<Longrightarrow> length x = length p"
  by (auto simp: ascii_bytes_def split: if_splits)

lemma chain_body_inj:
  assumes "jnorm (chain_body t y c) = jnorm (chain_body t' y' c')"
  shows "t = t' \<and> jnorm y = jnorm y' \<and> c = c'"
proof -
  have "distinct (map fst [(ucs_of ''eventType'', jstr t), (ucs_of ''payload'', y), (ucs_of ''recordedAt'', jstr c)])" for t y c
    by simp
  note get = jnorm_get [OF assms [unfolded chain_body_def] this this]
  show ?thesis using get [of "ucs_of ''eventType''"] get [of "ucs_of ''payload''"] get [of "ucs_of ''recordedAt''"] by simp
qed

lemma chain_inputs_append: "chain_inputs (xs @ ys) = chain_inputs xs @ chain_inputs ys"
  by (induction xs) (auto split: sum.splits)

lemma chain_event_same:
  assumes "chain_hash sha256 (ae_prev_hash a) (ae_event_type a) (ae_payload a) (strftime_micros (ae_created_at a)) = Inr (ae_hash a)"
    and "chain_hash sha256 (ae_prev_hash b) (ae_event_type b) (ae_payload b) (strftime_micros (ae_created_at b)) = Inr (ae_hash b)"
    and "ae_hash a = ae_hash b" "length (ae_prev_hash a) = length (ae_prev_hash b)"
    and "collision_free sha256 (chain_inputs [a] @ chain_inputs [b])" "wf_event a" "wf_event b"
  shows "same_event a b"
proof -
  obtain u p where a: "canonicalize_bytes (chain_body (ae_event_type a) (ae_payload a) (strftime_micros (ae_created_at a))) = Inr u"
    "ascii_bytes (ae_prev_hash a) = Inr p" "ae_hash a = hexdigest (sha256 (p @ [46] @ u))"
    by (rule chain_hash_input [OF assms(1)])
  obtain v q where b: "canonicalize_bytes (chain_body (ae_event_type b) (ae_payload b) (strftime_micros (ae_created_at b))) = Inr v"
    "ascii_bytes (ae_prev_hash b) = Inr q" "ae_hash b = hexdigest (sha256 (q @ [46] @ v))"
    by (rule chain_hash_input [OF assms(2)])
  have "p @ [46] @ u = q @ [46] @ v"
    by (rule collision_freeD [OF assms(5)]) (use a b assms(3) in simp_all)
  moreover have "length p = length q" using ascii_bytes_length [OF a(2)] ascii_bytes_length [OF b(2)] assms(4) by simp
  ultimately have pq: "p = q" "u = v" by simp_all
  have wf: "float_free (chain_body (ae_event_type e) (ae_payload e) c)" "wf_text (chain_body (ae_event_type e) (ae_payload e) c)"
    if "wf_event e" for e c using that by (simp_all add: chain_body_def wf_event_def)
  have "jnorm (chain_body (ae_event_type a) (ae_payload a) (strftime_micros (ae_created_at a)))
      = jnorm (chain_body (ae_event_type b) (ae_payload b) (strftime_micros (ae_created_at b)))"
    using canonicalize_bytes_inj_aux [OF a(1) b(1) wf(1) [OF assms(6)] wf(1) [OF assms(7)] wf(2) [OF assms(6)] wf(2) [OF assms(7)]] pq
    by simp
  note body = chain_body_inj [OF this]
  have "ae_prev_hash a = ae_prev_hash b" using ascii_bytes_inj a(2) b(2) pq by blast
  with body assms(3) show ?thesis by (simp only: same_event_def simp_thms)
qed

lemma chain_hash_length: "\<forall>b. length (sha256 b) = 32 \<Longrightarrow> chain_hash sha256 p t y c = Inr h \<Longrightarrow> length h = 64"
  by (auto elim!: chain_hash_input simp: length_hexdigest)

lemma last_hash_length:
  "\<forall>b. length (sha256 b) = 32 \<Longrightarrow> linked sha256 prev rows \<Longrightarrow> length prev = 64 \<Longrightarrow> length (last_hash prev rows) = 64"
proof (induction rows arbitrary: prev)
  case (Cons row rows)
  then have "length (ae_hash row) = 64" using chain_hash_length by auto
  with Cons.IH [of "ae_hash row"] Cons.prems show ?case by (cases rows) (auto simp: last_hash_def)
qed (simp add: last_hash_def)

text \<open>No event of the chain hashes to what the chain starts from.\<close>

definition avoids_genesis :: "(bytes \<Rightarrow> bytes) \<Rightarrow> bytes list \<Rightarrow> bool" where
  "avoids_genesis sha256 inputs = list_all (\<lambda>b. hexdigest (sha256 b) \<noteq> GENESIS_HASH) inputs"

lemma avoids_genesis_append: "avoids_genesis sha256 (xs @ ys) \<longleftrightarrow> avoids_genesis sha256 xs \<and> avoids_genesis sha256 ys"
  by (simp add: avoids_genesis_def)

lemma genesis_not_reached:
  assumes "linked sha256 GENESIS_HASH (xs @ [x])" "avoids_genesis sha256 (chain_inputs (xs @ [x]))"
  shows "last_hash GENESIS_HASH (xs @ [x]) \<noteq> GENESIS_HASH"
proof -
  have "chain_hash sha256 (ae_prev_hash x) (ae_event_type x) (ae_payload x) (strftime_micros (ae_created_at x)) = Inr (ae_hash x)"
    using assms(1) by (simp add: linked_append)
  then have "\<exists>b \<in> set (chain_inputs [x]). ae_hash x = hexdigest (sha256 b)" by (rule chain_hash_input) simp
  then obtain b where b: "b \<in> set (chain_inputs (xs @ [x]))" "ae_hash x = hexdigest (sha256 b)"
    unfolding chain_inputs_append by auto
  have "hexdigest (sha256 b) \<noteq> GENESIS_HASH" using assms(2) b(1) by (auto simp: avoids_genesis_def list_all_iff)
  with b(2) show ?thesis by (simp add: last_hash_def)
qed

lemma linked_same:
  assumes "\<forall>b. length (sha256 b) = 32" "linked sha256 GENESIS_HASH xs" "linked sha256 GENESIS_HASH ys"
    and "avoids_genesis sha256 (chain_inputs xs @ chain_inputs ys)"
    and "last_hash GENESIS_HASH xs = last_hash GENESIS_HASH ys" "collision_free sha256 (chain_inputs xs @ chain_inputs ys)"
    and "list_all wf_event (xs @ ys)"
  shows "list_all2 same_event xs ys"
  using assms
proof (induction xs arbitrary: ys rule: rev_induct)
  case Nil
  show ?case
  proof (cases ys rule: rev_cases)
    case (snoc zs y)
    then have "last_hash GENESIS_HASH (zs @ [y]) \<noteq> GENESIS_HASH"
      using Nil.prems(3,4) unfolding avoids_genesis_append by (intro genesis_not_reached) blast+
    with Nil.prems(5) snoc show ?thesis by (simp add: last_hash_def)
  qed simp
next
  case (snoc x xs)
  have "ys \<noteq> []"
  proof
    assume "ys = []"
    moreover have "last_hash GENESIS_HASH (xs @ [x]) \<noteq> GENESIS_HASH"
      using snoc.prems(2,4) unfolding avoids_genesis_append by (intro genesis_not_reached) blast+
    ultimately show False using snoc.prems(5) by (simp add: last_hash_def)
  qed
  then obtain zs y where ys: "ys = zs @ [y]" by (cases ys rule: rev_cases) auto
  have lx: "linked sha256 GENESIS_HASH xs" "linked sha256 (last_hash GENESIS_HASH xs) [x]"
    and ly: "linked sha256 GENESIS_HASH zs" "linked sha256 (last_hash GENESIS_HASH zs) [y]"
    using snoc.prems(2,3) ys by (simp_all add: linked_append)
  have g: "length GENESIS_HASH = 64" by (simp add: GENESIS_HASH_def)
  have same: "same_event x y"
  proof (rule chain_event_same)
    show "ae_hash x = ae_hash y" using snoc.prems(5) ys by (simp add: last_hash_def)
    show "length (ae_prev_hash x) = length (ae_prev_hash y)"
      using last_hash_length [OF snoc.prems(1) lx(1) g] last_hash_length [OF snoc.prems(1) ly(1) g] lx(2) ly(2) by simp
    show "collision_free sha256 (chain_inputs [x] @ chain_inputs [y])"
      by (rule collision_free_subset [OF snoc.prems(6)]) (use ys in \<open>auto simp: chain_inputs_append\<close>)
  qed (use lx(2) ly(2) snoc.prems(7) ys in auto)
  have "list_all2 same_event xs zs"
  proof (rule snoc.IH [OF snoc.prems(1) lx(1) ly(1)])
    show "last_hash GENESIS_HASH xs = last_hash GENESIS_HASH zs"
      using same lx(2) ly(2) by (simp add: same_event_def)
    show "collision_free sha256 (chain_inputs xs @ chain_inputs zs)"
      by (rule collision_free_subset [OF snoc.prems(6)]) (use ys in \<open>auto simp: chain_inputs_append\<close>)
    show "avoids_genesis sha256 (chain_inputs xs @ chain_inputs zs)"
      using snoc.prems(4) ys by (simp add: avoids_genesis_append chain_inputs_append)
  qed (use snoc.prems(7) ys in auto)
  with same ys show ?case by (simp add: list_all2_appendI)
qed

lemma toy_avoids_genesis:
  assumes "ae_prev_hash e = GENESIS_HASH" shows "avoids_genesis toy_hash (chain_inputs [e])"
proof -
  have hd: "hexdigest (toy_hash (48 # b)) \<noteq> GENESIS_HASH" for b
  proof -
    have "toy_hash (48 # b) = 48 # take 31 (b @ replicate 32 0)" by (simp add: toy_hash_def take_Cons')
    then have "hd (hexdigest (toy_hash (48 # b))) = CHR ''3''" by (simp add: hexdigest_def hex_digit_def)
    moreover have "hd GENESIS_HASH = CHR ''0''" by (simp add: GENESIS_HASH_def)
    ultimately show ?thesis by auto
  qed
  have "ascii_bytes GENESIS_HASH = Inr (replicate 64 48)"
    by (simp add: ascii_bytes_def GENESIS_HASH_def list_all_iff)
  moreover have "replicate 64 48 @ b = 48 # replicate 63 48 @ b" for b :: bytes by (simp add: replicate_Suc [symmetric] numeral_eq_Suc)
  ultimately show ?thesis using hd by (auto simp: avoids_genesis_def assms split: sum.splits)
qed

lemma toy_audit_record:
  assumes "jcs_ok payload" "db_audit_events d = []" "length event_type \<le> 64"
  shows "\<exists>e d'. audit_record toy_env now event_type payload d = Inr (e, d')"
proof -
  obtain b where "canonicalize_bytes (chain_body event_type payload (strftime_micros now)) = Inr b"
    using canonicalize_totalE [of "chain_body event_type payload (strftime_micros now)"] assms(1) by (auto simp: chain_body_def)
  moreover have "\<exists>p. ascii_bytes GENESIS_HASH = Inr p" by (simp add: ascii_bytes_def GENESIS_HASH_def list_all_iff)
  ultimately obtain h where h: "chain_hash toy_hash GENESIS_HASH event_type payload (strftime_micros now) = Inr h"
    by (auto simp: chain_hash_def)
  have "length h = 64" by (rule chain_hash_length [OF _ h]) simp
  then show ?thesis
    using assms h
    by (simp add: audit_record_def Let_def audit_rows_def insert_audit_event_def constraint_simps rbind_eq_Inr GENESIS_HASH_def [symmetric])
      (simp add: GENESIS_HASH_def)
qed

theorem audit_record_verifies_witness:
  "\<exists>e d'. audit_record toy_env 0 ''x'' JNull (empty_db id) = Inr (e, d') \<and>
     verify_chain toy_env d' = Inr \<lparr>cv_ok = True, cv_events = 1, cv_first_bad_id = None, cv_detail = []\<rparr>"
proof -
  obtain e d' where r: "audit_record toy_env 0 ''x'' JNull (empty_db id) = Inr (e, d')"
    using toy_audit_record [of JNull "empty_db id" "''x''" 0] by auto
  have v: "verify_chain toy_env (empty_db id) = Inr \<lparr>cv_ok = True, cv_events = 0, cv_first_bad_id = None, cv_detail = []\<rparr>"
    by (simp add: verify_chain_def audit_rows_def)
  show ?thesis using audit_record_verifies [OF v _ r] r by simp
qed

text \<open>C34: The chain is tamper-evident: two databases whose chains are both accepted and end in the same hash, whatever
  their lengths, hold the same events in the same order - type, payload (up to member order), time and hashes -
  unless two of the byte strings hashed collide or one of them hashes to the 64 zeros the chain starts from. So an
  accepted rewrite of any past event, and an accepted chain with events cut off or added, is visible in the last
  hash. The payloads are JSON values without floats.\<close>

theorem audit_chain_tamper_evident:
  assumes "verify_chain env d = Inr v" "cv_ok v" "verify_chain env d' = Inr v'" "cv_ok v'"
    and "last_hash GENESIS_HASH (audit_rows d) = last_hash GENESIS_HASH (audit_rows d')"
    and "avoids_genesis (en_sha256 env) (chain_inputs (audit_rows d) @ chain_inputs (audit_rows d'))"
    and "\<forall>b. length (en_sha256 env b) = 32" "collision_free (en_sha256 env) (chain_inputs (audit_rows d) @ chain_inputs (audit_rows d'))"
    and "list_all wf_event (audit_rows d @ audit_rows d')"
  shows "list_all2 same_event (audit_rows d) (audit_rows d')"
proof (rule linked_same [OF assms(7) _ _ assms(6,5,8,9)])
  show "linked (en_sha256 env) GENESIS_HASH (audit_rows d)" "linked (en_sha256 env) GENESIS_HASH (audit_rows d')"
    using assms(1-4) verify_rows_ok by (auto simp: verify_chain_def)
qed


theorem audit_chain_tamper_evident_witness:
  "\<exists>e d. audit_record toy_env 0 ''x'' JNull (empty_db id) = Inr (e, d) \<and> list_all2 same_event (audit_rows d) (audit_rows d)"
proof -
  obtain e d where r: "audit_record toy_env 0 ''x'' JNull (empty_db id) = Inr (e, d)"
    using toy_audit_record [of JNull "empty_db id" "''x''" 0] by auto
  have rows: "audit_rows d = [e]" using audit_record_rows(2) [OF r] by (simp add: audit_rows_def)
  have l: "linked toy_hash GENESIS_HASH (audit_rows d)"
    using audit_record_rows(3) [OF r] rows by (simp add: audit_rows_def last_hash_def)
  then have v: "verify_chain toy_env d = Inr \<lparr>cv_ok = True, cv_events = int (length (db_audit_events d)), cv_first_bad_id = None, cv_detail = []\<rparr>"
    by (simp add: verify_chain_def verify_rows_linked)
  have "collision_free toy_hash (chain_inputs [e] @ chain_inputs [e])"
    by (auto simp: collision_free_def split: sum.splits)
  moreover have "avoids_genesis toy_hash (chain_inputs [e] @ chain_inputs [e])"
    using toy_avoids_genesis [of e] l rows unfolding avoids_genesis_append by simp
  moreover have "wf_event e" using audit_record_rows(5) [OF r] by (simp add: wf_event_def)
  ultimately have "list_all2 same_event (audit_rows d) (audit_rows d)"
    by (intro audit_chain_tamper_evident [OF v _ v]) (simp_all add: rows del: chain_inputs.simps)
  with r show ?thesis by blast
qed

end
