(* ===== verification/Guards.thy ===== *)
theory Guards
  imports Policy Assessments AuditChain
begin

section \<open>Request guards\<close>

text \<open>
  What stands between a request and the services: \<open>services/redis_guard.py\<close> (single-use nonces, rate
  limits), the idempotency helpers of \<open>api/deps.py\<close> and the capability registry
  \<open>services/capabilities.py\<close>. Redis is a service, so its commands are a parameter: each takes the state of
  the server and gives the answer, or the exception of the client, and the state after it, which may have
  changed even where the client saw an exception.
\<close>

subsection \<open>Redis\<close>

record 'r redis =
  rd_set_nx :: "string \<Rightarrow> int \<Rightarrow> 'r \<Rightarrow> (string + bool) \<times> 'r"
  rd_incr :: "string \<Rightarrow> 'r \<Rightarrow> (string + int) \<times> 'r"
  rd_expire :: "string \<Rightarrow> int \<Rightarrow> 'r \<Rightarrow> (string + unit) \<times> 'r"
  rd_ping :: "'r \<Rightarrow> (string + bool) \<times> 'r"

text \<open>\<open>get_redis\<close>: the client exists when a URL is configured.\<close>

definition get_redis :: "settings \<Rightarrow> 'r redis \<Rightarrow> 'r redis result" where
  "get_redis s ops = (if redis_configured s then Inr ops else Inl (RedisUnavailable ''redis not configured''))"

definition ping :: "settings \<Rightarrow> 'r redis \<Rightarrow> 'r \<Rightarrow> bool \<times> 'r" where
  "ping s ops r =
    (case get_redis s ops of
       Inl _ \<Rightarrow> (False, r)
     | Inr client \<Rightarrow> (case rd_ping client r of (Inl _, r') \<Rightarrow> (False, r') | (Inr b, r') \<Rightarrow> (b, r')))"

definition claim_nonce :: "settings \<Rightarrow> 'r redis \<Rightarrow> string \<Rightarrow> int \<Rightarrow> 'r \<Rightarrow> unit result \<times> 'r" where
  "claim_nonce s ops key ttl_seconds r =
    (case get_redis s ops of
       Inl e \<Rightarrow> (Inl e, r)
     | Inr client \<Rightarrow>
         (case rd_set_nx client key ttl_seconds r of
            (Inl e, r') \<Rightarrow> (Inl (RedisUnavailable e), r')
          | (Inr ok, r') \<Rightarrow> (check ok (ValueError ''nonce replay''), r')))"

text \<open>The window is the minute of the clock, in seconds since the epoch.\<close>

definition rate_key :: "string \<Rightarrow> int \<Rightarrow> string" where
  "rate_key bucket window = ''taxstamps:rl:'' @ bucket @ '':'' @ str_int window"

definition rate_limit :: "settings \<Rightarrow> 'r redis \<Rightarrow> int \<Rightarrow> string \<Rightarrow> int \<Rightarrow> 'r \<Rightarrow> unit result \<times> 'r" where
  "rate_limit s ops now bucket limit_per_minute r =
    (let key = rate_key bucket (now div 60)
     in case get_redis s ops of
       Inl e \<Rightarrow> (Inl e, r)
     | Inr client \<Rightarrow>
         (case rd_incr client key r of
            (Inl e, r1) \<Rightarrow> (Inl (RedisUnavailable e), r1)
          | (Inr n, r1) \<Rightarrow>
              (case (if n = 1 then rd_expire client key 90 r1 else (Inr (), r1)) of
                 (Inl e, r2) \<Rightarrow> (Inl (RedisUnavailable e), r2)
               | (Inr _, r2) \<Rightarrow> (check (n \<le> limit_per_minute) (ValueError ''rate limit exceeded''), r2))))"

text \<open>\<open>verification.nonce_key\<close>.\<close>

definition nonce_key :: "(bytes \<Rightarrow> bytes) \<Rightarrow> string \<Rightarrow> string \<Rightarrow> string" where
  "nonce_key sha256 verifier_id nonce = ''taxstamps:nonce:'' @ hexdigest (sha256 (utf8_of (verifier_id @ '':'' @ nonce)))"

subsection \<open>Idempotency keys\<close>

text \<open>\<open>json.dumps(v, sort_keys=True)\<close>.\<close>

fun dumps_sorted :: "json \<Rightarrow> ucs" where
  "dumps_sorted JNull = ucs_of ''null''"
| "dumps_sorted (JBool b) = ucs_of (if b then ''true'' else ''false'')"
| "dumps_sorted (JInt i) = ucs_of (str_int i)"
| "dumps_sorted (JFloat x) = ucs_of (case x of FNan \<Rightarrow> ''NaN'' | FInf neg \<Rightarrow> (if neg then ''-Infinity'' else ''Infinity'') | _ \<Rightarrow> float_text x)"
| "dumps_sorted (JStr s) = dumps_string s"
| "dumps_sorted (JArr vs) = [91] @ comma_space (map dumps_sorted vs) @ [93]"
| "dumps_sorted (JObj kvs) =
    [123] @ comma_space (map snd (sort_key fst (map (\<lambda>(k, v). (k, dumps_string k @ [58, 32] @ dumps_sorted v)) kvs))) @ [125]"

text \<open>The text is ASCII.\<close>

definition request_hash :: "(bytes \<Rightarrow> bytes) \<Rightarrow> json \<Rightarrow> string" where
  "request_hash sha256 body = hexdigest (sha256 (ascii_of_codes (dumps_sorted body)))"

definition find_idempotency :: "db \<Rightarrow> string \<Rightarrow> string \<Rightarrow> idempotency_record option" where
  "find_idempotency d key sub = find (\<lambda>r. id_key r = key \<and> id_principal_sub r = sub) (db_idempotency_records d)"

definition idempotent_replay :: "'sk env \<Rightarrow> string option \<Rightarrow> string \<Rightarrow> json \<Rightarrow> db \<Rightarrow> idempotency_record option result" where
  "idempotent_replay env key principal_sub request_body d =
    (case key of
       None \<Rightarrow> Inr None
     | Some k \<Rightarrow>
         if k = [] then Inr None
         else (case find_idempotency d k principal_sub of
             None \<Rightarrow> Inr None
           | Some rec \<Rightarrow>
               if id_request_hash rec \<noteq> request_hash (en_sha256 env) request_body
               then Inl (HTTPException 409 ''idempotency-conflict'') else Inr (Some rec)))"

definition store_idempotency ::
  "'sk env \<Rightarrow> datetime \<Rightarrow> string option \<Rightarrow> string \<Rightarrow> json \<Rightarrow> int \<Rightarrow> json \<Rightarrow> db \<Rightarrow> db result" where
  "store_idempotency env now key principal_sub request_body status response_body d =
    (case key of
       None \<Rightarrow> Inr d
     | Some k \<Rightarrow>
         if k = [] then Inr d
         else insert_idempotency_record
           \<lparr>id_key = k, id_principal_sub = principal_sub, id_request_hash = request_hash (en_sha256 env) request_body,
            id_response_status = status, id_response_body = response_body, id_created_at = now\<rparr> d)"

subsection \<open>Capabilities\<close>

record capability =
  cp_name :: string
  cp_available :: bool
  cp_reason :: ucs

type_synonym runtime = "(string \<times> json) list"

definition probe :: "runtime \<Rightarrow> string \<Rightarrow> bool" where
  "probe runtime key = (case map_of runtime key of None \<Rightarrow> False | Some v \<Rightarrow> json_truthy v)"

definition reason_for :: "runtime \<Rightarrow> string \<Rightarrow> string \<Rightarrow> ucs" where
  "reason_for runtime key dflt = str_json (falsy_to (jstr dflt) (map_of runtime key))"

text \<open>\<open>add\<close>: an available capability has no reason.\<close>

definition capability_entry :: "string \<Rightarrow> bool \<Rightarrow> ucs \<Rightarrow> capability" where
  "capability_entry name available reason = \<lparr>cp_name = name, cp_available = available, cp_reason = (if available then [] else reason)\<rparr>"

definition KAFKA_REASON :: string where
  "KAFKA_REASON = ''TAXSTAMPS_KAFKA_BOOTSTRAP_SERVERS not configured''"

definition RAIL_REASON :: string where
  "RAIL_REASON = ''TAXSTAMPS_PAYMENT_RAIL and TAXSTAMPS_FINANCIAL_CONTROLS_ENDPOINT not configured''"

definition capability_report :: "settings \<Rightarrow> runtime \<Rightarrow> capability list" where
  "capability_report s runtime =
    [capability_entry ''database'' (probe runtime ''database'') (reason_for runtime ''database_reason'' ''database probe failed''),
     capability_entry ''signing.eddsa-jcs-2022'' (probe runtime ''signing'') (reason_for runtime ''signing_reason'' ''signing key unavailable''),
     capability_entry ''status-list.bitstring'' (probe runtime ''signing'') (ucs_of ''requires signing key''),
     (if redis_configured s
      then capability_entry ''redis.nonce-rate-limit'' (probe runtime ''redis'') (reason_for runtime ''redis_reason'' ''redis probe failed'')
      else capability_entry ''redis.nonce-rate-limit'' False (ucs_of ''TAXSTAMPS_REDIS_URL not configured'')),
     (if oidc_configured s
      then capability_entry ''auth.oidc'' (probe runtime ''oidc'') (reason_for runtime ''oidc_reason'' ''JWKS unavailable'')
      else capability_entry ''auth.oidc'' False (ucs_of ''TAXSTAMPS_OIDC_JWKS_URL/PATH and TAXSTAMPS_OIDC_ISSUER not configured''))] @
    (if kafka_configured s
     then [capability_entry ''kafka.outbox-publisher'' (probe runtime ''kafka'') (reason_for runtime ''kafka_reason'' ''Kafka unreachable''),
           capability_entry ''kafka.declarations-consumer'' (probe runtime ''kafka'') (reason_for runtime ''kafka_reason'' ''Kafka unreachable'')]
     else [capability_entry ''kafka.outbox-publisher'' False (ucs_of KAFKA_REASON),
           capability_entry ''kafka.declarations-consumer'' False (ucs_of KAFKA_REASON)]) @
    [(if payment_rail_configured s then capability_entry ''payments.rail'' True [] else capability_entry ''payments.rail'' False (ucs_of RAIL_REASON)),
     capability_entry ''verification.public-self-service'' True [],
     capability_entry ''verification.first-scan-wins'' True [],
     capability_entry ''printer.hardware-integration'' False (ucs_of ''not implemented: no printer control path exists in this service''),
     capability_entry ''image.ml-authenticity'' False (ucs_of ''not implemented: no image/ML authenticity detector''),
     capability_entry ''offline.field-sync'' False (ucs_of ''not implemented: verification requires connectivity to this API'')]"

definition capability_available :: "capability list \<Rightarrow> string \<Rightarrow> bool" where
  "capability_available caps name = (case find (\<lambda>c. cp_name c = name) caps of None \<Rightarrow> False | Some c \<Rightarrow> cp_available c)"


subsection \<open>Rate limits are kept\<close>

text \<open>
  What Redis documents of INCR: the answer is one more than the number before, and a number only grows until its key
  expires. Keys live for 90 seconds, so those of a window outlive its 60. \<open>numbers r k\<close> is the number under the key.
\<close>

definition counting :: "'r redis \<Rightarrow> ('r \<Rightarrow> string \<Rightarrow> int) \<Rightarrow> bool" where
  "counting ops numbers =
    ((\<forall>k r n r'. rd_incr ops k r = (Inr n, r') \<longrightarrow> n = numbers r k + 1 \<and> numbers r' k = n) \<and>
     (\<forall>k r a r' k'. rd_incr ops k r = (a, r') \<longrightarrow> numbers r k' \<le> numbers r' k') \<and>
     (\<forall>k t r a r' k'. rd_expire ops k t r = (a, r') \<longrightarrow> numbers r k' \<le> numbers r' k'))"

text \<open>Requests one after the other, each with its time and bucket: which are let through.\<close>

fun serve :: "settings \<Rightarrow> 'r redis \<Rightarrow> int \<Rightarrow> (int \<times> string) list \<Rightarrow> 'r \<Rightarrow> (string \<times> bool) list \<times> 'r" where
  "serve s ops limit [] r = ([], r)"
| "serve s ops limit ((now, bucket) # cs) r =
    (let (res, r1) = rate_limit s ops now bucket limit r; (admitted, r2) = serve s ops limit cs r1
     in ((bucket, succeeds res) # admitted, r2))"

definition admissions :: "string \<Rightarrow> (string \<times> bool) list \<Rightarrow> int" where
  "admissions bucket log = int (length (filter (\<lambda>e. e = (bucket, True)) log))"

lemma countingD:
  assumes "counting ops numbers"
  shows "rd_incr ops k r = (Inr n, r') \<Longrightarrow> n = numbers r k + 1 \<and> numbers r' k = n"
    and "rd_incr ops k r = (a, r') \<Longrightarrow> numbers r k' \<le> numbers r' k'"
    and "rd_expire ops k t r = (b, r') \<Longrightarrow> numbers r k' \<le> numbers r' k'"
  using assms unfolding counting_def by blast+

lemma rate_limit_run:
  assumes "counting ops numbers" "rate_limit s ops now bucket limit r = (res, r')" "redis_configured s"
  obtains a r1 where "rd_incr ops (rate_key bucket (now div 60)) r = (a, r1)" "\<And>k. numbers r1 k \<le> numbers r' k"
    "succeeds res \<Longrightarrow> \<exists>n. a = Inr n \<and> n \<le> limit"
proof -
  obtain a r1 where i: "rd_incr ops (rate_key bucket (now div 60)) r = (a, r1)" by fastforce
  show ?thesis
  proof (cases a)
    case (Inl e)
    with assms(2,3) i show ?thesis by (intro that [OF i]) (auto simp: rate_limit_def get_redis_def)
  next
    case (Inr n)
    obtain b r2 where x: "rd_expire ops (rate_key bucket (now div 60)) 90 r1 = (b, r2)" by fastforce
    have r2: "numbers r1 k \<le> numbers r2 k" for k by (rule countingD(3) [OF assms(1) x])
    have r': "r' = (if n = 1 then r2 else r1)" "succeeds res \<longrightarrow> n \<le> limit"
      using assms(2,3) i x by (auto simp: rate_limit_def get_redis_def Inr check_def split: sum.splits if_splits)
    show ?thesis by (rule that [OF i]) (use r' r2 Inr in auto)
  qed
qed

lemma rate_limit_counts:
  assumes "counting ops numbers" "rate_limit s ops now bucket limit r = (res, r')"
  shows "numbers r k \<le> numbers r' k"
    and "succeeds res \<Longrightarrow> numbers r (rate_key bucket (now div 60)) + 1 \<le> limit \<and>
           numbers r (rate_key bucket (now div 60)) + 1 \<le> numbers r' (rate_key bucket (now div 60))"
proof -
  have off: "r' = r" "\<not> succeeds res" if "\<not> redis_configured s" using assms(2) that by (auto simp: rate_limit_def get_redis_def)
  show "numbers r k \<le> numbers r' k"
  proof (cases "redis_configured s")
    case True
    obtain a r1 where i: "rd_incr ops (rate_key bucket (now div 60)) r = (a, r1)" "\<And>k. numbers r1 k \<le> numbers r' k"
      "succeeds res \<Longrightarrow> \<exists>n. a = Inr n \<and> n \<le> limit"
      by (rule rate_limit_run [OF assms True]) auto
    show ?thesis by (rule order_trans [OF countingD(2) [OF assms(1) i(1)] i(2)])
  qed (simp add: off)
  assume ok: "succeeds res"
  then have "redis_configured s" using off(2) by blast
  from rate_limit_run [OF assms this] obtain a r1 where i: "rd_incr ops (rate_key bucket (now div 60)) r = (a, r1)"
    "\<And>k. numbers r1 k \<le> numbers r' k" "succeeds res \<Longrightarrow> \<exists>n. a = Inr n \<and> n \<le> limit" by auto
  obtain n where n: "a = Inr n" "n \<le> limit" using i(3) [OF ok] by blast
  show "numbers r (rate_key bucket (now div 60)) + 1 \<le> limit \<and>
     numbers r (rate_key bucket (now div 60)) + 1 \<le> numbers r' (rate_key bucket (now div 60))"
    using countingD(1) [OF assms(1) i(1) [unfolded n(1)]] i(2) [of "rate_key bucket (now div 60)"] n(2) by simp
qed

text \<open>Redis while nothing fails: INCR changes the number under its key and no other; no key expires within its window.\<close>

definition reliable :: "'r redis \<Rightarrow> ('r \<Rightarrow> string \<Rightarrow> int) \<Rightarrow> bool" where
  "reliable ops numbers =
    ((\<forall>k r. \<exists>r'. rd_incr ops k r = (Inr (numbers r k + 1), r') \<and> numbers r' = (numbers r)(k := numbers r k + 1)) \<and>
     (\<forall>k t r. \<exists>r'. rd_expire ops k t r = (Inr (), r') \<and> numbers r' = numbers r))"

lemma rate_limit_exact:
  assumes "reliable ops numbers" "redis_configured s"
  obtains res r' where "rate_limit s ops now bucket limit r = (res, r')" "succeeds res \<longleftrightarrow> numbers r (rate_key bucket (now div 60)) < limit"
    "numbers r' = (numbers r)(rate_key bucket (now div 60) := numbers r (rate_key bucket (now div 60)) + 1)"
proof -
  let ?k = "rate_key bucket (now div 60)"
  obtain r1 where i: "rd_incr ops ?k r = (Inr (numbers r ?k + 1), r1)" "numbers r1 = (numbers r)(?k := numbers r ?k + 1)"
    using assms(1) unfolding reliable_def by blast
  obtain r2 where x: "rd_expire ops ?k 90 r1 = (Inr (), r2)" "numbers r2 = numbers r1"
    using assms(1) unfolding reliable_def by blast
  have "rate_limit s ops now bucket limit r =
      (check (numbers r ?k + 1 \<le> limit) (ValueError ''rate limit exceeded''), if numbers r ?k + 1 = 1 then r2 else r1)"
    using assms(2) i x by (simp add: rate_limit_def get_redis_def)
  then show ?thesis by (rule that) (auto simp: check_def i(2) x(2))
qed

lemma rate_key_bucket: "rate_key b w = rate_key b' w \<longleftrightarrow> b = b'"
  by (simp add: rate_key_def)

lemma serve_exact:
  assumes "reliable ops numbers" "redis_configured s" "list_all (\<lambda>c. fst c div 60 = window) calls" "serve s ops limit calls r = (log, r')"
  shows "filter (\<lambda>e. fst e = bucket) log =
    map (\<lambda>i. (bucket, numbers r (rate_key bucket window) + int i < limit)) [0..<length (filter (\<lambda>c. snd c = bucket) calls)]"
  using assms(3,4)
proof (induction calls arbitrary: r log r')
  case (Cons c cs)
  obtain now b where c: "c = (now, b)" by fastforce
  have w: "now div 60 = window" using Cons.prems(1) c by simp
  obtain res r1 where q: "rate_limit s ops now b limit r = (res, r1)" "succeeds res \<longleftrightarrow> numbers r (rate_key b window) < limit"
    "numbers r1 = (numbers r)(rate_key b window := numbers r (rate_key b window) + 1)"
    by (rule rate_limit_exact [OF assms(1,2), of now b limit r]) (simp add: w)
  obtain log1 r2 where l: "serve s ops limit cs r1 = (log1, r2)" by fastforce
  have log: "log = (b, succeeds res) # log1" using Cons.prems(2) by (simp add: c q(1) l)
  let ?m = "length (filter (\<lambda>c. snd c = bucket) cs)"
  have IH: "filter (\<lambda>e. fst e = bucket) log1 = map (\<lambda>i. (bucket, numbers r1 (rate_key bucket window) + int i < limit)) [0..<?m]"
    by (rule Cons.IH [OF _ l]) (use Cons.prems(1) in simp)
  show ?case
  proof (cases "b = bucket")
    case True
    have "[0..<Suc ?m] = 0 # map Suc [0..<?m]" unfolding map_Suc_upt by (rule upt_conv_Cons) simp
    then show ?thesis using IH True by (simp add: log c q(2,3) comp_def ac_simps del: upt_Suc)
  next
    case False
    then show ?thesis using IH by (simp add: log c q(3) rate_key_bucket)
  qed
qed simp

text \<open>C23: Within a minute no more requests of a bucket get through than the limit allows, whatever other buckets' requests come
  between them and whatever Redis commands fail; without Redis none gets through. While Redis is there and answers
  every command, the limit is also exact: of the requests of a bucket, those before the limit is used up get through
  and those after it do not, in the order in which they come. Relied on: INCR counts.\<close>

theorem rate_limit_bound:
  assumes "counting ops numbers" "list_all (\<lambda>c. fst c div 60 = window) calls" "0 \<le> numbers r (rate_key bucket window)"
    and "serve s ops limit calls r = (log, r')"
  shows "admissions bucket log \<le> max 0 limit \<and> (\<not> redis_configured s \<longrightarrow> admissions bucket log = 0) \<and>
    (redis_configured s \<and> reliable ops numbers \<longrightarrow> filter (\<lambda>e. fst e = bucket) log =
       map (\<lambda>i. (bucket, numbers r (rate_key bucket window) + int i < limit)) [0..<length (filter (\<lambda>c. snd c = bucket) calls)])"
proof (intro conjI)
  have "admissions bucket log = 0 \<or> numbers r (rate_key bucket window) + admissions bucket log \<le> limit"
    using assms(2,4)
  proof (induction calls arbitrary: r log r')
    case (Cons c cs)
    obtain now b where c: "c = (now, b)" by fastforce
    obtain res r1 where q: "rate_limit s ops now b limit r = (res, r1)" by fastforce
    obtain log1 r2 where l: "serve s ops limit cs r1 = (log1, r2)" by fastforce
    have log: "log = (b, succeeds res) # log1" using Cons.prems(2) by (simp add: c q l)
    have w: "now div 60 = window" using Cons.prems(1) c by simp
    have IH: "admissions bucket log1 = 0 \<or> numbers r1 (rate_key bucket window) + admissions bucket log1 \<le> limit"
      by (rule Cons.IH [OF _ l]) (use Cons.prems(1) in simp)
    note rc = rate_limit_counts [OF assms(1) q]
    show ?case
    proof (cases "b = bucket \<and> succeeds res")
      case True
      with IH rc(2) w show ?thesis by (auto simp: log admissions_def)
    next
      case False
      then have "admissions bucket log = admissions bucket log1" by (auto simp: log admissions_def)
      with IH rc(1) [of "rate_key bucket window"] show ?thesis by auto
    qed
  qed (simp add: admissions_def)
  with assms(3) show "admissions bucket log \<le> max 0 limit" by auto
  show "\<not> redis_configured s \<longrightarrow> admissions bucket log = 0"
    using assms(4)
    by (induction calls arbitrary: r log r') (auto simp: admissions_def rate_limit_def get_redis_def split: prod.splits)
  show "redis_configured s \<and> reliable ops numbers \<longrightarrow> filter (\<lambda>e. fst e = bucket) log =
      map (\<lambda>i. (bucket, numbers r (rate_key bucket window) + int i < limit)) [0..<length (filter (\<lambda>c. snd c = bucket) calls)]"
    using serve_exact [OF _ _ assms(2,4)] by blast
qed

definition toy_redis :: "(string \<Rightarrow> int) redis" where
  "toy_redis = \<lparr>rd_set_nx = (\<lambda>k t r. (Inr (r k = 0), r(k := 1))), rd_incr = (\<lambda>k r. (Inr (r k + 1), r(k := r k + 1))),
     rd_expire = (\<lambda>k t r. (Inr (), r)), rd_ping = (\<lambda>r. (Inr True, r))\<rparr>"

definition toy_cached :: settings where
  "toy_cached = toy_settings\<lparr>cf_redis_url := ''redis://r''\<rparr>"

lemma toy_redis_counting: "counting toy_redis (\<lambda>r. r)"
  by (auto simp: counting_def toy_redis_def)

lemma toy_redis_reliable: "reliable toy_redis (\<lambda>r. r)"
  by (simp add: reliable_def toy_redis_def)

theorem rate_limit_bound_witness:
  "let log = fst (serve toy_cached toy_redis 1 [(61, ''a''), (62, ''b''), (63, ''a'')] (\<lambda>_. 0))
   in admissions ''a'' log \<le> 1 \<and> filter (\<lambda>e. fst e = ''a'') log = [(''a'', True), (''a'', False)]"
proof -
  obtain log r' where run: "serve toy_cached toy_redis 1 [(61, ''a''), (62, ''b''), (63, ''a'')] (\<lambda>_. 0) = (log, r')" by fastforce
  have "redis_configured toy_cached" by (simp add: redis_configured_def toy_cached_def)
  with rate_limit_bound [OF toy_redis_counting _ _ run, of 1 "''a''"] toy_redis_reliable
  have "admissions ''a'' log \<le> 1 \<and> filter (\<lambda>e. fst e = ''a'') log = map (\<lambda>i. (''a'', 0 + int i < 1)) [0..<Suc (Suc 0)]"
    by (simp del: upt_Suc upt_rec_numeral)
  moreover have "map (\<lambda>i. (''a'', 0 + int i < 1)) [0..<Suc (Suc 0)] = [(''a'', True), (''a'', False)]" by simp
  ultimately show ?thesis unfolding run Let_def by simp
qed


subsection \<open>Capabilities are reported truthfully\<close>

lemma repr_json_not_Nil: "json_truthy v \<Longrightarrow> repr_json v \<noteq> []"
proof (cases v)
  case (JFloat x)
  assume t: "json_truthy v"
  show ?thesis
  proof (cases x)
    case (FFin neg rep)
    have "fst (shortest_digits []) = ''0''" by code_simp
    with t JFloat FFin have "rep \<noteq> []" by (auto simp: json_truthy_def)
    with JFloat FFin show ?thesis by (simp add: float_text_def)
  qed (simp_all add: JFloat float_text_def)
qed (simp_all add: str_int_def repr_ucs_def Let_def)

lemma reason_for_not_Nil: "dflt \<noteq> [] \<Longrightarrow> reason_for runtime key dflt \<noteq> []"
proof -
  assume d: "dflt \<noteq> []"
  have t: "str_json v \<noteq> []" if "json_truthy v" for v
    using repr_json_not_Nil [OF that] that by (cases v) (simp_all add: str_json_def json_truthy_def)
  have "json_truthy (jstr dflt)" using d by (simp add: json_truthy_def)
  then have "json_truthy (falsy_to (jstr dflt) (map_of runtime key))" by (simp add: falsy_to_def split: option.split)
  then show ?thesis unfolding reason_for_def by (rule t)
qed

text \<open>The capability registry fabricates nothing. An integration is reported available exactly when it is configured and its
  live probe succeeded, what the service does not implement is never reported available, and an entry carries a
  reason exactly when it is unavailable.\<close>

theorem capabilities_honest:
  "let caps = capability_report s runtime in
     list_all (\<lambda>c. cp_available c \<longleftrightarrow> cp_reason c = []) caps \<and>
     (capability_available caps ''database'' \<longleftrightarrow> probe runtime ''database'') \<and>
     (capability_available caps ''redis.nonce-rate-limit'' \<longleftrightarrow> redis_configured s \<and> probe runtime ''redis'') \<and>
     (capability_available caps ''auth.oidc'' \<longleftrightarrow> oidc_configured s \<and> probe runtime ''oidc'') \<and>
     (capability_available caps ''kafka.outbox-publisher'' \<longleftrightarrow> kafka_configured s \<and> probe runtime ''kafka'') \<and>
     (capability_available caps ''kafka.declarations-consumer'' \<longleftrightarrow> kafka_configured s \<and> probe runtime ''kafka'') \<and>
     (capability_available caps ''payments.rail'' \<longleftrightarrow> payment_rail_configured s) \<and>
     \<not> capability_available caps ''printer.hardware-integration'' \<and> \<not> capability_available caps ''offline.field-sync''"
  by (simp add: Let_def capability_report_def capability_available_def capability_entry_def reason_for_not_Nil KAFKA_REASON_def RAIL_REASON_def)

end
