(* ===== verification/FlowRoutes.thy ===== *)
theory FlowRoutes
  imports Guards Payments Outbox
begin

section \<open>Requests on declarations, assessments and payments\<close>

text \<open>
  \<open>src/taxstamps/api/routes_flow.py\<close> and the request schemas of \<open>api/schemas.py\<close> it takes. A handler is a
  function of the policy, the clock, the identity the request was given, the validated body and the database; it
  returns the response with the committed database, or the exception, after which nothing of the request is
  committed. What pydantic lets through is a predicate on the body (\<open>valid_...\<close>); it guards no definition,
  because the handlers are total without it. Text of a request is taken to be Latin-1. The count of denials
  the engine keeps for itself is not part of the state.
\<close>

subsection \<open>Bodies\<close>

record line_in =
  li_hs_code :: string
  li_description :: string
  li_quantity :: int
  li_unit :: string
  li_customs_value_kobo :: int
  li_stamps_required :: int

record declaration_in =
  di_declaration_ref :: string
  di_consignee_tin :: string
  di_consignee_name :: string
  di_lines :: "line_in list"

record decision_in =
  de_decision :: string
  de_reason :: string

record receipt_in =
  ri_payment_intent_id :: string
  ri_external_reference :: string
  ri_amount_kobo :: int
  ri_currency :: string

definition length_between :: "nat \<Rightarrow> nat \<Rightarrow> string \<Rightarrow> bool" where
  "length_between lo hi s = (lo \<le> length s \<and> length s \<le> hi)"

definition valid_line_in :: "line_in \<Rightarrow> bool" where
  "valid_line_in l =
    (length_between 2 16 (li_hs_code l) \<and> 0 \<le> li_quantity l \<and> li_unit l \<in> {''STICK'', ''LITRE'', ''UNIT''} \<and>
     0 \<le> li_customs_value_kobo l \<and> 0 \<le> li_stamps_required l)"

definition valid_declaration_in :: "declaration_in \<Rightarrow> bool" where
  "valid_declaration_in b =
    (length_between 3 64 (di_declaration_ref b) \<and> length_between 6 32 (di_consignee_tin b) \<and> di_lines b \<noteq> [] \<and>
     list_all valid_line_in (di_lines b))"

definition valid_assessment_in :: "string \<Rightarrow> bool" where
  "valid_assessment_in declaration_ref = length_between 3 64 declaration_ref"

definition valid_decision_in :: "decision_in \<Rightarrow> bool" where
  "valid_decision_in b = (de_decision b \<in> {''APPROVE'', ''REJECT''})"

definition valid_receipt_in :: "receipt_in \<Rightarrow> bool" where
  "valid_receipt_in b =
    (length_between 4 128 (ri_external_reference b) \<and> 0 \<le> ri_amount_kobo b \<and> length (ri_currency b) = 3)"

text \<open>\<open>model_dump\<close>, which the idempotency hash is taken of.\<close>

definition line_dump :: "line_in \<Rightarrow> json" where
  "line_dump l = JObj
     [(ucs_of ''hs_code'', jstr (li_hs_code l)), (ucs_of ''description'', jstr (li_description l)), (ucs_of ''quantity'', JInt (li_quantity l)),
      (ucs_of ''unit'', jstr (li_unit l)), (ucs_of ''customs_value_kobo'', JInt (li_customs_value_kobo l)),
      (ucs_of ''stamps_required'', JInt (li_stamps_required l))]"

definition declaration_dump :: "declaration_in \<Rightarrow> json" where
  "declaration_dump b = JObj
     [(ucs_of ''declaration_ref'', jstr (di_declaration_ref b)), (ucs_of ''consignee_tin'', jstr (di_consignee_tin b)),
      (ucs_of ''consignee_name'', jstr (di_consignee_name b)), (ucs_of ''lines'', JArr (map line_dump (di_lines b)))]"

definition assessment_dump :: "string \<Rightarrow> json" where
  "assessment_dump declaration_ref = JObj [(ucs_of ''declaration_ref'', jstr declaration_ref)]"

subsection \<open>UUIDs in text\<close>

text \<open>\<open>uuid.UUID(text)\<close>: prefixes, braces and hyphens are dropped, and \<open>int(hex, 16)\<close> reads what is left.\<close>

fun replace_text :: "string \<Rightarrow> string \<Rightarrow> string" where
  "replace_text old [] = []"
| "replace_text old (c # s) =
    (if old \<noteq> [] \<and> take (length old) (c # s) = old then replace_text old (drop (length old - 1) s) else c # replace_text old s)"

definition strip_braces :: "string \<Rightarrow> string" where
  "strip_braces s = (let b = (\<lambda>c. c = CHR ''{'' \<or> c = CHR ''}'') in rev (dropWhile b (rev (dropWhile b s))))"

fun hex_digits :: "bool \<Rightarrow> nat \<Rightarrow> string \<Rightarrow> nat option" where
  "hex_digits after_digit n [] = (if after_digit then Some n else None)"
| "hex_digits after_digit n (c # cs) =
    (case hex_val (of_char c) of
       Some v \<Rightarrow> hex_digits True (n * 16 + v) cs
     | None \<Rightarrow> if c = CHR ''_'' \<and> after_digit then hex_digits False n cs else None)"

definition hex_prefixed :: "string \<Rightarrow> nat option" where
  "hex_prefixed s =
    (if take 2 s = ''0x'' \<or> take 2 s = ''0X''
     then (if take 1 (drop 2 s) = ''_'' then hex_digits False 0 (drop 3 s) else hex_digits False 0 (drop 2 s))
     else hex_digits False 0 s)"

text \<open>A negative number is out of range, unless it is zero.\<close>

definition hex_int :: "string \<Rightarrow> nat option" where
  "hex_int text =
    (let s = strip text
     in if take 1 s = ''-'' then (case hex_prefixed (drop 1 s) of Some 0 \<Rightarrow> Some 0 | _ \<Rightarrow> None)
        else if take 1 s = ''+'' then hex_prefixed (drop 1 s) else hex_prefixed s)"

definition parse_uuid :: "string \<Rightarrow> uuid result" where
  "parse_uuid text =
    (let hex = replace_text ''-'' (strip_braces (replace_text ''uuid:'' (replace_text ''urn:'' text)))
     in if length hex \<noteq> 32 then Inl (ValueError ''badly formed hexadecimal UUID string'')
        else case hex_int hex of Some n \<Rightarrow> Inr n | None \<Rightarrow> Inl (ValueError ''invalid literal for int() with base 16''))"

subsection \<open>Common steps\<close>

text \<open>The last steps of a handler: the audit event, COMMIT, and the response.\<close>

definition audit_commit :: "'sk env \<Rightarrow> datetime \<Rightarrow> string \<Rightarrow> json \<Rightarrow> json \<Rightarrow> db \<Rightarrow> (json \<times> db) result" where
  "audit_commit env now event_type payload response d =
    rbind (audit_record env now event_type payload d) (\<lambda>(ev, d1). rbind (commit d1) (\<lambda>d2. Inr (response, d2)))"

definition find_declaration_ref :: "db \<Rightarrow> string \<Rightarrow> customs_declaration option" where
  "find_declaration_ref d ref = find (\<lambda>c. dc_declaration_ref c = ref) (db_declarations d)"

definition assessment_view :: "assessment \<Rightarrow> json" where
  "assessment_view a = JObj
     [(ucs_of ''assessmentId'', jstr (uuid_str (as_id a))), (ucs_of ''declarationId'', jstr (uuid_str (as_declaration_id a))),
      (ucs_of ''status'', jstr (assessment_status_text (as_status a))), (ucs_of ''currency'', jstr (as_currency a)),
      (ucs_of ''totalDutyKobo'', JInt (as_total_duty_kobo a)), (ucs_of ''stampsRequired'', JInt (as_stamps_required a)),
      (ucs_of ''riskTier'', jstr (risk_tier_text (as_risk_tier a))), (ucs_of ''approvalsRequired'', JInt (as_approvals_required a)),
      (ucs_of ''submittedBy'', jstr (as_submitted_by a))]"

subsection \<open>Declarations\<close>

fun declared_lines :: "uuid \<Rightarrow> line_in list \<Rightarrow> db \<Rightarrow> db result" where
  "declared_lines declaration_id [] d = Inr d"
| "declared_lines declaration_id (l # ls) d =
    (let (u, d1) = uuid4 d
     in rbind (insert_declaration_line \<lparr>dl_id = u, dl_declaration_id = declaration_id, dl_hs_code = li_hs_code l, dl_description = li_description l,
          dl_quantity = li_quantity l, dl_unit = li_unit l, dl_customs_value_kobo = li_customs_value_kobo l,
          dl_stamps_required = li_stamps_required l\<rparr> d1) (declared_lines declaration_id ls))"

definition declare_goods :: "'sk env \<Rightarrow> datetime \<Rightarrow> string \<Rightarrow> declaration_in \<Rightarrow> db \<Rightarrow> db result" where
  "declare_goods env now subject body d =
    (let (u, d0) = uuid4 d;
         dc = \<lparr>dc_id = u, dc_declaration_ref = di_declaration_ref body, dc_consignee_tin = di_consignee_tin body,
           dc_consignee_name = di_consignee_name body, dc_source_event_id = ''api:'' @ subject @ '':'' @ di_declaration_ref body,
           dc_occurred_at = now, dc_envelope = JObj [(ucs_of ''intake'', jstr ''api'')], dc_received_at = now\<rparr>
     in rbind (insert_declaration dc d0) (\<lambda>d1.
        rbind (declared_lines u (di_lines body) d1) (\<lambda>d2.
        rbind (audit_record env now ''declaration.received'' (JObj
           [(ucs_of ''declarationRef'', jstr (di_declaration_ref body)), (ucs_of ''consigneeTin'', jstr (di_consignee_tin body)),
            (ucs_of ''principal'', jstr subject)]) d2) (\<lambda>(ev, d3). Inr d3))))"

definition create_declaration_route ::
  "'sk env \<Rightarrow> policy_engine \<Rightarrow> datetime \<Rightarrow> identity \<Rightarrow> string option \<Rightarrow> declaration_in \<Rightarrow> db \<Rightarrow> (json \<times> db) result" where
  "create_declaration_route env policy now ident idem_key body d =
    rbind (require_policy policy ident ''assessment'' ''create'' ''INTERNAL'') (\<lambda>_.
    rbind (idempotent_replay env idem_key (subject_of ident) (declaration_dump body) d) (\<lambda>replay.
      case replay of
        Some rec \<Rightarrow> Inr (id_response_body rec, d)
      | None \<Rightarrow>
          if find_declaration_ref d (di_declaration_ref body) \<noteq> None then Inl (HTTPException 409 ''declaration-exists'')
          else rbind (declare_goods env now (subject_of ident) body d) (\<lambda>d1.
            let resp = JObj [(ucs_of ''declarationRef'', jstr (di_declaration_ref body)), (ucs_of ''lines'', JInt (int (length (di_lines body))))]
            in rbind (store_idempotency env now idem_key (subject_of ident) (declaration_dump body) 201 resp d1) (\<lambda>d2.
               rbind (commit d2) (\<lambda>d3. Inr (resp, d3))))))"

subsection \<open>Assessments\<close>

text \<open>\<open>except AssessmentError\<close> and its status.\<close>

definition assessment_http :: "(string \<Rightarrow> int) \<Rightarrow> exn \<Rightarrow> exn" where
  "assessment_http status e = (case e of AssessmentError reason _ \<Rightarrow> HTTPException (status reason) reason | _ \<Rightarrow> e)"

definition assess_declaration ::
  "'sk env \<Rightarrow> datetime \<Rightarrow> string \<Rightarrow> string \<Rightarrow> customs_declaration \<Rightarrow> db \<Rightarrow> (assessment \<times> db) result" where
  "assess_declaration env now subject key dc d =
    rbind (map_error (assessment_http (\<lambda>_. 422)) (create_assessment now dc subject key None d)) (\<lambda>(a, d1).
    rbind (audit_record env now ''assessment.created'' (JObj
       [(ucs_of ''assessmentId'', jstr (uuid_str (as_id a))), (ucs_of ''declarationRef'', jstr (dc_declaration_ref dc)),
        (ucs_of ''totalDutyKobo'', JInt (as_total_duty_kobo a)), (ucs_of ''riskTier'', jstr (risk_tier_text (as_risk_tier a))),
        (ucs_of ''principal'', jstr subject)]) d1) (\<lambda>(ev, d2).
    rbind (enqueue env now ''stamps.assessed.v1''
       [(ucs_of ''assessmentId'', jstr (uuid_str (as_id a))), (ucs_of ''declarationRef'', jstr (dc_declaration_ref dc)),
        (ucs_of ''consigneeTin'', jstr (dc_consignee_tin dc)), (ucs_of ''totalDutyKobo'', JInt (as_total_duty_kobo a)),
        (ucs_of ''stampsRequired'', JInt (as_stamps_required a)), (ucs_of ''riskTier'', jstr (risk_tier_text (as_risk_tier a)))]
       subject ''excise-officer'' (Some (dc_declaration_ref dc)) d2) (\<lambda>(msg, d3). Inr (a, d3))))"

definition create_assessment_route ::
  "'sk env \<Rightarrow> policy_engine \<Rightarrow> datetime \<Rightarrow> identity \<Rightarrow> string option \<Rightarrow> string \<Rightarrow> db \<Rightarrow> (json \<times> db) result" where
  "create_assessment_route env policy now ident idem_key declaration_ref d =
    rbind (require_policy policy ident ''assessment'' ''create'' ''CONFIDENTIAL'') (\<lambda>_.
    rbind (idempotent_replay env idem_key (subject_of ident) (assessment_dump declaration_ref) d) (\<lambda>replay.
      case replay of
        Some rec \<Rightarrow> Inr (id_response_body rec, d)
      | None \<Rightarrow>
          (case find_declaration_ref d declaration_ref of
             None \<Rightarrow> Inl (HTTPException 404 ''declaration-not-found'')
           | Some dc \<Rightarrow>
               let auto_key = ''auto:'' @ subject_of ident @ '':'' @ uuid_str (dc_id dc);
                   key = (case idem_key of None \<Rightarrow> auto_key | Some k \<Rightarrow> if k = [] then auto_key else k)
               in rbind (assess_declaration env now (subject_of ident) key dc d) (\<lambda>(a, d1).
                  rbind (store_idempotency env now idem_key (subject_of ident) (assessment_dump declaration_ref) 201 (assessment_view a) d1) (\<lambda>d2.
                  rbind (commit d2) (\<lambda>d3. Inr (assessment_view a, d3)))))))"

definition get_assessment_route :: "policy_engine \<Rightarrow> identity \<Rightarrow> uuid \<Rightarrow> db \<Rightarrow> json result" where
  "get_assessment_route policy ident assessment_id d =
    rbind (require_policy policy ident ''assessment'' ''read'' ''CONFIDENTIAL'') (\<lambda>_.
      case find_assessment d assessment_id of
        None \<Rightarrow> Inl (HTTPException 404 ''assessment-not-found'')
      | Some a \<Rightarrow> Inr (assessment_view a))"

definition decision_status :: "string \<Rightarrow> int" where
  "decision_status reason = (if reason \<in> {''self-approval'', ''duplicate-decision''} then 403 else 422)"

definition announce_approval :: "'sk env \<Rightarrow> datetime \<Rightarrow> string \<Rightarrow> assessment \<Rightarrow> db \<Rightarrow> db result" where
  "announce_approval env now subject a d =
    (if as_status a = AS_APPROVED
     then rbind (enqueue env now ''stamps.approved.v1''
       [(ucs_of ''assessmentId'', jstr (uuid_str (as_id a))), (ucs_of ''approvalsRequired'', JInt (as_approvals_required a))]
       subject ''excise-approver'' (Some (uuid_str (as_declaration_id a))) d) (\<lambda>(msg, d1). Inr d1)
     else Inr d)"

definition decide_assessment_route ::
  "'sk env \<Rightarrow> policy_engine \<Rightarrow> datetime \<Rightarrow> identity \<Rightarrow> uuid \<Rightarrow> decision_in \<Rightarrow> db \<Rightarrow> (json \<times> db) result" where
  "decide_assessment_route env policy now ident assessment_id body d =
    rbind (require_policy policy ident ''assessment'' ''approve'' ''CONFIDENTIAL'') (\<lambda>_.
    rbind (map_error (assessment_http decision_status)
      (record_decision now assessment_id (subject_of ident) (de_decision body) (de_reason body) d)) (\<lambda>(a, d1).
    rbind (audit_record env now ''assessment.decision'' (JObj
       [(ucs_of ''assessmentId'', jstr (uuid_str assessment_id)), (ucs_of ''decision'', jstr (de_decision body)),
        (ucs_of ''principal'', jstr (subject_of ident)), (ucs_of ''resultingStatus'', jstr (assessment_status_text (as_status a)))]) d1) (\<lambda>(ev, d2).
    rbind (announce_approval env now (subject_of ident) a d2) (\<lambda>d3.
    rbind (commit d3) (\<lambda>d4. Inr (assessment_view a, d4))))))"

subsection \<open>Payments\<close>

fun intent_status_text :: "intent_status \<Rightarrow> string" where
  "intent_status_text PI_PENDING = ''PENDING''"
| "intent_status_text PI_SETTLED = ''SETTLED''"
| "intent_status_text PI_FAILED = ''FAILED''"

fun receipt_status_text :: "receipt_status \<Rightarrow> string" where
  "receipt_status_text PR_APPLIED = ''APPLIED''"
| "receipt_status_text PR_QUARANTINED = ''QUARANTINED''"

definition payment_http :: "exn \<Rightarrow> exn" where
  "payment_http e = (case e of
     PaymentError reason _ \<Rightarrow> HTTPException (if reason = ''rail-unavailable'' then 503 else 422) reason | _ \<Rightarrow> e)"

definition create_payment_intent_route ::
  "'sk env \<Rightarrow> policy_engine \<Rightarrow> datetime \<Rightarrow> identity \<Rightarrow> uuid \<Rightarrow> db \<Rightarrow> (json \<times> db) result" where
  "create_payment_intent_route env policy now ident assessment_id d =
    rbind (require_policy policy ident ''payment'' ''create'' ''FIDUCIARY_SEGREGATED'') (\<lambda>_.
      case find_assessment d assessment_id of
        None \<Rightarrow> Inl (HTTPException 404 ''assessment-not-found'')
      | Some a \<Rightarrow>
          rbind (map_error payment_http (create_intent (en_settings env) now a d)) (\<lambda>(p, d1).
            audit_commit env now ''payment.intent-created'' (JObj
              [(ucs_of ''paymentIntentId'', jstr (uuid_str (pi_id p))), (ucs_of ''assessmentId'', jstr (uuid_str assessment_id)),
               (ucs_of ''expectedAmountKobo'', JInt (pi_expected_amount_kobo p)), (ucs_of ''rail'', jstr (pi_rail p))])
              (JObj [(ucs_of ''paymentIntentId'', jstr (uuid_str (pi_id p))), (ucs_of ''rail'', jstr (pi_rail p)),
                 (ucs_of ''expectedAmountKobo'', JInt (pi_expected_amount_kobo p)), (ucs_of ''currency'', jstr (pi_currency p)),
                 (ucs_of ''status'', jstr (intent_status_text (pi_status p)))]) d1))"

definition record_payment_receipt_route ::
  "'sk env \<Rightarrow> policy_engine \<Rightarrow> datetime \<Rightarrow> identity \<Rightarrow> receipt_in \<Rightarrow> db \<Rightarrow> (json \<times> db) result" where
  "record_payment_receipt_route env policy now ident body d =
    rbind (require_policy policy ident ''payment'' ''settle'' ''FIDUCIARY_SEGREGATED'') (\<lambda>_.
    rbind (parse_uuid (ri_payment_intent_id body)) (\<lambda>intent_id.
      case find_intent d intent_id of
        None \<Rightarrow> Inl (HTTPException 404 ''intent-not-found'')
      | Some intent \<Rightarrow>
          rbind (record_receipt now (pi_id intent) (ri_external_reference body) (ri_amount_kobo body) (ri_currency body) d) (\<lambda>(r, d1).
            audit_commit env now ''payment.receipt-recorded'' (JObj
              [(ucs_of ''externalReference'', jstr (pr_external_reference r)), (ucs_of ''status'', jstr (receipt_status_text (pr_status r))),
               (ucs_of ''amountKobo'', JInt (pr_amount_kobo r)), (ucs_of ''quarantineReason'', jstr (pr_quarantine_reason r))])
              (JObj [(ucs_of ''receiptId'', jstr (uuid_str (pr_id r))), (ucs_of ''status'', jstr (receipt_status_text (pr_status r))),
                 (ucs_of ''quarantineReason'', jstr (pr_quarantine_reason r))]) d1)))"

end
