(* ===== verification/Scans.thy ===== *)
theory Scans
  imports FieldVerification
begin

section \<open>What holds of scans at all times\<close>

text \<open>
  \<open>field_ok\<close>: every stamp has at most one valid scan on record, and has one exactly when its first-scan
  evidence says so; the published lists flag as void exactly the voided stamps, and every suspect stamp
  as suspect. Scanning, voiding and the operations of issuance keep it.
\<close>

subsection \<open>The three things a scan can do\<close>

lemma repeat_scan_cases:
  assumes "repeat_scan env now sc s d = Inr (r, d')"
  obtains
    (same) v where "r = result_of O_already_verified (st_serial s) (Some s) ''repeat scan''"
      "v = attempt (db_uuids d (db_next_uuid d)) now sc (st_serial s) (Some s) O_already_verified ''repeat scan''"
      "d' = d\<lparr>db_verifications := db_verifications d @ [v], db_next_uuid := Suc (db_next_uuid d)\<rparr>" "st_id s \<in> st_id ` set (db_stamps d)"
      "st_first_scan_verifier s = sa_verifier_id sc \<or> sa_verifier_id sc = []"
  | (suspect) v d1 rows where "r = result_of O_clone_suspect (st_serial s) (Some s) ''repeat scan''"
      "v = attempt (db_uuids d (db_next_uuid d)) now sc (st_serial s) (Some s) O_clone_suspect ''repeat scan''"
      "d1 = d\<lparr>db_verifications := db_verifications d @ [v], db_next_uuid := Suc (db_next_uuid d),
         db_stamps := update_where (\<lambda>x. st_id x = st_id s) (\<lambda>x. x\<lparr>st_status := SS_SUSPECT\<rparr>) (db_stamps d)\<rparr>"
      "set_flag env now ''suspect'' (st_status_list_index s) d1 = Inr d'" "d' = d1\<lparr>db_status_list_snapshots := rows\<rparr>"
      "st_id s \<in> st_id ` set (db_stamps d)" "st_first_scan_verifier s \<noteq> sa_verifier_id sc" "sa_verifier_id sc \<noteq> []"
proof -
  let ?suspect = "st_first_scan_verifier s \<noteq> sa_verifier_id sc \<and> sa_verifier_id sc \<noteq> []"
  let ?oc = "if ?suspect then O_clone_suspect else O_already_verified"
  have eq: "repeat_scan env now sc s d = rbind (record_attempt now sc (st_serial s) (Some s) ?oc ''repeat scan'' d) (\<lambda>d1.
      rbind (if ?suspect
             then rbind (update_stamps (\<lambda>x. st_id x = st_id s) (\<lambda>x. x\<lparr>st_status := SS_SUSPECT\<rparr>) d1)
                    (set_flag env now ''suspect'' (st_status_list_index s))
             else Inr d1) (\<lambda>d2. Inr (result_of ?oc (st_serial s) (Some s) ''repeat scan'', d2)))"
    by (simp add: repeat_scan_def Let_def)
  obtain d1 where d1: "record_attempt now sc (st_serial s) (Some s) ?oc ''repeat scan'' d = Inr d1"
      "(if ?suspect then rbind (update_stamps (\<lambda>x. st_id x = st_id s) (\<lambda>x. x\<lparr>st_status := SS_SUSPECT\<rparr>) d1)
                    (set_flag env now ''suspect'' (st_status_list_index s)) else Inr d1) = Inr d'"
      "r = result_of ?oc (st_serial s) (Some s) ''repeat scan''"
    using assms unfolding eq rbind_eq_Inr by blast
  obtain v where v: "d1 = d\<lparr>db_verifications := db_verifications d @ [v], db_next_uuid := Suc (db_next_uuid d)\<rparr>"
    "v = attempt (db_uuids d (db_next_uuid d)) now sc (st_serial s) (Some s) ?oc ''repeat scan''" "st_id s \<in> st_id ` set (db_stamps d)"
    by (rule record_attempt_effect [OF d1(1)]) simp
  show ?thesis
  proof (cases ?suspect)
    case False
    with d1(2,3) v show ?thesis by (intro same [of v]) simp_all
  next
    case True
    then have "rbind (update_stamps (\<lambda>x. st_id x = st_id s) (\<lambda>x. x\<lparr>st_status := SS_SUSPECT\<rparr>) d1)
                    (set_flag env now ''suspect'' (st_status_list_index s)) = Inr d'" using d1(2) by simp
    then obtain d2 where d2: "update_stamps (\<lambda>x. st_id x = st_id s) (\<lambda>x. x\<lparr>st_status := SS_SUSPECT\<rparr>) d1 = Inr d2"
      "set_flag env now ''suspect'' (st_status_list_index s) d2 = Inr d'" by (rule rbindE)
    obtain rows where "d' = d2\<lparr>db_status_list_snapshots := rows\<rparr>" by (rule set_flag_fields [OF d2(2)])
    with True d1(3) v d2(2) update_stamps_ok [OF d2(1)] show ?thesis by (intro suspect [of v d2 rows]) simp_all
  qed
qed

lemma verify_stamp_cases:
  assumes "verify_stamp env now serial sc sls d = Inr (r, d')"
  obtains
    (noted) stamp oc detail presented written v where "r = result_of oc presented stamp detail" "oc \<notin> {O_valid, O_clone_suspect}"
      "v = attempt (db_uuids d (db_next_uuid d)) now sc written stamp oc detail"
      "d' = d\<lparr>db_verifications := db_verifications d @ [v], db_next_uuid := Suc (db_next_uuid d)\<rparr>"
      "case stamp of None \<Rightarrow> True | Some s \<Rightarrow> st_id s \<in> st_id ` set (db_stamps d)"
  | (suspect) s v d1 rows where "r = result_of O_clone_suspect (st_serial s) (Some s) ''repeat scan''"
      "v = attempt (db_uuids d (db_next_uuid d)) now sc (st_serial s) (Some s) O_clone_suspect ''repeat scan''"
      "d1 = d\<lparr>db_verifications := db_verifications d @ [v], db_next_uuid := Suc (db_next_uuid d),
         db_stamps := update_where (\<lambda>x. st_id x = st_id s) (\<lambda>x. x\<lparr>st_status := SS_SUSPECT\<rparr>) (db_stamps d)\<rparr>"
      "set_flag env now ''suspect'' (st_status_list_index s) d1 = Inr d'" "d' = d1\<lparr>db_status_list_snapshots := rows\<rparr>"
      "find_stamp d (st_serial s) = Some s" "st_status s \<notin> {SS_VOID, SS_EXPIRED}" "now < st_valid_until s"
      "st_status s = SS_CONSUMED \<or> st_first_scan_at s \<noteq> None"
      "st_first_scan_verifier s \<noteq> sa_verifier_id sc" "sa_verifier_id sc \<noteq> []"
  | (consumed) s v m k where "r = result_of O_valid (st_serial s) (Some (marked now sc s)) ''first scan''"
      "v = attempt (db_uuids d (db_next_uuid d)) now sc (st_serial s) (Some s) O_valid ''first scan''"
      "d' = d\<lparr>db_stamps := update_where (\<lambda>x. st_id x = st_id s) (marked now sc) (db_stamps d),
         db_verifications := db_verifications d @ [v], db_outbox_messages := db_outbox_messages d @ [m], db_next_uuid := k\<rparr>"
      "ob_topic m = ''stamps.verified''" "ob_published_at m = None"
      "find_stamp d (st_serial s) = Some s" "st_status s = SS_ACTIVE" "now < st_valid_until s" "st_first_scan_at s = None"
      "sa_consume sc" "credential_failures env (sa_credential sc) (st_serial s) sls = Inr []"
proof (cases "parse_serial (upper (strip serial))")
  case (Inl e)
  let ?p = "upper (strip serial)" and ?t = "serial_error_text e"
  from Inl assms obtain d1 where d1: "record_attempt now sc (take 64 ?p) None O_malformed_serial ?t d = Inr d1"
    "r = result_of O_malformed_serial ?p None ?t" "d' = d1"
    by (auto simp: verify_stamp_def rbind_eq_Inr Let_def)
  show ?thesis by (rule record_attempt_effect [OF d1(1)]) (use d1 in \<open>intro noted [of O_malformed_serial ?p None ?t _ "take 64 ?p"], simp_all\<close>)
next
  case (Inr parts)
  have note_it: thesis if "report now sc presented stamp oc detail d = Inr (r, d')" "oc \<notin> {O_valid, O_clone_suspect}" for presented stamp oc detail
    by (rule report_effect [OF that(1)]) (use that(2) in \<open>intro noted [of oc presented stamp detail _ presented], simp_all\<close>)
  show ?thesis
  proof (cases "find_stamp d (sp_serial parts)")
    case None
    with Inr assms have "report now sc (sp_serial parts) None O_unknown_serial [] d = Inr (r, d')" by (simp add: verify_stamp_def)
    then show ?thesis by (rule note_it) simp
  next
    case (Some s)
    then have s: "find_stamp d (st_serial s) = Some s" using find_stamp_Some [OF Some] by simp
    let ?st = "st_status s"
    note run = assms [unfolded verify_stamp_def Let_def Inr sum.case Some option.case]
    show ?thesis
    proof (cases "?st = SS_VOID \<or> ?st = SS_EXPIRED \<or> st_valid_until s \<le> now")
      case True
      then have "report now sc (st_serial s) (Some s) (if ?st = SS_VOID then O_void else O_expired) [] d = Inr (r, d')"
        using run by (simp split: if_splits)
      then show ?thesis by (rule note_it) simp
    next
      case live: False
      show ?thesis
      proof (cases "?st = SS_CONSUMED \<or> st_first_scan_at s \<noteq> None")
        case True
        with live run have "repeat_scan env now sc s d = Inr (r, d')" by (simp split: if_splits)
        then show ?thesis
        proof (cases rule: repeat_scan_cases)
          case (same v)
          then show ?thesis by (intro noted [of O_already_verified "st_serial s" "Some s" "''repeat scan''" v "st_serial s"]) simp_all
        next
          case c: (suspect v d1 rows)
          show ?thesis by (rule suspect [OF c(1-5) s _ _ True c(7,8)]) (use live in simp_all)
        qed
      next
        case unscanned: False
        show ?thesis
        proof (cases "?st = SS_ACTIVE \<and> sa_consume sc")
          case False
          then have "report now sc (st_serial s) (Some s) (if ?st \<noteq> SS_ACTIVE then O_not_active else O_active)
             (if ?st \<noteq> SS_ACTIVE then ''stamp is '' @ stamp_status_text ?st else ''non-consuming pre-check'') d = Inr (r, d')"
            using run live unscanned by (simp split: if_splits)
          then show ?thesis by (rule note_it) simp
        next
          case True
          obtain fs where fs: "credential_failures env (sa_credential sc) (st_serial s) sls = Inr fs"
            "(if fs \<noteq> [] then report now sc (st_serial s) (Some s) O_invalid_credential (join ''; '' fs) d else consume_stamp env now sc s d) = Inr (r, d')"
            using run live unscanned True by (simp add: rbind_eq_Inr) blast
          show ?thesis
          proof (cases "fs = []")
            case False
            with fs(2) have "report now sc (st_serial s) (Some s) O_invalid_credential (join ''; '' fs) d = Inr (r, d')" by simp
            then show ?thesis by (rule note_it) simp
          next
            case none: True
            with fs(2) have "consume_stamp env now sc s d = Inr (r, d')" by simp
            then show ?thesis
              by (rule consume_stamp_effect) (use True fs(1) none live unscanned s in \<open>intro consumed, simp_all\<close>)
          qed
        qed
      qed
    qed
  qed
qed

subsection \<open>Evidence and flags\<close>

definition valid_scans :: "verification list \<Rightarrow> stamp \<Rightarrow> verification list" where
  "valid_scans vs s = filter (\<lambda>v. ve_stamp_id v = Some (st_id s) \<and> ve_outcome v = O_valid) vs"

definition clone_scans :: "verification list \<Rightarrow> stamp \<Rightarrow> verification list" where
  "clone_scans vs s = filter (\<lambda>v. ve_stamp_id v = Some (st_id s) \<and> ve_outcome v = O_clone_suspect) vs"

text \<open>The first-scan evidence on a stamp is the one valid scan on record.\<close>

definition scan_ok :: "verification list \<Rightarrow> stamp \<Rightarrow> bool" where
  "scan_ok vs s =
    (case st_first_scan_at s of
       None \<Rightarrow> st_status s \<in> {SS_ISSUED, SS_ACTIVE, SS_VOID} \<and> valid_scans vs s = [] \<and> clone_scans vs s = []
     | Some at \<Rightarrow> st_status s \<in> {SS_CONSUMED, SS_SUSPECT, SS_VOID} \<and>
         (st_status s \<noteq> SS_VOID \<longrightarrow> (st_status s = SS_SUSPECT) = (clone_scans vs s \<noteq> [])) \<and>
         list_all (\<lambda>v. ve_verifier_id v \<notin> {[], st_first_scan_verifier s}) (clone_scans vs s) \<and>
         (case valid_scans vs s of [v] \<Rightarrow> ve_verifier_id v = st_first_scan_verifier s \<and> ve_verified_at v = at | _ \<Rightarrow> False))"

lemma scan_ok_cong:
  "valid_scans vs' s = valid_scans vs s \<Longrightarrow> clone_scans vs' s = clone_scans vs s \<Longrightarrow> scan_ok vs' s = scan_ok vs s"
  by (simp only: scan_ok_def)

definition refers :: "stamp list \<Rightarrow> verification \<Rightarrow> bool" where
  "refers ss v = (case ve_stamp_id v of None \<Rightarrow> True | Some i \<Rightarrow> i \<in> st_id ` set ss)"

definition scans_ok :: "db \<Rightarrow> bool" where
  "scans_ok d = (list_all (scan_ok (db_verifications d)) (db_stamps d) \<and> list_all (refers (db_stamps d)) (db_verifications d))"

definition indices :: "(stamp \<Rightarrow> bool) \<Rightarrow> stamp list \<Rightarrow> int set" where
  "indices P ss = set (map st_status_list_index (filter P ss))"

text \<open>What is published: the voided stamps, no expiry, and the stamps of which a second device was seen.\<close>

definition flags_ok :: "'sk env \<Rightarrow> db \<Rightarrow> bool" where
  "flags_ok env d =
    (Collect (flagged env d ''void'') = indices (\<lambda>s. st_status s = SS_VOID) (db_stamps d) \<and>
     Collect (flagged env d ''expired'') = {} \<and>
     Collect (flagged env d ''suspect'') = indices (\<lambda>s. clone_scans (db_verifications d) s \<noteq> []) (db_stamps d))"

definition field_ok :: "'sk env \<Rightarrow> db \<Rightarrow> bool" where
  "field_ok env d = (lists_ok env d \<and> scans_ok d \<and> flags_ok env d)"

lemma flagged_same_all: "db_status_list_snapshots d' = db_status_list_snapshots d \<Longrightarrow> flagged env d' = flagged env d"
  by (intro ext) (rule flagged_same)

lemma field_ok_same:
  assumes "db_stamps d' = db_stamps d" "db_verifications d' = db_verifications d" "db_status_list_snapshots d' = db_status_list_snapshots d"
  shows "field_ok env d' \<longleftrightarrow> field_ok env d"
  by (simp add: field_ok_def scans_ok_def flags_ok_def assms(1,2) lists_ok_same [OF assms(3)] flagged_same_all [OF assms(3)])

lemma in_indices: "i \<in> indices P ss \<longleftrightarrow> (\<exists>s \<in> set ss. st_status_list_index s = i \<and> P s)"
  by (auto simp: indices_def)

lemma valid_scans_snoc: "valid_scans (vs @ [v]) s = valid_scans vs s @ (if ve_stamp_id v = Some (st_id s) \<and> ve_outcome v = O_valid then [v] else [])"
  by (simp add: valid_scans_def)

lemma clone_scans_snoc: "clone_scans (vs @ [v]) s = clone_scans vs s @ (if ve_stamp_id v = Some (st_id s) \<and> ve_outcome v = O_clone_suspect then [v] else [])"
  by (simp add: clone_scans_def)

lemma attempt_simps [simp]:
  "ve_stamp_id (attempt u now sc p st oc dt) = map_option st_id st" "ve_outcome (attempt u now sc p st oc dt) = oc"
  "ve_verifier_id (attempt u now sc p st oc dt) = sa_verifier_id sc" "ve_verified_at (attempt u now sc p st oc dt) = now"
  "ve_detail (attempt u now sc p st oc dt) = dt" "ve_public_scan (attempt u now sc p st oc dt) = sa_public_scan sc"
  "ve_serial_presented (attempt u now sc p st oc dt) = p"
  by (simp_all add: attempt_def)

lemma marked_simps [simp]:
  "st_id (marked now sc s) = st_id s" "st_status (marked now sc s) = SS_CONSUMED" "st_first_scan_at (marked now sc s) = Some now"
  "st_first_scan_verifier (marked now sc s) = sa_verifier_id sc" "st_status_list_index (marked now sc s) = st_status_list_index s"
  "st_serial (marked now sc s) = st_serial s" "st_valid_until (marked now sc s) = st_valid_until s"
  by (simp_all add: marked_def)

text \<open>An attempt that is neither a valid scan nor the sighting of a clone.\<close>

lemma field_ok_noted:
  assumes "field_ok env d" "d' = d\<lparr>db_verifications := db_verifications d @ [v], db_next_uuid := k\<rparr>"
    and "ve_outcome v \<notin> {O_valid, O_clone_suspect}" "refers (db_stamps d) v"
  shows "field_ok env d'"
proof -
  have "valid_scans (db_verifications d @ [v]) = valid_scans (db_verifications d)" "clone_scans (db_verifications d @ [v]) = clone_scans (db_verifications d)"
    using assms(3) by (auto simp: fun_eq_iff valid_scans_snoc clone_scans_snoc)
  note scans = this
  have "scan_ok (db_verifications d @ [v]) = scan_ok (db_verifications d)" by (rule ext, rule scan_ok_cong) (simp_all add: scans)
  moreover have same: "db_status_list_snapshots d' = db_status_list_snapshots d" and "db_stamps d' = db_stamps d"
    "db_verifications d' = db_verifications d @ [v]" using assms(2) by simp_all
  ultimately show ?thesis
    using assms(1,4) by (simp add: field_ok_def scans_ok_def flags_ok_def scans(2) lists_ok_same [OF same] flagged_same_all [OF same])
qed

lemma refers_same_ids: "map st_id ss' = map st_id ss \<Longrightarrow> refers ss' = refers ss"
  by (simp add: fun_eq_iff refers_def split: option.splits) (metis list.set_map)

lemma the_stamp:
  assumes "distinct (map st_id ss)" "s \<in> set ss" "x \<in> set ss" "st_id x = st_id s"
  shows "x = s"
  using unique_row [of st_id ss x s] assms by simp

text \<open>One stamp changes, and one scan of it is added to the record.\<close>

lemma scans_ok_one:
  assumes "scans_ok d" "distinct (map st_id (db_stamps d))" "s \<in> set (db_stamps d)" "st_id (f s) = st_id s"
    and "ve_stamp_id v = Some (st_id s)" "scan_ok (db_verifications d @ [v]) (f s)"
    and "db_stamps d' = update_where (\<lambda>x. st_id x = st_id s) f (db_stamps d)" "db_verifications d' = db_verifications d @ [v]"
  shows "scans_ok d'"
proof -
  let ?vs = "db_verifications d" and ?ss = "db_stamps d"
  note same = the_stamp [OF assms(2,3)]
  have ids: "map st_id (db_stamps d') = map st_id ?ss" unfolding assms(7) by (rule map_update_where) (use same assms(4) in metis)
  have "scan_ok (?vs @ [v]) x" if x: "x \<in> set (db_stamps d')" for x
  proof -
    have "\<exists>y \<in> set ?ss. x = (if st_id y = st_id s then f y else y)" using x unfolding assms(7) set_update_where .
    then obtain y where y: "y \<in> set ?ss" "x = (if st_id y = st_id s then f y else y)" ..
    have ok: "scan_ok ?vs y" using assms(1) y(1) by (simp add: scans_ok_def list_all_iff)
    show ?thesis
    proof (cases "st_id y = st_id s")
      case True
      with same [OF y(1)] y(2) assms(6) show ?thesis by simp
    next
      case False
      then have "valid_scans (?vs @ [v]) y = valid_scans ?vs y" "clone_scans (?vs @ [v]) y = clone_scans ?vs y"
        using assms(5) by (auto simp: valid_scans_snoc clone_scans_snoc)
      then have "scan_ok (?vs @ [v]) y = scan_ok ?vs y" by (rule scan_ok_cong)
      with ok have "scan_ok (?vs @ [v]) y" by simp
      with False y(2) show ?thesis by simp
    qed
  qed
  moreover have "refers (db_stamps d') w" if "w \<in> set (?vs @ [v])" for w
    using that assms(1,3,5) by (auto simp: refers_same_ids [OF ids] scans_ok_def list_all_iff refers_def)
  ultimately show ?thesis by (simp add: scans_ok_def assms(8) list_all_iff)
qed

lemma indices_update:
  assumes "\<And>x. x \<in> set ss \<Longrightarrow> st_status_list_index (if Q x then f x else x) = st_status_list_index x \<and> P' (if Q x then f x else x) = P x"
  shows "indices P' (update_where Q f ss) = indices P ss"
  using assms
proof (induction ss)
  case (Cons x ss)
  then have "indices P' (update_where Q f ss) = indices P ss" by simp
  with Cons(2) [of x] show ?case by (simp add: indices_def update_where_def)
qed (simp add: indices_def update_where_def)

lemma indices_cong: "(\<And>x. x \<in> set ss \<Longrightarrow> P' x = P x) \<Longrightarrow> indices P' ss = indices P ss"
  by (auto simp: in_indices)

lemma indices_insert:
  assumes "distinct (map st_id ss)" "s \<in> set ss"
  shows "indices (\<lambda>x. P x \<or> st_id x = st_id s) ss = insert (st_status_list_index s) (indices P ss)"
proof (intro set_eqI)
  fix i
  have "i \<in> indices (\<lambda>x. P x \<or> st_id x = st_id s) ss \<longleftrightarrow> i \<in> indices P ss \<or> (\<exists>x \<in> set ss. st_status_list_index x = i \<and> st_id x = st_id s)"
    unfolding in_indices by blast
  also have "(\<exists>x \<in> set ss. st_status_list_index x = i \<and> st_id x = st_id s) \<longleftrightarrow> i = st_status_list_index s"
    using the_stamp [OF assms] assms(2) by metis
  finally show "i \<in> indices (\<lambda>x. P x \<or> st_id x = st_id s) ss \<longleftrightarrow> i \<in> insert (st_status_list_index s) (indices P ss)" by auto
qed

text \<open>The three changes a scan or a void makes.\<close>

lemma field_ok_consumed:
  assumes "field_ok env d" "distinct (map st_id (db_stamps d))" "s \<in> set (db_stamps d)" "st_first_scan_at s = None" "st_status s \<noteq> SS_VOID"
    and "db_stamps d' = update_where (\<lambda>x. st_id x = st_id s) (marked now sc) (db_stamps d)" "db_verifications d' = db_verifications d @ [v]"
    and "db_status_list_snapshots d' = db_status_list_snapshots d" "v = attempt u now sc p (Some s) O_valid dt"
  shows "field_ok env d'"
proof -
  let ?vs = "db_verifications d" and ?ss = "db_stamps d"
  note same = the_stamp [OF assms(2,3)]
  have ok: "scan_ok ?vs s" using assms(1,3) by (simp add: field_ok_def scans_ok_def list_all_iff)
  have m: "valid_scans vs (marked now sc x) = valid_scans vs x" "clone_scans vs (marked now sc x) = clone_scans vs x" for vs x
    by (simp_all add: valid_scans_def clone_scans_def)
  have "scan_ok (?vs @ [v]) (marked now sc s)"
    using ok assms(4) by (simp add: scan_ok_def valid_scans_snoc clone_scans_snoc m assms(9))
  then have "scans_ok d'"
    by (intro scans_ok_one [of d s "marked now sc" v d']) (use assms in \<open>simp_all add: field_ok_def\<close>)
  moreover have "indices (\<lambda>s. st_status s = SS_VOID) (db_stamps d') = indices (\<lambda>s. st_status s = SS_VOID) ?ss"
    unfolding assms(6) by (rule indices_update) (use same assms(5) in auto)
  moreover have "indices (\<lambda>s. clone_scans (db_verifications d') s \<noteq> []) (db_stamps d') = indices (\<lambda>s. clone_scans ?vs s \<noteq> []) ?ss"
    unfolding assms(6) by (rule indices_update) (use same in \<open>auto simp: assms(7,9) clone_scans_snoc m\<close>)
  ultimately show ?thesis
    using assms(1) by (simp add: field_ok_def flags_ok_def lists_ok_same [OF assms(8)] flagged_same_all [OF assms(8)])
qed

lemma flagged_after:
  assumes "set_flag env now purpose index d = Inr d'" "lists_ok env d" "gzip_ok env"
  shows "Collect (flagged env d' p) = (if p = purpose then insert index (Collect (flagged env d p)) else Collect (flagged env d p))"
proof -
  have "purpose \<in> set PURPOSES" by (rule set_flag_effect [OF assms(1)])
  then have "list_ok env d purpose" using assms(2) by (simp add: lists_ok_def list_all_iff)
  from set_flag_flags [OF assms(1) this assms(3)] show ?thesis by auto
qed

lemma field_ok_suspect:
  assumes "field_ok env d" "gzip_ok env" "distinct (map st_id (db_stamps d))" "s \<in> set (db_stamps d)" "st_status s \<noteq> SS_VOID" "st_first_scan_at s \<noteq> None"
    and "d1 = d\<lparr>db_verifications := db_verifications d @ [v], db_next_uuid := k,
         db_stamps := update_where (\<lambda>x. st_id x = st_id s) (\<lambda>x. x\<lparr>st_status := SS_SUSPECT\<rparr>) (db_stamps d)\<rparr>"
    and "set_flag env now ''suspect'' (st_status_list_index s) d1 = Inr d'" "v = attempt u now sc p (Some s) O_clone_suspect dt"
    and "st_first_scan_verifier s \<noteq> sa_verifier_id sc" "sa_verifier_id sc \<noteq> []"
  shows "field_ok env d'"
proof -
  let ?vs = "db_verifications d" and ?ss = "db_stamps d" and ?f = "\<lambda>x. x\<lparr>st_status := SS_SUSPECT\<rparr>"
  note same = the_stamp [OF assms(3,4)]
  obtain rows where "d' = d1\<lparr>db_status_list_snapshots := rows\<rparr>" by (rule set_flag_fields [OF assms(8)])
  then have d': "db_stamps d' = update_where (\<lambda>x. st_id x = st_id s) ?f ?ss" "db_verifications d' = ?vs @ [v]"
    by (simp_all add: assms(7))
  have snaps: "db_status_list_snapshots d1 = db_status_list_snapshots d" by (simp add: assms(7))
  have ok: "scan_ok ?vs s" using assms(1,4) by (simp add: field_ok_def scans_ok_def list_all_iff)
  have m: "valid_scans vs (?f x) = valid_scans vs x" "clone_scans vs (?f x) = clone_scans vs x" for vs x
    by (simp_all add: valid_scans_def clone_scans_def)
  have "scan_ok (?vs @ [v]) (?f s)"
    using ok assms(6,10,11) by (auto simp: scan_ok_def valid_scans_snoc clone_scans_snoc m assms(9) split: list.splits)
  then have "scans_ok d'"
    by (intro scans_ok_one [of d s ?f v d']) (use assms d' in \<open>simp_all add: field_ok_def\<close>)
  moreover have "indices (\<lambda>s. st_status s = SS_VOID) (db_stamps d') = indices (\<lambda>s. st_status s = SS_VOID) ?ss"
    unfolding d'(1) by (rule indices_update) (use same assms(5) in auto)
  moreover have "indices (\<lambda>s. clone_scans (db_verifications d') s \<noteq> []) (db_stamps d') =
      insert (st_status_list_index s) (indices (\<lambda>s. clone_scans ?vs s \<noteq> []) ?ss)"
    unfolding d'(1) indices_insert [OF assms(3,4), symmetric]
    by (rule indices_update) (auto simp: d'(2) assms(9) clone_scans_snoc m)
  moreover have l1: "lists_ok env d1" using assms(1) by (simp add: field_ok_def lists_ok_same [OF snaps])
  ultimately show ?thesis
    using assms(1) set_flag_lists_ok [OF assms(8) l1 assms(2)]
    by (simp only: field_ok_def flags_ok_def flagged_after [OF assms(8) l1 assms(2)] flagged_same_all [OF snaps]) simp
qed

text \<open>A change of stamps that no scan is about: voiding, and activating.\<close>

lemma scans_ok_map:
  assumes "scans_ok d" "db_stamps d' = update_where P f (db_stamps d)" "db_verifications d' = db_verifications d"
    and "\<And>s. s \<in> set (db_stamps d) \<Longrightarrow> P s \<Longrightarrow> st_id (f s) = st_id s \<and> st_first_scan_at (f s) = st_first_scan_at s \<and>
      st_first_scan_verifier (f s) = st_first_scan_verifier s \<and>
      (st_status (f s) = SS_VOID \<or> st_status s = SS_ISSUED \<and> st_status (f s) = SS_ACTIVE)"
  shows "scans_ok d'"
proof -
  have ids: "map st_id (db_stamps d') = map st_id (db_stamps d)" unfolding assms(2) by (rule map_update_where) (use assms(4) in blast)
  have "scan_ok (db_verifications d) x" if x: "x \<in> set (db_stamps d')" for x
  proof -
    have "\<exists>y \<in> set (db_stamps d). x = (if P y then f y else y)" using x unfolding assms(2) set_update_where .
    then obtain y where y: "y \<in> set (db_stamps d)" "x = (if P y then f y else y)" ..
    have ok: "scan_ok (db_verifications d) y" using assms(1) y(1) by (simp add: scans_ok_def list_all_iff)
    show ?thesis
    proof (cases "P y")
      case True
      note f = assms(4) [OF y(1) True]
      then have m: "valid_scans vs (f y) = valid_scans vs y" "clone_scans vs (f y) = clone_scans vs y" for vs
        by (simp_all add: valid_scans_def clone_scans_def)
      then have e: "st_first_scan_at (f y) = st_first_scan_at y" "st_first_scan_verifier (f y) = st_first_scan_verifier y" using f by simp_all
      have "scan_ok (db_verifications d) (f y)"
        using ok f unfolding scan_ok_def m e by (cases "st_first_scan_at y") (auto simp del: split_paired_Ex)
      with True y(2) show ?thesis by simp
    qed (use ok y(2) in simp)
  qed
  then show ?thesis using assms(1,3) by (simp add: scans_ok_def list_all_iff refers_same_ids [OF ids])
qed

lemma field_ok_voided:
  assumes "field_ok env d" "gzip_ok env" "distinct (map st_id (db_stamps d))" "s \<in> set (db_stamps d)" "st_status s \<noteq> SS_VOID"
    and "d1 = d\<lparr>db_stamps := update_where (\<lambda>x. st_id x = st_id s) (\<lambda>x. x\<lparr>st_status := SS_VOID\<rparr>) (db_stamps d)\<rparr>"
    and "set_flag env now ''void'' (st_status_list_index s) d1 = Inr d'"
  shows "field_ok env d'"
proof -
  let ?vs = "db_verifications d" and ?ss = "db_stamps d" and ?f = "\<lambda>x. x\<lparr>st_status := SS_VOID\<rparr>"
  obtain rows where "d' = d1\<lparr>db_status_list_snapshots := rows\<rparr>" by (rule set_flag_fields [OF assms(7)])
  then have d': "db_stamps d' = update_where (\<lambda>x. st_id x = st_id s) ?f ?ss" "db_verifications d' = ?vs"
    by (simp_all add: assms(6))
  have snaps: "db_status_list_snapshots d1 = db_status_list_snapshots d" by (simp add: assms(6))
  have m: "clone_scans vs (?f x) = clone_scans vs x" for vs x by (simp add: clone_scans_def)
  have "scans_ok d'" by (rule scans_ok_map [OF _ d']) (use assms(1) in \<open>simp_all add: field_ok_def\<close>)
  moreover have "indices (\<lambda>s. st_status s = SS_VOID) (db_stamps d') = insert (st_status_list_index s) (indices (\<lambda>s. st_status s = SS_VOID) ?ss)"
    unfolding d'(1) indices_insert [OF assms(3,4), symmetric] by (rule indices_update) auto
  moreover have "indices (\<lambda>s. clone_scans (db_verifications d') s \<noteq> []) (db_stamps d') = indices (\<lambda>s. clone_scans ?vs s \<noteq> []) ?ss"
    unfolding d'(1) by (rule indices_update) (simp add: d'(2) m)
  moreover have l1: "lists_ok env d1" using assms(1) by (simp add: field_ok_def lists_ok_same [OF snaps])
  ultimately show ?thesis
    using assms(1) set_flag_lists_ok [OF assms(7) l1 assms(2)]
    by (simp only: field_ok_def flags_ok_def flagged_after [OF assms(7) l1 assms(2)] flagged_same_all [OF snaps]) simp
qed

lemma field_ok_activated:
  assumes "field_ok env d" "db_verifications d' = db_verifications d" "db_status_list_snapshots d' = db_status_list_snapshots d"
    and "db_stamps d' = update_where (\<lambda>s. st_batch_id s = i \<and> st_status s = SS_ISSUED) (\<lambda>s. s\<lparr>st_status := SS_ACTIVE, st_activated_at := at\<rparr>) (db_stamps d)"
  shows "field_ok env d'"
proof -
  let ?f = "\<lambda>s. s\<lparr>st_status := SS_ACTIVE, st_activated_at := at\<rparr>"
  have m: "clone_scans vs (?f x) = clone_scans vs x" for vs x by (simp add: clone_scans_def)
  have "scans_ok d'" by (rule scans_ok_map [OF _ assms(4,2)]) (use assms(1) in \<open>simp_all add: field_ok_def\<close>)
  moreover have "indices (\<lambda>s. st_status s = SS_VOID) (db_stamps d') = indices (\<lambda>s. st_status s = SS_VOID) (db_stamps d)"
    unfolding assms(4) by (rule indices_update) auto
  moreover have "indices (\<lambda>s. clone_scans (db_verifications d') s \<noteq> []) (db_stamps d') = indices (\<lambda>s. clone_scans (db_verifications d) s \<noteq> []) (db_stamps d)"
    unfolding assms(4) by (rule indices_update) (simp add: assms(2) m)
  ultimately show ?thesis
    using assms(1) by (simp add: field_ok_def flags_ok_def lists_ok_same [OF assms(3)] flagged_same_all [OF assms(3)])
qed

text \<open>New stamps: nobody has scanned them.\<close>

lemma field_ok_new_stamps:
  assumes "field_ok env d" "db_stamps d' = db_stamps d @ ss" "db_verifications d' = db_verifications d"
    and "db_status_list_snapshots d' = db_status_list_snapshots d" "distinct (map st_id (db_stamps d @ ss))"
    and "list_all (\<lambda>s. st_status s = SS_ISSUED \<and> st_first_scan_at s = None) ss"
  shows "field_ok env d'"
proof -
  have none: "valid_scans (db_verifications d) s = [] \<and> clone_scans (db_verifications d) s = []" if "s \<in> set ss" for s
  proof -
    have "st_id s \<notin> st_id ` set (db_stamps d)" using that assms(5) by auto
    then have "ve_stamp_id v \<noteq> Some (st_id s)" if "v \<in> set (db_verifications d)" for v
      using assms(1) that by (auto simp: field_ok_def scans_ok_def list_all_iff refers_def split: option.splits)
    then show ?thesis by (simp add: valid_scans_def clone_scans_def filter_empty_conv)
  qed
  have new: "list_all (scan_ok (db_verifications d)) ss"
    using assms(6) none by (auto simp: list_all_iff scan_ok_def)
  have "list_all (refers (db_stamps d @ ss)) (db_verifications d)"
    using assms(1) unfolding field_ok_def scans_ok_def list_all_iff refers_def
    by (metis (no_types, lifting) image_Un option.case_eq_if set_append UnI1)
  with new have "scans_ok d'" using assms(1-3) by (simp add: scans_ok_def field_ok_def)
  moreover have "indices P ss = {}" if "\<And>s. s \<in> set ss \<Longrightarrow> \<not> P s" for P
    using that by (auto simp: in_indices)
  then have "indices (\<lambda>s. st_status s = SS_VOID) ss = {}" "indices (\<lambda>s. clone_scans (db_verifications d) s \<noteq> []) ss = {}"
    using assms(6) none by (auto simp: list_all_iff)
  ultimately show ?thesis
    using assms(1,2,3) by (simp add: field_ok_def flags_ok_def lists_ok_same [OF assms(4)] flagged_same_all [OF assms(4)] indices_def)
qed

end
