(* ===== verification/FieldSafety.thy ===== *)
theory FieldSafety
  imports Scans
begin

section \<open>Scanning and voiding keep what holds\<close>

text \<open>
  The operations of \<open>services/verification.py\<close> and \<open>services/issuance.py\<close> keep \<open>field_ok\<close> and \<open>issuance_ok\<close>,
  and what follows for a stamp: the first scan wins, a clone is flagged, a void is final.
\<close>

lemma verify_stamp_field_ok:
  assumes "verify_stamp env now serial sc sls d = Inr (r, d')" "field_ok env d" "gzip_ok env" "distinct (map st_id (db_stamps d))"
  shows "field_ok env d'"
  using assms(1)
proof (cases rule: verify_stamp_cases)
  case (noted stamp oc detail presented written v)
  show ?thesis
    by (rule field_ok_noted [OF assms(2) noted(4)]) (use noted(2,3,5) in \<open>auto simp: refers_def split: option.splits\<close>)
next
  case (suspect s v d1 rows)
  have s: "s \<in> set (db_stamps d)" using find_stamp_Some [OF suspect(6)] by simp
  have "scan_ok (db_verifications d) s" using assms(2) s by (simp add: field_ok_def scans_ok_def list_all_iff)
  then have "st_first_scan_at s \<noteq> None" using suspect(9) by (cases "st_first_scan_at s") (auto simp: scan_ok_def)
  with field_ok_suspect [OF assms(2-4) s _ _ suspect(3,4,2,10,11)] suspect(7) show ?thesis by simp
next
  case (consumed s v m k)
  have s: "s \<in> set (db_stamps d)" using find_stamp_Some [OF consumed(6)] by simp
  show ?thesis by (rule field_ok_consumed [OF assms(2,4) s consumed(9) _ _ _ _ consumed(2)]) (simp_all add: consumed(3,7))
qed

lemma verify_stamp_issuance_ok:
  assumes "verify_stamp env now serial sc sls d = Inr (r, d')" "field_ok env d" "issuance_ok d"
  shows "issuance_ok d'"
proof -
  have dist: "distinct (map st_id (db_stamps d))" using assms(3) by (simp add: issuance_ok_def stamps_distinct_def)
  from assms(1) show ?thesis
  proof (cases rule: verify_stamp_cases)
    case (noted stamp oc detail presented written v)
    then show ?thesis using issuance_ok_same [of d' d] assms(3) by simp
  next
    case (suspect s v d1 rows)
    have s: "s \<in> set (db_stamps d)" using find_stamp_Some [OF suspect(6)] by simp
    have "scan_ok (db_verifications d) s" using assms(2) s by (simp add: field_ok_def scans_ok_def list_all_iff)
    then have live: "st_status s \<notin> {SS_ISSUED, SS_VOID}" using suspect(7,9) by (cases "st_first_scan_at s") (auto simp: scan_ok_def)
    have "st_status x \<notin> {SS_ISSUED, SS_VOID}" if "x \<in> set (db_stamps d)" "st_id x = st_id s" for x
      using the_stamp [OF dist s that] live by simp
    then show ?thesis
      by (intro issuance_ok_stamps [OF assms(3), of d' "\<lambda>x. st_id x = st_id s" "\<lambda>x. x\<lparr>st_status := SS_SUSPECT\<rparr>"]) (simp_all add: suspect(3,5))
  next
    case (consumed s v m k)
    have s: "s \<in> set (db_stamps d)" using find_stamp_Some [OF consumed(6)] by simp
    have "st_status x \<notin> {SS_ISSUED, SS_VOID}" if "x \<in> set (db_stamps d)" "st_id x = st_id s" for x
      using the_stamp [OF dist s that] consumed(7) by simp
    then show ?thesis
      by (intro issuance_ok_stamps [OF assms(3), of d' "\<lambda>x. st_id x = st_id s" "marked now sc"]) (simp_all add: consumed(3) marked_def)
  qed
qed

subsection \<open>Voiding\<close>

lemma void_stamp_cases:
  assumes "void_stamp env now serial reason who d = Inr (s', d')"
  obtains
    (again) "find_stamp d (upper (strip serial)) = Some s'" "st_status s' = SS_VOID" "d' = d" "strip reason \<noteq> []"
  | (voided) s d1 d2 m k where "find_stamp d (upper (strip serial)) = Some s" "st_status s \<noteq> SS_VOID" "strip reason \<noteq> []"
      "s' = s\<lparr>st_status := SS_VOID\<rparr>"
      "d1 = d\<lparr>db_stamps := update_where (\<lambda>x. st_id x = st_id s) (\<lambda>x. x\<lparr>st_status := SS_VOID\<rparr>) (db_stamps d)\<rparr>"
      "set_flag env now ''void'' (st_status_list_index s) d1 = Inr d2"
      "d' = d2\<lparr>db_outbox_messages := db_outbox_messages d2 @ [m], db_next_uuid := k\<rparr>"
      "ob_topic m = ''stamps.voided''" "ob_published_at m = None"
proof -
  have reason: "strip reason \<noteq> []" using assms by (auto simp: void_stamp_def)
  obtain s where s: "find_stamp d (upper (strip serial)) = Some s"
    using assms reason by (auto simp: void_stamp_def split: option.splits)
  note run = assms [unfolded void_stamp_def s option.case]
  show ?thesis
  proof (cases "st_status s = SS_VOID")
    case True
    with run reason have "s' = s \<and> d' = d" by simp
    with True s reason show ?thesis by (intro again) simp_all
  next
    case False
    let ?f = "\<lambda>x. x\<lparr>st_status := SS_VOID\<rparr>"
    let ?res = "[(ucs_of ''serial'', jstr (st_serial s)), (ucs_of ''reason'', jstr reason), (ucs_of ''batchId'', jstr (uuid_str (st_batch_id s)))]"
    have "rbind (update_stamps (\<lambda>x. st_id x = st_id s) ?f d) (\<lambda>d1. rbind (set_flag env now ''void'' (st_status_list_index s) d1) (\<lambda>d2.
          rbind (enqueue env now ''stamps.voided.v1'' ?res who ''excise-approver'' (Some (st_declaration_ref s)) d2)
            (\<lambda>(_, d3). Inr (?f s, d3)))) = Inr (s', d')"
      using run reason False by (simp split: if_splits)
    then obtain d1 d2 p where d: "update_stamps (\<lambda>x. st_id x = st_id s) ?f d = Inr d1" "set_flag env now ''void'' (st_status_list_index s) d1 = Inr d2"
        "enqueue env now ''stamps.voided.v1'' ?res who ''excise-approver'' (Some (st_declaration_ref s)) d2 = Inr p"
        "(case p of (_, d3) \<Rightarrow> Inr (?f s, d3)) = (Inr (s', d') :: exn + _)"
      unfolding rbind_eq_Inr by blast
    obtain m where p: "p = (m, d')" "s' = ?f s" using d(4) by (cases p) auto
    obtain k where k: "d' = d2\<lparr>db_outbox_messages := db_outbox_messages d2 @ [m], db_next_uuid := k\<rparr>" "ob_published_at m = None"
      "map_of TOPIC_BY_EVENT ''stamps.voided.v1'' = Some (ob_topic m)"
      by (rule enqueue_effect [OF d(3) [unfolded p(1)]])
    show ?thesis
      by (rule voided [OF s False reason p(2) update_stamps_ok [OF d(1)] d(2) k(1) _ k(2)]) (use k(3) in \<open>simp add: TOPIC_BY_EVENT_def\<close>)
  qed
qed

lemma void_stamp_field_ok:
  assumes "void_stamp env now serial reason who d = Inr (s', d')" "field_ok env d" "gzip_ok env" "distinct (map st_id (db_stamps d))"
  shows "field_ok env d'"
  using assms(1)
proof (cases rule: void_stamp_cases)
  case again
  with assms(2) show ?thesis by simp
next
  case (voided s d1 d2 m k)
  have s: "s \<in> set (db_stamps d)" using find_stamp_Some [OF voided(1)] by simp
  have "field_ok env d2" by (rule field_ok_voided [OF assms(2-4) s voided(2,5,6)])
  then show ?thesis using field_ok_same [of d' d2 env] by (simp add: voided(7))
qed

lemma void_stamp_issuance_ok:
  assumes "void_stamp env now serial reason who d = Inr (s', d')" "issuance_ok d"
  shows "issuance_ok d'"
  using assms(1)
proof (cases rule: void_stamp_cases)
  case again
  with assms(2) show ?thesis by simp
next
  case (voided s d1 d2 m k)
  obtain rows where "d2 = d1\<lparr>db_status_list_snapshots := rows\<rparr>" by (rule set_flag_fields [OF voided(6)])
  then show ?thesis
    by (intro issuance_ok_stamps [OF assms(2), of d' "\<lambda>x. st_id x = st_id s" "\<lambda>x. x\<lparr>st_status := SS_VOID\<rparr>"]) (simp_all add: voided(5,7))
qed

subsection \<open>Issuing and activating\<close>

lemma issue_chunk_field_ok:
  assumes "issue_chunk env now i chunk d = Inr (n, d')" "field_ok env d" "stamps_distinct (db_stamps d)"
  shows "field_ok env d'"
  using assms(1,3)
proof (cases rule: issue_chunk_effect)
  case (idle b)
  with assms(2) show ?thesis by simp
next
  case (complete b)
  then show ?thesis using assms(2) field_ok_same [of d' d env] by simp
next
  case (issued b a c ss rows k)
  have "st_status s = SS_ISSUED \<and> st_first_scan_at s = None" if "s \<in> set ss" for s
    using issued_run_all [OF issued(11) that] by (auto simp: issued_stamp_def)
  then show ?thesis
    by (intro field_ok_new_stamps [OF assms(2), of d' ss]) (use issued(13) in \<open>simp_all add: issued(14) list_all_iff stamps_distinct_def\<close>)
qed

lemma activate_batch_field_ok:
  assumes "activate_batch env now i who d = Inr (n, d')" "field_ok env d"
  shows "field_ok env d'"
proof -
  obtain b msg k where "d' = d\<lparr>db_stamps := update_where (\<lambda>s. st_batch_id s = i \<and> st_status s = SS_ISSUED)
        (\<lambda>s. s\<lparr>st_status := SS_ACTIVE, st_activated_at := Some now\<rparr>) (db_stamps d),
      db_stamp_batches := update_where (\<lambda>x. ba_id x = i) (\<lambda>b. b\<lparr>ba_status := BS_ACTIVE\<rparr>) (db_stamp_batches d),
      db_outbox_messages := db_outbox_messages d @ [msg], db_next_uuid := k\<rparr>"
    using activate_batch_effect [OF assms(1)] by blast
  then show ?thesis by (intro field_ok_activated [OF assms(2), of d' i "Some now"]) simp_all
qed

end
