(* ===== verification/Genuine.thy ===== *)
theory Genuine
  imports FieldSafety
begin

section \<open>Credentials presented in the field\<close>

text \<open>
  What passes the consumption gate, and that what the service issued passes it: the proof, the serial and
  the three published lists, which \<open>_load_status_lists\<close> of \<open>src/taxstamps/api/routes_verify.py\<close> reads.
\<close>

subsection \<open>Indices in credentials\<close>

lemma decimal_digit: "is_ascii_digit c \<Longrightarrow> decimal_value (of_char c) = Some (digit_val c)"
  by (simp add: decimal_value_def DIGIT_ZEROS_def is_ascii_digit_def digit_val_def)

lemma int_digits_ucs: "list_all is_ascii_digit s \<Longrightarrow> b \<or> s \<noteq> [] \<Longrightarrow>
    int_digits b a (ucs_of s) = Some (foldl (\<lambda>a c. a * 10 + digit_val c) a s)"
proof (induction s arbitrary: a b)
  case (Cons c s)
  from Cons.prems(1) have "int_digits True (a * 10 + digit_val c) (ucs_of s) = Some (foldl (\<lambda>a c. a * 10 + digit_val c) (a * 10 + digit_val c) s)"
    by (intro Cons.IH) simp_all
  with Cons.prems(1) show ?case by (simp add: ucs_of_def decimal_digit)
qed (simp add: ucs_of_def)

lemma digit_code: "is_ascii_digit c \<Longrightarrow> \<not> is_space_code (of_char c) \<and> of_char c \<noteq> (45::nat) \<and> of_char c \<noteq> (43::nat) \<and> of_char c \<noteq> (95::nat)"
  by (auto simp: is_ascii_digit_def is_space_code_def)

lemma dropWhile_digits: "list_all is_ascii_digit s \<Longrightarrow> dropWhile is_space_code (ucs_of s) = ucs_of s"
  by (cases s) (auto simp: ucs_of_def digit_code)

lemma int_of_ucs_str_int:
  assumes "0 \<le> i" "i < 1000000"
  shows "int_of_ucs (ucs_of (str_int i)) = Some i"
proof -
  let ?s = "str_nat (nat i)"
  have d: "list_all is_ascii_digit ?s" by (rule str_nat_digits)
  have "nat i < 10 ^ 6" using assms by simp
  then have "length ?s \<le> 6" by (rule length_str_nat) simp
  then have l: "\<not> 4300 < length (filter (\<lambda>c. c \<noteq> 95) (ucs_of ?s))"
    using length_filter_le [of "\<lambda>c. c \<noteq> 95" "ucs_of ?s"] length_map [of "of_char :: char \<Rightarrow> nat" ?s]
    unfolding ucs_of_def by linarith
  obtain c cs where s: "?s = c # cs" by (cases ?s) auto
  have strip: "rev (dropWhile is_space_code (rev (dropWhile is_space_code (ucs_of ?s)))) = ucs_of ?s"
    using dropWhile_digits [OF d] dropWhile_digits [of "rev ?s"] d by (simp add: ucs_of_def rev_map list_all_rev)
  have "signed_digits 1 (ucs_of ?s) = Some (int (nat_of_digits ?s))"
    using l int_digits_ucs [OF d, of False 0] by (simp add: signed_digits_def nat_of_digits_def)
  moreover have "ucs_of ?s = of_char c # ucs_of cs" "is_ascii_digit c" using s d by (simp_all add: ucs_of_def)
  ultimately show ?thesis using strip assms digit_code [of c] by (simp add: int_of_ucs_def str_int_def)
qed

subsection \<open>The gate\<close>

lemma verify_credential_offline_nil:
  "verify_credential_offline env cred sls = Inr [] \<longleftrightarrow>
     verify_proof (en_sha256 env) (en_verify env) cred (public_key env) = Inr () \<and>
     (\<exists>statuses. (case jobj_get cred ''credentialStatus'' of
             None \<Rightarrow> Inr []
           | Some (JObj e) \<Rightarrow> Inr [JObj e]
           | Some (JArr es) \<Rightarrow> Inr es
           | Some (JStr s) \<Rightarrow> Inr (map (\<lambda>c. JStr [c]) s)
           | Some _ \<Rightarrow> Inl (TypeError ''object is not iterable'')) = Inr statuses \<and>
        list_all (\<lambda>e. entry_failures sls e = Inr []) statuses)"
proof -
  have m: "(\<exists>fs. map_result (entry_failures sls) es = Inr fs \<and> concat fs = []) \<longleftrightarrow> list_all (\<lambda>e. entry_failures sls e = Inr []) es" for es
    by (induction es) (auto simp: rbind_eq_Inr)
  show ?thesis
    unfolding verify_credential_offline_def rbind_eq_Inr m [symmetric]
    by (cases "verify_proof (en_sha256 env) (en_verify env) cred (public_key env)") (auto split: exn.splits)
qed

text \<open>What the newest snapshots say, for the checks.\<close>

fun load_lists :: "'sk env \<Rightarrow> db \<Rightarrow> string list \<Rightarrow> status_lists result" where
  "load_lists env d [] = Inr []"
| "load_lists env d (p # ps) =
    (case current_credential d p of
       None \<Rightarrow> load_lists env d ps
     | Some (JObj doc) \<Rightarrow> rbind (parse_status_list_credential (en_decompress env) doc) (\<lambda>(_, l).
           rbind (load_lists env d ps) (\<lambda>ls. Inr ((p, l) # ls)))
     | Some _ \<Rightarrow> Inl (AttributeError ''get''))"

definition load_status_lists :: "'sk env \<Rightarrow> db \<Rightarrow> status_lists result" where
  "load_status_lists env d = load_lists env d PURPOSES"

lemma load_lists_current:
  assumes "load_lists env d ps = Inr sls" "distinct ps"
  shows "map_of sls p = (if p \<in> set ps \<and> current_credential d p \<noteq> None
     then (case current_list env p d of Inr l \<Rightarrow> Some l | Inl _ \<Rightarrow> None) else None)"
  using assms
proof (induction ps arbitrary: sls)
  case (Cons q ps)
  show ?case
  proof (cases "current_credential d q")
    case None
    with Cons show ?thesis by (cases "p = q") simp_all
  next
    case (Some v)
    with Cons.prems(1) obtain doc n l ls where v: "v = JObj doc" "parse_status_list_credential (en_decompress env) doc = Inr (n, l)"
      "load_lists env d ps = Inr ls" "sls = (q, l) # ls" by (cases v) (auto simp: rbind_eq_Inr)
    have "current_list env q d = Inr l"
      using Some v(1,2) by (auto simp: current_list_def current_credential_def split: option.splits)
    with Some v Cons show ?thesis by (cases "p = q") simp_all
  qed
qed simp

lemma map_of_ucs_keys: "map_of (map (\<lambda>(k, l). (ucs_of k, l)) sls) (ucs_of p) = map_of sls p"
  by (induction sls) auto

text \<open>Without flags on any of the published lists, an entry is no failure; with one it is.\<close>

lemma entry_failures_published:
  assumes "load_status_lists env d = Inr sls" "lists_ok env d" "entry_ok index p e" "0 \<le> index" "index < DEFAULT_LIST_SIZE_BITS" "p \<in> set PURPOSES"
  shows "entry_failures sls e = Inr (if flagged env d p index then [''status-flagged:'' @ p] else [])"
proof -
  obtain kvs where e: "e = JObj kvs" "jobj_get kvs ''statusPurpose'' = Some (jstr p)" "jobj_get kvs ''statusListIndex'' = Some (jstr (str_int index))"
    using assms(3) by (auto simp: entry_ok_def split: json.splits)
  have "index < 1000000" using assms(5) by (simp add: DEFAULT_LIST_SIZE_BITS_def)
  then have i: "py_int (jstr (str_int index)) = Inr index"
    using int_of_ucs_str_int [OF assms(4)] by (simp add: py_int_def)
  have ps: "distinct PURPOSES" by (simp add: PURPOSES_def)
  have l: "map_of (map (\<lambda>(k, l). (ucs_of k, l)) sls) (ucs_of p) = (if current_credential d p \<noteq> None
     then (case current_list env p d of Inr l \<Rightarrow> Some l | Inl _ \<Rightarrow> None) else None)"
    unfolding map_of_ucs_keys using load_lists_current [OF assms(1) [unfolded load_status_lists_def] ps, of p] assms(6) by simp
  have "list_ok env d p" using assms(2,6) by (simp add: lists_ok_def list_all_iff)
  then obtain m where m: "current_list env p d = Inr m" "wf_status_list m" "sl_size_bits m = DEFAULT_LIST_SIZE_BITS" by (rule list_okE)
  obtain b where b: "sl_get m index = Inr b" using slb.get_total [OF m(2) assms(4)] assms(5) m(3) by (auto simp: succeeds_iff)
  have t: "purpose_text (Some (jstr p)) = p" using assms(6) by (auto simp: purpose_text_def text_of_def PURPOSES_def ucs_of_def List.map_filter_def is_surrogate_def)
  show ?thesis
  proof (cases "current_credential d p")
    case None
    then have "current_list env p d = status_list_new DEFAULT_LIST_SIZE_BITS None" by (simp add: current_credential_def current_list_def)
    then have "sl_get m index = Inr False" using m(1) status_list_new_clear [OF _ assms(4,5)] by simp
    then have "\<not> flagged env d p index" by (simp add: flagged_def m(1))
    with None show ?thesis using e i l by (simp add: entry_failures_def lookup_list_def)
  next
    case (Some c)
    then show ?thesis using e i l m b t by (simp add: entry_failures_def lookup_list_def flagged_def)
  qed
qed

lemma load_lists_total: "list_all (list_ok env d) ps \<Longrightarrow> \<exists>sls. load_lists env d ps = Inr sls"
proof (induction ps)
  case (Cons p ps)
  then obtain sls where sls: "load_lists env d ps = Inr sls" by auto
  have "list_ok env d p" using Cons.prems by simp
  then obtain m where m: "current_list env p d = Inr m" by (rule list_okE)
  show ?case
  proof (cases "current_credential d p")
    case None
    with sls show ?thesis by simp
  next
    case (Some v)
    with m obtain doc n where "v = JObj doc" "parse_status_list_credential (en_decompress env) doc = Inr (n, m)"
      by (auto simp: current_list_def current_credential_def rbind_eq_Inr split: option.splits json.splits)
    with sls Some show ?thesis by simp
  qed
qed simp

lemma load_status_lists_total: "lists_ok env d \<Longrightarrow> \<exists>sls. load_status_lists env d = Inr sls"
  unfolding load_status_lists_def lists_ok_def by (rule load_lists_total)

definition flag_failures :: "'sk env \<Rightarrow> db \<Rightarrow> int \<Rightarrow> string list" where
  "flag_failures env d index = map (\<lambda>p. ''status-flagged:'' @ p) (filter (\<lambda>p. flagged env d p index) PURPOSES)"

lemma entries_failures:
  assumes "load_status_lists env d = Inr sls" "lists_ok env d" "0 \<le> index" "index < DEFAULT_LIST_SIZE_BITS"
    and "list_all2 (entry_ok index) ps es" "set ps \<subseteq> set PURPOSES"
  shows "\<exists>fs. map_result (entry_failures sls) es = Inr fs \<and> concat fs = map (\<lambda>p. ''status-flagged:'' @ p) (filter (\<lambda>p. flagged env d p index) ps)"
  using assms(5,6)
proof (induction ps es rule: list_all2_induct)
  case (Cons p ps e es)
  then obtain fs where fs: "map_result (entry_failures sls) es = Inr fs"
    "concat fs = map (\<lambda>p. ''status-flagged:'' @ p) (filter (\<lambda>p. flagged env d p index) ps)" by auto
  have "entry_failures sls e = Inr (if flagged env d p index then [''status-flagged:'' @ p] else [])"
    using Cons by (intro entry_failures_published [OF assms(1,2) _ assms(3,4)]) simp_all
  with fs show ?case by simp
qed simp

lemma offline_check_aux:
  assumes "credential_ok env s" "st_credential s = JObj doc" "load_status_lists env d = Inr sls" "lists_ok env d"
    and "0 \<le> st_status_list_index s" "st_status_list_index s < DEFAULT_LIST_SIZE_BITS"
  shows "verify_credential_offline env doc sls = Inr (flag_failures env d (st_status_list_index s))"
proof -
  obtain entries where c: "verify_proof (en_sha256 env) (en_verify env) doc (public_key env) = Inr ()"
    "jobj_get doc ''credentialStatus'' = Some (JArr entries)" "list_all2 (entry_ok (st_status_list_index s)) PURPOSES entries"
    using assms(1,2) unfolding credential_ok_def by auto
  obtain fs where "map_result (entry_failures sls) entries = Inr fs" "concat fs = flag_failures env d (st_status_list_index s)"
    using entries_failures [OF assms(3-6) c(3)] by (auto simp: flag_failures_def)
  with c(1,2) show ?thesis by (simp add: verify_credential_offline_def)
qed

text \<open>The stamps of a consistent database and what is published about them.\<close>

lemma stamp_index:
  assumes "stamps_distinct (db_stamps d)" "s \<in> set (db_stamps d)"
  shows "0 \<le> st_status_list_index s" "st_status_list_index s < DEFAULT_LIST_SIZE_BITS"
    "t \<in> set (db_stamps d) \<Longrightarrow> st_status_list_index t = st_status_list_index s \<Longrightarrow> t = s"
  using assms unique_row [of st_status_list_index "db_stamps d" t s] by (auto simp: stamps_distinct_def list_all_iff)

lemma flag_failures_stamp:
  assumes "field_ok env d" "stamps_distinct (db_stamps d)" "s \<in> set (db_stamps d)"
  shows "flag_failures env d (st_status_list_index s) =
    (if st_status s = SS_VOID then [''status-flagged:void''] else []) @ (if clone_scans (db_verifications d) s \<noteq> [] then [''status-flagged:suspect''] else [])"
proof -
  have f: "Collect (flagged env d ''void'') = indices (\<lambda>s. st_status s = SS_VOID) (db_stamps d)" "Collect (flagged env d ''expired'') = {}"
    "Collect (flagged env d ''suspect'') = indices (\<lambda>s. clone_scans (db_verifications d) s \<noteq> []) (db_stamps d)"
    using assms(1) by (simp_all add: field_ok_def flags_ok_def)
  have at: "flagged env d p (st_status_list_index s) = P s" if c: "Collect (flagged env d p) = indices P (db_stamps d)" for p P
  proof -
    have "flagged env d p (st_status_list_index s) \<longleftrightarrow> st_status_list_index s \<in> indices P (db_stamps d)" unfolding c [symmetric] by simp
    also have "\<dots> \<longleftrightarrow> P s" unfolding in_indices using stamp_index(3) [OF assms(2,3)] assms(3) by blast
    finally show ?thesis .
  qed
  have "flagged env d ''void'' (st_status_list_index s) = (st_status s = SS_VOID)" using at [OF f(1)] .
  moreover have "\<not> flagged env d ''expired'' (st_status_list_index s)" using f(2) by blast
  moreover have "flagged env d ''suspect'' (st_status_list_index s) = (clone_scans (db_verifications d) s \<noteq> [])" using at [OF f(3)] .
  ultimately show ?thesis by (simp add: flag_failures_def PURPOSES_def)
qed

text \<open>C18: The offline check reports exactly what is published: for a stamp the service issued, the public check of its
  own credential returns no failure unless the stamp was voided or a second device was seen, and then exactly the
  reason codes of these - never one too many, whatever happened to other stamps, and never an exception.\<close>

theorem offline_check_exact:
  assumes "field_ok env d" "issuance_ok d" "s \<in> set (db_stamps d)" "credential_ok env s" "st_credential s = JObj doc"
  shows "rbind (load_status_lists env d) (verify_credential_offline env doc) =
    Inr ((if st_status s = SS_VOID then [''status-flagged:void''] else []) @
         (if clone_scans (db_verifications d) s \<noteq> [] then [''status-flagged:suspect''] else []))"
proof -
  have dist: "stamps_distinct (db_stamps d)" using assms(2) by (simp add: issuance_ok_def)
  have ls: "lists_ok env d" using assms(1) by (simp add: field_ok_def)
  obtain sls where sls: "load_status_lists env d = Inr sls" using load_status_lists_total [OF ls] ..
  show ?thesis
    using offline_check_aux [OF assms(4,5) sls ls stamp_index(1,2) [OF dist assms(3)]] flag_failures_stamp [OF assms(1) dist assms(3)] sls by simp
qed

subsection \<open>A genuine stamp\<close>

lemma find_serial:
  assumes "stamps_distinct (db_stamps d)" "s \<in> set (db_stamps d)"
  shows "find_stamp d (st_serial s) = Some s"
proof -
  have "find_stamp d (st_serial s) \<noteq> None" using assms(2) by (auto simp: find_stamp_def find_None_set)
  then obtain t where t: "find_stamp d (st_serial s) = Some t" by auto
  then have "t = s" using find_stamp_Some [OF t] assms unique_row [of st_serial "db_stamps d" t s] by (simp add: stamps_distinct_def)
  with t show ?thesis by simp
qed

lemma stamp_serial_parses:
  assumes "stamp_ok bs is s"
  obtains parts where "parse_serial (upper (strip (st_serial s))) = Inr parts" "sp_serial parts = st_serial s" "upper (strip (st_serial s)) = st_serial s"
proof -
  have b: "build_serial (st_category_code s) (st_year s) (st_sequence s) = Inr (st_serial s)" using assms by (simp add: stamp_ok_def)
  obtain k where "parse_serial (st_serial s) = Inr \<lparr>sp_category_code = upper (st_category_code s), sp_year = st_year s,
                 sp_sequence = st_sequence s, sp_check = [k], sp_serial = st_serial s\<rparr>" "list_all plain_char (st_serial s)"
    using parse_built [OF b] by blast
  then show ?thesis using that by (simp add: strip_plain upper_plain)
qed

lemma genuine_no_failures:
  assumes "field_ok env d" "issuance_ok d" "s \<in> set (db_stamps d)" "credential_ok env s" "st_credential s = JObj doc"
    and "st_status s \<noteq> SS_VOID" "st_first_scan_at s = None" "load_status_lists env d = Inr sls"
  shows "credential_failures env (Some doc) (st_serial s) sls = Inr []"
proof -
  have dist: "stamps_distinct (db_stamps d)" using assms(2) by (simp add: issuance_ok_def)
  have ls: "lists_ok env d" using assms(1) by (simp add: field_ok_def)
  have "scan_ok (db_verifications d) s" using assms(1,3) by (simp add: field_ok_def scans_ok_def list_all_iff)
  then have "clone_scans (db_verifications d) s = []" using assms(7) by (simp add: scan_ok_def)
  then have o: "verify_credential_offline env doc sls = Inr []"
    using offline_check_aux [OF assms(4,5,8) ls stamp_index(1,2) [OF dist assms(3)]] flag_failures_stamp [OF assms(1) dist assms(3)] assms(6) by simp
  obtain subject where "jobj_get doc ''credentialSubject'' = Some (JObj subject)" "jobj_get subject ''serial'' = Some (jstr (st_serial s))"
    using assms(4,5) unfolding credential_ok_def by auto
  with o show ?thesis by (simp add: credential_failures_def)
qed

lemma genuine_consumed:
  assumes "field_ok env d" "issuance_ok d" "s \<in> set (db_stamps d)" "credential_ok env s" "sa_credential sc = Some doc" "st_credential s = JObj doc"
    and "st_status s = SS_ACTIVE" "now < st_valid_until s" "sa_consume sc" "load_status_lists env d = Inr sls"
  shows "verify_stamp env now (st_serial s) sc sls d = consume_stamp env now sc s d"
proof -
  have dist: "stamps_distinct (db_stamps d)" using assms(2) by (simp add: issuance_ok_def)
  have "stamp_ok (db_stamp_batches d) (db_inspections d) s" using assms(2,3) by (simp add: issuance_ok_def list_all_iff)
  then obtain parts where p: "parse_serial (upper (strip (st_serial s))) = Inr parts" "sp_serial parts = st_serial s"
    "upper (strip (st_serial s)) = st_serial s" by (rule stamp_serial_parses)
  have "scan_ok (db_verifications d) s" using assms(1,3) by (simp add: field_ok_def scans_ok_def list_all_iff)
  then have n: "st_first_scan_at s = None" using assms(7) by (cases "st_first_scan_at s") (auto simp: scan_ok_def)
  have f: "credential_failures env (Some doc) (st_serial s) sls = Inr []"
    by (rule genuine_no_failures [OF assms(1-4,6) _ n assms(10)]) (simp add: assms(7))
  show ?thesis
    using p assms(5,7-9) n f find_serial [OF dist assms(3)] by (simp add: verify_stamp_def Let_def)
qed

end
