(* ===== verification/StampRoutes.thy ===== *)
theory StampRoutes
  imports FlowRoutes Genuine
begin

section \<open>Requests on batches and stamps\<close>

text \<open>
  \<open>src/taxstamps/api/routes_stamps.py\<close>, with the bodies of \<open>api/schemas.py\<close>: creating, issuing, finalizing,
  inspecting and activating a batch, reading and voiding a stamp. Issuing commits after every chunk but the last, so
  its result has two databases: the one committed so far, and the one the last chunk worked on.
\<close>

record issue_in =
  ii_chunk_size :: "int option"
  ii_run_to_completion :: bool

definition valid_issue_in :: "issue_in \<Rightarrow> bool" where
  "valid_issue_in b = (case ii_chunk_size b of None \<Rightarrow> True | Some n \<Rightarrow> 1 \<le> n \<and> n \<le> 10000)"

definition valid_inspection_in :: "int \<Rightarrow> bool" where
  "valid_inspection_in defectives = (0 \<le> defectives)"

definition valid_void_in :: "string \<Rightarrow> bool" where
  "valid_void_in reason = (3 \<le> length reason)"

definition batch_view :: "stamp_batch \<Rightarrow> (ucs \<times> json) list" where
  "batch_view b =
     [(ucs_of ''batchId'', jstr (uuid_str (ba_id b))), (ucs_of ''assessmentId'', jstr (uuid_str (ba_assessment_id b))),
      (ucs_of ''categoryCode'', jstr (ba_category_code b)), (ucs_of ''year'', JInt (ba_year b)), (ucs_of ''quantity'', JInt (ba_quantity b)),
      (ucs_of ''issuedCount'', JInt (ba_issued_count b)), (ucs_of ''status'', jstr (batch_status_text (ba_status b))),
      (ucs_of ''merkleRoot'', jstr (ba_merkle_root b))]"

definition issuance_http :: "exn \<Rightarrow> exn" where
  "issuance_http e = (case e of IssuanceError reason _ \<Rightarrow> HTTPException 422 reason | _ \<Rightarrow> e)"

definition require_batch :: "db \<Rightarrow> uuid \<Rightarrow> stamp_batch result" where
  "require_batch d batch_id =
    (case find_batch d batch_id of None \<Rightarrow> Inl (HTTPException 404 ''batch-not-found'') | Some b \<Rightarrow> Inr b)"

subsection \<open>Batches\<close>

definition create_batch_route ::
  "'sk env \<Rightarrow> policy_engine \<Rightarrow> datetime \<Rightarrow> identity \<Rightarrow> uuid \<Rightarrow> db \<Rightarrow> (json \<times> db) result" where
  "create_batch_route env policy now ident assessment_id d =
    rbind (require_policy policy ident ''batch'' ''issue'' ''CONFIDENTIAL'') (\<lambda>_.
      case find_assessment d assessment_id of
        None \<Rightarrow> Inl (HTTPException 404 ''assessment-not-found'')
      | Some a \<Rightarrow>
          rbind (map_error issuance_http (create_batch now a d)) (\<lambda>(b, d1).
            audit_commit env now ''batch.created'' (JObj
              [(ucs_of ''batchId'', jstr (uuid_str (ba_id b))), (ucs_of ''assessmentId'', jstr (uuid_str assessment_id)),
               (ucs_of ''quantity'', JInt (ba_quantity b))])
              (JObj (batch_view b)) d1))"

text \<open>
  The loop: after the \<open>k\<close>-th chunk either everything issued so far is committed and the next chunk follows, or
  the loop ends with the last chunk still uncommitted. No chunk writes ledger entries, so the commits between chunks
  cannot fail.
\<close>

partial_function (option) issue_run ::
  "'sk env \<Rightarrow> (nat \<Rightarrow> datetime) \<Rightarrow> uuid \<Rightarrow> int option \<Rightarrow> bool \<Rightarrow> nat \<Rightarrow> int \<Rightarrow> db \<Rightarrow> (db \<times> (int \<times> db) result) option" where
  "issue_run env clock batch_id chunk_size run_to_completion k issued d =
    (case issue_chunk env (clock k) batch_id chunk_size d of
       Inl e \<Rightarrow> Some (d, Inl e)
     | Inr (n, d') \<Rightarrow>
         if n = 0 \<or> \<not> run_to_completion then Some (d, Inr (issued + n, d'))
         else issue_run env clock batch_id chunk_size run_to_completion (Suc k) (issued + n) d')"

declare issue_run.simps [code]

definition issued_response :: "db \<Rightarrow> uuid \<Rightarrow> int \<Rightarrow> json result" where
  "issued_response d batch_id issued =
    (case find_batch d batch_id of
       None \<Rightarrow> Inl NoResultFound
     | Some fresh \<Rightarrow> Inr (JObj (batch_view fresh @ [(ucs_of ''issuedThisCall'', JInt issued)])))"

text \<open>The last clock reading is that of the audit event. \<open>None\<close> when the loop does not end.\<close>

definition issue_batch_route ::
  "'sk env \<Rightarrow> policy_engine \<Rightarrow> (nat \<Rightarrow> datetime) \<Rightarrow> datetime \<Rightarrow> identity \<Rightarrow> uuid \<Rightarrow> issue_in \<Rightarrow> db \<Rightarrow> (db \<times> json result) option" where
  "issue_batch_route env policy clock now ident batch_id body d =
    (case rbind (require_policy policy ident ''batch'' ''issue'' ''CONFIDENTIAL'') (\<lambda>_. require_batch d batch_id) of
       Inl e \<Rightarrow> Some (d, Inl e)
     | Inr _ \<Rightarrow>
         (case issue_run env clock batch_id (ii_chunk_size body) (ii_run_to_completion body) 0 0 d of
            None \<Rightarrow> None
          | Some (committed, Inl e) \<Rightarrow> Some (committed, Inl e)
          | Some (committed, Inr (issued, working)) \<Rightarrow>
              (case audit_commit env now ''batch.issued-chunk'' (JObj
                  [(ucs_of ''batchId'', jstr (uuid_str batch_id)), (ucs_of ''issuedThisCall'', JInt issued)]) JNull working of
                 Inl e \<Rightarrow> Some (committed, Inl e)
               | Inr (_, d') \<Rightarrow> Some (d', issued_response d' batch_id issued))))"

definition finalize_batch_route ::
  "'sk env \<Rightarrow> policy_engine \<Rightarrow> datetime \<Rightarrow> identity \<Rightarrow> uuid \<Rightarrow> db \<Rightarrow> (json \<times> db) result" where
  "finalize_batch_route env policy now ident batch_id d =
    rbind (require_policy policy ident ''batch'' ''issue'' ''CONFIDENTIAL'') (\<lambda>_.
    rbind (require_batch d batch_id) (\<lambda>_.
    rbind (map_error issuance_http (finalize_batch env now batch_id (subject_of ident) d)) (\<lambda>(b, d1).
      audit_commit env now ''batch.finalized'' (JObj
        [(ucs_of ''batchId'', jstr (uuid_str batch_id)), (ucs_of ''merkleRoot'', jstr (ba_merkle_root b))]) (JObj (batch_view b)) d1)))"

fun inspection_result_text :: "inspection_result \<Rightarrow> string" where
  "inspection_result_text PASS = ''PASS''"
| "inspection_result_text FAIL = ''FAIL''"

definition inspection_http :: "exn \<Rightarrow> exn" where
  "inspection_http e = (if is_value_error e then HTTPException 422 ''inspection-rejected'' else e)"

definition inspect_batch_route ::
  "'sk env \<Rightarrow> policy_engine \<Rightarrow> datetime \<Rightarrow> identity \<Rightarrow> uuid \<Rightarrow> int \<Rightarrow> db \<Rightarrow> (json \<times> db) result" where
  "inspect_batch_route env policy now ident batch_id defectives d =
    rbind (require_policy policy ident ''batch'' ''inspect'' ''CONFIDENTIAL'') (\<lambda>_.
    rbind (require_batch d batch_id) (\<lambda>_.
    rbind (map_error inspection_http (record_inspection now batch_id defectives (subject_of ident) d)) (\<lambda>(i, d1).
      audit_commit env now ''batch.inspected'' (JObj
        [(ucs_of ''batchId'', jstr (uuid_str batch_id)), (ucs_of ''result'', jstr (inspection_result_text (in_result i))),
         (ucs_of ''defectives'', JInt (in_defectives i)), (ucs_of ''sampleSize'', JInt (in_sample_size i)),
         (ucs_of ''inspector'', jstr (subject_of ident))])
        (JObj [(ucs_of ''inspectionId'', jstr (uuid_str (in_id i))), (ucs_of ''batchId'', jstr (uuid_str batch_id)),
          (ucs_of ''result'', jstr (inspection_result_text (in_result i))), (ucs_of ''codeLetter'', jstr (in_code_letter i)),
          (ucs_of ''sampleSize'', JInt (in_sample_size i)), (ucs_of ''accept'', JInt (in_accept i)), (ucs_of ''reject'', JInt (in_reject i)),
          (ucs_of ''defectives'', JInt (in_defectives i))]) d1)))"

definition activate_batch_route ::
  "'sk env \<Rightarrow> policy_engine \<Rightarrow> datetime \<Rightarrow> identity \<Rightarrow> uuid \<Rightarrow> db \<Rightarrow> (json \<times> db) result" where
  "activate_batch_route env policy now ident batch_id d =
    rbind (require_policy policy ident ''batch'' ''activate'' ''CONFIDENTIAL'') (\<lambda>_.
    rbind (require_batch d batch_id) (\<lambda>_.
    rbind (map_error issuance_http (activate_batch env now batch_id (subject_of ident) d)) (\<lambda>(n, d1).
      audit_commit env now ''batch.activated'' (JObj
        [(ucs_of ''batchId'', jstr (uuid_str batch_id)), (ucs_of ''activatedCount'', JInt n), (ucs_of ''principal'', jstr (subject_of ident))])
        (JObj [(ucs_of ''batchId'', jstr (uuid_str batch_id)), (ucs_of ''activatedCount'', JInt n)]) d1)))"

subsection \<open>Stamps\<close>

text \<open>\<open>isoformat\<close> of a UTC time: the fraction is left out when it is zero.\<close>

definition iso_utc :: "datetime \<Rightarrow> string" where
  "iso_utc t = iso_prefix t @ (if t mod 1000000 = 0 then [] else ''.'' @ zfill 6 (nat (t mod 1000000))) @ ''+00:00''"

definition get_stamp_route :: "policy_engine \<Rightarrow> identity \<Rightarrow> string \<Rightarrow> db \<Rightarrow> json result" where
  "get_stamp_route policy ident serial d =
    rbind (require_policy policy ident ''stamp'' ''read'' ''CONFIDENTIAL'') (\<lambda>_.
      case find_stamp d (upper (strip serial)) of
        None \<Rightarrow> Inl (HTTPException 404 ''stamp-not-found'')
      | Some s \<Rightarrow> Inr (JObj
          [(ucs_of ''serial'', jstr (st_serial s)), (ucs_of ''status'', jstr (stamp_status_text (st_status s))),
           (ucs_of ''batchId'', jstr (uuid_str (st_batch_id s))), (ucs_of ''hsCode'', jstr (st_hs_code s)),
           (ucs_of ''declarationRef'', jstr (st_declaration_ref s)), (ucs_of ''consigneeTin'', jstr (st_consignee_tin s)),
           (ucs_of ''dutyPaidKobo'', JInt (st_duty_paid_kobo s)), (ucs_of ''validFrom'', jstr (iso_utc (st_valid_from s))),
           (ucs_of ''validUntil'', jstr (iso_utc (st_valid_until s))), (ucs_of ''credential'', st_credential s)]))"

definition void_http :: "exn \<Rightarrow> exn" where
  "void_http e = (case e of
     VerificationError reason _ \<Rightarrow> HTTPException (if reason = ''not-found'' then 404 else 422) reason | _ \<Rightarrow> e)"

definition void_stamp_route ::
  "'sk env \<Rightarrow> policy_engine \<Rightarrow> datetime \<Rightarrow> identity \<Rightarrow> string \<Rightarrow> string \<Rightarrow> db \<Rightarrow> (json \<times> db) result" where
  "void_stamp_route env policy now ident serial reason d =
    rbind (require_policy policy ident ''stamp'' ''void'' ''CONFIDENTIAL'') (\<lambda>_.
    rbind (map_error void_http (void_stamp env now serial reason (subject_of ident) d)) (\<lambda>(s, d1).
      audit_commit env now ''stamp.voided'' (JObj
        [(ucs_of ''serial'', jstr (st_serial s)), (ucs_of ''reason'', jstr reason), (ucs_of ''principal'', jstr (subject_of ident))])
        (JObj [(ucs_of ''serial'', jstr (st_serial s)), (ucs_of ''status'', jstr (stamp_status_text (st_status s)))]) d1))"

end
