(* ===== verification/FieldProperties.thy ===== *)
theory FieldProperties
  imports Genuine
begin

section \<open>What a scan tells and does\<close>

text \<open>The properties of \<open>services/verification.py\<close>, over a database that satisfies \<open>issuance_ok\<close> and \<open>field_ok\<close>.\<close>

lemma verify_found:
  assumes "issuance_ok d" "s \<in> set (db_stamps d)" "upper (strip serial) = st_serial s"
  shows "verify_stamp env now serial sc sls d =
    (if st_status s = SS_VOID then report now sc (st_serial s) (Some s) O_void [] d
     else if st_status s = SS_EXPIRED \<or> st_valid_until s \<le> now then report now sc (st_serial s) (Some s) O_expired [] d
     else if st_status s = SS_CONSUMED \<or> st_first_scan_at s \<noteq> None then repeat_scan env now sc s d
     else if st_status s \<noteq> SS_ACTIVE
     then report now sc (st_serial s) (Some s) O_not_active (''stamp is '' @ stamp_status_text (st_status s)) d
     else if \<not> sa_consume sc then report now sc (st_serial s) (Some s) O_active ''non-consuming pre-check'' d
     else rbind (credential_failures env (sa_credential sc) (st_serial s) sls) (\<lambda>failures.
       if failures \<noteq> []
       then report now sc (st_serial s) (Some s) O_invalid_credential (join ''; '' failures) d
       else consume_stamp env now sc s d))"
proof -
  have dist: "stamps_distinct (db_stamps d)" using assms(1) by (simp add: issuance_ok_def)
  have "stamp_ok (db_stamp_batches d) (db_inspections d) s" using assms(1,2) by (simp add: issuance_ok_def list_all_iff)
  then obtain parts where "parse_serial (upper (strip (st_serial s))) = Inr parts" "sp_serial parts = st_serial s"
    "upper (strip (st_serial s)) = st_serial s" by (rule stamp_serial_parses)
  with assms(3) find_serial [OF dist assms(2)] show ?thesis by (simp only: verify_stamp_def Let_def sum.case option.case)
qed

lemma find_after_update:
  assumes "db_stamps d' = update_where (\<lambda>x. st_id x = st_id s) f (db_stamps d)" "stamps_distinct (db_stamps d)" "s \<in> set (db_stamps d)"
    and "\<And>x. st_serial (f x) = st_serial x" "\<And>x. st_id (f x) = st_id x" "\<And>x. st_status_list_index (f x) = st_status_list_index x"
  shows "find_stamp d' (st_serial s) = Some (f s)"
proof -
  have m: "map st_id (db_stamps d') = map st_id (db_stamps d)" "map st_serial (db_stamps d') = map st_serial (db_stamps d)"
    "map st_status_list_index (db_stamps d') = map st_status_list_index (db_stamps d)"
    unfolding assms(1) by (rule map_update_where, simp add: assms(4-6))+
  have "stamps_distinct (db_stamps d')" using assms(2) stamps_distinct_keys [OF m] by simp
  moreover have "f s \<in> set (db_stamps d')" unfolding assms(1) set_update_where using assms(3) by (intro bexI [of _ s]) simp_all
  ultimately have "find_stamp d' (st_serial (f s)) = Some (f s)" by (rule find_serial)
  then show ?thesis by (simp add: assms(4))
qed

text \<open>C19: Every attempt is recorded, once, with the outcome it was told: whatever the serial, the credential and the state
  of the stamp, a scan that returns adds one row to the verification log - this verifier, this time and place, the
  outcome of the response - and changes no earlier row.\<close>

theorem attempt_recorded:
  assumes "verify_stamp env now serial sc sls d = Inr (r, d')"
  shows "\<exists>v. db_verifications d' = db_verifications d @ [v] \<and> ve_outcome v = re_outcome r \<and> ve_verifier_id v = sa_verifier_id sc \<and>
    ve_public_scan v = sa_public_scan sc \<and> ve_lat_micros v = sa_lat_micros sc \<and> ve_long_micros v = sa_long_micros sc \<and> ve_verified_at v = now"
  using assms by (cases rule: verify_stamp_cases) (auto simp: result_of_def attempt_def)

text \<open>C8: The serial alone is never a capability: a scan that consumes a stamp (outcome \<open>valid\<close>) found it active, not expired
  and not scanned before, was asked to consume, and came with a credential whose proof verifies under the issuer's
  key, which names this very serial and of which no entry points to a raised flag. The stamp is then consumed with
  the scan as its evidence, and one event for the outbox tells so.\<close>

theorem valid_requires_credential:
  assumes "verify_stamp env now serial sc sls d = Inr (r, d')" "re_outcome r = O_valid"
  shows "\<exists>s cred subject. find_stamp d (re_serial r) = Some s \<and> st_status s = SS_ACTIVE \<and> now < st_valid_until s \<and> st_first_scan_at s = None \<and>
    sa_consume sc \<and> sa_credential sc = Some cred \<and> verify_proof (en_sha256 env) (en_verify env) cred (public_key env) = Inr () \<and>
    (jobj_get cred ''credentialSubject'' = Some (JObj subject) \<and> jobj_get subject ''serial'' = Some (jstr (st_serial s))) \<and>
    verify_credential_offline env cred sls = Inr [] \<and>
    db_stamps d' = update_where (\<lambda>x. st_id x = st_id s) (\<lambda>x. x\<lparr>st_status := SS_CONSUMED, st_first_scan_at := Some now,
        st_first_scan_verifier := sa_verifier_id sc, st_first_scan_lat_micros := sa_lat_micros sc, st_first_scan_long_micros := sa_long_micros sc\<rparr>) (db_stamps d) \<and>
    (\<exists>m. db_outbox_messages d' = db_outbox_messages d @ [m] \<and> ob_topic m = ''stamps.verified'' \<and> ob_published_at m = None)"
  using assms(1)
proof (cases rule: verify_stamp_cases)
  case (consumed s v m k)
  obtain cred where c: "sa_credential sc = Some cred" "credential_failures env (Some cred) (st_serial s) sls = Inr []"
    using consumed(11) by (cases "sa_credential sc") (simp_all add: credential_failures_def)
  obtain fs sub where fs: "verify_credential_offline env cred sls = Inr fs"
    "(case jobj_get cred ''credentialSubject'' of None \<Rightarrow> Inr None | Some (JObj subject) \<Rightarrow> Inr (jobj_get subject ''serial'')
      | Some _ \<Rightarrow> Inl (AttributeError ''get'')) = Inr sub"
    "fs @ (if sub = Some (jstr (st_serial s)) then [] else [''credential-serial-mismatch'']) = []"
    using c(2) unfolding credential_failures_def option.case rbind_eq_Inr by blast
  have sub: "fs = []" "sub = Some (jstr (st_serial s))" using fs(3) by (simp_all split: if_splits)
  obtain subject where "jobj_get cred ''credentialSubject'' = Some (JObj subject)" "jobj_get subject ''serial'' = Some (jstr (st_serial s))"
    using fs(2) sub(2) by (auto split: option.splits json.splits)
  moreover have "verify_proof (en_sha256 env) (en_verify env) cred (public_key env) = Inr ()"
    using fs(1) sub(1) by (simp add: verify_credential_offline_nil)
  moreover have "re_serial r = st_serial s" by (simp add: consumed(1) result_of_def)
  moreover have "marked now sc = (\<lambda>x. x\<lparr>st_status := SS_CONSUMED, st_first_scan_at := Some now,
        st_first_scan_verifier := sa_verifier_id sc, st_first_scan_lat_micros := sa_lat_micros sc, st_first_scan_long_micros := sa_long_micros sc\<rparr>)"
    by (simp add: fun_eq_iff marked_def)
  ultimately show ?thesis using consumed c(1) fs(1) sub(1)
    by (intro exI [of _ s] exI [of _ cred] exI [of _ subject]) simp
qed (use assms(2) in \<open>auto simp: result_of_def\<close>)

text \<open>The public pre-check changes nothing: a scan without a device identity that does not ask to consume leaves every
  stamp, list, event and ledger row as it was and adds only its own row to the verification log; it never answers
  \<open>valid\<close> or \<open>clone_suspect\<close>.\<close>

theorem precheck_changes_nothing:
  assumes "verify_stamp env now serial sc sls d = Inr (r, d')" "\<not> sa_consume sc" "sa_verifier_id sc = []"
  shows "\<exists>v. d' = d\<lparr>db_verifications := db_verifications d @ [v], db_next_uuid := Suc (db_next_uuid d)\<rparr> \<and>
    re_outcome r \<notin> {O_valid, O_clone_suspect} \<and> ve_outcome v = re_outcome r"
  using assms by (cases rule: verify_stamp_cases) (auto simp: result_of_def)

text \<open>C7: The first scan wins. Once a stamp has first-scan evidence, no later scan of it is valid: it answers \<open>void\<close> or
  \<open>expired\<close> where that applies, \<open>already_verified\<close> to the first device and to anonymous callers, and
  \<open>clone_suspect\<close> to every other device - always with the evidence of the first scan, which stays as it is. A clone
  suspect leaves the stamp suspect and flagged in the published suspect list.\<close>

theorem first_scan_wins:
  assumes "verify_stamp env now serial sc sls d = Inr (r, d')" "field_ok env d" "issuance_ok d" "gzip_ok env"
    and "s \<in> set (db_stamps d)" "upper (strip serial) = st_serial s" "st_first_scan_at s = Some at"
  shows "re_outcome r = (if st_status s = SS_VOID then O_void else if st_valid_until s \<le> now then O_expired
       else if sa_verifier_id sc \<in> {[], st_first_scan_verifier s} then O_already_verified else O_clone_suspect) \<and>
    re_first_scan r = Some (strftime_seconds at, st_first_scan_verifier s, st_first_scan_lat_micros s, st_first_scan_long_micros s) \<and>
    (\<exists>s'. find_stamp d' (st_serial s) = Some s' \<and> s' = s\<lparr>st_status := st_status s'\<rparr> \<and>
       (re_outcome r = O_clone_suspect \<longrightarrow> st_status s' = SS_SUSPECT \<and> flagged env d' ''suspect'' (st_status_list_index s)))"
proof -
  have dist: "stamps_distinct (db_stamps d)" using assms(3) by (simp add: issuance_ok_def)
  have f: "find_stamp d (st_serial s) = Some s" by (rule find_serial [OF dist assms(5)])
  have "scan_ok (db_verifications d) s" using assms(2,5) by (simp add: field_ok_def scans_ok_def list_all_iff)
  then have ne: "st_status s \<noteq> SS_EXPIRED" using assms(7) by (auto simp: scan_ok_def)
  have ev: "re_first_scan (result_of oc p (Some s) dt) =
      Some (strftime_seconds at, st_first_scan_verifier s, st_first_scan_lat_micros s, st_first_scan_long_micros s)" for oc p dt
    by (simp add: result_of_def assms(7))
  note run = assms(1) [unfolded verify_found [OF assms(3,5,6)]]
  show ?thesis
  proof (cases "st_status s = SS_VOID \<or> st_valid_until s \<le> now")
    case True
    then have "report now sc (st_serial s) (Some s) (if st_status s = SS_VOID then O_void else O_expired) [] d = Inr (r, d')"
      using run by (simp split: if_splits)
    then obtain v where r: "r = result_of (if st_status s = SS_VOID then O_void else O_expired) (st_serial s) (Some s) []"
      "d' = d\<lparr>db_verifications := db_verifications d @ [v], db_next_uuid := Suc (db_next_uuid d)\<rparr>" by (rule report_effect) (rule that)
    have "find_stamp d' (st_serial s) = Some s" using f by (simp add: r(2) find_stamp_def)
    moreover have "re_outcome r = (if st_status s = SS_VOID then O_void else O_expired)" by (simp add: r(1) result_of_def)
    ultimately show ?thesis using True unfolding r(1) ev by (cases "st_status s = SS_VOID") (intro conjI exI [of _ s]; simp)+
  next
    case live: False
    then have "repeat_scan env now sc s d = Inr (r, d')" using run ne assms(7) by simp
    then show ?thesis
    proof (cases rule: repeat_scan_cases)
      case (same v)
      have "find_stamp d' (st_serial s) = Some s" using f by (simp add: same(3) find_stamp_def)
      moreover have "re_outcome r = O_already_verified" by (simp add: same(1) result_of_def)
      moreover have "sa_verifier_id sc \<in> {[], st_first_scan_verifier s}" using same(5) by auto
      ultimately show ?thesis using live unfolding same(1) ev by (intro conjI exI [of _ s]) simp_all
    next
      case (suspect v d1 rows)
      have "find_stamp d' (st_serial s) = Some (s\<lparr>st_status := SS_SUSPECT\<rparr>)"
        by (rule find_after_update [OF _ dist assms(5), of d' "\<lambda>x. x\<lparr>st_status := SS_SUSPECT\<rparr>"]) (simp_all add: suspect(3,5))
      moreover have "flagged env d' ''suspect'' (st_status_list_index s)"
      proof -
        have l1: "lists_ok env d1" using assms(2) lists_ok_same [of d1 d env] by (simp add: field_ok_def suspect(3))
        have "st_status_list_index s \<in> Collect (flagged env d' ''suspect'')"
          unfolding flagged_after [OF suspect(4) l1 assms(4)] by simp
        then show ?thesis by simp
      qed
      moreover have "re_outcome r = O_clone_suspect" by (simp add: suspect(1) result_of_def)
      moreover have "sa_verifier_id sc \<notin> {[], st_first_scan_verifier s}" using suspect(7,8) by auto
      ultimately show ?thesis using live unfolding suspect(1) ev by (intro conjI exI [of _ "s\<lparr>st_status := SS_SUSPECT\<rparr>"]) simp_all
    qed
  qed
qed

text \<open>C9: A genuine stamp and its copy: an active stamp of a consistent database, presented with its own credential
  before it expires, is consumed as \<open>valid\<close>; presented again by another device it is a \<open>clone_suspect\<close> with the
  evidence of the first scan, and the second scan raises the suspect flag of this stamp and no other flag of any
  list.\<close>

theorem genuine_then_clone:
  assumes "field_ok env d" "issuance_ok d" "gzip_ok env" "s \<in> set (db_stamps d)" "credential_ok env s" "st_credential s = JObj doc"
    and "st_status s = SS_ACTIVE" "now1 < st_valid_until s" "now2 < st_valid_until s" "load_status_lists env d = Inr sls"
    and "sa_consume sc1" "sa_credential sc1 = Some doc" "sa_verifier_id sc2 \<notin> {[], sa_verifier_id sc1}"
    and "verify_stamp env now1 (st_serial s) sc1 sls d = Inr (r1, d1)" "verify_stamp env now2 (st_serial s) sc2 sls2 d1 = Inr (r2, d2)"
  shows "re_outcome r1 = O_valid \<and> re_outcome r2 = O_clone_suspect \<and>
    re_first_scan r2 = Some (strftime_seconds now1, sa_verifier_id sc1, sa_lat_micros sc1, sa_long_micros sc1) \<and>
    (\<forall>p i. flagged env d2 p i \<longleftrightarrow> flagged env d p i \<or> (p = ''suspect'' \<and> i = st_status_list_index s))"
proof -
  have dist: "stamps_distinct (db_stamps d)" using assms(2) by (simp add: issuance_ok_def)
  then have ids: "distinct (map st_id (db_stamps d))" by (simp add: stamps_distinct_def)
  have "stamp_ok (db_stamp_batches d) (db_inspections d) s" using assms(2,4) by (simp add: issuance_ok_def list_all_iff)
  then have us: "upper (strip (st_serial s)) = st_serial s" by (rule stamp_serial_parses)
  have "consume_stamp env now1 sc1 s d = Inr (r1, d1)"
    using genuine_consumed [OF assms(1,2,4,5,12,6,7,8,11,10)] assms(14) by simp
  then obtain v m k where c: "r1 = result_of O_valid (st_serial s) (Some (marked now1 sc1 s)) ''first scan''"
    "d1 = d\<lparr>db_stamps := update_where (\<lambda>x. st_id x = st_id s) (marked now1 sc1) (db_stamps d),
       db_verifications := db_verifications d @ [v], db_outbox_messages := db_outbox_messages d @ [m], db_next_uuid := k\<rparr>"
    by (rule consume_stamp_effect) (rule that)
  have f1: "field_ok env d1" by (rule verify_stamp_field_ok [OF assms(14,1,3) ids])
  have i1: "issuance_ok d1" by (rule verify_stamp_issuance_ok [OF assms(14,1,2)])
  let ?s1 = "marked now1 sc1 s"
  have "?s1 \<in> set (db_stamps d1)" using assms(4) unfolding c(2) by (auto simp: set_update_where intro!: bexI [of _ s])
  note s1 = this
  have us1: "upper (strip (st_serial s)) = st_serial ?s1" using us by simp
  have run: "repeat_scan env now2 sc2 ?s1 d1 = Inr (r2, d2)"
    using assms(15) assms(9) unfolding verify_found [OF i1 s1 us1] by simp
  have fl1: "flagged env d1 = flagged env d" by (rule flagged_same_all) (simp add: c(2))
  from run show ?thesis
  proof (cases rule: repeat_scan_cases)
    case (same w)
    with assms(13) show ?thesis by auto
  next
    case (suspect w d3 rows)
    have snaps: "db_status_list_snapshots d3 = db_status_list_snapshots d1" by (simp add: suspect(3))
    have l3: "lists_ok env d3" using f1 lists_ok_same [OF snaps, of env] by (simp add: field_ok_def)
    have "list_ok env d3 ''suspect''" using l3 by (simp add: lists_ok_def list_all_iff PURPOSES_def)
    then have fl: "flagged env d2 p i \<longleftrightarrow> flagged env d3 p i \<or> (p = ''suspect'' \<and> i = st_status_list_index ?s1)" for p i
      by (rule set_flag_flags [OF suspect(4) _ assms(3)])
    have "flagged env d3 = flagged env d" using flagged_same_all [OF snaps, of env] fl1 by simp
    then show ?thesis unfolding fl c(1) suspect(1) by (simp add: result_of_def marked_def)
  qed
qed

text \<open>A void, and the scans of what is void.\<close>

lemma voided_stamp:
  assumes "void_stamp env now serial reason who d = Inr (s', d')" "issuance_ok d"
  shows "find_stamp d' (upper (strip serial)) = Some s' \<and> st_status s' = SS_VOID"
  using assms(1)
proof (cases rule: void_stamp_cases)
  case again
  then show ?thesis by simp
next
  case (voided s d1 d2 m k)
  have dist: "stamps_distinct (db_stamps d)" using assms(2) by (simp add: issuance_ok_def)
  obtain rows where d2: "d2 = d1\<lparr>db_status_list_snapshots := rows\<rparr>" by (rule set_flag_fields [OF voided(6)])
  have s: "s \<in> set (db_stamps d)" "st_serial s = upper (strip serial)" using find_stamp_Some [OF voided(1)] by simp_all
  have "find_stamp d' (st_serial s) = Some (s\<lparr>st_status := SS_VOID\<rparr>)"
    by (rule find_after_update [OF _ dist s(1), of d' "\<lambda>x. x\<lparr>st_status := SS_VOID\<rparr>"]) (simp_all add: voided(5,7) d2)
  then show ?thesis by (simp add: s(2) voided(4))
qed

lemma void_scan:
  assumes "issuance_ok d" "s \<in> set (db_stamps d)" "st_status s = SS_VOID" "upper (strip serial) = st_serial s"
    and "verify_stamp env now serial sc sls d = Inr (r, d')"
  shows "re_outcome r = O_void \<and> db_stamps d' = db_stamps d"
proof -
  have "report now sc (st_serial s) (Some s) O_void [] d = Inr (r, d')"
    using assms(5) unfolding verify_found [OF assms(1,2,4)] by (simp add: assms(3))
  then show ?thesis by (rule report_effect) (simp add: result_of_def)
qed

lemma void_flagged:
  assumes "field_ok env d" "s \<in> set (db_stamps d)" "st_status s = SS_VOID" shows "flagged env d ''void'' (st_status_list_index s)"
proof -
  have "st_status_list_index s \<in> indices (\<lambda>s. st_status s = SS_VOID) (db_stamps d)" using assms(2,3) by (auto simp: in_indices)
  then show ?thesis using assms(1) by (auto simp: field_ok_def flags_ok_def)
qed

text \<open>A malformed credential escapes the record: when the presented credential's \<open>credentialStatus\<close> is a number, the
  field scan of an active stamp ends in a \<open>TypeError\<close> instead of an \<open>invalid_credential\<close> answer, so the transaction
  is rolled back and the attempt is not recorded.\<close>

theorem malformed_status_escapes:
  assumes "issuance_ok d" "s \<in> set (db_stamps d)" "upper (strip serial) = st_serial s" "st_status s = SS_ACTIVE" "now < st_valid_until s"
    and "st_first_scan_at s = None" "sa_consume sc" "sa_credential sc = Some cred" "jobj_get cred ''credentialStatus'' = Some (JInt n)"
    and "case verify_proof (en_sha256 env) (en_verify env) cred (public_key env) of Inl e \<Rightarrow> (\<exists>a b. e = VCError a b) | Inr _ \<Rightarrow> True"
  shows "verify_stamp env now serial sc sls d = Inl (TypeError ''object is not iterable'')"
proof -
  have "verify_credential_offline env cred sls = Inl (TypeError ''object is not iterable'')"
    using assms(9,10) by (auto simp: verify_credential_offline_def split: sum.splits)
  then show ?thesis
    using assms(4-8) unfolding verify_found [OF assms(1-3)] by (simp add: credential_failures_def)
qed

subsection \<open>Examples\<close>

lemma toy_issued_stamp:
  obtains s where "credential_ok toy_env s" "build_serial ''TBC'' 2026 0 = Inr (st_serial s)" "st_batch_id s = 300" "st_category_code s = ''TBC''"
    "st_year s = 2026" "st_sequence s = 0" "st_first_scan_at s = None" "st_first_scan_verifier s = []" "st_valid_until s = add_days 0 365" "stamps_distinct [s]"
    "length (st_serial s) = 24"
proof -
  obtain n d' where c: "issue_chunk toy_env 0 300 (Some 1) toy_issuing = Inr (n, d')" by (rule toy_chunk)
  have sd: "stamps_distinct (db_stamps toy_issuing)" by (simp add: toy_issuing_def stamps_distinct_def)
  have b: "find_batch toy_issuing 300 = Some toy_batch" by (rule toy_issuing_ok(2))
  from c sd show ?thesis
  proof (cases rule: issue_chunk_effect)
    case (issued x a ctx ss rows k)
    have x: "x = toy_batch" using issued(1) b by simp
    have bf: "ba_category_code toy_batch = ''TBC''" "ba_year toy_batch = 2026" "ba_id toy_batch = 300" "ba_quantity toy_batch = 2" "ba_issued_count toy_batch = 0"
      by (simp_all add: toy_batch_def)
    have c0: "counter_of toy_issuing (''TBC'', 2026) = 0" by (simp add: counter_of_def toy_issuing_def)
    have "length ss = 1" using issued(4,12) x bf by (simp add: chunk_size_of_def)
    then obtain s where s: "ss = [s]" by (cases ss) auto
    have i: "issued_stamp toy_env ctx 0 s" using issued(11) x bf c0 s by simp
    have "credential_ok toy_env s" by (rule issued_credential [OF i toy_signs issued(10)])
    moreover have "stamps_distinct [s]" using issued(13) s by (simp add: toy_issuing_def)
    moreover have "cf_stamp_validity_days (en_settings toy_env) = 365" by (simp add: toy_settings_def default_settings_def)
    moreover have "build_serial ''TBC'' 2026 0 = Inr (st_serial s)" using i issued(6) x bf by (simp add: issued_stamp_def)
    moreover from parse_built [OF this] have "length (st_serial s) = 24" by blast
    ultimately show ?thesis using that [of s] i issued(6,8,9) x bf by (simp add: issued_stamp_def)
  qed (use b in \<open>auto simp: toy_batch_def\<close>)
qed

definition toy_passed :: inspection where
  "toy_passed = \<lparr>in_id = 70, in_batch_id = 300, in_lot_size = 2, in_code_letter = ''A'', in_sample_size = 2, in_accept = 0, in_reject = 1,
     in_defectives = 0, in_result = PASS, in_inspector_sub = [], in_created_at = 0\<rparr>"

text \<open>An active batch of one stamp.\<close>

definition toy_field :: "stamp \<Rightarrow> db" where
  "toy_field s = toy_issuing\<lparr>db_assessments := [(toy_assessment 500)\<lparr>as_status := AS_ISSUING, as_stamps_required := 1\<rparr>],
     db_stamp_batches := [toy_batch\<lparr>ba_status := BS_ACTIVE, ba_quantity := 1, ba_issued_count := 1\<rparr>], db_stamps := [s\<lparr>st_status := SS_ACTIVE\<rparr>],
     db_inspections := [toy_passed]\<rparr>"

lemma toy_passed_ok: "inspection_ok toy_passed"
proof -
  have "case plan_for_lot 2 of Inr p \<Rightarrow> plan_sample_size p = 2 \<and> plan_accept p = 0 | Inl _ \<Rightarrow> False" by code_simp
  then show ?thesis by (auto simp: inspection_ok_def toy_passed_def split: sum.splits)
qed

lemma toy_field_ok:
  assumes "build_serial ''TBC'' 2026 0 = Inr (st_serial s)" "st_batch_id s = 300" "st_category_code s = ''TBC''"
    "st_year s = 2026" "st_sequence s = 0" "st_first_scan_at s = None" "stamps_distinct [s]"
  shows "issuance_ok (toy_field s)" "field_ok toy_env (toy_field s)"
proof -
  show "issuance_ok (toy_field s)"
    using assms toy_passed_ok
    by (simp add: issuance_ok_def toy_field_def toy_issuing_def stamps_distinct_def batch_ok_def stamp_ok_def toy_batch_def toy_assessment_def toy_passed_def)
  have none: "db_status_list_snapshots (toy_field s) = []" "db_verifications (toy_field s) = []" "db_stamps (toy_field s) = [s\<lparr>st_status := SS_ACTIVE\<rparr>]"
    by (simp_all add: toy_field_def toy_issuing_def)
  show "field_ok toy_env (toy_field s)"
    using assms(6) by (simp add: flagged_empty [OF none(1)] field_ok_def lists_ok_def list_ok_empty none list_all_iff scans_ok_def scan_ok_def valid_scans_def clone_scans_def
        flags_ok_def indices_def)
qed

lemma record_attempt_total:
  assumes "db_uuids d (db_next_uuid d) \<notin> ve_id ` set (db_verifications d)" "case stamp of None \<Rightarrow> True | Some s \<Rightarrow> st_id s \<in> st_id ` set (db_stamps d)"
    and "length p \<le> 64" "length (sa_verifier_id sc) \<le> 128" "sa_lat_micros sc = None" "sa_long_micros sc = None"
  shows "succeeds (record_attempt now sc p stamp oc dt d)"
  using assms
  by (cases stamp) (auto simp: record_attempt_def uuid4_def insert_verification_def constraint_simps attempt_def bigint_opt_def succeeds_iff rbind_eq_Inr)

definition toy_scan :: "string \<Rightarrow> json \<Rightarrow> bool \<Rightarrow> scan" where
  "toy_scan who cred consume = \<lparr>sa_verifier_id = who, sa_public_scan = \<not> consume, sa_lat_micros = None, sa_long_micros = None,
     sa_credential = (case cred of JObj doc \<Rightarrow> Some doc | _ \<Rightarrow> None), sa_consume = consume\<rparr>"

lemma length_hex_width [simp]: "length (hex_width k n) = k"
  by (induction k arbitrary: n) simp_all

lemma length_uuid_str: "length (uuid_str u) = 36"
  by (simp add: uuid_str_def str_slice_def Let_def)

lemma toy_consume:
  assumes "s \<in> set (db_stamps d)" "length (st_serial s) = 24" "db_uuids d = id" "db_verifications d = []" "db_outbox_messages d = []"
    and "length (sa_verifier_id sc) \<le> 128" "sa_lat_micros sc = None" "sa_long_micros sc = None"
  shows "\<exists>r d'. consume_stamp env now sc s d = Inr (r, d')"
proof -
  let ?mark = "\<lambda>x. x\<lparr>st_status := SS_CONSUMED, st_first_scan_at := Some now, st_first_scan_verifier := sa_verifier_id sc,
                   st_first_scan_lat_micros := sa_lat_micros sc, st_first_scan_long_micros := sa_long_micros sc\<rparr>"
  let ?d1 = "d\<lparr>db_stamps := update_where (\<lambda>x. st_id x = st_id s) ?mark (db_stamps d)\<rparr>"
  have d1: "update_stamps (\<lambda>x. st_id x = st_id s) ?mark d = Inr ?d1"
    using assms(6-8) by (simp add: update_stamps_def first_violation_ok varchar_def bigint_opt_def list_all_iff rbind_eq_Inr)
  have "?mark s \<in> set (db_stamps ?d1)" using assms(1) by (auto simp: set_update_where intro!: bexI [of _ s])
  then have "succeeds (record_attempt now sc (st_serial s) (Some (?mark s)) O_valid ''first scan'' ?d1)"
    using assms by (intro record_attempt_total) (auto intro!: image_eqI [of _ _ "?mark s"])
  then obtain d2 where d2: "record_attempt now sc (st_serial s) (Some (?mark s)) O_valid ''first scan'' ?d1 = Inr d2" by (auto simp: succeeds_iff)
  have none: "db_outbox_messages d2 = []" by (rule record_attempt_effect [OF d2]) (simp add: assms(5))
  then have e: "\<exists>m d3. enqueue env now ''stamps.verified.v1'' [(ucs_of ''serial'', jstr (st_serial s)),
                  (ucs_of ''batchId'', jstr (uuid_str (st_batch_id s))),
                  (ucs_of ''verifierId'', jstr (sa_verifier_id sc)),
                  (ucs_of ''publicScan'', JBool (sa_public_scan sc)),
                  (ucs_of ''latMicros'', json_int_opt (sa_lat_micros sc)),
                  (ucs_of ''longMicros'', json_int_opt (sa_long_micros sc)),
                  (ucs_of ''velocitySuspect'', JBool v)] who ''verifier'' (Some (st_declaration_ref s)) d2 = Inr (m, d3)" for v who
  proof -
    let ?r = "[(ucs_of ''serial'', jstr (st_serial s)),
                  (ucs_of ''batchId'', jstr (uuid_str (st_batch_id s))),
                  (ucs_of ''verifierId'', jstr (sa_verifier_id sc)),
                  (ucs_of ''publicScan'', JBool (sa_public_scan sc)),
                  (ucs_of ''latMicros'', json_int_opt (sa_lat_micros sc)),
                  (ucs_of ''longMicros'', json_int_opt (sa_long_micros sc)),
                  (ucs_of ''velocitySuspect'', JBool v)]"
    have "uuid_str (st_batch_id s) \<noteq> []" using length_uuid_str [of "st_batch_id s"] by auto
    then have "length (message_key ?r) \<le> 128"
      by (simp add: message_key_def jobj_get_def json_truthy_def json_str_def text_of_def ucs_of_def comp_def List.map_filter_def length_uuid_str)
    then have "succeeds (enqueue env now ''stamps.verified.v1'' ?r who ''verifier'' (Some (st_declaration_ref s)) d2)"
      using none assms(7,8) by (intro enqueue_total [of _ "''stamps.verified''"]) (simp_all add: TOPIC_BY_EVENT_def json_int_opt_def)
    then show ?thesis by (auto simp: succeeds_iff)
  qed
  obtain m d3 where "enqueue env now ''stamps.verified.v1'' [(ucs_of ''serial'', jstr (st_serial s)),
                  (ucs_of ''batchId'', jstr (uuid_str (st_batch_id s))),
                  (ucs_of ''verifierId'', jstr (sa_verifier_id sc)),
                  (ucs_of ''publicScan'', JBool (sa_public_scan sc)),
                  (ucs_of ''latMicros'', json_int_opt (sa_lat_micros sc)),
                  (ucs_of ''longMicros'', json_int_opt (sa_long_micros sc)),
                  (ucs_of ''velocitySuspect'', JBool (velocity_suspect (en_settings env) now (st_id s) d2))]
                 (if sa_verifier_id sc = [] then ''public'' else sa_verifier_id sc) ''verifier'' (Some (st_declaration_ref s)) d2 = Inr (m, d3)"
    using e by blast
  with d1 d2 show ?thesis by (simp add: consume_stamp_def)
qed

lemma enqueue_draws:
  assumes "enqueue env now event_type resource pid role corr d = Inr (msg, d')"
  shows "db_next_uuid d' = db_next_uuid d + 4"
proof -
  obtain t c where tc: "lookup TOPIC_BY_EVENT event_type = Inr t" "lookup CLASSIFICATION_BY_EVENT event_type = Inr c"
    using assms by (auto simp: enqueue_def rbind_eq_Inr)
  obtain x where "insert_outbox_message x (d\<lparr>db_next_uuid := Suc (Suc (Suc (Suc (db_next_uuid d))))\<rparr>) = Inr d'"
    using assms by (auto simp: enqueue_def tc uuid4_def Let_def rbind_eq_Inr)
  from insert_outbox_message_ok [OF this] show ?thesis by simp
qed

text \<open>Two scans of the stamp of that batch.\<close>

lemma toy_scans:
  obtains s0 s d doc sls r1 d1 r2 d2 where "d = toy_field s0" "s \<in> set (db_stamps d)" "credential_ok toy_env s" "st_credential s = JObj doc"
    "load_status_lists toy_env d = Inr sls" "st_status s = SS_ACTIVE" "1 < st_valid_until s" "issuance_ok d" "field_ok toy_env d"
    "verify_stamp toy_env 0 (st_serial s) (toy_scan ''a'' (JObj doc) True) sls d = Inr (r1, d1)"
    "verify_stamp toy_env 1 (st_serial s) (toy_scan ''b'' JNull True) [] d1 = Inr (r2, d2)"
    "upper (strip (st_serial s)) = st_serial s" "st_first_scan_at s = None" "db_uuids d = id" "db_outbox_messages d = []"
proof -
  obtain s0 where s0: "credential_ok toy_env s0" "build_serial ''TBC'' 2026 0 = Inr (st_serial s0)" "st_batch_id s0 = 300" "st_category_code s0 = ''TBC''"
    "st_year s0 = 2026" "st_sequence s0 = 0" "st_first_scan_at s0 = None" "st_first_scan_verifier s0 = []" "st_valid_until s0 = add_days 0 365" "stamps_distinct [s0]"
    "length (st_serial s0) = 24" by (rule toy_issued_stamp)
  let ?d = "toy_field s0" and ?s = "s0\<lparr>st_status := SS_ACTIVE\<rparr>"
  have d: "db_stamps ?d = [?s]" "db_verifications ?d = []" "db_outbox_messages ?d = []" "db_uuids ?d = id" "db_status_list_snapshots ?d = []" "db_next_uuid ?d = 0"
    by (simp_all add: toy_field_def toy_issuing_def)
  note ok = toy_field_ok [OF s0(2-7,10)]
  have c: "credential_ok toy_env ?s" using s0(1) by (simp add: credential_ok_def)
  then obtain doc where doc: "st_credential ?s = JObj doc" unfolding credential_ok_def by blast
  have valid: "1 < st_valid_until ?s" using s0(9) by (simp add: add_days_def usec_per_day_def)
  obtain sls where sls: "load_status_lists toy_env ?d = Inr sls" using load_status_lists_total ok(2) unfolding field_ok_def by blast
  let ?sc1 = "toy_scan ''a'' (JObj doc) True" and ?sc2 = "toy_scan ''b'' JNull True"
  obtain r1 d1 where run1: "consume_stamp toy_env 0 ?sc1 ?s ?d = Inr (r1, d1)"
    using toy_consume [of ?s ?d ?sc1 toy_env 0] s0(11) d by (auto simp: toy_scan_def)
  have v1: "verify_stamp toy_env 0 (st_serial ?s) ?sc1 sls ?d = Inr (r1, d1)"
    using genuine_consumed [OF ok(2,1) _ c _ doc, of ?sc1 0 sls] run1 valid sls d by (simp add: toy_scan_def)
  have "stamp_ok (db_stamp_batches ?d) (db_inspections ?d) ?s" using ok(1) d(1) by (simp add: issuance_ok_def)
  then have us: "upper (strip (st_serial ?s)) = st_serial ?s" by (rule stamp_serial_parses)
  from run1 obtain v m k where e: "v = attempt (db_uuids ?d (db_next_uuid ?d)) 0 ?sc1 (st_serial ?s) (Some ?s) O_valid ''first scan''"
    "d1 = ?d\<lparr>db_stamps := update_where (\<lambda>x. st_id x = st_id ?s) (marked 0 ?sc1) (db_stamps ?d),
       db_verifications := db_verifications ?d @ [v], db_outbox_messages := db_outbox_messages ?d @ [m], db_next_uuid := k\<rparr>"
    by (rule consume_stamp_effect) (rule that)
  have k: "0 < db_next_uuid d1"
    using run1 enqueue_draws by (fastforce simp: consume_stamp_def rbind_eq_Inr)
  let ?s1 = "marked 0 ?sc1 ?s"
  have d1: "db_stamps d1 = [?s1]" "db_verifications d1 = [v]" "db_uuids d1 = id" "db_status_list_snapshots d1 = []"
    using d by (simp_all add: e(2) update_where_def)
  have i1: "issuance_ok d1" by (rule verify_stamp_issuance_ok [OF v1 ok(2,1)])
  have "succeeds (record_attempt 1 ?sc2 (st_serial ?s1) (Some ?s1) O_clone_suspect ''repeat scan'' d1)"
    using d d1 k s0(11) by (intro record_attempt_total) (simp_all add: e(1) attempt_def toy_scan_def)
  then obtain d2 where d2: "record_attempt 1 ?sc2 (st_serial ?s1) (Some ?s1) O_clone_suspect ''repeat scan'' d1 = Inr d2" by (auto simp: succeeds_iff)
  have d2s: "db_stamps d2 = [?s1]" "db_status_list_snapshots d2 = []" by (rule record_attempt_effect [OF d2]; simp add: d1)+
  let ?d3 = "d2\<lparr>db_stamps := update_where (\<lambda>x. st_id x = st_id ?s1) (\<lambda>x. x\<lparr>st_status := SS_SUSPECT\<rparr>) (db_stamps d2)\<rparr>"
  have d3: "update_stamps (\<lambda>x. st_id x = st_id ?s1) (\<lambda>x. x\<lparr>st_status := SS_SUSPECT\<rparr>) d2 = Inr ?d3"
    using d2s(1) by (simp add: update_stamps_def first_violation_ok varchar_def bigint_opt_def rbind_eq_Inr marked_def toy_scan_def)
  have "0 \<le> st_status_list_index ?s1" "st_status_list_index ?s1 < DEFAULT_LIST_SIZE_BITS" using s0(10) by (simp_all add: stamps_distinct_def)
  then obtain d4 where d4: "set_flag toy_env 1 ''suspect'' (st_status_list_index ?s1) ?d3 = Inr d4"
    using toy_set_flag [of "''suspect''" ?d3 "st_status_list_index ?s1" 1] d2s(2)
    by (auto simp: PURPOSES_def list_ok_empty max_version_def latest_snapshot_def)
  have "repeat_scan toy_env 1 ?sc2 ?s1 d1 = Inr (result_of O_clone_suspect (st_serial ?s1) (Some ?s1) ''repeat scan'', d4)"
    using d2 d3 d4 by (simp add: repeat_scan_def toy_scan_def marked_def Let_def)
  moreover have in1: "?s1 \<in> set (db_stamps d1)" and us1: "upper (strip (st_serial ?s)) = st_serial ?s1" using us d1(1) by simp_all
  ultimately have v2: "verify_stamp toy_env 1 (st_serial ?s) ?sc2 [] d1 = Inr (result_of O_clone_suspect (st_serial ?s1) (Some ?s1) ''repeat scan'', d4)"
    using valid unfolding verify_found [OF i1 in1 us1] by simp
  have "?s \<in> set (db_stamps ?d)" using d by simp
  note that [OF refl this c doc sls _ valid ok v1 v2 us]
  then show ?thesis using d s0(7) by simp
qed

theorem attempt_recorded_witness:
  "\<exists>r d'. verify_stamp toy_env 0 ''x'' (toy_scan ''a'' JNull True) [] (empty_db id) = Inr (r, d') \<and> length (db_verifications d') = 1"
proof -
  let ?sc = "toy_scan ''a'' JNull True"
  have p: "parse_serial (upper (strip ''x'')) = Inl (SerialError ''serial does not match NG-<CAT3>-<YYYY>-<SEQ10>-<CHECK>'')" by code_simp
  have "length (take 64 (upper (strip ''x''))) \<le> 64" by simp
  then have "succeeds (record_attempt 0 ?sc (take 64 (upper (strip ''x''))) None O_malformed_serial ''serial does not match NG-<CAT3>-<YYYY>-<SEQ10>-<CHECK>'' (empty_db id))"
    by (intro record_attempt_total) (simp_all add: toy_scan_def)
  then have "\<exists>r d'. verify_stamp toy_env 0 ''x'' ?sc [] (empty_db id) = Inr (r, d')"
    by (auto simp: verify_stamp_def Let_def p succeeds_iff serial_error_text_def)
  then obtain r d' where r: "verify_stamp toy_env 0 ''x'' ?sc [] (empty_db id) = Inr (r, d')" by blast
  from attempt_recorded [OF r] r show ?thesis by auto
qed

theorem precheck_changes_nothing_witness:
  "\<exists>r d'. verify_stamp toy_env 0 ''x'' (toy_scan [] JNull False) [] (empty_db id) = Inr (r, d') \<and> db_stamps d' = []"
proof -
  let ?sc = "toy_scan [] JNull False"
  have p: "parse_serial (upper (strip ''x'')) = Inl (SerialError ''serial does not match NG-<CAT3>-<YYYY>-<SEQ10>-<CHECK>'')" by code_simp
  have "length (take 64 (upper (strip ''x''))) \<le> 64" by simp
  then have "succeeds (record_attempt 0 ?sc (take 64 (upper (strip ''x''))) None O_malformed_serial ''serial does not match NG-<CAT3>-<YYYY>-<SEQ10>-<CHECK>'' (empty_db id))"
    by (intro record_attempt_total) (simp_all add: toy_scan_def)
  then have "\<exists>r d'. verify_stamp toy_env 0 ''x'' ?sc [] (empty_db id) = Inr (r, d')"
    by (auto simp: verify_stamp_def Let_def p succeeds_iff serial_error_text_def)
  then obtain r d' where r: "verify_stamp toy_env 0 ''x'' ?sc [] (empty_db id) = Inr (r, d')" by blast
  have "\<not> sa_consume ?sc" "sa_verifier_id ?sc = []" by (simp_all add: toy_scan_def)
  from precheck_changes_nothing [OF r this] r show ?thesis by auto
qed

theorem genuine_then_clone_witness:
  "\<exists>d s sc1 sc2 sls r1 d1 r2 d2. s \<in> set (db_stamps d) \<and> verify_stamp toy_env 0 (st_serial s) sc1 sls d = Inr (r1, d1) \<and> verify_stamp toy_env 1 (st_serial s) sc2 [] d1 = Inr (r2, d2) \<and>
     re_outcome r1 = O_valid \<and> re_outcome r2 = O_clone_suspect \<and> flagged toy_env d2 ''suspect'' (st_status_list_index s)"
proof -
  obtain s0 s d doc sls r1 d1 r2 d2 where t: "d = toy_field s0" "s \<in> set (db_stamps d)" "credential_ok toy_env s" "st_credential s = JObj doc"
    "load_status_lists toy_env d = Inr sls" "st_status s = SS_ACTIVE" "1 < st_valid_until s" "issuance_ok d" "field_ok toy_env d"
    "verify_stamp toy_env 0 (st_serial s) (toy_scan ''a'' (JObj doc) True) sls d = Inr (r1, d1)"
    "verify_stamp toy_env 1 (st_serial s) (toy_scan ''b'' JNull True) [] d1 = Inr (r2, d2)" by (rule toy_scans) (rule that)
  have "re_outcome r1 = O_valid \<and> re_outcome r2 = O_clone_suspect \<and>
    re_first_scan r2 = Some (strftime_seconds 0, sa_verifier_id (toy_scan ''a'' (JObj doc) True), sa_lat_micros (toy_scan ''a'' (JObj doc) True), sa_long_micros (toy_scan ''a'' (JObj doc) True)) \<and>
    (\<forall>p i. flagged toy_env d2 p i \<longleftrightarrow> flagged toy_env d p i \<or> (p = ''suspect'' \<and> i = st_status_list_index s))"
    using t(7) by (intro genuine_then_clone [OF t(9,8) gzip_ok_toy t(2-4,6) _ t(7) t(5) _ _ _ t(10,11)]) (simp_all add: toy_scan_def)
  then have "s \<in> set (db_stamps d) \<and> verify_stamp toy_env 0 (st_serial s) (toy_scan ''a'' (JObj doc) True) sls d = Inr (r1, d1) \<and>
    verify_stamp toy_env 1 (st_serial s) (toy_scan ''b'' JNull True) [] d1 = Inr (r2, d2) \<and>
    re_outcome r1 = O_valid \<and> re_outcome r2 = O_clone_suspect \<and> flagged toy_env d2 ''suspect'' (st_status_list_index s)" using t(2,10,11) by simp
  then show ?thesis by (intro exI)
qed

theorem first_scan_wins_witness:
  "\<exists>d s at sc r d'. verify_stamp toy_env 1 (st_serial s) sc [] d = Inr (r, d') \<and> st_first_scan_at s = Some at \<and> s \<in> set (db_stamps d) \<and>
     re_outcome r = O_clone_suspect \<and> re_first_scan r = Some (strftime_seconds at, st_first_scan_verifier s, None, None)"
proof -
  obtain s0 s d doc sls r1 d1 r2 d2 where t: "d = toy_field s0" "s \<in> set (db_stamps d)" "credential_ok toy_env s" "st_credential s = JObj doc"
    "load_status_lists toy_env d = Inr sls" "st_status s = SS_ACTIVE" "1 < st_valid_until s" "issuance_ok d" "field_ok toy_env d"
    "verify_stamp toy_env 0 (st_serial s) (toy_scan ''a'' (JObj doc) True) sls d = Inr (r1, d1)"
    "verify_stamp toy_env 1 (st_serial s) (toy_scan ''b'' JNull True) [] d1 = Inr (r2, d2)" "upper (strip (st_serial s)) = st_serial s" by (rule toy_scans) (rule that)
  let ?sc = "toy_scan ''a'' (JObj doc) True" and ?s1 = "marked 0 (toy_scan ''a'' (JObj doc) True) s"
  have ids: "distinct (map st_id (db_stamps d))" using t(8) by (simp add: issuance_ok_def stamps_distinct_def)
  have ok1: "field_ok toy_env d1" "issuance_ok d1"
    by (rule verify_stamp_field_ok [OF t(10,9) gzip_ok_toy ids], rule verify_stamp_issuance_ok [OF t(10,9,8)])
  have "consume_stamp toy_env 0 ?sc s d = Inr (r1, d1)"
    using genuine_consumed [OF t(9,8,2,3) _ t(4,6) _ _ t(5), of ?sc 0] t(7,10) by (simp add: toy_scan_def)
  then have st: "?s1 \<in> set (db_stamps d1)"
    by (rule consume_stamp_effect) (use t(2) in \<open>auto simp: set_update_where intro!: bexI [of _ s]\<close>)
  have "re_outcome r2 = (if st_status ?s1 = SS_VOID then O_void else if st_valid_until ?s1 \<le> 1 then O_expired
       else if sa_verifier_id (toy_scan ''b'' JNull True) \<in> {[], st_first_scan_verifier ?s1} then O_already_verified else O_clone_suspect) \<and>
    re_first_scan r2 = Some (strftime_seconds 0, st_first_scan_verifier ?s1, st_first_scan_lat_micros ?s1, st_first_scan_long_micros ?s1)"
    using first_scan_wins [OF t(11) ok1 gzip_ok_toy st] t(12) by simp
  then have "re_outcome r2 = O_clone_suspect \<and> re_first_scan r2 = Some (strftime_seconds 0, st_first_scan_verifier ?s1, None, None)"
    using t(7) by (simp add: toy_scan_def marked_def)
  with t(11) st show ?thesis by (intro exI [of _ d1] exI [of _ ?s1] exI [of _ 0] exI [of _ "toy_scan ''b'' JNull True"] exI [of _ r2] exI [of _ d2]) simp
qed

theorem valid_requires_credential_witness:
  "\<exists>d serial sc sls r d'. verify_stamp toy_env 0 serial sc sls d = Inr (r, d') \<and> re_outcome r = O_valid \<and> sa_consume sc \<and> sa_credential sc \<noteq> None"
proof -
  obtain s0 s d doc sls r1 d1 r2 d2 where t: "d = toy_field s0" "s \<in> set (db_stamps d)" "credential_ok toy_env s" "st_credential s = JObj doc"
    "load_status_lists toy_env d = Inr sls" "st_status s = SS_ACTIVE" "1 < st_valid_until s" "issuance_ok d" "field_ok toy_env d"
    "verify_stamp toy_env 0 (st_serial s) (toy_scan ''a'' (JObj doc) True) sls d = Inr (r1, d1)"
    by (rule toy_scans) (rule that)
  have "consume_stamp toy_env 0 (toy_scan ''a'' (JObj doc) True) s d = Inr (r1, d1)"
    using genuine_consumed [OF t(9,8,2,3) _ t(4,6) _ _ t(5), of "toy_scan ''a'' (JObj doc) True" 0] t(7,10) by (simp add: toy_scan_def)
  then have o: "re_outcome r1 = O_valid" by (rule consume_stamp_effect) (simp add: result_of_def)
  from valid_requires_credential [OF t(10) o] t(10) o show ?thesis by blast
qed

theorem offline_check_exact_witness:
  "\<exists>d s doc. s \<in> set (db_stamps d) \<and> st_credential s = JObj doc \<and> rbind (load_status_lists toy_env d) (verify_credential_offline toy_env doc) = Inr []"
proof -
  obtain s0 s d doc sls r1 d1 r2 d2 where t: "d = toy_field s0" "s \<in> set (db_stamps d)" "credential_ok toy_env s" "st_credential s = JObj doc"
    "st_status s = SS_ACTIVE" "issuance_ok d" "field_ok toy_env d"
    by (rule toy_scans) (rule that)
  have "db_verifications d = []" by (simp add: t(1) toy_field_def toy_issuing_def)
  with offline_check_exact [OF t(7,6,2-4)] t(5) have "rbind (load_status_lists toy_env d) (verify_credential_offline toy_env doc) = Inr []"
    by (simp add: clone_scans_def)
  with t(2,4) show ?thesis by blast
qed

theorem malformed_status_escapes_witness:
  "\<exists>d serial. verify_stamp toy_env 0 serial (toy_scan ''a'' (JObj [(ucs_of ''credentialStatus'', JInt 1)]) True) [] d = Inl (TypeError ''object is not iterable'')"
proof -
  obtain s0 s d doc sls r1 d1 r2 d2 where t: "d = toy_field s0" "s \<in> set (db_stamps d)" "st_status s = SS_ACTIVE" "1 < st_valid_until s" "issuance_ok d"
    "upper (strip (st_serial s)) = st_serial s" "st_first_scan_at s = None" by (rule toy_scans) (rule that)
  let ?c = "[(ucs_of ''credentialStatus'', JInt 1)]"
  have "verify_stamp toy_env 0 (st_serial s) (toy_scan ''a'' (JObj ?c) True) [] d = Inl (TypeError ''object is not iterable'')"
    by (rule malformed_status_escapes [OF t(5,2,6,3) _ t(7), of _ _ ?c 1])
      (use t(4) in \<open>simp_all add: toy_scan_def jobj_get_def verify_proof_def\<close>)
  then show ?thesis by blast
qed

text \<open>Voiding the one stamp on the market, in a database that may hold more beside it.\<close>

lemma toy_voids:
  assumes "issuance_ok d" "db_stamps d = [s\<lparr>st_status := SS_ACTIVE\<rparr>]" "db_outbox_messages d = []" "db_status_list_snapshots d = []"
    and "st_first_scan_verifier s = []" "st_first_scan_lat_micros s = None" "st_first_scan_long_micros s = None" "stamps_distinct [s]"
  obtains s' d' where "void_stamp toy_env 0 (st_serial s) ''lost'' who d = Inr (s', d')" "db_audit_events d' = db_audit_events d"
proof -
  let ?s = "s\<lparr>st_status := SS_ACTIVE\<rparr>" and ?f = "\<lambda>x. x\<lparr>st_status := SS_VOID\<rparr>"
  have "stamp_ok (db_stamp_batches d) (db_inspections d) ?s" using assms(1,2) by (simp add: issuance_ok_def)
  then have us: "upper (strip (st_serial ?s)) = st_serial ?s" by (rule stamp_serial_parses)
  obtain d1 where d1: "update_stamps (\<lambda>x. st_id x = st_id ?s) ?f d = Inr d1"
    using assms(2,5-7) by (simp add: update_stamps_def first_violation_ok varchar_def bigint_opt_def rbind_eq_Inr split: option.splits)
  have d1s: "db_status_list_snapshots d1 = []" "db_outbox_messages d1 = []" "db_audit_events d1 = db_audit_events d"
    using update_stamps_ok [OF d1] assms(3,4) by simp_all
  have "0 \<le> st_status_list_index ?s" "st_status_list_index ?s < DEFAULT_LIST_SIZE_BITS" using assms(8) by (simp_all add: stamps_distinct_def)
  then obtain d2 where d2: "set_flag toy_env 0 ''void'' (st_status_list_index ?s) d1 = Inr d2"
    using toy_set_flag [of "''void''" d1 "st_status_list_index ?s" 0] d1s(1)
    by (auto simp: PURPOSES_def list_ok_empty max_version_def latest_snapshot_def)
  have none: "db_outbox_messages d2 = []" "db_audit_events d2 = db_audit_events d"
    by (rule set_flag_fields [OF d2], simp add: d1s)+
  let ?r = "[(ucs_of ''serial'', jstr (st_serial ?s)), (ucs_of ''reason'', jstr ''lost''), (ucs_of ''batchId'', jstr (uuid_str (st_batch_id ?s)))]"
  have "uuid_str (st_batch_id ?s) \<noteq> []" using length_uuid_str [of "st_batch_id ?s"] by auto
  then have "length (message_key ?r) \<le> 128"
    by (simp add: message_key_def jobj_get_def json_truthy_def json_str_def text_of_def ucs_of_def comp_def List.map_filter_def length_uuid_str)
  then have "succeeds (enqueue toy_env 0 ''stamps.voided.v1'' ?r who ''excise-approver'' (Some (st_declaration_ref ?s)) d2)"
    using none by (intro enqueue_total [of _ "''stamps.voided''"]) (simp_all add: TOPIC_BY_EVENT_def)
  then obtain m d3 where e: "enqueue toy_env 0 ''stamps.voided.v1'' ?r who ''excise-approver'' (Some (st_declaration_ref ?s)) d2 = Inr (m, d3)"
    by (auto simp: succeeds_iff)
  have d3: "db_audit_events d3 = db_audit_events d" by (rule enqueue_effect [OF e]) (simp add: none(2))
  have reason: "strip ''lost'' \<noteq> []" by code_simp
  have "find_stamp d (st_serial ?s) = Some ?s" by (simp add: find_stamp_def assms(2))
  then have "void_stamp toy_env 0 (st_serial s) ''lost'' who d = Inr (?f ?s, d3)"
    using us d1 d2 e reason by (simp add: void_stamp_def)
  then show ?thesis using that d3 by blast
qed

end
