(* ===== verification/VerifyRoutes.thy ===== *)
theory VerifyRoutes
  imports StampRoutes FieldProperties
begin

section \<open>Verification and operations requests\<close>

text \<open>
  \<open>src/taxstamps/api/routes_verify.py\<close> and \<open>api/routes_ops.py\<close>, with the bodies of \<open>api/schemas.py\<close>. The
  authenticated scan needs a device credential, a rate limit and a single-use nonce before the stamp is looked at; the
  public one only reads. Redis keeps what its commands did even when the request fails, so its state is returned in
  every case. The clock is read in seconds for Redis (\<open>unix\<close>) and as a UTC time for the database.
\<close>

subsection \<open>Bodies\<close>

record verify_in =
  vi_serial :: string
  vi_nonce :: string
  vi_credential :: "(ucs \<times> json) list option"
  vi_lat_micros :: "int option"
  vi_long_micros :: "int option"

record public_verify_in =
  pv_serial :: "string option"
  pv_credential :: "(ucs \<times> json) list option"
  pv_lat_micros :: "int option"
  pv_long_micros :: "int option"

definition within :: "int \<Rightarrow> int option \<Rightarrow> bool" where
  "within bound v = (case v of None \<Rightarrow> True | Some i \<Rightarrow> - bound \<le> i \<and> i \<le> bound)"

definition valid_verify_in :: "verify_in \<Rightarrow> bool" where
  "valid_verify_in b =
    (length_between 1 64 (vi_serial b) \<and> length_between 8 128 (vi_nonce b) \<and> within 90000000 (vi_lat_micros b) \<and>
     within 180000000 (vi_long_micros b))"

definition valid_public_verify_in :: "public_verify_in \<Rightarrow> bool" where
  "valid_public_verify_in b =
    ((case pv_serial b of None \<Rightarrow> True | Some s \<Rightarrow> length s \<le> 64) \<and> within 90000000 (pv_lat_micros b) \<and> within 180000000 (pv_long_micros b) \<and>
     \<not> (pv_serial b \<in> {None, Some []} \<and> pv_credential b \<in> {None, Some []}))"

subsection \<open>Responses\<close>

definition first_scan_json :: "(string \<times> string \<times> int option \<times> int option) \<Rightarrow> json" where
  "first_scan_json = (\<lambda>(at, verifier, lat, long). JObj
     [(ucs_of ''at'', jstr at), (ucs_of ''verifierId'', jstr verifier), (ucs_of ''latMicros'', json_int_opt lat), (ucs_of ''longMicros'', json_int_opt long)])"

definition scan_view :: "scan_result \<Rightarrow> (ucs \<times> json) list" where
  "scan_view r =
     [(ucs_of ''outcome'', jstr (outcome_text (re_outcome r))), (ucs_of ''serial'', jstr (re_serial r)), (ucs_of ''detail'', jstr (re_detail r))] @
     (case re_first_scan r of None \<Rightarrow> [] | Some f \<Rightarrow> [(ucs_of ''firstScan'', first_scan_json f)])"

subsection \<open>The device\<close>

definition find_verifier :: "db \<Rightarrow> string \<Rightarrow> verifier_credential option" where
  "find_verifier d verifier_id = find (\<lambda>v. vc_verifier_id v = verifier_id) (db_verifier_credentials d)"

text \<open>\<open>hmac.compare_digest\<close> of texts raises unless both are ASCII; the presented one is hexadecimal.\<close>

definition compare_digest :: "string \<Rightarrow> string \<Rightarrow> bool result" where
  "compare_digest a b =
    (if succeeds (ascii_bytes a) \<and> succeeds (ascii_bytes b) then Inr (a = b)
     else Inl (TypeError ''comparing strings with non-ASCII characters is not supported''))"

definition authenticate_verifier :: "'sk env \<Rightarrow> string \<Rightarrow> string \<Rightarrow> db \<Rightarrow> verifier_credential result" where
  "authenticate_verifier env verifier_id credential d =
    (if verifier_id = [] \<or> credential = [] then Inl (HTTPException 401 ''missing-verifier-credential'')
     else case find_verifier d verifier_id of
       None \<Rightarrow> Inl (HTTPException 401 ''unknown-verifier'')
     | Some row \<Rightarrow>
         if \<not> vc_active row then Inl (HTTPException 401 ''unknown-verifier'')
         else rbind (compare_digest (hash_verifier_credential (en_sha256 env) verifier_id credential) (vc_credential_hash row)) (\<lambda>same.
           if same then Inr row else Inl (HTTPException 401 ''invalid-verifier-credential'')))"

text \<open>\<open>except RedisUnavailable\<close>, then \<open>except ValueError\<close>.\<close>

definition guard_http :: "string \<Rightarrow> exn \<Rightarrow> exn" where
  "guard_http reason e =
    (case e of RedisUnavailable _ \<Rightarrow> HTTPException 503 ''redis-unavailable''
     | _ \<Rightarrow> if is_value_error e then HTTPException 429 reason else e)"

definition guard_scan :: "'sk env \<Rightarrow> 'r redis \<Rightarrow> int \<Rightarrow> string \<Rightarrow> string \<Rightarrow> 'r \<Rightarrow> unit result \<times> 'r" where
  "guard_scan env ops unix verifier_id nonce r =
    (case rate_limit (en_settings env) ops unix (''verify:'' @ verifier_id) (cf_rate_limit_per_minute (en_settings env)) r of
       (Inl e, r1) \<Rightarrow> (Inl (guard_http ''nonce-or-rate-limit'' e), r1)
     | (Inr _, r1) \<Rightarrow>
         (case claim_nonce (en_settings env) ops (nonce_key (en_sha256 env) verifier_id nonce) 300 r1 of
            (res, r2) \<Rightarrow> (map_error (guard_http ''nonce-or-rate-limit'') res, r2)))"

subsection \<open>Scans\<close>

text \<open>The scan of an authenticated device, and the response.\<close>

definition field_scan :: "'sk env \<Rightarrow> datetime \<Rightarrow> string \<Rightarrow> verify_in \<Rightarrow> db \<Rightarrow> (json \<times> db) result" where
  "field_scan env now verifier_id body d =
    rbind (load_status_lists env d) (\<lambda>sls.
    rbind (verify_stamp env now (vi_serial body)
       \<lparr>sa_verifier_id = verifier_id, sa_public_scan = False, sa_lat_micros = vi_lat_micros body, sa_long_micros = vi_long_micros body,
        sa_credential = vi_credential body, sa_consume = True\<rparr> sls d) (\<lambda>(res, d1).
    rbind (commit d1) (\<lambda>d2. Inr (JObj (scan_view res), d2))))"

definition verify_route ::
  "'sk env \<Rightarrow> 'r redis \<Rightarrow> int \<Rightarrow> datetime \<Rightarrow> string \<Rightarrow> string \<Rightarrow> verify_in \<Rightarrow> db \<Rightarrow> 'r \<Rightarrow> (json \<times> db) result \<times> 'r" where
  "verify_route env ops unix now verifier_header credential_header body d r =
    (case authenticate_verifier env verifier_header credential_header d of
       Inl e \<Rightarrow> (Inl e, r)
     | Inr verifier \<Rightarrow>
         (case guard_scan env ops unix (vc_verifier_id verifier) (vi_nonce body) r of
            (Inl e, r1) \<Rightarrow> (Inl e, r1)
          | (Inr _, r1) \<Rightarrow> (field_scan env now (vc_verifier_id verifier) body d, r1)))"

definition public_guard :: "'sk env \<Rightarrow> 'r redis \<Rightarrow> int \<Rightarrow> string \<Rightarrow> 'r \<Rightarrow> unit result \<times> 'r" where
  "public_guard env ops unix client_ip r =
    (if \<not> redis_configured (en_settings env) then (Inr (), r)
     else (case rate_limit (en_settings env) ops unix (''verify-public:'' @ client_ip) (cf_rate_limit_per_minute (en_settings env)) r of
            (res, r1) \<Rightarrow> (map_error (guard_http ''rate-limit'') res, r1)))"

text \<open>The serial to look up: that of the body, or whatever the presented credential claims; nothing when it is empty.\<close>

definition claimed_serial :: "public_verify_in \<Rightarrow> json option result" where
  "claimed_serial body =
    (case pv_serial body of
       Some (c # s) \<Rightarrow> Inr (Some (jstr (c # s)))
     | _ \<Rightarrow>
         (case pv_credential body of
            None \<Rightarrow> Inr None
          | Some cred \<Rightarrow>
              rbind (as_object (case jobj_get cred ''credentialSubject'' of None \<Rightarrow> JObj [] | Some v \<Rightarrow> v)) (\<lambda>subject.
                Inr (case jobj_get subject ''serial'' of None \<Rightarrow> None | Some v \<Rightarrow> if json_truthy v then Some v else None))))"

definition credential_check :: "'sk env \<Rightarrow> public_verify_in \<Rightarrow> db \<Rightarrow> (ucs \<times> json) list result" where
  "credential_check env body d =
    (case pv_credential body of
       None \<Rightarrow> Inr []
     | Some cred \<Rightarrow>
         rbind (load_status_lists env d) (\<lambda>sls.
         rbind (verify_credential_offline env cred sls) (\<lambda>failures.
           Inr [(ucs_of ''credentialCheck'', JObj
             [(ucs_of ''ok'', JBool (failures = [])), (ucs_of ''failures'', JArr (map jstr failures))])])))"

text \<open>A claimed serial that is not a text cannot be stripped.\<close>

definition public_scan :: "'sk env \<Rightarrow> datetime \<Rightarrow> public_verify_in \<Rightarrow> db \<Rightarrow> (json \<times> db) result" where
  "public_scan env now body d =
    rbind (claimed_serial body) (\<lambda>serial.
    rbind (credential_check env body d) (\<lambda>chk.
      case serial of
        None \<Rightarrow> rbind (commit d) (\<lambda>d1. Inr (JObj chk, d1))
      | Some (JStr t) \<Rightarrow>
          rbind (verify_stamp env now (text_of t)
             \<lparr>sa_verifier_id = [], sa_public_scan = True, sa_lat_micros = pv_lat_micros body, sa_long_micros = pv_long_micros body,
              sa_credential = None, sa_consume = False\<rparr> [] d) (\<lambda>(res, d1).
          rbind (commit d1) (\<lambda>d2. Inr (JObj (chk @ scan_view res), d2)))
      | Some _ \<Rightarrow> Inl (AttributeError ''strip'')))"

definition verify_public_route ::
  "'sk env \<Rightarrow> 'r redis \<Rightarrow> int \<Rightarrow> datetime \<Rightarrow> string \<Rightarrow> public_verify_in \<Rightarrow> db \<Rightarrow> 'r \<Rightarrow> (json \<times> db) result \<times> 'r" where
  "verify_public_route env ops unix now client_ip body d r =
    (case public_guard env ops unix client_ip r of
       (Inl e, r1) \<Rightarrow> (Inl e, r1)
     | (Inr _, r1) \<Rightarrow> (public_scan env now body d, r1))"

subsection \<open>Operations\<close>

text \<open>The probes: \<open>database\<close> is the outcome of SELECT 1, \<open>keyring\<close> whether one was loaded at boot.\<close>

definition v1_capabilities :: "settings \<Rightarrow> 'r redis \<Rightarrow> string + unit \<Rightarrow> bool \<Rightarrow> bool \<Rightarrow> 'r \<Rightarrow> capability list \<times> 'r" where
  "v1_capabilities s ops database keyring kafka_available r =
    (let (pong, r1) = (if redis_configured s then ping s ops r else (False, r));
         base = (case database of
             Inr _ \<Rightarrow> [(''database'', JBool True)]
           | Inl e \<Rightarrow> [(''database'', JBool False), (''database_reason'', jstr e)]);
         redis = (if redis_configured s then [(''redis'', JBool pong)] else []);
         kafka = (if kafka_configured s then [(''kafka'', JBool kafka_available)]
                  else [(''kafka'', JBool False), (''kafka_reason'', jstr KAFKA_REASON)])
     in (capability_report s (base @ [(''signing'', JBool True)] @ redis @ [(''oidc'', JBool keyring)] @ kafka), r1))"

text \<open>No identity and no policy: the audit chain is verified for anyone.\<close>

definition audit_chain_route :: "'sk env \<Rightarrow> db \<Rightarrow> json result" where
  "audit_chain_route env d =
    rbind (verify_chain env d) (\<lambda>v. Inr (JObj
      [(ucs_of ''ok'', JBool (cv_ok v)), (ucs_of ''events'', JInt (cv_events v)), (ucs_of ''firstBadId'', json_int_opt (cv_first_bad_id v)),
       (ucs_of ''detail'', jstr (cv_detail v))]))"

definition issuer_key_route :: "'sk env \<Rightarrow> string \<Rightarrow> json result" where
  "issuer_key_route env name =
    (if name \<noteq> issuer env then Inl (HTTPException 404 ''unknown issuer'')
     else Inr (JObj [(ucs_of ''issuer'', jstr (issuer env)), (ucs_of ''kid'', JStr (sk_kid (en_signing_key env))),
       (ucs_of ''public_key_b64u'', JStr (public_key_b64u (en_public_of env) (en_signing_key env)))]))"

definition status_list_route :: "string \<Rightarrow> db \<Rightarrow> json result" where
  "status_list_route purpose d =
    (if purpose \<notin> set PURPOSES then Inl (HTTPException 404 ''unknown status list'')
     else case current_credential d purpose of None \<Rightarrow> Inl (HTTPException 404 ''status list not yet published'') | Some c \<Rightarrow> Inr c)"

end
