(* ===== verification/Consumer.thy ===== *)
theory Consumer
  imports Guards
begin

section \<open>The declarations consumer\<close>

text \<open>
  \<open>src/taxstamps/events/consumer.py\<close>: an envelope is verified, its declaration stored with its lines,
  and its event id remembered so that a redelivery changes nothing. The offset of a message is committed when it was
  applied, was a duplicate, or was rejected with an error the loop catches; any other exception leaves the loop and the
  offset uncommitted. The Kafka client and the loop around one message are I/O. The text of an event is taken to be
  Latin-1, as all service text here.
\<close>

definition REQUIRED_RESOURCE_FIELDS :: "string list" where
  "REQUIRED_RESOURCE_FIELDS = [''declarationRef'', ''consigneeTin'', ''lineItems'']"

datatype disposition = D_applied | D_duplicate

definition str_value :: "json \<Rightarrow> string" where
  "str_value v = text_of (str_json v)"

text \<open>\<open>raw[k]\<close> and \<open>raw.get(k, default)\<close> of a line.\<close>

definition json_item :: "json \<Rightarrow> string \<Rightarrow> json result" where
  "json_item v k = (case v of
     JObj d \<Rightarrow> (case jobj_get d k of Some x \<Rightarrow> Inr x | None \<Rightarrow> Inl (KeyError k))
   | _ \<Rightarrow> Inl (TypeError ''object is not subscriptable by a text''))"

definition get_or :: "json \<Rightarrow> string \<Rightarrow> json \<Rightarrow> json" where
  "get_or v k dflt = (case v of JObj d \<Rightarrow> (case jobj_get d k of Some x \<Rightarrow> x | None \<Rightarrow> dflt) | _ \<Rightarrow> dflt)"

definition event_line :: "uuid \<Rightarrow> uuid \<Rightarrow> json \<Rightarrow> declaration_line result" where
  "event_line line_id declaration_id raw =
    rbind (json_item raw ''hsCode'') (\<lambda>hs.
    rbind (json_item raw ''quantity'') (\<lambda>q. rbind (py_int q) (\<lambda>quantity.
    rbind (json_item raw ''unit'') (\<lambda>unit.
    rbind (py_int (get_or raw ''customsValueKobo'' (JInt 0))) (\<lambda>value.
    rbind (py_int (get_or raw ''stampsRequired'' q)) (\<lambda>stamps.
      Inr \<lparr>dl_id = line_id, dl_declaration_id = declaration_id, dl_hs_code = str_value hs,
           dl_description = str_value (get_or raw ''description'' (jstr [])), dl_quantity = quantity, dl_unit = str_value unit,
           dl_customs_value_kobo = value, dl_stamps_required = stamps\<rparr>))))))"

fun event_lines :: "uuid \<Rightarrow> json list \<Rightarrow> db \<Rightarrow> (declaration_line list \<times> db) result" where
  "event_lines declaration_id [] d = Inr ([], d)"
| "event_lines declaration_id (raw # raws) d =
    (let (u, d1) = uuid4 d
     in rbind (event_line u declaration_id raw) (\<lambda>l.
        rbind (event_lines declaration_id raws d1) (\<lambda>(ls, d2). Inr (l # ls, d2))))"

fun insert_declaration_lines :: "declaration_line list \<Rightarrow> db \<Rightarrow> db result" where
  "insert_declaration_lines [] d = Inr d"
| "insert_declaration_lines (l # ls) d = rbind (insert_declaration_line l d) (insert_declaration_lines ls)"

text \<open>The query and the columns take a text; the driver rejects any other value, and the column a null.\<close>

definition event_text :: "json \<Rightarrow> ucs result" where
  "event_text v = (case v of JStr s \<Rightarrow> Inr s | _ \<Rightarrow> Inl (DataError ''event id is not a text''))"

text \<open>\<open>_apply\<close>, from the new declaration on, and whole. The rows are written when the audit chain is queried (autoflush), after every line has been read.\<close>

definition event_declaration ::
  "uuid \<Rightarrow> datetime \<Rightarrow> ucs \<Rightarrow> (ucs \<times> json) list \<Rightarrow> (ucs \<times> json) list \<Rightarrow> customs_declaration result" where
  "event_declaration u now event_id envelope resource =
    rbind (json_item (JObj resource) ''declarationRef'') (\<lambda>ref_value.
    rbind (json_item (JObj resource) ''consigneeTin'') (\<lambda>tin_value.
      Inr \<lparr>dc_id = u, dc_declaration_ref = str_value ref_value, dc_consignee_tin = str_value tin_value,
        dc_consignee_name = str_value (get_or (JObj resource) ''consigneeName'' (jstr [])), dc_source_event_id = text_of event_id,
        dc_occurred_at = now, dc_envelope = JObj envelope, dc_received_at = now\<rparr>))"

definition received_payload :: "customs_declaration \<Rightarrow> ucs \<Rightarrow> (ucs \<times> json) list \<Rightarrow> json" where
  "received_payload dc event_id envelope = JObj
     [(ucs_of ''declarationRef'', jstr (dc_declaration_ref dc)), (ucs_of ''eventId'', JStr event_id),
      (ucs_of ''producer'', get_or (JObj envelope) ''producer'' (jstr []))]"

definition store_event ::
  "'sk env \<Rightarrow> datetime \<Rightarrow> ucs \<Rightarrow> (ucs \<times> json) list \<Rightarrow> (ucs \<times> json) list \<Rightarrow> json list \<Rightarrow> db \<Rightarrow> db result" where
  "store_event env now event_id envelope resource raws d =
    (let (u, d0) = uuid4 d
     in rbind (event_declaration u now event_id envelope resource) (\<lambda>dc.
        rbind (event_lines u raws d0) (\<lambda>(ls, d1).
        rbind (rbind (json_item (JObj envelope) ''eventType'') event_text) (\<lambda>event_type.
        rbind (insert_declaration dc d1) (\<lambda>d2.
        rbind (insert_declaration_lines ls d2) (\<lambda>d3.
        rbind (insert_processed_event \<lparr>pe_event_id = text_of event_id, pe_event_type = text_of event_type, pe_processed_at = now\<rparr> d3) (\<lambda>d4.
        rbind (audit_record env now ''declaration.received'' (received_payload dc event_id envelope) d4) (\<lambda>(ev, d5). Inr d5))))))))"

definition apply_event ::
  "'sk env \<Rightarrow> datetime \<Rightarrow> (ucs \<times> json) list \<Rightarrow> (ucs \<times> json) list \<Rightarrow> db \<Rightarrow> (disposition \<times> db) result" where
  "apply_event env now envelope resource d =
    rbind (json_item (JObj envelope) ''eventId'') (\<lambda>event_id_value.
    rbind (json_item (JObj resource) ''lineItems'') (\<lambda>item_list.
      case item_list of
        JArr (raw # raws) \<Rightarrow>
          rbind (event_text event_id_value) (\<lambda>event_id.
            if text_of event_id \<in> pe_event_id ` set (db_processed_events d) then Inr (D_duplicate, d)
            else rbind (store_event env now event_id envelope resource (raw # raws) d) (\<lambda>d'. Inr (D_applied, d')))
      | _ \<Rightarrow> Inl (ValueError ''lineItems must be a non-empty array'')))"

definition apply_declaration_envelope ::
  "'sk env \<Rightarrow> (string \<Rightarrow> pyfloat) \<Rightarrow> key_directory \<Rightarrow> datetime \<Rightarrow> json \<Rightarrow> db \<Rightarrow> (disposition \<times> db) result" where
  "apply_declaration_envelope env rf directory now envelope d =
    rbind (verify_envelope rf (en_verify env) envelope directory None True) (\<lambda>resource.
      if \<not> set (map ucs_of REQUIRED_RESOURCE_FIELDS) \<subseteq> fst ` set resource
      then Inl (ValueError ''declaration resource missing fields'')
      else apply_event env now (case envelope of JObj e \<Rightarrow> e | _ \<Rightarrow> []) resource d)"

subsection \<open>One message\<close>

text \<open>\<open>bytes.decode("utf-8")\<close> rejects encoded surrogates.\<close>

definition utf8_decode :: "bytes \<Rightarrow> ucs option" where
  "utf8_decode bs = (case utf8_pass (map unat bs) of None \<Rightarrow> None | Some s \<Rightarrow> if list_ex is_surrogate s then None else Some s)"

datatype handled = Handled disposition | Rejected exn

text \<open>
  The body of \<open>consume_forever\<close>: \<open>Inr\<close> when the offset is committed, \<open>Inl\<close> when the exception leaves the
  loop. A rejected message changes nothing.
\<close>

definition caught :: "exn \<Rightarrow> bool" where
  "caught e = (is_value_error e \<or> (case e of KeyError _ \<Rightarrow> True | _ \<Rightarrow> False))"

definition read_message :: "(string \<Rightarrow> pyfloat) \<Rightarrow> bytes \<Rightarrow> json result" where
  "read_message rf value =
    (case utf8_decode value of
       None \<Rightarrow> Inl (ValueError ''UnicodeDecodeError'')
     | Some text \<Rightarrow> (case json_loads rf text of None \<Rightarrow> Inl (ValueError ''JSONDecodeError'') | Some v \<Rightarrow> Inr v))"

definition handle_message ::
  "'sk env \<Rightarrow> (string \<Rightarrow> pyfloat) \<Rightarrow> key_directory \<Rightarrow> datetime \<Rightarrow> bytes \<Rightarrow> db \<Rightarrow> (handled \<times> db) result" where
  "handle_message env rf directory now value d =
    (case rbind (read_message rf value) (\<lambda>envelope. apply_declaration_envelope env rf directory now envelope d) of
       Inr (disposition, d') \<Rightarrow> Inr (Handled disposition, d')
     | Inl e \<Rightarrow> if caught e then Inr (Rejected e, d) else Inl e)"

text \<open>A partition read in order from its committed offset: how many messages are committed, and the database then.\<close>

fun consume :: "'sk env \<Rightarrow> (string \<Rightarrow> pyfloat) \<Rightarrow> key_directory \<Rightarrow> datetime \<Rightarrow> bytes list \<Rightarrow> db \<Rightarrow> nat \<times> db" where
  "consume env rf directory now [] d = (0, d)"
| "consume env rf directory now (m # ms) d =
    (case handle_message env rf directory now m d of
       Inl _ \<Rightarrow> (0, d)
     | Inr (_, d') \<Rightarrow> (let (n, d'') = consume env rf directory now ms d' in (Suc n, d'')))"

subsection \<open>What applying an event does\<close>

lemma insert_lines_ok: "insert_declaration_lines ls d = Inr d' \<Longrightarrow> d' = d\<lparr>db_declaration_lines := db_declaration_lines d @ ls\<rparr>"
proof (induction ls arbitrary: d)
  case (Cons l ls)
  then obtain d1 where i: "insert_declaration_line l d = Inr d1" "insert_declaration_lines ls d1 = Inr d'" by (auto simp: rbind_eq_Inr)
  show ?case using Cons.IH [OF i(2)] insert_declaration_line_ok [OF i(1)] by simp
qed simp

lemma event_lines_ok:
  "event_lines u raws d = Inr (ls, d') \<Longrightarrow> (\<exists>n. d' = d\<lparr>db_next_uuid := n\<rparr>) \<and> list_all (\<lambda>l. dl_declaration_id l = u) ls \<and> length ls = length raws"
proof (induction raws arbitrary: d ls)
  case Nil
  then show ?case by (auto intro: exI [of _ "db_next_uuid d"])
next
  case (Cons raw raws)
  obtain w d1 where w: "uuid4 d = (w, d1)" by fastforce
  obtain l ls' where l: "event_line w u raw = Inr l" "event_lines u raws d1 = Inr (ls', d')" "ls = l # ls'"
    using Cons.prems by (auto simp: w rbind_eq_Inr)
  have "dl_declaration_id l = u" using l(1) by (auto simp: event_line_def rbind_eq_Inr)
  with Cons.IH [OF l(2)] l(3) uuid4_fields [OF w] show ?case by auto
qed

lemma event_text_Inr: "event_text v = Inr s \<longleftrightarrow> v = JStr s"
  by (cases v) (auto simp: event_text_def)

lemma json_item_Inr: "json_item (JObj d) k = Inr v \<longleftrightarrow> jobj_get d k = Some v"
  by (auto simp: json_item_def split: option.splits)

lemma store_event_effect:
  assumes "store_event env now event_id envelope resource raws d = Inr d'"
  obtains dc ls pe ev n d4 payload where "pe_event_id pe = text_of event_id" "dc_source_event_id dc = text_of event_id" "dc_envelope dc = JObj envelope"
    "list_all (\<lambda>l. dl_declaration_id l = dc_id dc) ls" "length ls = length raws"
    "d' = d\<lparr>db_declarations := db_declarations d @ [dc], db_declaration_lines := db_declaration_lines d @ ls,
         db_processed_events := db_processed_events d @ [pe], db_audit_events := db_audit_events d @ [ev], db_next_uuid := n\<rparr>"
    "audit_record env now ''declaration.received'' payload d4 = Inr (ev, d')"
    "d4 = d\<lparr>db_declarations := db_declarations d @ [dc], db_declaration_lines := db_declaration_lines d @ ls,
         db_processed_events := db_processed_events d @ [pe], db_next_uuid := n\<rparr>"
proof -
  obtain u d0 where u: "uuid4 d = (u, d0)" by fastforce
  obtain dc where dc: "event_declaration u now event_id envelope resource = Inr dc"
    using assms by (auto simp: store_event_def u rbind_eq_Inr)
  obtain ls d1 where ls: "event_lines u raws d0 = Inr (ls, d1)" using assms by (auto simp: store_event_def u dc rbind_eq_Inr)
  obtain et d2 d3 d4 r where i: "insert_declaration dc d1 = Inr d2" "insert_declaration_lines ls d2 = Inr d3"
      "insert_processed_event \<lparr>pe_event_id = text_of event_id, pe_event_type = text_of et, pe_processed_at = now\<rparr> d3 = Inr d4"
      "audit_record env now ''declaration.received'' (received_payload dc event_id envelope) d4 = Inr r" "(case r of (ev, d5) \<Rightarrow> Inr d5) = (Inr d' :: db result)"
    using assms by (simp only: store_event_def u dc ls rbind_Inr Let_def prod.case) (elim rbindE; blast)
  then obtain ev where ev: "audit_record env now ''declaration.received'' (received_payload dc event_id envelope) d4 = Inr (ev, d')"
    by (cases r) simp
  obtain n where n: "d1 = d\<lparr>db_next_uuid := n\<rparr>" "list_all (\<lambda>l. dl_declaration_id l = u) ls" "length ls = length raws"
    using event_lines_ok [OF ls] uuid4_fields [OF u] by auto
  have "dc_id dc = u" "dc_source_event_id dc = text_of event_id" "dc_envelope dc = JObj envelope"
    using dc by (auto simp: event_declaration_def rbind_eq_Inr)
  then show ?thesis
    using insert_declaration_ok [OF i(1)] insert_lines_ok [OF i(2)] insert_processed_event_ok [OF i(3)] n audit_record_rows(1) [OF ev]
    by (intro that [OF _ _ _ _ _ _ ev, of "\<lparr>pe_event_id = text_of event_id, pe_event_type = text_of et, pe_processed_at = now\<rparr>" dc ls n]) simp_all
qed

lemma apply_event_cases:
  assumes "apply_event env now envelope resource d = Inr (disp, d')"
  obtains (duplicate) event_id where "jobj_get envelope ''eventId'' = Some (JStr event_id)"
      "text_of event_id \<in> pe_event_id ` set (db_processed_events d)" "disp = D_duplicate" "d' = d"
  | (applied) event_id raws where "jobj_get envelope ''eventId'' = Some (JStr event_id)"
      "text_of event_id \<notin> pe_event_id ` set (db_processed_events d)" "disp = D_applied"
      "jobj_get resource ''lineItems'' = Some (JArr raws)" "raws \<noteq> []" "store_event env now event_id envelope resource raws d = Inr d'"
proof -
  obtain idv v where v: "jobj_get envelope ''eventId'' = Some idv" "jobj_get resource ''lineItems'' = Some v"
    using assms by (auto simp: apply_event_def rbind_eq_Inr json_item_Inr)
  obtain raw raws where r: "v = JArr (raw # raws)"
    using assms v by (cases v) (auto simp: apply_event_def json_item_def split: list.splits)
  obtain i where i: "idv = JStr i"
    using assms v r by (auto simp: apply_event_def json_item_def rbind_eq_Inr event_text_Inr)
  have run: "(if text_of i \<in> pe_event_id ` set (db_processed_events d) then Inr (D_duplicate, d)
     else rbind (store_event env now i envelope resource (raw # raws) d) (\<lambda>d'. Inr (D_applied, d'))) = Inr (disp, d')"
    using assms v r i by (simp add: apply_event_def json_item_def event_text_def)
  show ?thesis
  proof (cases "text_of i \<in> pe_event_id ` set (db_processed_events d)")
    case True
    with run v i show ?thesis by (intro duplicate [of i]) simp_all
  next
    case False
    with run have "disp = D_applied" "store_event env now i envelope resource (raw # raws) d = Inr d'" by (auto simp: rbind_eq_Inr)
    with False v i r show ?thesis by (intro applied [of i "raw # raws"]) simp_all
  qed
qed


subsection \<open>Redelivery\<close>

definition stored_event :: "string \<Rightarrow> db \<Rightarrow> db \<Rightarrow> bool" where
  "stored_event event_id d d' =
    (\<exists>dc ls ev. db_declarations d' = db_declarations d @ [dc] \<and> dc_source_event_id dc = event_id \<and>
       db_declaration_lines d' = db_declaration_lines d @ ls \<and> ls \<noteq> [] \<and> list_all (\<lambda>l. dl_declaration_id l = dc_id dc) ls \<and>
       db_audit_events d' = db_audit_events d @ [ev] \<and> pe_event_id ` set (db_processed_events d') = insert event_id (pe_event_id ` set (db_processed_events d)))"

lemma apply_declaration_envelope_Inr:
  assumes "apply_declaration_envelope env rf directory now envelope d = Inr r"
  obtains e resource where "envelope = JObj e" "verify_envelope rf (en_verify env) envelope directory None True = Inr resource"
    "set (map ucs_of REQUIRED_RESOURCE_FIELDS) \<subseteq> fst ` set resource" "apply_event env now e resource d = Inr r"
proof -
  obtain resource where v: "verify_envelope rf (en_verify env) envelope directory None True = Inr resource"
    using assms by (auto simp: apply_declaration_envelope_def rbind_eq_Inr)
  then obtain e where e: "envelope = JObj e" by (auto simp: verify_envelope_def split: json.splits)
  show ?thesis using assms v by (intro that [OF e v]) (auto simp: apply_declaration_envelope_def e split: if_splits)
qed

text \<open>C26: Events are applied exactly once, although they are delivered at least once. Applying an event stores its declaration
  with its lines, one audit event and its event id; from then on, in every later state and whenever it is delivered
  again, the same envelope is a duplicate and changes nothing.\<close>

theorem redelivery_changes_nothing:
  assumes "apply_declaration_envelope env rf directory now envelope d = Inr (D_applied, d')"
    and "pe_event_id ` set (db_processed_events d') \<subseteq> pe_event_id ` set (db_processed_events later)"
  shows "(\<exists>event_id. event_id \<notin> pe_event_id ` set (db_processed_events d) \<and> stored_event event_id d d') \<and>
     apply_declaration_envelope env rf directory now' envelope later = Inr (D_duplicate, later)"
proof -
  obtain e resource where e: "envelope = JObj e" and v: "verify_envelope rf (en_verify env) envelope directory None True = Inr resource"
    and q: "set (map ucs_of REQUIRED_RESOURCE_FIELDS) \<subseteq> fst ` set resource" and a: "apply_event env now e resource d = Inr (D_applied, d')"
    by (rule apply_declaration_envelope_Inr [OF assms(1)])
  obtain i raws where i: "jobj_get e ''eventId'' = Some (JStr i)" "text_of i \<notin> pe_event_id ` set (db_processed_events d)"
    "jobj_get resource ''lineItems'' = Some (JArr raws)" "raws \<noteq> []" "store_event env now i e resource raws d = Inr d'"
    by (rule apply_event_cases [OF a]) auto
  obtain raw raws' where r: "raws = raw # raws'" using i(4) by (cases raws) auto
  have st: "stored_event (text_of i) d d'"
    by (rule store_event_effect [OF i(5)]) (use i(4) in \<open>auto simp: stored_event_def\<close>)
  then have "text_of i \<in> pe_event_id ` set (db_processed_events later)" using assms(2) by (auto simp: stored_event_def)
  then have "apply_event env now' e resource later = Inr (D_duplicate, later)"
    using i(1,3) r by (simp add: apply_event_def json_item_def event_text_def)
  then have "apply_declaration_envelope env rf directory now' envelope later = Inr (D_duplicate, later)"
    using v q by (simp add: apply_declaration_envelope_def e)
  with st i(2) show ?thesis by blast
qed

lemma first_violation_error: "first_violation cs = Inl e \<Longrightarrow> e \<in> snd ` set cs"
  by (induction cs rule: first_violation.induct) (auto simp: first_violation.simps split: if_splits)

lemma insert_declaration_error: "insert_declaration dc d = Inl x \<Longrightarrow> \<not> caught x"
proof -
  assume "insert_declaration dc d = Inl x"
  then have "x \<in> snd ` set [unique ''declarations_pkey'' dc_id dc (db_declarations d), varchar 64 (dc_declaration_ref dc),
      varchar 32 (dc_consignee_tin dc), varchar 256 (dc_consignee_name dc), varchar 128 (dc_source_event_id dc),
      unique ''declarations_declaration_ref_key'' dc_declaration_ref dc (db_declarations d),
      unique ''declarations_source_event_id_key'' dc_source_event_id dc (db_declarations d)]"
    by (intro first_violation_error) (simp add: insert_declaration_def rbind_eq_Inl)
  then show "\<not> caught x" by (auto simp: unique_def varchar_def caught_def)
qed

text \<open>C27: A verified event can stop the consumer. When its declaration reference is already stored - the API path stores
  declarations under the same unique reference - but its event id is new, applying it raises a database error that the
  loop does not catch: the offset of the message is never committed, and no later message of the partition is read.\<close>

theorem known_reference_stalls_partition:
  assumes "verify_envelope rf (en_verify env) (JObj e) directory None True = Inr resource"
    and "set (map ucs_of REQUIRED_RESOURCE_FIELDS) \<subseteq> fst ` set resource"
    and "jobj_get e ''eventId'' = Some (JStr i)" "text_of i \<notin> pe_event_id ` set (db_processed_events d)"
    and "jobj_get resource ''lineItems'' = Some (JArr raws)" "raws \<noteq> []" "succeeds (event_lines (fst (uuid4 d)) raws (snd (uuid4 d)))"
    and "jobj_get e ''eventType'' = Some (JStr et)" "jobj_get resource ''declarationRef'' = Some ref"
    and "str_value ref \<in> dc_declaration_ref ` set (db_declarations d)"
  shows "(\<exists>x. apply_declaration_envelope env rf directory now (JObj e) d = Inl x \<and> \<not> caught x) \<and>
     (read_message rf m = Inr (JObj e) \<longrightarrow> consume env rf directory now (m # ms) d = (0, d))"
proof -
  obtain u d0 where u: "uuid4 d = (u, d0)" by fastforce
  obtain ls d1 where ls: "event_lines u raws d0 = Inr (ls, d1)" using assms(7) by (auto simp: u succeeds_iff)
  have d1: "db_declarations d1 = db_declarations d" using event_lines_ok [OF ls] uuid4_fields [OF u] by auto
  obtain tin where tin: "jobj_get resource ''consigneeTin'' = Some tin"
  proof -
    have "ucs_of ''consigneeTin'' \<in> fst ` set resource" using assms(2) by (simp add: REQUIRED_RESOURCE_FIELDS_def)
    then show ?thesis using that by (cases "map_of resource (ucs_of ''consigneeTin'')") (auto simp: jobj_get_def map_of_eq_None_iff)
  qed
  obtain dc where dc: "event_declaration u now i e resource = Inr dc" "dc_declaration_ref dc = str_value ref"
    by (simp add: event_declaration_def json_item_def assms(9) tin)
  have fail: "\<exists>x. insert_declaration dc d1 = Inl x \<and> \<not> caught x"
  proof (cases "insert_declaration dc d1")
    case (Inr d2)
    with assms(10) show ?thesis
      by (auto simp: insert_declaration_def rbind_eq_Inr first_violation_ok unique_def d1 dc(2))
  next
    case (Inl x)
    then show ?thesis using insert_declaration_error [OF Inl] by blast
  qed
  then obtain x where x: "insert_declaration dc d1 = Inl x" "\<not> caught x" by blast
  obtain raw raws' where r: "raws = raw # raws'" using assms(6) by (cases raws) auto
  have "store_event env now i e resource raws d = Inl x"
    by (simp add: store_event_def u dc ls x json_item_def event_text_def assms(8))
  then have a: "apply_declaration_envelope env rf directory now (JObj e) d = Inl x"
    using assms(1-5) r by (simp add: apply_declaration_envelope_def apply_event_def json_item_def event_text_def)
  then have "consume env rf directory now (m # ms) d = (0, d)" if "read_message rf m = Inr (JObj e)"
    using that x(2) by (simp add: handle_message_def)
  with a x(2) show ?thesis by blast
qed


subsection \<open>Examples\<close>

definition toy_event_resource :: "(ucs \<times> json) list" where
  "toy_event_resource = [(ucs_of ''declarationRef'', jstr ''R-1''), (ucs_of ''consigneeTin'', jstr ''T-1''),
     (ucs_of ''lineItems'', JArr [JObj [(ucs_of ''hsCode'', jstr ''2402''), (ucs_of ''quantity'', JInt 5), (ucs_of ''unit'', jstr ''STICK'')]])]"

definition toy_keys :: key_directory where
  "toy_keys = [(ucs_of KID, [7])]"

lemma verify_envelope_any_type:
  "verify_envelope rf verify v directory (Some et) sig = Inr r \<Longrightarrow> verify_envelope rf verify v directory None sig = Inr r"
proof (cases v)
  case (JObj e)
  assume a: "verify_envelope rf verify v directory (Some et) sig = Inr r"
  then obtain x where x: "envelope_resource e (Some et) = Inr x" by (auto simp: verify_envelope_def JObj rbind_eq_Inr)
  have ver: "jobj_get e ''envelopeVersion'' = Some (jstr ENVELOPE_VERSION)" using x by (auto simp: envelope_resource_def split: if_splits)
  then obtain ty where ty: "jobj_get e ''eventType'' = Some ty" using x by (auto simp: envelope_resource_def split: option.splits)
  then obtain s where s: "ty = JStr s" using ver x by (cases ty) (auto simp: envelope_resource_def)
  then obtain u t where "s = u # t" using ver ty x by (cases s) (auto simp: envelope_resource_def)
  with ver ty s x have "envelope_resource e None = envelope_resource e (Some et)"
    by (simp add: envelope_resource_def Let_def split: if_split_asm)
  with a show ?thesis by (simp add: verify_envelope_def JObj)
qed (simp_all add: verify_envelope_def)

lemma toy_event:
  obtains e resource where "verify_envelope (\<lambda>_. FNan) toy_verify (JObj e) toy_keys None True = Inr resource"
    "jobj_get e ''eventId'' = Some (jstr ''e1'')" "jobj_get e ''eventType'' = Some (jstr ''stamps.voided.v1'')"
    "jobj_get e ''producer'' = Some (jstr ''p'')"
    "\<exists>t. resource = toy_event_resource @ [(ucs_of ''@type'', jstr t)]"
proof -
  let ?b = "build_envelope ''stamps.voided.v1'' toy_event_resource ''p'' ''C'' ''sub'' ''role'' None (Some ''e1'') (''1'', ''2'', ''3'') ''now''"
  have key: "sk_kid (en_signing_key toy_env) = ucs_of KID" "sk_private_key (en_signing_key toy_env) = [7]" by (simp_all add: toy_env_def)
  have "succeeds ?b" by (simp add: build_envelope_def EVENT_RESOURCES_def Let_def)
  then obtain env where env: "?b = Inr env" by (auto simp: succeeds_iff)
  have "succeeds (sign_envelope toy_sign env (en_signing_key toy_env))"
    by (rule sign_built_total [OF env]) (simp add: toy_event_resource_def ucs_of_def is_surrogate_def max_safe_integer_def)
  then obtain out where out: "sign_envelope toy_sign env (en_signing_key toy_env) = Inr out" by (auto simp: succeeds_iff)
  have "\<exists>name. map_of EVENT_RESOURCES ''stamps.voided.v1'' = Some name \<and> verify_envelope (\<lambda>_. FNan) toy_verify (JObj out) toy_keys (Some ''stamps.voided.v1'') True =
     Inr (toy_event_resource @ [(ucs_of ''@type'', jstr (''type.googleapis.com/blueeconomy.contracts.v1.'' @ name))])"
    by (rule signed_envelope_aux [OF env out, where public_of = id])
      (simp_all add: key toy_keys_def toy_event_resource_def kid_core_def kid_code_def KID_def PRODUCER_def KEY_EPOCH_def str_int_def str_nat.simps
        digit_char_def ucs_of_def toy_sign_def toy_verify_def)
  then obtain name where "verify_envelope (\<lambda>_. FNan) toy_verify (JObj out) toy_keys None True =
     Inr (toy_event_resource @ [(ucs_of ''@type'', jstr (''type.googleapis.com/blueeconomy.contracts.v1.'' @ name))])"
    using verify_envelope_any_type by blast
  moreover have "jobj_get out ''eventId'' = Some (jstr ''e1'') \<and> jobj_get out ''eventType'' = Some (jstr ''stamps.voided.v1'') \<and>
      jobj_get out ''producer'' = Some (jstr ''p'')"
    using env out by (auto simp: envelope_eval rbind_eq_Inr)
  ultimately show ?thesis using that by blast
qed

lemma toy_resource_fields:
  assumes "resource = toy_event_resource @ [(ucs_of ''@type'', jstr t)]"
  shows "set (map ucs_of REQUIRED_RESOURCE_FIELDS) \<subseteq> fst ` set resource" "jobj_get resource ''declarationRef'' = Some (jstr ''R-1'')"
    "jobj_get resource ''consigneeTin'' = Some (jstr ''T-1'')" "jobj_get resource ''consigneeName'' = None"
    "jobj_get resource ''lineItems'' = Some (JArr [JObj [(ucs_of ''hsCode'', jstr ''2402''), (ucs_of ''quantity'', JInt 5), (ucs_of ''unit'', jstr ''STICK'')]])"
  by (simp_all add: assms REQUIRED_RESOURCE_FIELDS_def toy_event_resource_def jobj_get_def)

lemma toy_event_line: "event_line u w (JObj [(ucs_of ''hsCode'', jstr ''2402''), (ucs_of ''quantity'', JInt 5), (ucs_of ''unit'', jstr ''STICK'')]) =
   Inr \<lparr>dl_id = u, dl_declaration_id = w, dl_hs_code = ''2402'', dl_description = [], dl_quantity = 5, dl_unit = ''STICK'',
        dl_customs_value_kobo = 0, dl_stamps_required = 5\<rparr>"
  by (simp add: event_line_def json_item_def get_or_def jobj_get_def py_int_def str_value_def str_json_def)

lemma toy_event_applied:
  assumes "verify_envelope (\<lambda>_. FNan) toy_verify (JObj e) toy_keys None True = Inr resource" "jobj_get e ''eventId'' = Some (jstr ''e1'')"
    "jobj_get e ''eventType'' = Some (jstr ''stamps.voided.v1'')" "jobj_get e ''producer'' = Some (jstr ''p'')"
    "resource = toy_event_resource @ [(ucs_of ''@type'', jstr t)]"
  obtains d' where "apply_declaration_envelope toy_env (\<lambda>_. FNan) toy_keys 0 (JObj e) (empty_db id) = Inr (D_applied, d')"
proof -
  note f = toy_resource_fields [OF assms(5)]
  have "succeeds (store_event toy_env 0 (ucs_of ''e1'') e resource [JObj [(ucs_of ''hsCode'', jstr ''2402''), (ucs_of ''quantity'', JInt 5), (ucs_of ''unit'', jstr ''STICK'')]] (empty_db id))"
  proof -
    obtain u d0 where u: "uuid4 (empty_db id) = (u, d0)" by fastforce
    obtain w d1 where w: "uuid4 d0 = (w, d1)" by fastforce
    have d1: "db_declarations d1 = []" "db_declaration_lines d1 = []" "db_processed_events d1 = []" "db_audit_events d1 = []"
      using uuid4_fields [OF u] uuid4_fields [OF w] by simp_all
    have ok: "jcs_ok (received_payload dc (ucs_of ''e1'') e)" if "list_all (\<lambda>c. \<not> is_surrogate c) (ucs_of (dc_declaration_ref dc))" for dc
      using that by (simp add: received_payload_def get_or_def assms(4))
    have sur: "list_all (\<lambda>c. \<not> is_surrogate c) (ucs_of s)" for s
      using ucs_of_bound by (fastforce simp: list_all_iff is_surrogate_def)
    have audit: "succeeds (rbind (audit_record toy_env 0 ''declaration.received'' (received_payload dc (ucs_of ''e1'') e) d) (\<lambda>(ev, d5). Inr d5))"
      if "db_audit_events d = []" for d dc
    proof -
      have "length ''declaration.received'' \<le> 64" by simp
      from toy_audit_record [OF ok [OF sur] that this, of 0 dc] show ?thesis by (auto simp: rbind_def succeeds_iff)
    qed
    show ?thesis
      by (simp add: store_event_def u w event_declaration_def json_item_def event_text_def assms(2,3) f toy_event_line get_or_def
          insert_declaration_def insert_declaration_line_def insert_processed_event_def constraint_simps d1 str_value_def str_json_def
          first_violation.simps audit)
  qed
  then obtain d' where "store_event toy_env 0 (ucs_of ''e1'') e resource [JObj [(ucs_of ''hsCode'', jstr ''2402''), (ucs_of ''quantity'', JInt 5), (ucs_of ''unit'', jstr ''STICK'')]] (empty_db id) = Inr d'"
    by (auto simp: succeeds_iff)
  then show ?thesis
    using assms(1-4) f by (intro that) (simp add: apply_declaration_envelope_def apply_event_def json_item_def event_text_def)
qed


theorem redelivery_changes_nothing_witness:
  "\<exists>e d'. apply_declaration_envelope toy_env (\<lambda>_. FNan) toy_keys 0 e (empty_db id) = Inr (D_applied, d') \<and>
     apply_declaration_envelope toy_env (\<lambda>_. FNan) toy_keys 5 e d' = Inr (D_duplicate, d')"
proof -
  obtain e resource where e: "verify_envelope (\<lambda>_. FNan) toy_verify (JObj e) toy_keys None True = Inr resource"
    "jobj_get e ''eventId'' = Some (jstr ''e1'')" "jobj_get e ''eventType'' = Some (jstr ''stamps.voided.v1'')"
    "jobj_get e ''producer'' = Some (jstr ''p'')" "\<exists>t. resource = toy_event_resource @ [(ucs_of ''@type'', jstr t)]"
    by (rule toy_event)
  obtain t where t: "resource = toy_event_resource @ [(ucs_of ''@type'', jstr t)]" using e(5) by blast
  obtain d' where d': "apply_declaration_envelope toy_env (\<lambda>_. FNan) toy_keys 0 (JObj e) (empty_db id) = Inr (D_applied, d')"
    by (rule toy_event_applied [OF e(1-4) t])
  from redelivery_changes_nothing [OF d' subset_refl, of 5] d' show ?thesis by blast
qed

definition toy_declared :: db where
  "toy_declared = (empty_db id)\<lparr>db_declarations := [toy_declaration\<lparr>dc_declaration_ref := ''R-1''\<rparr>]\<rparr>"

theorem known_reference_stalls_partition_witness:
  "\<exists>e x. succeeds (verify_envelope (\<lambda>_. FNan) toy_verify (JObj e) toy_keys None True) \<and>
     apply_declaration_envelope toy_env (\<lambda>_. FNan) toy_keys 0 (JObj e) toy_declared = Inl x \<and> \<not> caught x"
proof -
  obtain e resource where e: "verify_envelope (\<lambda>_. FNan) toy_verify (JObj e) toy_keys None True = Inr resource"
    "jobj_get e ''eventId'' = Some (jstr ''e1'')" "jobj_get e ''eventType'' = Some (jstr ''stamps.voided.v1'')"
    "jobj_get e ''producer'' = Some (jstr ''p'')" "\<exists>t. resource = toy_event_resource @ [(ucs_of ''@type'', jstr t)]"
    by (rule toy_event)
  obtain t where t: "resource = toy_event_resource @ [(ucs_of ''@type'', jstr t)]" using e(5) by blast
  note f = toy_resource_fields [OF t]
  have "(\<exists>x. apply_declaration_envelope toy_env (\<lambda>_. FNan) toy_keys 0 (JObj e) toy_declared = Inl x \<and> \<not> caught x) \<and>
     (read_message (\<lambda>_. FNan) [] = Inr (JObj e) \<longrightarrow> consume toy_env (\<lambda>_. FNan) toy_keys 0 [[]] toy_declared = (0, toy_declared))"
    by (rule known_reference_stalls_partition [OF _ f(1) e(2) _ f(5) _ _ e(3) f(2)])
      (simp_all add: e(1) uuid4_def toy_event_line str_value_def str_json_def toy_declared_def)
  with e(1) show ?thesis by (auto simp: succeeds_iff)
qed

end
