(* ===== verification/Steps.thy ===== *)
theory Steps
  imports VerifyRoutes Consumer
begin

section \<open>The invariant of the database and the operations that keep it\<close>

text \<open>
  \<open>system_ok\<close> joins the invariants of the components: the approvals justify the status of every assessment, payments and
  ledger agree, every journal balances, batches and stamps agree with inspections and assessments, the scans and the
  published flags agree with the stamps, and the audit chain verifies. Every operation of the services keeps it, so every
  request does, and so does every event and every publishing run.
\<close>

definition system_ok :: "'sk env \<Rightarrow> db \<Rightarrow> bool" where
  "system_ok env d =
    (decisions_ok d \<and> payments_ok d \<and> ledger_ok d \<and> ledger_matches d \<and> issuance_ok d \<and> field_ok env d \<and> chain_ok env d)"

text \<open>The tables the invariant reads, apart from the audit chain.\<close>

definition same_core :: "db \<Rightarrow> db \<Rightarrow> bool" where
  "same_core d d' =
    (db_assessments d' = db_assessments d \<and> db_approvals d' = db_approvals d \<and> db_payment_intents d' = db_payment_intents d \<and>
     db_payment_receipts d' = db_payment_receipts d \<and> db_journals d' = db_journals d \<and> db_ledger_entries d' = db_ledger_entries d \<and>
     db_stamp_batches d' = db_stamp_batches d \<and> db_stamps d' = db_stamps d \<and> db_inspections d' = db_inspections d \<and>
     db_verifications d' = db_verifications d \<and> db_status_list_snapshots d' = db_status_list_snapshots d)"

lemma decisions_ok_same: "db_assessments d' = db_assessments d \<Longrightarrow> db_approvals d' = db_approvals d \<Longrightarrow> decisions_ok d' \<longleftrightarrow> decisions_ok d"
  by (simp add: decisions_ok_def approvals_of_def)

text \<open>Each part of the invariant under a change of other tables.\<close>

lemmas parts_same = decisions_ok_same payments_ok_same ledger_ok_same ledger_matches_same issuance_ok_same field_ok_same chain_ok_same_rows

lemma system_ok_core:
  assumes "same_core d d'" "chain_ok env d \<Longrightarrow> chain_ok env d'" "system_ok env d"
  shows "system_ok env d'"
proof -
  have e: "db_assessments d' = db_assessments d" "db_approvals d' = db_approvals d" "db_payment_intents d' = db_payment_intents d"
    "db_payment_receipts d' = db_payment_receipts d" "db_journals d' = db_journals d" "db_ledger_entries d' = db_ledger_entries d"
    "db_stamp_batches d' = db_stamp_batches d" "db_stamps d' = db_stamps d" "db_inspections d' = db_inspections d"
    "db_verifications d' = db_verifications d" "db_status_list_snapshots d' = db_status_list_snapshots d"
    using assms(1) by (simp_all add: same_core_def)
  show ?thesis
    using assms(2,3) decisions_ok_same [OF e(1,2)] payments_ok_same [OF e(3,1,4)] ledger_ok_same [OF e(5,6)] ledger_matches_same [OF e(4,6)]
      issuance_ok_same [OF e(7,8,9,1)] field_ok_same [OF e(8,10,11), of env]
    by (simp add: system_ok_def)
qed

text \<open>A change of the database that keeps the invariant; such changes compose.\<close>

definition keeps :: "'sk env \<Rightarrow> db \<Rightarrow> db \<Rightarrow> bool" where
  "keeps env d d' = (system_ok env d \<longrightarrow> system_ok env d')"

lemma keeps_refl [simp]: "keeps env d d"
  by (simp add: keeps_def)

lemma keeps_trans: "keeps env d d1 \<Longrightarrow> keeps env d1 d2 \<Longrightarrow> keeps env d d2"
  by (simp add: keeps_def)

text \<open>What leaves the business tables alone and the chain verifiable.\<close>

definition quiet :: "'sk env \<Rightarrow> db \<Rightarrow> db \<Rightarrow> bool" where
  "quiet env d d' = (same_core d d' \<and> (chain_ok env d \<longrightarrow> chain_ok env d'))"

lemma quiet_refl [simp]: "quiet env d d"
  by (simp add: quiet_def same_core_def)

lemma quiet_trans: "quiet env d d1 \<Longrightarrow> quiet env d1 d2 \<Longrightarrow> quiet env d d2"
  by (simp add: quiet_def same_core_def)

lemma quiet_same: "same_core d d' \<Longrightarrow> db_audit_events d' = db_audit_events d \<Longrightarrow> quiet env d d'"
  using chain_ok_same_rows [of d' d env] by (simp add: quiet_def)

lemma keeps_quiet: "quiet env d d' \<Longrightarrow> keeps env d d'"
  using system_ok_core unfolding keeps_def quiet_def by blast

subsection \<open>Records kept beside the business tables\<close>

lemma quiet_audit:
  assumes "audit_record env now event_type payload d = Inr (ev, d')" shows "quiet env d d'"
proof -
  have "d' = d\<lparr>db_audit_events := db_audit_events d @ [ev]\<rparr>" using audit_record_rows(1) [OF assms] .
  then have "same_core d d'" by (simp add: same_core_def)
  then show ?thesis using audit_record_chain_ok [OF _ assms] unfolding quiet_def by blast
qed

lemma quiet_enqueue:
  assumes "enqueue env now event_type resource pid role corr d = Inr (msg, d')" shows "quiet env d d'"
  by (rule enqueue_effect [OF assms]) (rule quiet_same, simp_all add: same_core_def)

lemma quiet_store_idempotency:
  assumes "store_idempotency env now key sub body status resp d = Inr d'" shows "quiet env d d'"
proof (cases "key = None \<or> key = Some []")
  case True
  with assms show ?thesis by (auto simp: store_idempotency_def)
next
  case False
  then obtain k where k: "key = Some k" "k \<noteq> []" by auto
  then obtain row where "insert_idempotency_record row d = Inr d'" using assms by (auto simp: store_idempotency_def)
  then show ?thesis by (intro quiet_same) (auto simp: same_core_def dest!: insert_idempotency_record_ok)
qed

lemma quiet_commit: "commit d = Inr d' \<Longrightarrow> quiet env d d'"
  by (simp add: commit_def split: if_splits)

lemma quiet_audit_commit:
  assumes "audit_commit env now event_type payload resp d = Inr (r, d')" shows "quiet env d d'"
proof -
  obtain ev d1 where "audit_record env now event_type payload d = Inr (ev, d1)" "commit d1 = Inr d'"
    using assms by (auto simp: audit_commit_def rbind_eq_Inr)
  then show ?thesis using quiet_audit quiet_commit quiet_trans by blast
qed

lemma quiet_declared_lines: "declared_lines u ls d = Inr d' \<Longrightarrow> quiet env d d'"
proof (induction ls arbitrary: d)
  case (Cons l ls)
  obtain w d1 where w: "uuid4 d = (w, d1)" by fastforce
  obtain d2 row where d2: "insert_declaration_line row d1 = Inr d2" "declared_lines u ls d2 = Inr d'"
    using Cons.prems by (auto simp: w rbind_eq_Inr)
  have "quiet env d d2"
    using uuid4_fields [OF w] insert_declaration_line_ok [OF d2(1)] by (intro quiet_same) (simp_all add: same_core_def)
  with Cons.IH [OF d2(2)] show ?case by (rule quiet_trans [rotated])
qed simp

lemma quiet_declare:
  assumes "declare_goods env now subject body d = Inr d'" shows "quiet env d d'"
proof -
  obtain u d0 where u: "uuid4 d = (u, d0)" by fastforce
  obtain dc d1 d2 where d: "insert_declaration dc d0 = Inr d1" "declared_lines u (di_lines body) d1 = Inr d2"
    and ev: "\<exists>p ev. audit_record env now ''declaration.received'' p d2 = Inr (ev, d')"
    using assms by (fastforce simp: declare_goods_def u rbind_eq_Inr Let_def)
  have "quiet env d d1"
    using uuid4_fields [OF u] insert_declaration_ok [OF d(1)] by (intro quiet_same) (simp_all add: same_core_def)
  from quiet_trans [OF this quiet_declared_lines [OF d(2)]] have "quiet env d d2" .
  moreover obtain p ev where "audit_record env now ''declaration.received'' p d2 = Inr (ev, d')" using ev by blast
  ultimately show ?thesis using quiet_trans quiet_audit by blast
qed

lemma quiet_store_event:
  assumes "store_event env now event_id envelope resource raws d = Inr d'" shows "quiet env d d'"
proof (rule store_event_effect [OF assms])
  fix dc ls pe ev n d4 payload
  assume ev: "audit_record env now ''declaration.received'' payload d4 = Inr (ev, d')"
    and d4: "d4 = d\<lparr>db_declarations := db_declarations d @ [dc], db_declaration_lines := db_declaration_lines d @ ls,
         db_processed_events := db_processed_events d @ [pe], db_next_uuid := n\<rparr>"
  have "quiet env d d4" by (rule quiet_same) (simp_all add: d4 same_core_def)
  then show ?thesis using quiet_audit [OF ev] by (rule quiet_trans)
qed

lemma quiet_publish:
  assumes "publish_once send now d = (sent, Inr (n, d'))" shows "quiet env d d'"
  using assms by (intro quiet_same) (auto simp: publish_once_def Let_def same_core_def split: if_splits)

lemmas keeps_audit = quiet_audit [THEN keeps_quiet]
lemmas keeps_enqueue = quiet_enqueue [THEN keeps_quiet]
lemmas keeps_store_idempotency = quiet_store_idempotency [THEN keeps_quiet]
lemmas keeps_commit = quiet_commit [THEN keeps_quiet]
lemmas keeps_audit_commit = quiet_audit_commit [THEN keeps_quiet]
lemmas keeps_declare = quiet_declare [THEN keeps_quiet]
lemmas keeps_store_event = quiet_store_event [THEN keeps_quiet]
lemmas keeps_publish = quiet_publish [THEN keeps_quiet]


subsection \<open>Assessments and payments\<close>

text \<open>The status of an assessment whose decision is over may change between the statuses that follow it.\<close>

definition settled_status :: "assessment_status set" where
  "settled_status = - {AS_PENDING_APPROVAL, AS_REJECTED}"

lemma decisions_ok_status:
  assumes "decisions_ok d" "a \<in> set (db_assessments d)" "as_status a \<in> settled_status" "st \<in> settled_status"
    and "db_assessments d' = update_where (\<lambda>x. as_id x = as_id a) (\<lambda>x. x\<lparr>as_status := st\<rparr>) (db_assessments d)" "db_approvals d' = db_approvals d"
  shows "decisions_ok d'"
proof (rule decisions_ok_update [OF assms(1,2), of "a\<lparr>as_status := st\<rparr>" d' "[]"])
  have "x = a" if "x \<in> set (db_assessments d)" "as_id x = as_id a" for x
    using unique_row [of as_id "db_assessments d" x a] that assms(1,2) by (simp add: decisions_ok_def)
  then show "db_assessments d' = update_where (\<lambda>x. as_id x = as_id a) (\<lambda>_. a\<lparr>as_status := st\<rparr>) (db_assessments d)"
    by (auto simp: assms(5) update_where_def)
  have "decided_ok a (approvals_of d (as_id a))" using assms(1,2) by (simp add: decisions_ok_def list_all_iff)
  then show "decided_ok (a\<lparr>as_status := st\<rparr>) (approvals_of d (as_id a) @ [])"
    using assms(3,4) by (simp add: decided_ok_def settled_status_def)
qed (simp_all add: assms(6))

lemma system_okD:
  assumes "system_ok env d"
  shows "decisions_ok d" "payments_ok d" "ledger_ok d" "ledger_matches d" "issuance_ok d" "field_ok env d" "chain_ok env d"
    "distinct (map as_id (db_assessments d))" "stamps_distinct (db_stamps d)" "distinct (map st_id (db_stamps d))"
  using assms by (simp_all add: system_ok_def decisions_ok_def issuance_ok_def stamps_distinct_def)

lemma keeps_create_assessment:
  assumes "create_assessment now dc sub key on_date d = Inr (a, d')" shows "keeps env d d'"
proof (cases "key \<in> as_idempotency_key ` set (db_assessments d)")
  case True
  then have "find (\<lambda>a. as_idempotency_key a = key) (db_assessments d) \<noteq> None" by (auto simp: find_None_set)
  with assms have "d' = d" by (auto simp: create_assessment_def)
  then show ?thesis by simp
next
  case False
  obtain rs k where d': "d' = d\<lparr>db_assessments := db_assessments d @ [a], db_assessment_lines := db_assessment_lines d @ rs, db_next_uuid := k\<rparr>"
    and a: "as_status a = AS_PENDING_APPROVAL" "as_id a \<notin> as_id ` set (db_assessments d)"
    using create_assessment_effect [OF assms False] by auto
  have "system_ok env d'" if ok: "system_ok env d"
  proof -
    note o = system_okD [OF ok]
    have "decisions_ok d'" by (rule create_assessment_decisions_ok [OF o(1) assms])
    moreover have "payments_ok d'" by (rule payments_ok_new_assessment [OF o(2) _ _ _ a(2,1)]) (simp_all add: d')
    moreover have "issuance_ok d'"
      by (rule issuance_ok_assessments [OF o(5)]) (use o(8) a(2) in \<open>simp_all add: d'\<close>)
    moreover have "ledger_ok d'" "ledger_matches d'" "field_ok env d'" "chain_ok env d'"
      using o(3,4,6,7) ledger_ok_same [of d' d] ledger_matches_same [of d' d] field_ok_same [of d' d env] chain_ok_same_rows [of d' d env]
      by (simp_all add: d')
    ultimately show ?thesis by (simp add: system_ok_def)
  qed
  then show ?thesis by (simp add: keeps_def)
qed

lemma no_intent:
  assumes "payments_ok d" "a \<in> set (db_assessments d)" "as_status a \<in> {AS_PENDING_APPROVAL, AS_REJECTED, AS_APPROVED}"
  shows "find (\<lambda>p. pi_assessment_id p = as_id a) (db_payment_intents d) = None"
proof -
  have "paid_ok (db_payment_intents d) a" using assms(1,2) by (simp add: payments_ok_def list_all_iff)
  with assms(3) show ?thesis by (auto simp: paid_ok_def split: option.splits if_splits)
qed

lemma keeps_record_decision:
  assumes "record_decision now i who decision reason d = Inr (a', d')" shows "keeps env d d'"
proof -
  obtain a dec p n where e: "find_assessment d i = Some a" "as_status a = AS_PENDING_APPROVAL" "a' = decide now dec n a"
    "d' = d\<lparr>db_approvals := db_approvals d @ [p], db_assessments := update_where (\<lambda>x. as_id x = i) (\<lambda>_. a') (db_assessments d),
       db_next_uuid := Suc (db_next_uuid d)\<rparr>"
    using record_decision_effect [OF assms] by blast
  have a: "a \<in> set (db_assessments d)" "as_id a = i" using find_assessment_Some [OF e(1)] by auto
  have a': "as_id a' = i" "as_status a' \<in> {AS_PENDING_APPROVAL, AS_REJECTED, AS_APPROVED}"
    using e(2) a(2) by (auto simp: e(3) decide_def)
  have "system_ok env d'" if ok: "system_ok env d"
  proof -
    note o = system_okD [OF ok]
    have same: "x = a" if "x \<in> set (db_assessments d)" "as_id x = i" for x
      using unique_row [of as_id "db_assessments d" x a] that o(8) a by simp
    have "decisions_ok d'" by (rule record_decision_decisions_ok [OF o(1) assms])
    moreover have "payments_ok d'"
    proof (rule payments_ok_status [OF o(2), of d' i "\<lambda>x. if as_id x = i then a' else x"])
      show "db_assessments d' = update_where (\<lambda>x. as_id x = i) (\<lambda>x. if as_id x = i then a' else x) (db_assessments d)"
        by (simp add: e(4) update_where_def)
      fix x assume x: "x \<in> set (db_assessments d)" "as_id x = i"
      have "find (\<lambda>p. pi_assessment_id p = i) (db_payment_intents d) = None"
        using no_intent [OF o(2) a(1)] e(2) a(2) by simp
      then show "paid_ok (db_payment_intents d) (if as_id x = i then a' else x)" using x(2) a' by (simp add: paid_ok_def)
    qed (use a' in \<open>simp_all add: e(4)\<close>)
    moreover have "issuance_ok d'"
    proof (rule issuance_ok_assessments [OF o(5)])
      have "map as_id (db_assessments d') = map as_id (db_assessments d)"
        unfolding e(4) by (simp, rule map_update_where) (use a' in simp)
      then show "distinct (map as_id (db_assessments d'))" using o(8) by simp
      fix x assume x: "x \<in> set (db_assessments d)" "as_status x = AS_ISSUING"
      then have "as_id x \<noteq> i" using same e(2) by auto
      with x show "x \<in> set (db_assessments d')" by (auto simp: e(4) set_update_where)
    qed (simp_all add: e(4))
    moreover have "ledger_ok d'" "ledger_matches d'" "field_ok env d'" "chain_ok env d'"
      using o(3,4,6,7) ledger_ok_same [of d' d] ledger_matches_same [of d' d] field_ok_same [of d' d env] chain_ok_same_rows [of d' d env]
      by (simp_all add: e(4))
    ultimately show ?thesis by (simp add: system_ok_def)
  qed
  then show ?thesis by (simp add: keeps_def)
qed

text \<open>A status change that leaves assessments in issuance alone.\<close>

lemma issuance_ok_status:
  assumes "issuance_ok d" "a \<in> set (db_assessments d)" "as_status a \<noteq> AS_ISSUING"
    and "db_assessments d' = update_where (\<lambda>x. as_id x = as_id a) (\<lambda>x. x\<lparr>as_status := st\<rparr>) (db_assessments d)"
    and "db_stamp_batches d' = db_stamp_batches d" "db_stamps d' = db_stamps d" "db_inspections d' = db_inspections d"
  shows "issuance_ok d'"
proof (rule issuance_ok_assessments [OF assms(1,5,6,7)])
  have d: "distinct (map as_id (db_assessments d))" using assms(1) by (simp add: issuance_ok_def)
  have "map as_id (db_assessments d') = map as_id (db_assessments d)" unfolding assms(4) by (rule map_update_where) simp
  then show "distinct (map as_id (db_assessments d'))" using d by simp
  fix x assume x: "x \<in> set (db_assessments d)" "as_status x = AS_ISSUING"
  have "as_id x \<noteq> as_id a" using unique_row [OF d x(1) assms(2)] x(2) assms(3) by auto
  with x show "x \<in> set (db_assessments d')" by (auto simp: assms(4) set_update_where)
qed

lemma keeps_create_intent:
  assumes "create_intent s now a d = Inr (p, d')" "a \<in> set (db_assessments d)" shows "keeps env d d'"
proof -
  have "system_ok env d'" if ok: "system_ok env d"
  proof -
    note o = system_okD [OF ok]
    have st: "as_status a = AS_APPROVED" using assms(1) by (auto simp: create_intent_def split: if_splits)
    have none: "as_id a \<notin> pi_assessment_id ` set (db_payment_intents d)"
      using no_intent [OF o(2) assms(2)] st by (auto simp: find_None_set)
    have d': "d' = d\<lparr>db_payment_intents := db_payment_intents d @ [p],
      db_assessments := update_where (\<lambda>x. as_id x = as_id a) (\<lambda>x. x\<lparr>as_status := AS_PAYMENT_PENDING\<rparr>) (db_assessments d),
      db_next_uuid := Suc (db_next_uuid d)\<rparr>"
      using create_intent_effect [OF assms(1) none] by blast
    have "decisions_ok d'"
      by (rule decisions_ok_status [OF o(1) assms(2), of AS_PAYMENT_PENDING]) (simp_all add: d' st settled_status_def)
    moreover have "payments_ok d'" by (rule create_intent_payments_ok [OF o(2) assms(2,1)])
    moreover have "issuance_ok d'"
      by (rule issuance_ok_status [OF o(5) assms(2), of d' AS_PAYMENT_PENDING]) (simp_all add: d' st)
    moreover have "ledger_ok d'" "ledger_matches d'" "field_ok env d'" "chain_ok env d'"
      using o(3,4,6,7) ledger_ok_same [of d' d] ledger_matches_same [of d' d] field_ok_same [of d' d env] chain_ok_same_rows [of d' d env]
      by (simp_all add: d')
    ultimately show ?thesis by (simp add: system_ok_def)
  qed
  then show ?thesis by (simp add: keeps_def)
qed

lemma unsettled_pending:
  assumes "payments_ok d" "p \<in> set (db_payment_intents d)" "pi_status p \<noteq> PI_SETTLED" "a \<in> set (db_assessments d)" "as_id a = pi_assessment_id p"
  shows "as_status a = AS_PAYMENT_PENDING"
proof -
  have "find (\<lambda>q. pi_assessment_id q = pi_assessment_id p) (db_payment_intents d) = Some p"
    by (rule find_unique) (use assms(1,2) in \<open>auto simp: payments_ok_def\<close>)
  moreover have "paid_ok (db_payment_intents d) a" using assms(1,4) by (simp add: payments_ok_def list_all_iff)
  ultimately show ?thesis using assms(3,5) by (simp add: paid_ok_def)
qed

lemma record_receipt_ledger_ok:
  assumes "record_receipt now i ref amount currency d = Inr (r, d')" "ledger_ok d"
  shows "ledger_ok d'"
proof -
  consider "db_journals d' = db_journals d" "db_ledger_entries d' = db_ledger_entries d"
    | j es where "db_journals d' = db_journals d @ [j]" "db_ledger_entries d' = db_ledger_entries d @ es"
        "list_all (\<lambda>e. le_journal_id e = jn_id j) es" "jn_id j \<notin> jn_id ` set (db_journals d)" "map entry_leg es = settlement_legs amount"
    using record_receipt_cases [OF assms(1)] by (fastforce simp: receipt_replayed_def receipt_quarantined_def receipt_applied_def)
  then show ?thesis
  proof cases
    case 1
    with assms(2) ledger_ok_same show ?thesis by blast
  next
    case 2
    show ?thesis
      by (rule ledger_ok_new_journal(1) [OF assms(2) 2(1-4)]) (simp add: 2(5) settlement_legs_def leg_debits_def leg_credits_def)
  qed
qed

lemma keeps_record_receipt:
  assumes "record_receipt now i ref amount currency d = Inr (r, d')" shows "keeps env d d'"
proof -
  have "system_ok env d'" if ok: "system_ok env d"
  proof -
    note o = system_okD [OF ok]
    have pay: "payments_ok d'" "ledger_matches d'" using record_receipt_ok [OF assms o(2,4)] by auto
    consider "d' = d" | k where "d' = d\<lparr>db_payment_receipts := db_payment_receipts d @ [r], db_next_uuid := k\<rparr>"
      | "receipt_applied now i ref amount currency r d d'"
      using record_receipt_cases [OF assms] by (auto simp: receipt_replayed_def receipt_quarantined_def)
    then show ?thesis
    proof cases
      case 1
      with ok show ?thesis by simp
    next
      case 2
      have "decisions_ok d'" "ledger_ok d'" "issuance_ok d'" "field_ok env d'" "chain_ok env d'"
        using o decisions_ok_same [of d' d] ledger_ok_same [of d' d] issuance_ok_same [of d' d] field_ok_same [of d' d env] chain_ok_same_rows [of d' d env]
        by (simp_all add: 2)
      with pay show ?thesis by (simp add: system_ok_def)
    next
      case 3
      obtain p a where pa: "find_intent d i = Some p" "pi_status p \<noteq> PI_SETTLED" "find_assessment d (pi_assessment_id p) = Some a"
        and same: "db_assessments d' = update_where (\<lambda>x. as_id x = as_id a) (\<lambda>x. x\<lparr>as_status := AS_PAID\<rparr>) (db_assessments d)"
          "db_approvals d' = db_approvals d" "db_stamp_batches d' = db_stamp_batches d" "db_stamps d' = db_stamps d"
          "db_inspections d' = db_inspections d" "db_verifications d' = db_verifications d"
          "db_status_list_snapshots d' = db_status_list_snapshots d" "db_audit_events d' = db_audit_events d"
        using 3 unfolding receipt_applied_def by fastforce
      have a: "a \<in> set (db_assessments d)" "as_id a = pi_assessment_id p" using find_assessment_Some [OF pa(3)] by auto
      have st: "as_status a = AS_PAYMENT_PENDING"
        using unsettled_pending [OF o(2) _ pa(2) a] find_intent_Some [OF pa(1)] by simp
      have "decisions_ok d'"
        by (rule decisions_ok_status [OF o(1) a(1) _ _ same(1,2)]) (simp_all add: st settled_status_def)
      moreover have "issuance_ok d'" by (rule issuance_ok_status [OF o(5) a(1) _ same(1,3-5)]) (simp add: st)
      moreover have "ledger_ok d'" by (rule record_receipt_ledger_ok [OF assms o(3)])
      moreover have "field_ok env d'" "chain_ok env d'"
        using o(6,7) field_ok_same [OF same(4,6,7), of env] chain_ok_same_rows [OF same(8), of env] by simp_all
      ultimately show ?thesis using pay by (simp add: system_ok_def)
    qed
  qed
  then show ?thesis by (simp add: keeps_def)
qed

subsection \<open>Stamps\<close>

text \<open>Operations that touch neither assessments, payments nor the audit chain.\<close>

lemma keeps_stamps:
  assumes "db_assessments d' = db_assessments d" "db_approvals d' = db_approvals d" "db_payment_intents d' = db_payment_intents d"
    "db_payment_receipts d' = db_payment_receipts d" "db_journals d' = db_journals d" "db_ledger_entries d' = db_ledger_entries d"
    "db_audit_events d' = db_audit_events d"
    and "system_ok env d \<Longrightarrow> issuance_ok d'" "system_ok env d \<Longrightarrow> field_ok env d'"
  shows "keeps env d d'"
  using assms(8,9) decisions_ok_same [OF assms(1,2)] payments_ok_same [OF assms(3,1,4)] ledger_ok_same [OF assms(5,6)]
    ledger_matches_same [OF assms(4,6)] chain_ok_same_rows [OF assms(7), of env]
  by (simp add: keeps_def system_ok_def)

lemma keeps_create_batch:
  assumes "create_batch now a d = Inr (b, d')" "a \<in> set (db_assessments d)" shows "keeps env d d'"
proof -
  have "system_ok env d'" if ok: "system_ok env d"
  proof -
    note o = system_okD [OF ok]
    have st: "as_status a = AS_PAID" and d': "d' = d\<lparr>db_stamp_batches := db_stamp_batches d @ [b],
      db_assessments := update_where (\<lambda>x. as_id x = as_id a) (\<lambda>x. x\<lparr>as_status := AS_ISSUING\<rparr>) (db_assessments d),
      db_next_uuid := Suc (db_next_uuid d)\<rparr>"
      using create_batch_effect [OF assms(1) o(5) assms(2)] by blast+
    have same: "x = a" if "x \<in> set (db_assessments d)" "as_id x = as_id a" for x
      using unique_row [of as_id "db_assessments d" x a] that o(8) assms(2) by simp
    have "decisions_ok d'"
      by (rule decisions_ok_status [OF o(1) assms(2), of AS_ISSUING]) (simp_all add: d' st settled_status_def)
    moreover have "payments_ok d'"
    proof (rule payments_ok_status [OF o(2), of d' "as_id a" "\<lambda>x. x\<lparr>as_status := AS_ISSUING\<rparr>"])
      fix x assume x: "x \<in> set (db_assessments d)" "as_id x = as_id a" "paid_ok (db_payment_intents d) x"
      then have "x = a" by (intro same)
      with x(3) st show "paid_ok (db_payment_intents d) (x\<lparr>as_status := AS_ISSUING\<rparr>)"
        by (simp add: paid_ok_def split: option.splits if_splits)
    qed (simp_all add: d')
    moreover have "issuance_ok d'" by (rule create_batch_issuance_ok [OF assms(1) o(5) assms(2)])
    moreover have "ledger_ok d'" "ledger_matches d'" "field_ok env d'" "chain_ok env d'"
      using o(3,4,6,7) ledger_ok_same [of d' d] ledger_matches_same [of d' d] field_ok_same [of d' d env] chain_ok_same_rows [of d' d env]
      by (simp_all add: d')
    ultimately show ?thesis by (simp add: system_ok_def)
  qed
  then show ?thesis by (simp add: keeps_def)
qed

lemma keeps_issue_chunk:
  assumes "issue_chunk env now i chunk d = Inr (n, d')" "0 \<le> chunk_size_of (en_settings env) chunk" shows "keeps env d d'"
proof -
  have "system_ok env d'" if ok: "system_ok env d"
  proof -
    note o = system_okD [OF ok]
    have "keeps env d d'"
      using assms(1) o(9)
    proof (cases rule: issue_chunk_effect)
      case (complete b)
      show ?thesis
        by (rule keeps_stamps) (use issue_chunk_issuance_ok [OF assms(1) o(5) assms(2)] issue_chunk_field_ok [OF assms(1) o(6,9)] in \<open>simp_all add: complete(5)\<close>)
    next
      case (issued b a c ss rows k)
      show ?thesis
        by (rule keeps_stamps) (use issue_chunk_issuance_ok [OF assms(1) o(5) assms(2)] issue_chunk_field_ok [OF assms(1) o(6,9)] in \<open>simp_all add: issued(14)\<close>)
    qed simp
    with ok show ?thesis by (simp add: keeps_def)
  qed
  then show ?thesis by (simp add: keeps_def)
qed

lemma keeps_finalize:
  assumes "finalize_batch env now i who d = Inr (b, d')" shows "keeps env d d'"
proof -
  obtain msg k where d': "d' = d\<lparr>db_stamp_batches := update_where (\<lambda>x. ba_id x = i) (\<lambda>_. b) (db_stamp_batches d),
      db_outbox_messages := db_outbox_messages d @ [msg], db_next_uuid := k\<rparr>"
    using finalize_batch_effect [OF assms] by blast
  show ?thesis
  proof (rule keeps_stamps)
    assume ok: "system_ok env d"
    show "issuance_ok d'" by (rule finalize_batch_issuance_ok [OF assms system_okD(5) [OF ok]])
    show "field_ok env d'" using system_okD(6) [OF ok] field_ok_same [of d' d env] by (simp add: d')
  qed (simp_all add: d')
qed

lemma keeps_inspection:
  assumes "record_inspection now i defectives who d = Inr (row, d')" shows "keeps env d d'"
proof -
  obtain k where d': "d' = d\<lparr>db_inspections := db_inspections d @ [row], db_next_uuid := k,
      db_stamp_batches := (if in_result row = PASS then db_stamp_batches d
        else update_where (\<lambda>b. ba_id b = i) (\<lambda>b. b\<lparr>ba_status := BS_INSPECTION_FAILED\<rparr>) (db_stamp_batches d))\<rparr>"
    using record_inspection_effect [OF assms] by blast
  show ?thesis
  proof (rule keeps_stamps)
    assume ok: "system_ok env d"
    show "issuance_ok d'" by (rule record_inspection_issuance_ok [OF assms system_okD(5) [OF ok]])
    show "field_ok env d'" using system_okD(6) [OF ok] field_ok_same [of d' d env] by (simp add: d')
  qed (simp_all add: d')
qed

lemma keeps_activate:
  assumes "activate_batch env now i who d = Inr (n, d')" shows "keeps env d d'"
proof -
  obtain msg k where d': "d' = d\<lparr>db_stamps := update_where (\<lambda>s. st_batch_id s = i \<and> st_status s = SS_ISSUED)
        (\<lambda>s. s\<lparr>st_status := SS_ACTIVE, st_activated_at := Some now\<rparr>) (db_stamps d),
      db_stamp_batches := update_where (\<lambda>x. ba_id x = i) (\<lambda>b. b\<lparr>ba_status := BS_ACTIVE\<rparr>) (db_stamp_batches d),
      db_outbox_messages := db_outbox_messages d @ [msg], db_next_uuid := k\<rparr>"
    using activate_batch_effect [OF assms] by blast
  show ?thesis
  proof (rule keeps_stamps)
    assume ok: "system_ok env d"
    show "issuance_ok d'" by (rule activate_batch_issuance_ok [OF assms system_okD(5) [OF ok]])
    show "field_ok env d'" by (rule activate_batch_field_ok [OF assms system_okD(6) [OF ok]])
  qed (simp_all add: d')
qed

lemma keeps_void:
  assumes "void_stamp env now serial reason who d = Inr (s', d')" "gzip_ok env" shows "keeps env d d'"
  using assms(1)
proof (cases rule: void_stamp_cases)
  case (voided s d1 d2 m k)
  obtain rows where d2: "d2 = d1\<lparr>db_status_list_snapshots := rows\<rparr>" by (rule set_flag_fields [OF voided(6)])
  show ?thesis
  proof (rule keeps_stamps)
    assume ok: "system_ok env d"
    note o = system_okD [OF ok]
    show "issuance_ok d'" by (rule void_stamp_issuance_ok [OF assms(1) o(5)])
    show "field_ok env d'" by (rule void_stamp_field_ok [OF assms(1) o(6) assms(2) o(10)])
  qed (simp_all add: voided(5,7) d2)
qed simp

lemma keeps_verify:
  assumes "verify_stamp env now serial sc sls d = Inr (r, d')" "gzip_ok env" shows "keeps env d d'"
proof (rule keeps_stamps)
  have same: "db_assessments d' = db_assessments d \<and> db_approvals d' = db_approvals d \<and> db_payment_intents d' = db_payment_intents d \<and>
    db_payment_receipts d' = db_payment_receipts d \<and> db_journals d' = db_journals d \<and> db_ledger_entries d' = db_ledger_entries d \<and>
    db_audit_events d' = db_audit_events d"
    using assms(1) by (cases rule: verify_stamp_cases) simp_all
  then show "db_assessments d' = db_assessments d" "db_approvals d' = db_approvals d" "db_payment_intents d' = db_payment_intents d"
    "db_payment_receipts d' = db_payment_receipts d" "db_journals d' = db_journals d" "db_ledger_entries d' = db_ledger_entries d"
    "db_audit_events d' = db_audit_events d" by blast+
  assume ok: "system_ok env d"
  note o = system_okD [OF ok]
  show "issuance_ok d'" by (rule verify_stamp_issuance_ok [OF assms(1) o(6,5)])
  show "field_ok env d'" by (rule verify_stamp_field_ok [OF assms(1) o(6) assms(2) o(10)])
qed

subsection \<open>Requests\<close>

text \<open>How a handler that returned got there.\<close>

lemma rbind_pairE:
  assumes "rbind m (\<lambda>(x, d1). f x d1) = Inr y"
  obtains x d1 where "m = Inr (x, d1)" "f x d1 = Inr y"
  using assms by (auto simp: rbind_eq_Inr)

lemma map_error_InrE:
  assumes "map_error f m = Inr x"
  obtains "m = Inr x"
  using assms by (simp add: map_error_eq_Inr)

lemma found_InrE:
  assumes "(case x of None \<Rightarrow> Inl e | Some a \<Rightarrow> f a) = Inr y"
  obtains a where "x = Some a" "f a = Inr y"
  using assms by (cases x) simp_all

lemma let_InrE:
  assumes "(let x = a in f x) = Inr y"
  obtains "f a = Inr y"
  using assms by (simp add: Let_def)

lemma refuse_InrE:
  assumes "(if c then Inl e else m) = Inr y"
  obtains "\<not> c" "m = Inr y"
  using assms by (simp split: if_splits)

lemma replay_InrE:
  assumes "(case x of Some r \<Rightarrow> Inr (g r, d) | None \<Rightarrow> m) = Inr (y, d')"
  obtains "d' = d" | "x = None" "m = Inr (y, d')"
  using assms by (cases x) simp_all

lemma Inr_pair_InrE:
  assumes "Inr (x, d) = Inr (y, d')"
  obtains "x = y" "d = d'"
  using assms by simp

lemmas runE = rbind_pairE rbindE map_error_InrE found_InrE let_InrE refuse_InrE Inr_pair_InrE replay_InrE

lemma keeps_create_declaration:
  assumes "create_declaration_route env policy now ident key body d = Inr (resp, d')" shows "keeps env d d'"
  using assms unfolding create_declaration_route_def
  by (elim runE) (simp, hypsubst, rule keeps_trans, erule keeps_declare, rule keeps_trans, erule keeps_store_idempotency, erule keeps_commit)

lemma keeps_assess_declaration:
  assumes "assess_declaration env now subject key dc d = Inr (a, d')" shows "keeps env d d'"
  using assms unfolding assess_declaration_def
  by (elim runE) (hypsubst, rule keeps_trans, erule keeps_create_assessment, rule keeps_trans, erule keeps_audit, erule keeps_enqueue)

lemma keeps_create_assessment_route:
  assumes "create_assessment_route env policy now ident key ref d = Inr (resp, d')" shows "keeps env d d'"
  using assms unfolding create_assessment_route_def
  by (elim runE) (simp, hypsubst, rule keeps_trans, erule keeps_assess_declaration, rule keeps_trans, erule keeps_store_idempotency, erule keeps_commit)

lemma keeps_announce:
  assumes "announce_approval env now subject a d = Inr d'" shows "keeps env d d'"
  using assms keeps_enqueue by (fastforce simp: announce_approval_def rbind_eq_Inr split: if_splits)

lemma keeps_decide:
  assumes "decide_assessment_route env policy now ident i body d = Inr (resp, d')" shows "keeps env d d'"
  using assms unfolding decide_assessment_route_def
  by (elim runE) (hypsubst, rule keeps_trans, erule keeps_record_decision, rule keeps_trans, erule keeps_audit,
    rule keeps_trans, erule keeps_announce, erule keeps_commit)

lemma keeps_payment_intent_route:
  assumes "create_payment_intent_route env policy now ident i d = Inr (resp, d')" shows "keeps env d d'"
  using assms unfolding create_payment_intent_route_def
  by (elim runE) (rule keeps_trans, erule keeps_create_intent, erule find_assessment_Some [THEN conjunct1], erule keeps_audit_commit)

lemma keeps_receipt_route:
  assumes "record_payment_receipt_route env policy now ident body d = Inr (resp, d')" shows "keeps env d d'"
  using assms unfolding record_payment_receipt_route_def
  by (elim runE) (rule keeps_trans, erule keeps_record_receipt, erule keeps_audit_commit)

lemma keeps_create_batch_route:
  assumes "create_batch_route env policy now ident i d = Inr (resp, d')" shows "keeps env d d'"
  using assms unfolding create_batch_route_def
  by (elim runE) (rule keeps_trans, erule keeps_create_batch, erule find_assessment_Some [THEN conjunct1], erule keeps_audit_commit)

lemma keeps_finalize_route:
  assumes "finalize_batch_route env policy now ident i d = Inr (resp, d')" shows "keeps env d d'"
  using assms unfolding finalize_batch_route_def by (elim runE) (rule keeps_trans, erule keeps_finalize, erule keeps_audit_commit)

lemma keeps_inspect_route:
  assumes "inspect_batch_route env policy now ident i defectives d = Inr (resp, d')" shows "keeps env d d'"
  using assms unfolding inspect_batch_route_def by (elim runE) (rule keeps_trans, erule keeps_inspection, erule keeps_audit_commit)

lemma keeps_activate_route:
  assumes "activate_batch_route env policy now ident i d = Inr (resp, d')" shows "keeps env d d'"
  using assms unfolding activate_batch_route_def by (elim runE) (rule keeps_trans, erule keeps_activate, erule keeps_audit_commit)

lemma keeps_void_route:
  assumes "void_stamp_route env policy now ident serial reason d = Inr (resp, d')" "gzip_ok env" shows "keeps env d d'"
  using assms(1) unfolding void_stamp_route_def
  by (elim runE) (rule keeps_trans, erule keeps_void [OF _ assms(2)], erule keeps_audit_commit)

lemma keeps_field_scan:
  assumes "field_scan env now v body d = Inr (resp, d')" "gzip_ok env" shows "keeps env d d'"
  using assms(1) unfolding field_scan_def
  by (elim runE) (hypsubst, rule keeps_trans, erule keeps_verify [OF _ assms(2)], erule keeps_commit)

lemma keeps_verify_route:
  assumes "verify_route env ops unix now vh ch body d r = (Inr (resp, d'), r')" "gzip_ok env" shows "keeps env d d'"
  using assms keeps_field_scan by (auto simp: verify_route_def split: sum.splits prod.splits)

lemma public_scan_cases:
  assumes "public_scan env now body d = Inr (resp, d')"
  obtains (unclaimed) "commit d = Inr d'"
  | (claimed) serial sc res d1 where "verify_stamp env now serial sc [] d = Inr (res, d1)" "commit d1 = Inr d'"
proof -
  obtain serial chk where all: "(case serial of
        None \<Rightarrow> rbind (commit d) (\<lambda>d1. Inr (JObj chk, d1))
      | Some (JStr t) \<Rightarrow>
          rbind (verify_stamp env now (text_of t)
             \<lparr>sa_verifier_id = [], sa_public_scan = True, sa_lat_micros = pv_lat_micros body, sa_long_micros = pv_long_micros body,
              sa_credential = None, sa_consume = False\<rparr> [] d) (\<lambda>(res, d1).
          rbind (commit d1) (\<lambda>d2. Inr (JObj (chk @ scan_view res), d2)))
      | Some _ \<Rightarrow> Inl (AttributeError ''strip'')) = Inr (resp, d')"
    using assms unfolding public_scan_def by (elim rbindE)
  show ?thesis
  proof (cases serial)
    case None
    from all [unfolded None option.case] show ?thesis by (elim runE) (hypsubst, erule unclaimed)
  next
    case (Some v)
    then obtain t where "v = JStr t" using all by (cases v) simp_all
    from all [unfolded Some this option.case json.case] show ?thesis by (elim runE) (hypsubst, erule (1) claimed)
  qed
qed

lemma keeps_public_scan:
  assumes "public_scan env now body d = Inr (resp, d')" "gzip_ok env" shows "keeps env d d'"
  using assms(1)
proof (cases rule: public_scan_cases)
  case unclaimed
  then show ?thesis by (rule keeps_commit)
next
  case (claimed serial sc res d1)
  then show ?thesis using keeps_verify [OF _ assms(2)] keeps_commit keeps_trans by blast
qed

lemma keeps_verify_public_route:
  assumes "verify_public_route env ops unix now ip body d r = (Inr (resp, d'), r')" "gzip_ok env" shows "keeps env d d'"
  using assms keeps_public_scan by (auto simp: verify_public_route_def split: sum.splits prod.splits)

text \<open>A message changes nothing, or it stores an event.\<close>

lemma handle_message_cases:
  assumes "handle_message env rf directory now value d = Inr (h, d')"
  obtains (unchanged) "d' = d"
  | (stored) event_id e resource raws where "store_event env now event_id e resource raws d = Inr d'"
proof (cases "rbind (read_message rf value) (\<lambda>envelope. apply_declaration_envelope env rf directory now envelope d)")
  case (Inl e)
  with assms show ?thesis by (intro unchanged) (simp add: handle_message_def split: if_splits)
next
  case (Inr r)
  obtain disposition d1 where r: "r = (disposition, d1)" by fastforce
  have "d1 = d'" using assms by (simp add: handle_message_def Inr r)
  with Inr r obtain envelope where "apply_declaration_envelope env rf directory now envelope d = Inr (disposition, d')"
    by (auto elim!: rbindE)
  then obtain e resource where "apply_event env now e resource d = Inr (disposition, d')" by (rule apply_declaration_envelope_Inr)
  then show ?thesis
  proof (cases rule: apply_event_cases)
    case (applied event_id raws)
    show ?thesis by (rule stored [OF applied(6)])
  qed (rule unchanged)
qed

lemma quiet_message:
  assumes "handle_message env rf directory now value d = Inr (h, d')" shows "quiet env d d'"
  using assms
proof (cases rule: handle_message_cases)
  case (stored event_id e resource raws)
  then show ?thesis by (rule quiet_store_event)
qed simp

lemmas keeps_message = quiet_message [THEN keeps_quiet]

subsection \<open>Issuing in chunks\<close>

text \<open>The loop of the issue request ends, whatever happens in it: what it has committed keeps the invariant, and so does the last chunk.\<close>

definition batch_complete :: "uuid \<Rightarrow> db \<Rightarrow> bool" where
  "batch_complete i d = (case find_batch d i of None \<Rightarrow> False
     | Some b \<Rightarrow> ba_status b \<notin> {BS_PENDING, BS_ISSUING} \<and> ba_issued_count b = ba_quantity b)"

lemma issue_run_ends:
  assumes "system_ok env d" "0 < chunk_size_of (en_settings env) chunk"
  shows "\<exists>committed res. issue_run env clock i chunk run k n d = Some (committed, res) \<and> system_ok env committed \<and>
    (\<forall>m working. res = Inr (m, working) \<longrightarrow> system_ok env working \<and> (run \<longrightarrow> batch_complete i working) \<and>
       m - n = int (length (db_stamps working)) - int (length (db_stamps d)))"
  using assms(1)
proof (induction "nat (left_to_issue d i)" arbitrary: k n d rule: less_induct)
  case less
  show ?case
  proof (cases "issue_chunk env (clock k) i chunk d")
    case (Inl e)
    then show ?thesis using less(2) by (subst issue_run.simps) simp
  next
    case (Inr r)
    obtain m d1 where r: "r = (m, d1)" by fastforce
    have c: "issue_chunk env (clock k) i chunk d = Inr (m, d1)" using Inr r by simp
    have ok: "system_ok env d1" using keeps_issue_chunk [OF c] assms(2) less(2) by (simp add: keeps_def)
    note progress = issue_chunk_progress [OF c system_okD(5) [OF less(2)] assms(2)]
    have pos: "0 \<le> m" using progress(2) by fastforce
    show ?thesis
    proof (cases "m = 0 \<or> \<not> run")
      case True
      then have "issue_run env clock i chunk run k n d = Some (d, Inr (n + m, d1))" by (subst issue_run.simps) (simp add: c)
      moreover have "batch_complete i d1" if run using True that progress(3) by (auto simp: batch_complete_def)
      ultimately show ?thesis using ok less(2) progress(4) pos by simp
    next
      case False
      then have step: "issue_run env clock i chunk run k n d = issue_run env clock i chunk run (Suc k) (n + m) d1"
        by (subst issue_run.simps) (simp add: c)
      have "nat (left_to_issue d1 i) < nat (left_to_issue d i)" using progress(1,2) False by simp
      from less(1) [OF this ok, of "Suc k" "n + m"] show ?thesis unfolding step using progress(4) pos by (auto simp: algebra_simps)
    qed
  qed
qed

lemma keeps_issue_route:
  assumes "system_ok env d" "0 < chunk_size_of (en_settings env) (ii_chunk_size body)"
  obtains d' res where "issue_batch_route env policy clock now ident i body d = Some (d', res)" "system_ok env d'"
    "ii_run_to_completion body \<Longrightarrow> succeeds res \<Longrightarrow> batch_complete i d'"
proof (cases "rbind (require_policy policy ident ''batch'' ''issue'' ''CONFIDENTIAL'') (\<lambda>_. require_batch d i)")
  case (Inl e)
  then show ?thesis using assms(1) by (intro that [of d "Inl e"]) (simp_all add: issue_batch_route_def succeeds_iff)
next
  case guard: (Inr b)
  obtain committed res where run: "issue_run env clock i (ii_chunk_size body) (ii_run_to_completion body) 0 0 d = Some (committed, res)"
    and ok: "system_ok env committed"
      "\<And>m working. res = Inr (m, working) \<Longrightarrow> system_ok env working \<and> (ii_run_to_completion body \<longrightarrow> batch_complete i working)"
    using issue_run_ends [OF assms, of clock i "ii_run_to_completion body" 0 0] by blast
  show ?thesis
  proof (cases res)
    case (Inl e)
    with run ok(1) show ?thesis by (intro that [of committed "Inl e"]) (simp_all add: issue_batch_route_def guard succeeds_iff)
  next
    case (Inr r)
    obtain m working where r: "r = (m, working)" by fastforce
    let ?a = "audit_commit env now ''batch.issued-chunk'' (JObj
                  [(ucs_of ''batchId'', jstr (uuid_str i)), (ucs_of ''issuedThisCall'', JInt m)]) JNull working"
    have route: "issue_batch_route env policy clock now ident i body d =
        (case ?a of Inl e \<Rightarrow> Some (committed, Inl e) | Inr (_, d') \<Rightarrow> Some (d', issued_response d' i m))"
      by (simp add: issue_batch_route_def guard run Inr r)
    show ?thesis
    proof (cases ?a)
      case (Inl e)
      with route ok(1) show ?thesis by (intro that [of committed "Inl e"]) (simp_all add: succeeds_iff)
    next
      case a: (Inr x)
      obtain u d' where x: "x = (u, d')" by fastforce
      have "quiet env working d'" using quiet_audit_commit a x by blast
      then have "system_ok env d'" "batch_complete i working \<Longrightarrow> batch_complete i d'"
        using keeps_quiet [of env working d'] ok(2) Inr r by (simp_all add: keeps_def quiet_def same_core_def batch_complete_def find_batch_def)
      with route a x ok(2) Inr r show ?thesis by (intro that [of d' "issued_response d' i m"]) simp_all
    qed
  qed
qed

text \<open>A relation that every chunk and every audited commit respects holds between the database of an issue request and what it commits.\<close>

lemma issue_run_relates:
  assumes refl: "\<And>d. R d d" and trans: "\<And>d e f. R d e \<Longrightarrow> R e f \<Longrightarrow> R d f"
    and chunk: "\<And>t m d e. issue_chunk env t i chunk d = Inr (m, e) \<Longrightarrow> system_ok env d \<Longrightarrow> R d e"
    and loop: "issue_run env clock i chunk whole k n d = Some (committed, res)" "system_ok env d" "0 < chunk_size_of (en_settings env) chunk"
  shows "R d committed \<and> (\<forall>m working. res = Inr (m, working) \<longrightarrow> R d working)"
  using loop
proof (induction "nat (left_to_issue d i)" arbitrary: k n d rule: less_induct)
  case less
  show ?case
  proof (cases "issue_chunk env (clock k) i chunk d")
    case (Inl e)
    then have "issue_run env clock i chunk whole k n d = Some (d, Inl e)" by (subst issue_run.simps) simp
    with less(2) show ?thesis using refl by auto
  next
    case (Inr r)
    obtain m d1 where r: "r = (m, d1)" by fastforce
    have c: "issue_chunk env (clock k) i chunk d = Inr (m, d1)" using Inr r by simp
    have f: "R d d1" by (rule chunk [OF c less(3)])
    have ok: "system_ok env d1" using keeps_issue_chunk [OF c] less(3,4) by (simp add: keeps_def)
    show ?thesis
    proof (cases "m = 0 \<or> \<not> whole")
      case True
      then have "issue_run env clock i chunk whole k n d = Some (d, Inr (n + m, d1))" by (subst issue_run.simps) (simp add: c)
      with less(2) f show ?thesis using refl by auto
    next
      case False
      then have step: "issue_run env clock i chunk whole k n d = issue_run env clock i chunk whole (Suc k) (n + m) d1"
        by (subst issue_run.simps) (simp add: c)
      note progress = issue_chunk_progress [OF c system_okD(5) [OF less(3)] less(4)]
      have "nat (left_to_issue d1 i) < nat (left_to_issue d i)" using progress(1,2) False by simp
      from less(1) [OF this less(2) [unfolded step] ok less(4)] show ?thesis using f trans by blast
    qed
  qed
qed


lemma issue_route_relates:
  assumes refl: "\<And>d. R d d" and trans: "\<And>d e f. R d e \<Longrightarrow> R e f \<Longrightarrow> R d f"
    and chunk: "\<And>t chunk m d e. issue_chunk env t i chunk d = Inr (m, e) \<Longrightarrow> system_ok env d \<Longrightarrow> R d e"
    and audited: "\<And>et p r d x e. audit_commit env now et p r d = Inr (x, e) \<Longrightarrow> R d e"
    and route: "issue_batch_route env policy clock now ident i body d = Some (d', res)" "system_ok env d"
    "0 < chunk_size_of (en_settings env) (ii_chunk_size body)"
  shows "R d d'"
proof (cases "rbind (require_policy policy ident ''batch'' ''issue'' ''CONFIDENTIAL'') (\<lambda>_. require_batch d i)")
  case (Inl e)
  with route(1) refl show ?thesis by (simp add: issue_batch_route_def)
next
  case guard: (Inr b)
  obtain committed out where all: "issue_run env clock i (ii_chunk_size body) (ii_run_to_completion body) 0 0 d = Some (committed, out)"
    using issue_run_ends [OF route(2,3), of clock i "ii_run_to_completion body" 0 0] by blast
  have f: "R d committed \<and> (\<forall>m working. out = Inr (m, working) \<longrightarrow> R d working)"
    by (rule issue_run_relates [OF _ _ _ all route(2,3)]) (rule refl, erule (1) trans, erule (1) chunk)
  show ?thesis
  proof (cases out)
    case (Inl e)
    with route(1) f all guard show ?thesis by (simp add: issue_batch_route_def)
  next
    case (Inr r)
    obtain m working where r: "r = (m, working)" by fastforce
    let ?a = "audit_commit env now ''batch.issued-chunk'' (JObj
                  [(ucs_of ''batchId'', jstr (uuid_str i)), (ucs_of ''issuedThisCall'', JInt m)]) JNull working"
    have eq: "issue_batch_route env policy clock now ident i body d =
        (case ?a of Inl e \<Rightarrow> Some (committed, Inl e) | Inr (_, d1) \<Rightarrow> Some (d1, issued_response d1 i m))"
      by (simp add: issue_batch_route_def guard all Inr r)
    show ?thesis
    proof (cases ?a)
      case (Inl e)
      with eq route(1) f show ?thesis by simp
    next
      case a: (Inr x)
      obtain u d1 where x: "x = (u, d1)" by fastforce
      have "R working d1" using audited a x by blast
      then have "R d d1" using f Inr r trans by blast
      with eq route(1) a x show ?thesis by simp
    qed
  qed
qed

text \<open>C16: An issue request always ends, whatever its chunk size: the loop over chunks is left after finitely many of them, with a
  consistent database committed, also when a chunk raises. When the request asked to run to completion and was
  answered, the batch is completely issued.\<close>

theorem issue_request_ends:
  assumes "system_ok env d" "valid_issue_in body" "0 < cf_issuance_chunk_size (en_settings env)"
  shows "\<exists>d' res. issue_batch_route env policy clock now ident i body d = Some (d', res) \<and> system_ok env d' \<and>
    (ii_run_to_completion body \<and> succeeds res \<longrightarrow>
       (\<exists>b. find_batch d' i = Some b \<and> ba_status b \<notin> {BS_PENDING, BS_ISSUING} \<and> ba_issued_count b = ba_quantity b))"
proof -
  have size: "0 < chunk_size_of (en_settings env) (ii_chunk_size body)"
    using assms(2,3) by (auto simp: valid_issue_in_def chunk_size_of_def split: option.splits)
  obtain d' res where r: "issue_batch_route env policy clock now ident i body d = Some (d', res)" "system_ok env d'"
    "ii_run_to_completion body \<Longrightarrow> succeeds res \<Longrightarrow> batch_complete i d'"
    by (rule keeps_issue_route [OF assms(1) size, of policy clock now ident i]) (rule that)
  have "\<exists>b. find_batch d' i = Some b \<and> ba_status b \<notin> {BS_PENDING, BS_ISSUING} \<and> ba_issued_count b = ba_quantity b" if "batch_complete i d'"
    using that unfolding batch_complete_def by (cases "find_batch d' i") simp_all
  with r show ?thesis by blast
qed

subsection \<open>A new database\<close>

lemma new_db_ok: "system_ok env (empty_db u\<lparr>db_verifier_credentials := vs\<rparr>)"
proof -
  let ?d = "empty_db u\<lparr>db_verifier_credentials := vs\<rparr>"
  have none: "db_status_list_snapshots ?d = []" by simp
  show ?thesis
    by (simp add: flagged_empty [OF none] list_ok_empty [OF none] system_ok_def decisions_ok_def payments_ok_def ledger_ok_def ledger_matches_def balances_of_def applied_total_def
        issuance_ok_def stamps_distinct_def field_ok_def lists_ok_def scans_ok_def flags_ok_def indices_def chain_ok_def audit_rows_def list_all_iff)
qed

end
