(* ===== verification/System.thy ===== *)
theory System
  imports Steps
begin

section \<open>The service as a state machine\<close>

text \<open>
  The requests of the API, the scans, the messages of the declarations topic and the runs of the outbox publisher
  are the transitions of the service; its state is the database and Redis. Each is one committed transaction (issuing in
  chunks: several), and they happen one after the other. What holds in every reachable state holds whatever the
  order of the transitions, whoever sends the requests and whatever the libraries answer.
\<close>

subsection \<open>Requests\<close>

datatype request =
    Declare "string option" declaration_in
  | Assess "string option" string
  | Decide uuid decision_in
  | Create_intent uuid
  | Settle receipt_in
  | Create_batch uuid
  | Issue uuid issue_in
  | Finalize uuid
  | Inspect uuid int
  | Activate uuid
  | Void string string

text \<open>What request validation lets through.\<close>

fun valid_request :: "request \<Rightarrow> bool" where
  "valid_request (Declare key body) = valid_declaration_in body"
| "valid_request (Assess key ref) = valid_assessment_in ref"
| "valid_request (Decide i body) = valid_decision_in body"
| "valid_request (Settle body) = valid_receipt_in body"
| "valid_request (Issue i body) = valid_issue_in body"
| "valid_request (Inspect i defectives) = valid_inspection_in defectives"
| "valid_request (Void serial reason) = valid_void_in reason"
| "valid_request _ = True"

text \<open>An exception that leaves a handler rolls its transaction back.\<close>

definition answer :: "db \<Rightarrow> (json \<times> db) result \<Rightarrow> db \<times> json result" where
  "answer d res = (case res of Inl e \<Rightarrow> (d, Inl e) | Inr (resp, d') \<Rightarrow> (d', Inr resp))"

text \<open>The clock is read once per request, and by every chunk of the issuing loop.\<close>

fun serve_request ::
  "'sk env \<Rightarrow> policy_engine \<Rightarrow> (nat \<Rightarrow> datetime) \<Rightarrow> datetime \<Rightarrow> identity \<Rightarrow> request \<Rightarrow> db \<Rightarrow> (db \<times> json result) option" where
  "serve_request env policy clock now ident (Declare key body) d = Some (answer d (create_declaration_route env policy now ident key body d))"
| "serve_request env policy clock now ident (Assess key ref) d = Some (answer d (create_assessment_route env policy now ident key ref d))"
| "serve_request env policy clock now ident (Decide i body) d = Some (answer d (decide_assessment_route env policy now ident i body d))"
| "serve_request env policy clock now ident (Create_intent i) d = Some (answer d (create_payment_intent_route env policy now ident i d))"
| "serve_request env policy clock now ident (Settle body) d = Some (answer d (record_payment_receipt_route env policy now ident body d))"
| "serve_request env policy clock now ident (Create_batch i) d = Some (answer d (create_batch_route env policy now ident i d))"
| "serve_request env policy clock now ident (Issue i body) d = issue_batch_route env policy clock now ident i body d"
| "serve_request env policy clock now ident (Finalize i) d = Some (answer d (finalize_batch_route env policy now ident i d))"
| "serve_request env policy clock now ident (Inspect i defectives) d = Some (answer d (inspect_batch_route env policy now ident i defectives d))"
| "serve_request env policy clock now ident (Activate i) d = Some (answer d (activate_batch_route env policy now ident i d))"
| "serve_request env policy clock now ident (Void serial reason) d = Some (answer d (void_stamp_route env policy now ident serial reason d))"

subsection \<open>Transitions\<close>

datatype event =
    Request identity request "json result"
  | Scan string verify_in "json result"
  | Precheck string public_verify_in "json result"
  | Message handled
  | Publish "outbox_message list"

inductive step ::
  "'sk env \<Rightarrow> policy_engine \<Rightarrow> 'r redis \<Rightarrow> (string \<Rightarrow> pyfloat) \<Rightarrow> key_directory \<Rightarrow> db \<times> 'r \<Rightarrow> event \<Rightarrow> db \<times> 'r \<Rightarrow> bool"
  for env policy ops rf directory where
  request: "valid_request q \<Longrightarrow> serve_request env policy clock now ident q d = Some (d', res) \<Longrightarrow>
    step env policy ops rf directory (d, r) (Request ident q res) (d', r)"
| scan: "valid_verify_in body \<Longrightarrow> verify_route env ops unix now verifier credential body d r = (out, r') \<Longrightarrow> answer d out = (d', res) \<Longrightarrow>
    step env policy ops rf directory (d, r) (Scan verifier body res) (d', r')"
| precheck: "valid_public_verify_in body \<Longrightarrow> verify_public_route env ops unix now ip body d r = (out, r') \<Longrightarrow> answer d out = (d', res) \<Longrightarrow>
    step env policy ops rf directory (d, r) (Precheck ip body res) (d', r')"
| message: "handle_message env rf directory now value d = Inr (h, d') \<Longrightarrow> step env policy ops rf directory (d, r) (Message h) (d', r)"
| publish: "publish_once send now d = (sent, out) \<Longrightarrow> d' = (case out of Inl e \<Rightarrow> d | Inr (n, d1) \<Rightarrow> d1) \<Longrightarrow>
    step env policy ops rf directory (d, r) (Publish sent) (d', r)"

inductive_cases stepE: "step env policy ops rf directory s e s'"

inductive run ::
  "'sk env \<Rightarrow> policy_engine \<Rightarrow> 'r redis \<Rightarrow> (string \<Rightarrow> pyfloat) \<Rightarrow> key_directory \<Rightarrow> db \<times> 'r \<Rightarrow> event list \<Rightarrow> db \<times> 'r \<Rightarrow> bool"
  for env policy ops rf directory where
  start: "run env policy ops rf directory s [] s"
| more: "run env policy ops rf directory s es t \<Longrightarrow> step env policy ops rf directory t e u \<Longrightarrow> run env policy ops rf directory s (es @ [e]) u"

text \<open>A new deployment: no rows but the provisioned verification devices. Identifiers are drawn from any source.\<close>

definition new_system :: "(nat \<Rightarrow> uuid) \<Rightarrow> verifier_credential list \<Rightarrow> 'r \<Rightarrow> db \<times> 'r" where
  "new_system u vs r = (empty_db u\<lparr>db_verifier_credentials := vs\<rparr>, r)"

subsection \<open>Reachable states\<close>

lemma answer_ok:
  assumes "answer d out = (d', res)" "\<And>resp d1. out = Inr (resp, d1) \<Longrightarrow> keeps env d d1" "system_ok env d"
  shows "system_ok env d'"
  using assms by (auto simp: answer_def keeps_def split: sum.splits prod.splits)

text \<open>The chunk size of a valid request is positive when the configured one is.\<close>

lemma valid_chunk_size:
  "valid_issue_in body \<Longrightarrow> 0 < cf_issuance_chunk_size (en_settings env) \<Longrightarrow> 0 < chunk_size_of (en_settings env) (ii_chunk_size body)"
  by (auto simp: valid_issue_in_def chunk_size_of_def split: option.splits)

lemma request_ok:
  assumes "serve_request env policy clock now ident q d = Some (d', res)" "valid_request q" "system_ok env d"
    and "gzip_ok env" "0 < cf_issuance_chunk_size (en_settings env)"
  shows "system_ok env d'"
proof (cases q)
  case (Issue i body)
  obtain d1 r where "issue_batch_route env policy clock now ident i body d = Some (d1, r)" "system_ok env d1"
    by (rule keeps_issue_route [OF assms(3)]) (use valid_chunk_size assms(2,5) Issue in auto)
  with assms(1) Issue show ?thesis by simp
next
  case (Declare key body)
  then show ?thesis using assms(1,3) answer_ok keeps_create_declaration by fastforce
next
  case (Assess key ref)
  then show ?thesis using assms(1,3) answer_ok keeps_create_assessment_route by fastforce
next
  case (Decide i body)
  then show ?thesis using assms(1,3) answer_ok keeps_decide by fastforce
next
  case (Create_intent i)
  then show ?thesis using assms(1,3) answer_ok keeps_payment_intent_route by fastforce
next
  case (Settle body)
  then show ?thesis using assms(1,3) answer_ok keeps_receipt_route by fastforce
next
  case (Create_batch i)
  then show ?thesis using assms(1,3) answer_ok keeps_create_batch_route by fastforce
next
  case (Finalize i)
  then show ?thesis using assms(1,3) answer_ok keeps_finalize_route by fastforce
next
  case (Inspect i n)
  then show ?thesis using assms(1,3) answer_ok keeps_inspect_route by fastforce
next
  case (Activate i)
  then show ?thesis using assms(1,3) answer_ok keeps_activate_route by fastforce
next
  case (Void serial reason)
  then show ?thesis using assms(1,3) answer_ok keeps_void_route [OF _ assms(4)] by fastforce
qed

lemma step_ok:
  assumes "step env policy ops rf directory s e s'" "system_ok env (fst s)" "gzip_ok env" "0 < cf_issuance_chunk_size (en_settings env)"
  shows "system_ok env (fst s')"
  using assms(1)
proof cases
  case (request q clock now ident d d' res r)
  then show ?thesis using request_ok assms(2-4) by simp
next
  case (scan body unix now verifier credential d r out r' d' res)
  have "system_ok env d'"
    by (rule answer_ok [OF scan(6)]) (use scan assms(2,3) keeps_verify_route in auto)
  with scan show ?thesis by simp
next
  case (precheck body unix now ip d r out r' d' res)
  have "system_ok env d'"
    by (rule answer_ok [OF precheck(6)]) (use precheck assms(2,3) keeps_verify_public_route in auto)
  with precheck show ?thesis by simp
next
  case (message now raw d h d' r)
  then show ?thesis using keeps_message [OF message(4)] assms(2) by (simp add: keeps_def)
next
  case (publish send now d sent out d' r)
  then show ?thesis using keeps_publish [of send now d sent] assms(2) by (cases out) (auto simp: keeps_def)
qed

text \<open>A run, cut at one of its transitions.\<close>

lemma run_event:
  assumes "run env policy ops rf directory s es s'" "e \<in> set es"
  obtains es1 es2 t u where "run env policy ops rf directory s es1 t" "step env policy ops rf directory t e u" "run env policy ops rf directory u es2 s'"
  using assms
proof (induction arbitrary: thesis rule: run.induct)
  case (more s es t e' u)
  show ?case
  proof (cases "e \<in> set es")
    case True
    show ?thesis by (rule more.IH [OF _ True]) (blast intro: more.prems(1) run.more [OF _ more.hyps(2)])
  next
    case False
    then have "e' = e" using more.prems(2) by simp
    then show ?thesis using more.prems(1) [OF more.hyps(1)] more.hyps(2) run.start by blast
  qed
qed simp

lemma run_ok:
  assumes "run env policy ops rf directory s es s'" "system_ok env (fst s)" "gzip_ok env" "0 < cf_issuance_chunk_size (en_settings env)"
  shows "system_ok env (fst s')"
  using assms
proof (induction rule: run.induct)
  case (more s es t e u)
  with step_ok show ?case by blast
qed simp

lemma reachable_ok:
  assumes "run env policy ops rf directory (new_system u vs r) es s" "gzip_ok env" "0 < cf_issuance_chunk_size (en_settings env)"
  shows "system_ok env (fst s)"
  by (rule run_ok [OF assms(1) _ assms(2,3)]) (simp add: new_system_def new_db_ok)


text \<open>C2: Whatever requests, scans, messages and publishing runs a new deployment goes through, in whatever order, its
  database is consistent: approvals justify every status, payments and ledger agree, every journal balances (so COMMIT
  never fails), batches and stamps agree with inspections and assessments, scans and published flags agree with the
  stamps, and the audit chain verifies with every event counted.\<close>

theorem reachable_system_ok:
  assumes "run env policy ops rf directory (new_system u vs r) es s" "gzip_ok env" "0 < cf_issuance_chunk_size (en_settings env)"
  shows "system_ok env (fst s) \<and> commit (fst s) = Inr (fst s) \<and>
    verify_chain env (fst s) = Inr \<lparr>cv_ok = True, cv_events = int (length (db_audit_events (fst s))), cv_first_bad_id = None, cv_detail = []\<rparr>"
proof -
  have ok: "system_ok env (fst s)" by (rule reachable_ok [OF assms])
  then show ?thesis
    using ledger_ok_commit verify_rows_linked [of "en_sha256 env" GENESIS_HASH "length (audit_rows (fst s))"] system_okD(3,7) [OF ok]
    by (simp add: verify_chain_def chain_ok_def audit_rows_def)
qed

text \<open>A stamp somebody can rely on: it has been activated.\<close>

definition released :: "stamp \<Rightarrow> bool" where
  "released s = (st_status s \<notin> {SS_ISSUED, SS_VOID})"

definition approved_by_checkers :: "db \<Rightarrow> assessment \<Rightarrow> bool" where
  "approved_by_checkers d a =
    (let ps = approvals_of d (as_id a)
     in distinct (map ap_principal_sub ps) \<and> as_submitted_by a \<notin> set (map ap_principal_sub ps) \<and> all_approve ps \<and>
        int (length ps) = snd (risk_tier_for (as_total_duty_kobo a)))"

definition paid_in_full :: "db \<Rightarrow> assessment \<Rightarrow> bool" where
  "paid_in_full d a =
    (\<exists>p \<in> set (db_payment_intents d). pi_assessment_id p = as_id a \<and> pi_status p = PI_SETTLED \<and>
       map (\<lambda>r. (pr_amount_kobo r, pr_currency r)) (applied_to (db_payment_receipts d) (pi_id p)) = [(as_total_duty_kobo a, ''NGN'')])"

definition inspected :: "db \<Rightarrow> uuid \<Rightarrow> bool" where
  "inspected d i = (\<exists>r \<in> set (db_inspections d). in_batch_id r = i \<and> in_result r = PASS \<and> in_defectives r \<le> in_accept r)"

definition backed :: "db \<Rightarrow> stamp \<Rightarrow> bool" where
  "backed d s =
    (\<exists>b \<in> set (db_stamp_batches d). \<exists>a \<in> set (db_assessments d). ba_id b = st_batch_id s \<and> as_id a = ba_assessment_id b \<and>
       int (length (filter (\<lambda>t. st_batch_id t = ba_id b) (db_stamps d))) \<le> as_stamps_required a \<and>
       inspected d (ba_id b) \<and> paid_in_full d a \<and> approved_by_checkers d a)"

lemma system_ok_backed:
  assumes ok: "system_ok env d" and s: "s \<in> set (db_stamps d)" "released s"
  shows "backed d s"
proof -
  note o = system_okD [OF ok]
  have st: "stamp_ok (db_stamp_batches d) (db_inspections d) s" using o(5) s(1) by (simp add: issuance_ok_def list_all_iff)
  obtain b where b: "b \<in> set (db_stamp_batches d)" "ba_id b = st_batch_id s"
    using stamp_ok_batch [OF st] by auto
  obtain i where i: "i \<in> set (db_inspections d)" "in_batch_id i = ba_id b" "in_result i = PASS"
    using st s(2) b(2) by (auto simp: stamp_ok_def released_def)
  have "inspection_ok i" using o(5) i(1) by (simp add: issuance_ok_def list_all_iff)
  then have insp: "inspected d (ba_id b)" using i by (auto simp: inspected_def inspection_ok_def)
  have bo: "batch_ok (db_assessments d) (db_stamps d) (db_inspections d) b" using o(5) b(1) by (simp add: issuance_ok_def list_all_iff)
  then obtain a where a: "a \<in> set (db_assessments d)" "as_id a = ba_assessment_id b" "as_status a = AS_ISSUING" "as_stamps_required a = ba_quantity b"
    unfolding batch_ok_def by blast
  have num: "int (length (filter (\<lambda>t. st_batch_id t = ba_id b) (db_stamps d))) \<le> as_stamps_required a"
    using bo a(4) by (simp add: batch_ok_def)
  have paid: "paid_ok (db_payment_intents d) a" using o(2) a(1) by (simp add: payments_ok_def list_all_iff)
  then obtain p where f: "find (\<lambda>p. pi_assessment_id p = as_id a) (db_payment_intents d) = Some p" and p: "pi_status p = PI_SETTLED"
      "pi_expected_amount_kobo p = as_total_duty_kobo a" "pi_currency p = ''NGN''"
    using a(3) by (auto simp: paid_ok_def split: option.splits if_splits)
  have pin: "p \<in> set (db_payment_intents d)" "pi_assessment_id p = as_id a" using find_SomeD [OF f] by simp_all
  have "intent_ok (db_payment_receipts d) p" using o(2) pin(1) by (simp add: payments_ok_def list_all_iff)
  then have pay: "paid_in_full d a" using p pin by (auto simp: paid_in_full_def intent_ok_def)
  have "decided_ok a (approvals_of d (as_id a))" using o(1) a(1) by (simp add: decisions_ok_def list_all_iff)
  then have "approved_by_checkers d a" using a(3) by (auto simp: approved_by_checkers_def decided_ok_def Let_def dest: sym)
  with b a insp num pay show ?thesis unfolding backed_def by blast
qed

text \<open>C1: No stamp is out without backing. Start with a new deployment - or any consistent database - and let it go through
  any requests, scans, messages and publishing runs: every stamp that was activated, so every stamp a scan can ever
  accept, belongs to a batch that passed an inspection and has no more stamps than its assessment requires; the duty of
  that assessment was paid, to the kobo, by exactly one applied receipt; and it was approved by exactly as many
  different people as its risk tier requires, none of whom submitted it.\<close>

theorem released_stamps_backed:
  assumes "run env policy ops rf directory s es s'" "s = new_system u vs r \<or> system_ok env (fst s)"
    and "gzip_ok env" "0 < cf_issuance_chunk_size (en_settings env)"
  shows "list_all (\<lambda>st. released st \<longrightarrow> backed (fst s') st) (db_stamps (fst s'))"
proof -
  have "system_ok env (fst s)" using assms(2) new_db_ok by (auto simp: new_system_def)
  then have "system_ok env (fst s')" by (rule run_ok [OF assms(1) _ assms(3,4)])
  then show ?thesis using system_ok_backed by (auto simp: list_all_iff)
qed

end
