(* ===== verification/Attribution.thy ===== *)
theory Attribution
  imports System
begin

section \<open>Who did it\<close>

text \<open>
  Every approval, inspection, receipt and submission the database holds was written by a request that the policy
  allowed, and names the subject of the identity that made it.
\<close>

definition submitters :: "db \<Rightarrow> (uuid \<times> string) set" where
  "submitters d = (\<lambda>a. (as_id a, as_submitted_by a)) ` set (db_assessments d)"

text \<open>A change that writes no such record.\<close>

definition frame :: "db \<Rightarrow> db \<Rightarrow> bool" where
  "frame d d' =
    (db_approvals d' = db_approvals d \<and> db_inspections d' = db_inspections d \<and> db_payment_receipts d' = db_payment_receipts d \<and>
     submitters d' \<subseteq> submitters d)"

lemma frame_refl [simp]: "frame d d"
  by (simp add: frame_def)

lemma frame_trans: "frame d d1 \<Longrightarrow> frame d1 d2 \<Longrightarrow> frame d d2"
  by (auto simp: frame_def)

lemma frame_quiet: "quiet env d d' \<Longrightarrow> frame d d'"
  by (simp add: quiet_def same_core_def frame_def submitters_def)

lemma submitters_update:
  assumes "\<And>x. as_id (f x) = as_id x \<and> as_submitted_by (f x) = as_submitted_by x"
    and "db_assessments d' = update_where P f (db_assessments d)"
  shows "submitters d' = submitters d"
proof -
  have "map (\<lambda>a. (as_id a, as_submitted_by a)) (db_assessments d') = map (\<lambda>a. (as_id a, as_submitted_by a)) (db_assessments d)"
    unfolding assms(2) by (rule map_update_where) (simp add: assms(1))
  then show ?thesis unfolding submitters_def by (metis list.set_map)
qed

text \<open>Two more databases that differ where nobody is named.\<close>

lemma frame_same:
  "db_approvals d' = db_approvals d \<Longrightarrow> db_inspections d' = db_inspections d \<Longrightarrow> db_payment_receipts d' = db_payment_receipts d \<Longrightarrow>
   db_assessments d' = db_assessments d \<Longrightarrow> frame d d'"
  by (simp add: frame_def submitters_def)

lemma frame_create_intent:
  assumes "create_intent s now a d = Inr (p, d')" shows "frame d d'"
proof (cases "find (\<lambda>p. pi_assessment_id p = as_id a) (db_payment_intents d)")
  case None
  then have none: "as_id a \<notin> pi_assessment_id ` set (db_payment_intents d)" by (auto simp: find_None_set)
  have d': "d' = d\<lparr>db_payment_intents := db_payment_intents d @ [p],
      db_assessments := update_where (\<lambda>x. as_id x = as_id a) (\<lambda>x. x\<lparr>as_status := AS_PAYMENT_PENDING\<rparr>) (db_assessments d),
      db_next_uuid := Suc (db_next_uuid d)\<rparr>"
    using create_intent_effect [OF assms none] by blast
  have "submitters d' = submitters d" by (rule submitters_update [where f = "\<lambda>x. x\<lparr>as_status := AS_PAYMENT_PENDING\<rparr>"]) (simp_all add: d')
  then show ?thesis by (simp add: frame_def d')
next
  case (Some x)
  with assms show ?thesis by (simp add: create_intent_def split: if_splits)
qed

lemma frame_create_batch:
  assumes "create_batch now a d = Inr (b, d')" "system_ok env d" "a \<in> set (db_assessments d)" shows "frame d d'"
proof -
  have d': "d' = d\<lparr>db_stamp_batches := db_stamp_batches d @ [b],
      db_assessments := update_where (\<lambda>x. as_id x = as_id a) (\<lambda>x. x\<lparr>as_status := AS_ISSUING\<rparr>) (db_assessments d),
      db_next_uuid := Suc (db_next_uuid d)\<rparr>"
    using create_batch_effect [OF assms(1) system_okD(5) [OF assms(2)] assms(3)] by blast
  have "submitters d' = submitters d" by (rule submitters_update [where f = "\<lambda>x. x\<lparr>as_status := AS_ISSUING\<rparr>"]) (simp_all add: d')
  then show ?thesis by (simp add: frame_def d')
qed

lemma frame_issue_chunk:
  assumes "issue_chunk env now i chunk d = Inr (n, d')" "system_ok env d" shows "frame d d'"
  using assms(1) system_okD(9) [OF assms(2)] by (cases rule: issue_chunk_effect) (simp_all add: frame_same)

lemma frame_finalize:
  assumes "finalize_batch env now i who d = Inr (b, d')" shows "frame d d'"
  using finalize_batch_effect [OF assms] by (auto intro!: frame_same)

lemma frame_activate:
  assumes "activate_batch env now i who d = Inr (n, d')" shows "frame d d'"
  using activate_batch_effect [OF assms] by (auto intro!: frame_same)

lemma frame_void:
  assumes "void_stamp env now serial reason who d = Inr (s', d')" shows "frame d d'"
  using assms
proof (cases rule: void_stamp_cases)
  case (voided s d1 d2 m k)
  obtain rows where "d2 = d1\<lparr>db_status_list_snapshots := rows\<rparr>" by (rule set_flag_fields [OF voided(6)])
  then show ?thesis by (intro frame_same) (simp_all add: voided(5,7))
qed simp

lemma frame_verify:
  assumes "verify_stamp env now serial sc sls d = Inr (r, d')" shows "frame d d'"
  using assms by (cases rule: verify_stamp_cases) (simp_all add: frame_same)

lemma frame_issue_route:
  assumes "issue_batch_route env policy clock now ident i body d = Some (d', res)" "system_ok env d"
    "0 < chunk_size_of (en_settings env) (ii_chunk_size body)"
  shows "frame d d'"
  by (rule issue_route_relates [OF _ _ _ _ assms])
    (rule frame_refl, erule (1) frame_trans, erule (1) frame_issue_chunk, erule frame_quiet [OF quiet_audit_commit])

subsection \<open>Authorship\<close>

text \<open>An answered, allowed request of this kind, by this person, wrote this record.\<close>

fun decided_by :: "policy_engine \<Rightarrow> approval \<Rightarrow> event \<Rightarrow> bool" where
  "decided_by policy p (Request ident (Decide i body) (Inr resp)) =
    (require_policy policy ident ''assessment'' ''approve'' ''CONFIDENTIAL'' = Inr () \<and> ap_principal_sub p = subject_of ident \<and>
     ap_assessment_id p = i \<and> decision_text (ap_decision p) = de_decision body)"
| "decided_by policy p e = False"

fun inspected_by :: "policy_engine \<Rightarrow> inspection \<Rightarrow> event \<Rightarrow> bool" where
  "inspected_by policy r (Request ident (Inspect i n) (Inr resp)) =
    (require_policy policy ident ''batch'' ''inspect'' ''CONFIDENTIAL'' = Inr () \<and> in_inspector_sub r = subject_of ident \<and>
     in_batch_id r = i \<and> in_defectives r = n)"
| "inspected_by policy r e = False"

fun remitted_by :: "policy_engine \<Rightarrow> payment_receipt \<Rightarrow> event \<Rightarrow> bool" where
  "remitted_by policy r (Request ident (Settle body) (Inr resp)) =
    (require_policy policy ident ''payment'' ''settle'' ''FIDUCIARY_SEGREGATED'' = Inr () \<and>
     pr_external_reference r = ri_external_reference body \<and> pr_amount_kobo r = ri_amount_kobo body)"
| "remitted_by policy r e = False"

fun submitted_by :: "policy_engine \<Rightarrow> string \<Rightarrow> event \<Rightarrow> bool" where
  "submitted_by policy who (Request ident (Assess key ref) (Inr resp)) =
    (require_policy policy ident ''assessment'' ''create'' ''CONFIDENTIAL'' = Inr () \<and> who = subject_of ident)"
| "submitted_by policy who e = False"

definition attributed :: "policy_engine \<Rightarrow> event list \<Rightarrow> db \<Rightarrow> db \<Rightarrow> bool" where
  "attributed policy es d d' =
    ((\<forall>p \<in> set (db_approvals d'). p \<in> set (db_approvals d) \<or> list_ex (decided_by policy p) es) \<and>
     (\<forall>r \<in> set (db_inspections d'). r \<in> set (db_inspections d) \<or> list_ex (inspected_by policy r) es) \<and>
     (\<forall>r \<in> set (db_payment_receipts d'). r \<in> set (db_payment_receipts d) \<or> list_ex (remitted_by policy r) es) \<and>
     (\<forall>x \<in> submitters d'. x \<in> submitters d \<or> list_ex (submitted_by policy (snd x)) es))"

lemma attributed_frame: "frame d d' \<Longrightarrow> attributed policy es d d'"
  by (auto simp: attributed_def frame_def)

lemma attributed_then_frame: "attributed policy es d d1 \<Longrightarrow> frame d1 d2 \<Longrightarrow> attributed policy es d d2"
  by (auto simp: attributed_def frame_def)

lemma frame_then_attributed: "frame d d1 \<Longrightarrow> attributed policy es d1 d2 \<Longrightarrow> attributed policy es d d2"
  by (fastforce simp: attributed_def frame_def)

lemma attributed_append: "attributed policy es d d1 \<Longrightarrow> attributed policy es' d1 d2 \<Longrightarrow> attributed policy (es @ es') d d2"
  unfolding attributed_def list_ex_append by blast

lemmas attributed_quiet = attributed_then_frame [OF _ frame_quiet]

text \<open>What a request does, answer by answer.\<close>

lemma answer_attributed:
  assumes "answer d out = (d', res)" "\<And>resp d1. out = Inr (resp, d1) \<Longrightarrow> attributed policy [Request ident q (Inr resp)] d d1"
  shows "attributed policy [Request ident q res] d d'"
  using assms by (auto simp: answer_def attributed_frame split: sum.splits prod.splits)

lemma attributed_decision:
  assumes "record_decision now i (subject_of ident) (de_decision body) reason d = Inr (a, d')"
    "require_policy policy ident ''assessment'' ''approve'' ''CONFIDENTIAL'' = Inr ()"
  shows "attributed policy [Request ident (Decide i body) (Inr resp)] d d'"
proof -
  let ?n = "length (filter (\<lambda>q. ap_decision q = APPROVE) (approvals_of d i))"
  let ?p = "\<lambda>dec. \<lparr>ap_id = db_uuids d (db_next_uuid d), ap_assessment_id = i, ap_principal_sub = subject_of ident, ap_decision = dec,
         ap_level = int (length (approvals_of d i)) + 1, ap_reason = reason, ap_decided_at = now\<rparr>"
  obtain x dec where e: "find_assessment d i = Some x" "parse_decision (de_decision body) = Some dec" "a = decide now dec ?n x"
    "d' = d\<lparr>db_approvals := db_approvals d @ [?p dec], db_assessments := update_where (\<lambda>x. as_id x = i) (\<lambda>_. a) (db_assessments d),
       db_next_uuid := Suc (db_next_uuid d)\<rparr>"
    using record_decision_effect [OF assms(1)] by blast
  have "x \<in> set (db_assessments d)" "as_id x = i" using find_assessment_Some [OF e(1)] by auto
  then have "(as_id a, as_submitted_by a) \<in> submitters d" by (force simp: submitters_def e(3) decide_def)
  then have sub: "submitters d' \<subseteq> submitters d" by (auto simp: submitters_def e(4) set_update_where split: if_splits)
  have "decision_text dec = de_decision body" using e(2) by (auto simp: parse_decision_def split: if_splits)
  then show ?thesis using sub assms(2) by (auto simp: attributed_def e(4))
qed

lemma quiet_announce:
  assumes "announce_approval env now subject a d = Inr d'" shows "quiet env d d'"
  using assms quiet_enqueue by (fastforce simp: announce_approval_def rbind_eq_Inr split: if_splits)

lemma attributed_decide:
  assumes "decide_assessment_route env policy now ident i body d = Inr (resp, d')"
  shows "attributed policy [Request ident (Decide i body) (Inr resp)] d d'"
  using assms unfolding decide_assessment_route_def
  by (elim runE) (hypsubst, rule attributed_quiet, rule attributed_quiet, rule attributed_quiet, erule attributed_decision, simp,
    erule quiet_audit, erule quiet_announce, erule quiet_commit)

lemma attributed_inspect:
  assumes "inspect_batch_route env policy now ident i n d = Inr (resp, d')"
  shows "attributed policy [Request ident (Inspect i n) (Inr resp)] d d'"
proof -
  have rec: "attributed policy [Request ident (Inspect i n) (Inr resp)] d d1"
    if "record_inspection now i n (subject_of ident) d = Inr (row, d1)" "require_policy policy ident ''batch'' ''inspect'' ''CONFIDENTIAL'' = Inr ()" for row d1
    using record_inspection_effect [OF that(1)] that(2) by (auto simp: attributed_def submitters_def)
  show ?thesis
    using assms unfolding inspect_batch_route_def
    by (elim runE) (rule attributed_quiet, erule rec, simp, erule quiet_audit_commit)
qed

lemma attributed_settle:
  assumes "record_payment_receipt_route env policy now ident body d = Inr (resp, d')"
  shows "attributed policy [Request ident (Settle body) (Inr resp)] d d'"
proof -
  have rec: "attributed policy [Request ident (Settle body) (Inr resp)] d d1"
    if r: "record_receipt now i (ri_external_reference body) (ri_amount_kobo body) (ri_currency body) d = Inr (row, d1)"
      and p: "require_policy policy ident ''payment'' ''settle'' ''FIDUCIARY_SEGREGATED'' = Inr ()" for i row d1
    using record_receipt_cases [OF r]
  proof (elim disjE)
    assume "receipt_replayed (ri_external_reference body) row d d1"
    then show ?thesis by (simp add: receipt_replayed_def attributed_frame)
  next
    assume "receipt_quarantined i (ri_external_reference body) (ri_amount_kobo body) (ri_currency body) row d d1"
    then show ?thesis using p by (auto simp: receipt_quarantined_def attributed_def submitters_def)
  next
    assume "receipt_applied now i (ri_external_reference body) (ri_amount_kobo body) (ri_currency body) row d d1"
    then show ?thesis
      unfolding receipt_applied_def
    proof (elim exE conjE)
      fix x p j es n
      assume d1: "d1 = d\<lparr>db_payment_receipts := db_payment_receipts d @ [row],
         db_payment_intents := update_where (\<lambda>y. pi_id y = pi_id x) (\<lambda>y. y\<lparr>pi_status := PI_SETTLED, pi_settled_at := Some now\<rparr>) (db_payment_intents d),
         db_assessments := update_where (\<lambda>y. as_id y = as_id p) (\<lambda>y. y\<lparr>as_status := AS_PAID\<rparr>) (db_assessments d),
         db_journals := db_journals d @ [j], db_ledger_entries := db_ledger_entries d @ es, db_next_uuid := n\<rparr>"
        and row: "pr_external_reference row = ri_external_reference body" "pr_amount_kobo row = ri_amount_kobo body"
      have "submitters d1 = submitters d"
        by (rule submitters_update [where f = "\<lambda>y. y\<lparr>as_status := AS_PAID\<rparr>"]) (simp_all add: d1)
      then show ?thesis using p row by (auto simp: attributed_def d1)
    qed
  qed
  show ?thesis
    using assms unfolding record_payment_receipt_route_def
    by (elim runE) (rule attributed_quiet, erule rec, simp, erule quiet_audit_commit)
qed

lemma attributed_assess:
  assumes "create_assessment_route env policy now ident key ref d = Inr (resp, d')"
  shows "attributed policy [Request ident (Assess key ref) (Inr resp)] d d'"
proof -
  have rec: "attributed policy [Request ident (Assess key ref) (Inr y)] d d1"
    if c: "create_assessment now dc (subject_of ident) k None d = Inr (a, d1)"
      and p: "require_policy policy ident ''assessment'' ''create'' ''CONFIDENTIAL'' = Inr ()" for dc k a d1 y
  proof (cases "k \<in> as_idempotency_key ` set (db_assessments d)")
    case True
    then have "find (\<lambda>a. as_idempotency_key a = k) (db_assessments d) \<noteq> None" by (auto simp: find_None_set)
    with c have "d1 = d" by (auto simp: create_assessment_def)
    then show ?thesis by (simp add: attributed_frame)
  next
    case False
    with create_assessment_effect [OF c] p show ?thesis by (auto simp: attributed_def submitters_def)
  qed
  have assess: "attributed policy [Request ident (Assess key ref) (Inr y)] d d1"
    if "assess_declaration env now (subject_of ident) k dc d = Inr (a, d1)"
      "require_policy policy ident ''assessment'' ''create'' ''CONFIDENTIAL'' = Inr ()" for dc k a d1 y
    using that unfolding assess_declaration_def
    by (elim runE) (hypsubst, rule attributed_quiet, rule attributed_quiet, erule rec, assumption, erule quiet_audit, erule quiet_enqueue)
  show ?thesis
    using assms unfolding create_assessment_route_def
    by (elim runE) (hypsubst, rule attributed_frame, rule frame_refl, hypsubst, rule attributed_quiet, rule attributed_quiet,
      erule assess, simp, erule quiet_store_idempotency, erule quiet_commit)
qed

subsection \<open>Requests that name nobody\<close>

lemma frame_declare_route:
  assumes "create_declaration_route env policy now ident key body d = Inr (resp, d')" shows "frame d d'"
  using assms unfolding create_declaration_route_def
  by (elim runE) (simp, hypsubst, rule frame_trans, erule frame_quiet [OF quiet_declare], rule frame_trans,
    erule frame_quiet [OF quiet_store_idempotency], erule frame_quiet [OF quiet_commit])

lemmas frame_audit_commit = quiet_audit_commit [THEN frame_quiet]

lemma frame_intent_route:
  assumes "create_payment_intent_route env policy now ident i d = Inr (resp, d')" shows "frame d d'"
  using assms unfolding create_payment_intent_route_def
  by (elim runE) (rule frame_trans, erule frame_create_intent, erule frame_audit_commit)

lemma frame_batch_route:
  assumes "create_batch_route env policy now ident i d = Inr (resp, d')" "system_ok env d" shows "frame d d'"
  using assms(1) unfolding create_batch_route_def
  by (elim runE) (rule frame_trans, erule frame_create_batch [OF _ assms(2)], erule find_assessment_Some [THEN conjunct1], erule frame_audit_commit)

lemma frame_finalize_route:
  assumes "finalize_batch_route env policy now ident i d = Inr (resp, d')" shows "frame d d'"
  using assms unfolding finalize_batch_route_def by (elim runE) (rule frame_trans, erule frame_finalize, erule frame_audit_commit)

lemma frame_activate_route:
  assumes "activate_batch_route env policy now ident i d = Inr (resp, d')" shows "frame d d'"
  using assms unfolding activate_batch_route_def by (elim runE) (rule frame_trans, erule frame_activate, erule frame_audit_commit)

lemma frame_void_route:
  assumes "void_stamp_route env policy now ident serial reason d = Inr (resp, d')" shows "frame d d'"
  using assms unfolding void_stamp_route_def by (elim runE) (rule frame_trans, erule frame_void, erule frame_audit_commit)

subsection \<open>Runs\<close>

lemma request_attributed:
  assumes "serve_request env policy clock now ident q d = Some (d', res)" "valid_request q" "system_ok env d"
    and "0 < cf_issuance_chunk_size (en_settings env)"
  shows "attributed policy [Request ident q res] d d'"
proof (cases q)
  case (Issue i body)
  then have "frame d d'"
    using assms(1,2,4) by (intro frame_issue_route [of env policy clock now ident i body d d' res, OF _ assms(3)]) (simp_all add: valid_chunk_size)
  then show ?thesis by (rule attributed_frame)
next
  case (Declare key body)
  with assms(1) show ?thesis using answer_attributed attributed_frame [OF frame_declare_route] by fastforce
next
  case (Assess key ref)
  with assms(1) show ?thesis using answer_attributed attributed_assess by fastforce
next
  case (Decide i body)
  with assms(1) show ?thesis using answer_attributed attributed_decide by fastforce
next
  case (Create_intent i)
  with assms(1) show ?thesis using answer_attributed attributed_frame [OF frame_intent_route] by fastforce
next
  case (Settle body)
  with assms(1) show ?thesis using answer_attributed attributed_settle by fastforce
next
  case (Create_batch i)
  with assms(1) show ?thesis using answer_attributed attributed_frame [OF frame_batch_route [OF _ assms(3)]] by fastforce
next
  case (Finalize i)
  with assms(1) show ?thesis using answer_attributed attributed_frame [OF frame_finalize_route] by fastforce
next
  case (Inspect i n)
  with assms(1) show ?thesis using answer_attributed attributed_inspect by fastforce
next
  case (Activate i)
  with assms(1) show ?thesis using answer_attributed attributed_frame [OF frame_activate_route] by fastforce
next
  case (Void serial reason)
  with assms(1) show ?thesis using answer_attributed attributed_frame [OF frame_void_route] by fastforce
qed

lemma frame_answer:
  assumes "answer d out = (d', res)" "\<And>resp d1. out = Inr (resp, d1) \<Longrightarrow> frame d d1"
  shows "frame d d'"
  using assms by (auto simp: answer_def split: sum.splits prod.splits)

lemma frame_field_scan:
  assumes "field_scan env now v body d = Inr (resp, d')" shows "frame d d'"
  using assms unfolding field_scan_def
  by (elim runE) (hypsubst, rule frame_trans, erule frame_verify, erule frame_quiet [OF quiet_commit])

lemma frame_public_scan:
  assumes "public_scan env now body d = Inr (resp, d')" shows "frame d d'"
  using assms
proof (cases rule: public_scan_cases)
  case unclaimed
  then show ?thesis by (rule frame_quiet [OF quiet_commit])
next
  case (claimed serial sc res d1)
  show ?thesis by (rule frame_trans [OF frame_verify [OF claimed(1)] frame_quiet [OF quiet_commit [OF claimed(2)]]])
qed

lemma step_attributed:
  assumes "step env policy ops rf directory s e s'" "system_ok env (fst s)" "0 < cf_issuance_chunk_size (en_settings env)"
  shows "attributed policy [e] (fst s) (fst s')"
  using assms(1)
proof cases
  case (request q clock now ident d d' res r)
  then show ?thesis using request_attributed assms(2,3) by simp
next
  case (scan body unix now verifier credential d r out r' d' res)
  have "frame d d'"
    by (rule frame_answer [OF scan(6)])
      (use scan(5) frame_field_scan in \<open>auto simp: verify_route_def split: sum.splits prod.splits\<close>)
  with scan show ?thesis by (simp add: attributed_frame)
next
  case (precheck body unix now ip d r out r' d' res)
  have "frame d d'"
    by (rule frame_answer [OF precheck(6)])
      (use precheck(5) frame_public_scan in \<open>auto simp: verify_public_route_def split: sum.splits prod.splits\<close>)
  with precheck show ?thesis by (simp add: attributed_frame)
next
  case (message now raw d h d' r)
  have "frame d d'" by (rule frame_quiet [OF quiet_message [OF message(4)]])
  with message show ?thesis by (simp add: attributed_frame)
next
  case (publish send now d sent out d' r)
  have "frame d d'"
  proof (cases out)
    case (Inr x)
    obtain n d1 where x: "x = (n, d1)" by fastforce
    with publish Inr show ?thesis using frame_quiet [OF quiet_publish [of send now d sent n d1]] by simp
  qed (use publish in simp)
  with publish show ?thesis by (simp add: attributed_frame)
qed

lemma run_attributed:
  assumes "run env policy ops rf directory s es s'" "system_ok env (fst s)" "gzip_ok env" "0 < cf_issuance_chunk_size (en_settings env)"
  shows "attributed policy es (fst s) (fst s')"
  using assms
proof (induction rule: run.induct)
  case (more s es t e u)
  have "system_ok env (fst t)" by (rule run_ok [OF more(1) more(4-6)])
  then have "attributed policy [e] (fst t) (fst u)" by (rule step_attributed [OF more(2) _ more(6)])
  with more attributed_append show ?case by blast
qed (simp add: attributed_frame)

text \<open>C3: Nothing happens anonymously. Whatever requests, scans, messages and publishing runs a consistent database goes
  through: every approval it has gained was decided by an answered request of the approval's own principal, whom the
  policy allowed to approve; every inspection, by its inspector, allowed to inspect; every receipt was recorded by a
  request the policy allowed to settle payments, with that reference and amount; and every assessment names as its
  submitter one whose request for an assessment was allowed and answered - or was there before.\<close>

theorem records_attributed:
  assumes "run env policy ops rf directory s es s'" "system_ok env (fst s)" "gzip_ok env" "0 < cf_issuance_chunk_size (en_settings env)"
  shows "(\<forall>p \<in> set (db_approvals (fst s')). p \<in> set (db_approvals (fst s)) \<or> list_ex (decided_by policy p) es) \<and>
    (\<forall>r \<in> set (db_inspections (fst s')). r \<in> set (db_inspections (fst s)) \<or> list_ex (inspected_by policy r) es) \<and>
    (\<forall>r \<in> set (db_payment_receipts (fst s')). r \<in> set (db_payment_receipts (fst s)) \<or> list_ex (remitted_by policy r) es) \<and>
    (\<forall>a \<in> set (db_assessments (fst s')). (as_id a, as_submitted_by a) \<in> submitters (fst s) \<or> list_ex (submitted_by policy (as_submitted_by a)) es)"
proof -
  have att: "attributed policy es (fst s) (fst s')" by (rule run_attributed [OF assms])
  have "(as_id a, as_submitted_by a) \<in> submitters (fst s')" if "a \<in> set (db_assessments (fst s'))" for a
    using that by (auto simp: submitters_def)
  with att show ?thesis unfolding attributed_def by fastforce
qed

end
