(* ===== verification/Relations.thy ===== *)
theory Relations
  imports System
begin

section \<open>What every transition respects\<close>

text \<open>
  A relation between two databases that is reflexive and transitive and holds across each operation of the services and
  each record kept beside them holds across every request, and so across every run. The operations may count on the
  invariant of the database they start from.
\<close>

locale service_relation =
  fixes env :: "'sk env" and R :: "db \<Rightarrow> db \<Rightarrow> bool"
  assumes rel_refl: "R d d"
    and rel_trans: "R d e \<Longrightarrow> R e f \<Longrightarrow> R d f"
    and rel_audit: "audit_record env now event_type payload d = Inr (ev, d') \<Longrightarrow> R d d'"
    and rel_enqueue: "enqueue env now event_type resource pid role corr d = Inr (msg, d') \<Longrightarrow> R d d'"
    and rel_idempotency: "insert_idempotency_record kept d = Inr d' \<Longrightarrow> R d d'"
    and rel_goods: "same_core d d' \<Longrightarrow> db_audit_events d' = db_audit_events d \<Longrightarrow> db_idempotency_records d' = db_idempotency_records d \<Longrightarrow>
      db_processed_events d' = db_processed_events d @ pes \<Longrightarrow> R d d'"
    and rel_assessment: "create_assessment now dc sub key on_date d = Inr (a, d') \<Longrightarrow> R d d'"
    and rel_decision: "record_decision now i who decision reason d = Inr (a', d') \<Longrightarrow> R d d'"
    and rel_intent: "create_intent s now a d = Inr (p, d') \<Longrightarrow> R d d'"
    and rel_receipt: "record_receipt now i ref amount currency d = Inr (r, d') \<Longrightarrow> R d d'"
    and rel_batch: "create_batch now a d = Inr (b, d') \<Longrightarrow> system_ok env d \<Longrightarrow> a \<in> set (db_assessments d) \<Longrightarrow> R d d'"
    and rel_chunk: "issue_chunk env now i chunk d = Inr (n, d') \<Longrightarrow> system_ok env d \<Longrightarrow> R d d'"
    and rel_finalize: "finalize_batch env now i who d = Inr (b, d') \<Longrightarrow> R d d'"
    and rel_inspection: "record_inspection now i defectives who d = Inr (row, d') \<Longrightarrow> R d d'"
    and rel_activate: "activate_batch env now i who d = Inr (n, d') \<Longrightarrow> system_ok env d \<Longrightarrow> R d d'"
    and rel_void: "void_stamp env now serial reason who d = Inr (s', d') \<Longrightarrow> system_ok env d \<Longrightarrow> R d d'"
    and rel_verify: "verify_stamp env now serial sc sls d = Inr (res, d') \<Longrightarrow> system_ok env d \<Longrightarrow> R d d'"
begin

declare rel_refl [simp]

lemma rel_store_idempotency:
  assumes "store_idempotency env now key sub body status resp d = Inr d'" shows "R d d'"
proof (cases "key = None \<or> key = Some []")
  case True
  with assms show ?thesis by (auto simp: store_idempotency_def rel_refl)
next
  case False
  then obtain k where k: "key = Some k" "k \<noteq> []" by auto
  then obtain row where "insert_idempotency_record row d = Inr d'" using assms by (auto simp: store_idempotency_def)
  then show ?thesis by (rule rel_idempotency)
qed

lemma rel_commit: "commit d = Inr d' \<Longrightarrow> R d d'"
  by (simp add: commit_def rel_refl split: if_splits)

lemma rel_audit_commit:
  assumes "audit_commit env now event_type payload resp d = Inr (r, d')" shows "R d d'"
proof -
  obtain ev d1 where "audit_record env now event_type payload d = Inr (ev, d1)" "commit d1 = Inr d'"
    using assms by (auto simp: audit_commit_def rbind_eq_Inr)
  then show ?thesis using rel_audit rel_commit rel_trans by blast
qed

lemma rel_lines: "declared_lines u ls d = Inr d' \<Longrightarrow> R d d'"
proof (induction ls arbitrary: d)
  case (Cons l ls)
  obtain w d1 where w: "uuid4 d = (w, d1)" by fastforce
  obtain d2 row where d2: "insert_declaration_line row d1 = Inr d2" "declared_lines u ls d2 = Inr d'"
    using Cons.prems by (auto simp: w rbind_eq_Inr)
  have "R d d2"
    using uuid4_fields [OF w] insert_declaration_line_ok [OF d2(1)] by (intro rel_goods [where pes = "[]"]) (simp_all add: same_core_def)
  with Cons.IH [OF d2(2)] show ?case by (rule rel_trans [rotated])
qed (simp add: rel_refl)

lemma rel_declare:
  assumes "declare_goods env now subject body d = Inr d'" shows "R d d'"
proof -
  obtain u d0 where u: "uuid4 d = (u, d0)" by fastforce
  obtain dc d1 d2 where d: "insert_declaration dc d0 = Inr d1" "declared_lines u (di_lines body) d1 = Inr d2"
    and ev: "\<exists>p ev. audit_record env now ''declaration.received'' p d2 = Inr (ev, d')"
    using assms by (fastforce simp: declare_goods_def u rbind_eq_Inr Let_def)
  have "R d d1"
    using uuid4_fields [OF u] insert_declaration_ok [OF d(1)] by (intro rel_goods [where pes = "[]"]) (simp_all add: same_core_def)
  from rel_trans [OF this rel_lines [OF d(2)]] show ?thesis using ev rel_audit rel_trans by blast
qed

lemma rel_store_event:
  assumes "store_event env now event_id envelope resource raws d = Inr d'" shows "R d d'"
proof (rule store_event_effect [OF assms])
  fix dc ls pe ev n d4 payload
  assume ev: "audit_record env now ''declaration.received'' payload d4 = Inr (ev, d')"
    and d4: "d4 = d\<lparr>db_declarations := db_declarations d @ [dc], db_declaration_lines := db_declaration_lines d @ ls,
         db_processed_events := db_processed_events d @ [pe], db_next_uuid := n\<rparr>"
  have "R d d4" by (rule rel_goods [where pes = "[pe]"]) (simp_all add: d4 same_core_def)
  then show ?thesis using rel_audit [OF ev] by (rule rel_trans)
qed

lemma rel_publish:
  assumes "publish_once send now d = (sent, Inr (n, d'))" shows "R d d'"
  using assms by (intro rel_goods [where pes = "[]"]) (auto simp: publish_once_def Let_def same_core_def split: if_splits)

subsection \<open>Requests\<close>

lemma rel_declare_route:
  assumes "create_declaration_route env policy now ident key body d = Inr (resp, d')" shows "R d d'"
  using assms unfolding create_declaration_route_def
  by (elim runE) (simp add: rel_refl, hypsubst, rule rel_trans, erule rel_declare, rule rel_trans,
    erule rel_store_idempotency, erule rel_commit)

lemma rel_assess:
  assumes "assess_declaration env now subject key dc d = Inr (a, d')" shows "R d d'"
  using assms unfolding assess_declaration_def
  by (elim runE) (hypsubst, rule rel_trans, erule rel_assessment, rule rel_trans, erule rel_audit, erule rel_enqueue)

lemma rel_assess_route:
  assumes "create_assessment_route env policy now ident key ref d = Inr (resp, d')" shows "R d d'"
  using assms unfolding create_assessment_route_def
  by (elim runE) (simp add: rel_refl, hypsubst, rule rel_trans, erule rel_assess, rule rel_trans,
    erule rel_store_idempotency, erule rel_commit)

lemma rel_announce:
  assumes "announce_approval env now subject a d = Inr d'" shows "R d d'"
  using assms rel_enqueue by (fastforce simp: announce_approval_def rbind_eq_Inr split: if_splits)

lemma rel_decide:
  assumes "decide_assessment_route env policy now ident i body d = Inr (resp, d')" shows "R d d'"
  using assms unfolding decide_assessment_route_def
  by (elim runE) (hypsubst, rule rel_trans, erule rel_decision, rule rel_trans, erule rel_audit,
    rule rel_trans, erule rel_announce, erule rel_commit)

lemma rel_intent_route:
  assumes "create_payment_intent_route env policy now ident i d = Inr (resp, d')" shows "R d d'"
  using assms unfolding create_payment_intent_route_def
  by (elim runE) (rule rel_trans, erule rel_intent, erule rel_audit_commit)

lemma rel_receipt_route:
  assumes "record_payment_receipt_route env policy now ident body d = Inr (resp, d')" shows "R d d'"
  using assms unfolding record_payment_receipt_route_def
  by (elim runE) (rule rel_trans, erule rel_receipt, erule rel_audit_commit)

lemma rel_batch_route:
  assumes "create_batch_route env policy now ident i d = Inr (resp, d')" "system_ok env d" shows "R d d'"
  using assms(1) unfolding create_batch_route_def
  by (elim runE) (rule rel_trans, erule rel_batch [OF _ assms(2)], erule find_assessment_Some [THEN conjunct1],
    erule rel_audit_commit)

lemma rel_issue_route:
  assumes "issue_batch_route env policy clock now ident i body d = Some (d', res)" "system_ok env d"
    "0 < chunk_size_of (en_settings env) (ii_chunk_size body)"
  shows "R d d'"
  by (rule issue_route_relates [OF _ _ _ _ assms])
    (rule rel_refl, erule (1) rel_trans, erule (1) rel_chunk, erule rel_audit_commit)

lemma rel_finalize_route:
  assumes "finalize_batch_route env policy now ident i d = Inr (resp, d')" shows "R d d'"
  using assms unfolding finalize_batch_route_def by (elim runE) (rule rel_trans, erule rel_finalize, erule rel_audit_commit)

lemma rel_inspect_route:
  assumes "inspect_batch_route env policy now ident i defectives d = Inr (resp, d')" shows "R d d'"
  using assms unfolding inspect_batch_route_def by (elim runE) (rule rel_trans, erule rel_inspection, erule rel_audit_commit)

lemma rel_activate_route:
  assumes "activate_batch_route env policy now ident i d = Inr (resp, d')" "system_ok env d" shows "R d d'"
  using assms(1) unfolding activate_batch_route_def by (elim runE) (rule rel_trans, erule rel_activate [OF _ assms(2)], erule rel_audit_commit)

lemma rel_void_route:
  assumes "void_stamp_route env policy now ident serial reason d = Inr (resp, d')" "system_ok env d" shows "R d d'"
  using assms(1) unfolding void_stamp_route_def by (elim runE) (rule rel_trans, erule rel_void [OF _ assms(2)], erule rel_audit_commit)

lemma rel_field_scan:
  assumes "field_scan env now v body d = Inr (resp, d')" "system_ok env d" shows "R d d'"
  using assms(1) unfolding field_scan_def
  by (elim runE) (hypsubst, rule rel_trans, erule rel_verify [OF _ assms(2)], erule rel_commit)

lemma rel_public_scan:
  assumes "public_scan env now body d = Inr (resp, d')" "system_ok env d" shows "R d d'"
  using assms(1)
proof (cases rule: public_scan_cases)
  case unclaimed
  then show ?thesis by (rule rel_commit)
next
  case (claimed serial sc res d1)
  then show ?thesis using rel_verify [OF _ assms(2)] rel_commit rel_trans by blast
qed

lemma rel_message:
  assumes "handle_message env rf directory now value d = Inr (h, d')" shows "R d d'"
  using assms
proof (cases rule: handle_message_cases)
  case (stored event_id e resource raws)
  then show ?thesis by (rule rel_store_event)
qed simp

subsection \<open>Runs\<close>

lemma rel_answer:
  assumes "answer d out = (d', res)" "\<And>resp d1. out = Inr (resp, d1) \<Longrightarrow> R d d1"
  shows "R d d'"
  using assms by (auto simp: answer_def split: sum.splits prod.splits)

lemma rel_request:
  assumes "serve_request env policy clock now ident q d = Some (d', res)" "valid_request q" "system_ok env d"
    and "0 < cf_issuance_chunk_size (en_settings env)"
  shows "R d d'"
proof (cases q)
  case (Issue i body)
  then show ?thesis
    using assms(1,2,4) by (intro rel_issue_route [of policy clock now ident i body d d' res, OF _ assms(3)]) (simp_all add: valid_chunk_size)
next
  case (Declare key body)
  with assms(1) show ?thesis using rel_answer rel_declare_route by fastforce
next
  case (Assess key ref)
  with assms(1) show ?thesis using rel_answer rel_assess_route by fastforce
next
  case (Decide i body)
  with assms(1) show ?thesis using rel_answer rel_decide by fastforce
next
  case (Create_intent i)
  with assms(1) show ?thesis using rel_answer rel_intent_route by fastforce
next
  case (Settle body)
  with assms(1) show ?thesis using rel_answer rel_receipt_route by fastforce
next
  case (Create_batch i)
  with assms(1) show ?thesis using rel_answer rel_batch_route [OF _ assms(3)] by fastforce
next
  case (Finalize i)
  with assms(1) show ?thesis using rel_answer rel_finalize_route by fastforce
next
  case (Inspect i n)
  with assms(1) show ?thesis using rel_answer rel_inspect_route by fastforce
next
  case (Activate i)
  with assms(1) show ?thesis using rel_answer rel_activate_route [OF _ assms(3)] by fastforce
next
  case (Void serial reason)
  with assms(1) show ?thesis using rel_answer rel_void_route [OF _ assms(3)] by fastforce
qed

lemma rel_step:
  assumes "step env policy ops rf directory s e s'" "system_ok env (fst s)" "0 < cf_issuance_chunk_size (en_settings env)"
  shows "R (fst s) (fst s')"
  using assms(1)
proof cases
  case (request q clock now ident d d' res r)
  then show ?thesis using rel_request assms(2,3) by simp
next
  case (scan body unix now verifier credential d r out r' d' res)
  have "R d d'"
    by (rule rel_answer [OF scan(6)])
      (use scan(1,5) assms(2) rel_field_scan in \<open>auto simp: verify_route_def split: sum.splits prod.splits\<close>)
  with scan show ?thesis by simp
next
  case (precheck body unix now ip d r out r' d' res)
  have "R d d'"
    by (rule rel_answer [OF precheck(6)])
      (use precheck(1,5) assms(2) rel_public_scan in \<open>auto simp: verify_public_route_def split: sum.splits prod.splits\<close>)
  with precheck show ?thesis by simp
next
  case (message now raw d h d' r)
  then show ?thesis using rel_message [OF message(4)] by simp
next
  case (publish send now d sent out d' r)
  show ?thesis
  proof (cases out)
    case (Inr x)
    obtain n d1 where x: "x = (n, d1)" by fastforce
    with publish Inr show ?thesis using rel_publish [of send now d sent n d1] by simp
  qed (use publish in simp)
qed

lemma rel_run:
  assumes "run env policy ops rf directory s es s'" "system_ok env (fst s)" "gzip_ok env" "0 < cf_issuance_chunk_size (en_settings env)"
  shows "R (fst s) (fst s')"
  using assms
proof (induction rule: run.induct)
  case (more s es t e u)
  have "system_ok env (fst t)" by (rule run_ok [OF more(1) more(4-6)])
  then have "R (fst t) (fst u)" by (rule rel_step [OF more(2) _ more(6)])
  with more rel_trans show ?case by blast
qed simp

end

end
