(* ===== verification/History.thy ===== *)
theory History
  imports Relations "HOL-Library.Sublist"
begin

section \<open>Evidence is never rewritten\<close>

text \<open>
  The triggers of \<open>migrations/versions/0001_initial.py\<close> that reject every UPDATE and DELETE on nine tables. A change of
  such a table that only inserts leaves the earlier rows as they are, in their order, in front of the new ones. The
  service never does anything else, so the triggers never stop it.
\<close>

text \<open>What the trigger lets through, for one table.\<close>

definition only_inserts :: "'a list \<Rightarrow> 'a list \<Rightarrow> bool" where
  "only_inserts old new = prefix old new"

text \<open>The tables it is created for.\<close>

definition append_only :: "db \<Rightarrow> db \<Rightarrow> bool" where
  "append_only d d' =
    (only_inserts (db_audit_events d) (db_audit_events d') \<and>
     only_inserts (db_approvals d) (db_approvals d') \<and>
     only_inserts (db_payment_receipts d) (db_payment_receipts d') \<and>
     only_inserts (db_journals d) (db_journals d') \<and>
     only_inserts (db_ledger_entries d) (db_ledger_entries d') \<and>
     only_inserts (db_idempotency_records d) (db_idempotency_records d') \<and>
     only_inserts (db_processed_events d) (db_processed_events d') \<and>
     only_inserts (db_inspections d) (db_inspections d') \<and>
     only_inserts (db_verifications d) (db_verifications d'))"

lemmas append_only_iff = append_only_def only_inserts_def

lemma append_only_refl [simp]: "append_only d d"
  by (simp add: append_only_iff)

lemma append_only_trans: "append_only d d1 \<Longrightarrow> append_only d1 d2 \<Longrightarrow> append_only d d2"
  unfolding append_only_iff by (meson prefix_order.trans)

text \<open>A change that leaves them alone, but for new processed events.\<close>

lemma history_goods:
  assumes "same_core d d'" "db_audit_events d' = db_audit_events d" "db_idempotency_records d' = db_idempotency_records d"
    "db_processed_events d' = db_processed_events d @ pes"
  shows "append_only d d'"
  using assms by (simp add: append_only_iff same_core_def)

subsection \<open>Records kept beside the business tables\<close>

lemma history_audit: "audit_record env now event_type payload d = Inr (ev, d') \<Longrightarrow> append_only d d'"
  by (drule audit_record_rows(1)) (simp add: append_only_iff)

lemma history_enqueue: "enqueue env now event_type resource pid role corr d = Inr (msg, d') \<Longrightarrow> append_only d d'"
  by (erule enqueue_effect) (simp add: append_only_iff)

lemma history_idempotency: "insert_idempotency_record row d = Inr d' \<Longrightarrow> append_only d d'"
  by (drule insert_idempotency_record_ok) (simp add: append_only_iff)

subsection \<open>Services\<close>

lemma history_create_assessment:
  assumes "create_assessment now dc sub key on_date d = Inr (a, d')" shows "append_only d d'"
proof (cases "key \<in> as_idempotency_key ` set (db_assessments d)")
  case True
  then have "find (\<lambda>a. as_idempotency_key a = key) (db_assessments d) \<noteq> None" by (auto simp: find_None_set)
  with assms have "d' = d" by (auto simp: create_assessment_def)
  then show ?thesis by simp
next
  case False
  with create_assessment_effect [OF assms] show ?thesis by (auto simp: append_only_iff)
qed

lemma history_decision:
  assumes "record_decision now i who decision reason d = Inr (a', d')" shows "append_only d d'"
  using record_decision_effect [OF assms] by (auto simp: append_only_iff)

lemma history_create_intent:
  assumes "create_intent s now a d = Inr (p, d')" shows "append_only d d'"
proof (cases "find (\<lambda>p. pi_assessment_id p = as_id a) (db_payment_intents d)")
  case None
  then have none: "as_id a \<notin> pi_assessment_id ` set (db_payment_intents d)" by (auto simp: find_None_set)
  from create_intent_effect [OF assms none]
  have "d' = d\<lparr>db_payment_intents := db_payment_intents d @ [p],
      db_assessments := update_where (\<lambda>x. as_id x = as_id a) (\<lambda>x. x\<lparr>as_status := AS_PAYMENT_PENDING\<rparr>) (db_assessments d),
      db_next_uuid := Suc (db_next_uuid d)\<rparr>" by blast
  then show ?thesis by (simp add: append_only_iff)
next
  case (Some x)
  with assms show ?thesis by (simp add: create_intent_def split: if_splits)
qed

lemma history_receipt:
  assumes "record_receipt now i ref amount currency d = Inr (r, d')" shows "append_only d d'"
  using record_receipt_cases [OF assms]
  by (auto simp: receipt_replayed_def receipt_quarantined_def receipt_applied_def append_only_iff)

lemma history_create_batch:
  assumes "create_batch now a d = Inr (b, d')" "system_ok env d" "a \<in> set (db_assessments d)" shows "append_only d d'"
  using create_batch_effect [OF assms(1) system_okD(5) [OF assms(2)] assms(3)] by (auto simp: append_only_iff)

lemma history_issue_chunk:
  assumes "issue_chunk env now i chunk d = Inr (n, d')" "system_ok env d" shows "append_only d d'"
  using assms(1) system_okD(9) [OF assms(2)] by (cases rule: issue_chunk_effect) (simp_all add: append_only_iff)

lemma history_finalize:
  assumes "finalize_batch env now i who d = Inr (b, d')" shows "append_only d d'"
  using finalize_batch_effect [OF assms] by (auto simp: append_only_iff)

lemma history_inspection:
  assumes "record_inspection now i defectives who d = Inr (row, d')" shows "append_only d d'"
  using record_inspection_effect [OF assms] by (auto simp: append_only_iff)

lemma history_activate:
  assumes "activate_batch env now i who d = Inr (n, d')" shows "append_only d d'"
  using activate_batch_effect [OF assms] by (auto simp: append_only_iff)

lemma history_void:
  assumes "void_stamp env now serial reason who d = Inr (s', d')" shows "append_only d d'"
  using assms
proof (cases rule: void_stamp_cases)
  case (voided s d1 d2 m k)
  obtain rows where "d2 = d1\<lparr>db_status_list_snapshots := rows\<rparr>" by (rule set_flag_fields [OF voided(6)])
  then show ?thesis by (simp add: voided(5,7) append_only_iff)
qed simp

lemma history_verify:
  assumes "verify_stamp env now serial sc sls d = Inr (r, d')" shows "append_only d d'"
  using assms by (cases rule: verify_stamp_cases) (simp_all add: append_only_iff)

subsection \<open>Runs\<close>

interpretation history: service_relation env append_only for env :: "'sk env"
proof
  show "append_only d f" if "append_only d e" "append_only e f" for d e f
    using that by (rule append_only_trans)
qed (erule history_audit history_enqueue history_idempotency history_goods history_create_assessment history_decision history_create_intent
    history_receipt history_create_batch history_issue_chunk history_finalize history_inspection history_activate history_void history_verify
    | simp)+

text \<open>C6: Evidence is never rewritten. Whatever requests, scans, messages and publishing runs a consistent database goes
  through, the rows of the nine tables the append-only triggers guard - audit events, approvals, receipts, journals,
  ledger entries, idempotency records, processed events, inspections and scans - stay as they are and in their order,
  so the triggers never stop the service.\<close>

theorem evidence_append_only:
  assumes "run env policy ops rf directory s es s'" "system_ok env (fst s)" "gzip_ok env" "0 < cf_issuance_chunk_size (en_settings env)"
  shows "append_only (fst s) (fst s')"
  by (rule history.rel_run [OF assms])

end
