(* ===== verification/Lifecycle.thy ===== *)
theory Lifecycle
  imports Relations
begin

section \<open>The life of a stamp\<close>

text \<open>
  The specification of the module header of \<open>src/taxstamps/services/verification.py\<close> as a machine for one stamp: its
  status and the evidence of its first scan. The service refines it: whatever happens to the database, every stamp stays
  what it was issued as and moves only along the steps of the machine.
\<close>

type_synonym evidence = "datetime \<times> string \<times> int option \<times> int option"

inductive life :: "stamp_status \<times> evidence option \<Rightarrow> stamp_status \<times> evidence option \<Rightarrow> bool" where
  activated: "life (SS_ISSUED, None) (SS_ACTIVE, None)"
| scanned: "life (SS_ACTIVE, None) (SS_CONSUMED, Some e)"
| cloned: "st \<in> {SS_CONSUMED, SS_SUSPECT} \<Longrightarrow> life (st, Some e) (SS_SUSPECT, Some e)"
| voided: "st \<noteq> SS_VOID \<Longrightarrow> life (st, e) (SS_VOID, e)"

inductive_cases life_voidE: "life (SS_VOID, e) x"
inductive_cases life_scannedE: "life (st, Some e) x"

definition evidence_of :: "stamp \<Rightarrow> evidence option" where
  "evidence_of s = map_option (\<lambda>at. (at, st_first_scan_verifier s, st_first_scan_lat_micros s, st_first_scan_long_micros s)) (st_first_scan_at s)"

definition life_of :: "stamp \<Rightarrow> stamp_status \<times> evidence option" where
  "life_of s = (st_status s, evidence_of s)"

text \<open>The same stamp, later: what was printed on it and signed into its credential has not changed.\<close>

definition same_stamp :: "stamp \<Rightarrow> stamp \<Rightarrow> bool" where
  "same_stamp s s' = (s' = s\<lparr>st_status := st_status s', st_activated_at := st_activated_at s', st_first_scan_at := st_first_scan_at s',
     st_first_scan_verifier := st_first_scan_verifier s', st_first_scan_lat_micros := st_first_scan_lat_micros s',
     st_first_scan_long_micros := st_first_scan_long_micros s'\<rparr>)"

definition lives :: "stamp \<Rightarrow> stamp \<Rightarrow> bool" where
  "lives s s' = (same_stamp s s' \<and> life\<^sup>*\<^sup>* (life_of s) (life_of s'))"

definition lives_on :: "db \<Rightarrow> db \<Rightarrow> bool" where
  "lives_on d d' =
    ((\<forall>s \<in> set (db_stamps d). \<exists>s' \<in> set (db_stamps d'). lives s s') \<and>
     (\<forall>s' \<in> set (db_stamps d'). (\<exists>s \<in> set (db_stamps d). lives s s') \<or> life\<^sup>*\<^sup>* (SS_ISSUED, None) (life_of s')))"

subsection \<open>The machine\<close>

lemma void_stays: "life\<^sup>*\<^sup>* (SS_VOID, e) x \<Longrightarrow> x = (SS_VOID, e)"
  by (induction rule: rtranclp_induct) (auto elim: life_voidE)

lemma evidence_stays: "life\<^sup>*\<^sup>* (st, Some e) x \<Longrightarrow> snd x = Some e \<and> fst x \<in> {st, SS_SUSPECT, SS_VOID}"
proof (induction rule: rtranclp_induct)
  case (step x y)
  then show ?case by (cases x) (auto elim: life_scannedE)
qed simp

lemma lives_refl [simp]: "lives s s"
  by (simp add: lives_def same_stamp_def)

lemma lives_trans:
  assumes "lives s t" "lives t u" shows "lives s u"
proof -
  have st: "same_stamp s t" "same_stamp t u" and l: "life\<^sup>*\<^sup>* (life_of s) (life_of u)"
    using assms by (auto simp: lives_def)
  have "same_stamp s u" using st unfolding same_stamp_def by (cases s; cases t; cases u) simp
  with l show ?thesis by (simp add: lives_def)
qed

lemma lives_on_trans:
  assumes "lives_on d e" "lives_on e f" shows "lives_on d f"
proof -
  have "\<exists>s'' \<in> set (db_stamps f). lives s s''" if "s \<in> set (db_stamps d)" for s
    using assms that lives_trans unfolding lives_on_def by meson
  moreover have "(\<exists>s \<in> set (db_stamps d). lives s s'') \<or> life\<^sup>*\<^sup>* (SS_ISSUED, None) (life_of s'')" if s'': "s'' \<in> set (db_stamps f)" for s''
  proof -
    have "(\<exists>s' \<in> set (db_stamps e). lives s' s'') \<or> life\<^sup>*\<^sup>* (SS_ISSUED, None) (life_of s'')"
      using assms(2) s'' unfolding lives_on_def by blast
    then show ?thesis
    proof (elim disjE bexE)
      fix s' assume s': "s' \<in> set (db_stamps e)" "lives s' s''"
      then have "(\<exists>s \<in> set (db_stamps d). lives s s') \<or> life\<^sup>*\<^sup>* (SS_ISSUED, None) (life_of s')"
        using assms(1) unfolding lives_on_def by blast
      then show ?thesis using s'(2) lives_trans rtranclp_trans [of life "(SS_ISSUED, None)" "life_of s'" "life_of s''"]
        unfolding lives_def by blast
    qed blast
  qed
  ultimately show ?thesis by (simp add: lives_on_def)
qed

subsection \<open>Operations\<close>

lemma lives_on_same: "db_stamps d' = db_stamps d \<Longrightarrow> lives_on d d'"
  using lives_refl by (simp only: lives_on_def) blast

lemma lives_on_core: "same_core d d' \<Longrightarrow> lives_on d d'"
  by (simp add: same_core_def lives_on_same)

lemma lives_on_update:
  assumes "db_stamps d' = update_where P f (db_stamps d)" "\<And>s. s \<in> set (db_stamps d) \<Longrightarrow> P s \<Longrightarrow> lives s (f s)"
  shows "lives_on d d'"
proof -
  let ?g = "\<lambda>s. if P s then f s else s"
  have e: "set (db_stamps d') = ?g ` set (db_stamps d)" by (simp add: assms(1) update_where_def)
  have "lives s (?g s)" if "s \<in> set (db_stamps d)" for s using assms(2) that by simp
  then show ?thesis unfolding lives_on_def e by blast
qed

lemma lives_on_append:
  assumes "db_stamps d' = db_stamps d @ ss" "\<And>s. s \<in> set ss \<Longrightarrow> life_of s = (SS_ISSUED, None)"
  shows "lives_on d d'"
proof -
  have "life\<^sup>*\<^sup>* (SS_ISSUED, None) (life_of s)" if "s \<in> set ss" for s using assms(2) that by simp
  then show ?thesis unfolding lives_on_def assms(1) set_append using lives_refl by blast
qed

text \<open>One step of one stamp.\<close>

lemma lives_step:
  assumes "life (life_of s) (life_of s')" "same_stamp s s'" shows "lives s s'"
  using assms by (simp add: lives_def)

lemma system_scan:
  assumes "system_ok env d" "s \<in> set (db_stamps d)" shows "scan_ok (db_verifications d) s"
  using system_okD(6) [OF assms(1)] assms(2) by (simp add: field_ok_def scans_ok_def list_all_iff)

lemma system_unique:
  assumes "system_ok env d" "s \<in> set (db_stamps d)" "t \<in> set (db_stamps d)" "st_id s = st_id t" shows "s = t"
  using unique_row [OF system_okD(10) [OF assms(1)] assms(2,3)] assms(4) by simp

lemma life_chunk:
  assumes "issue_chunk env now i chunk d = Inr (n, d')" "system_ok env d" shows "lives_on d d'"
  using assms(1) system_okD(9) [OF assms(2)]
proof (cases rule: issue_chunk_effect)
  case (issued b a c ss rows k)
  show ?thesis
  proof (rule lives_on_append [of _ _ ss])
    fix s assume "s \<in> set ss"
    then obtain j where "issued_stamp env c j s" using issued_run_all [OF issued(11)] by blast
    then show "life_of s = (SS_ISSUED, None)" by (simp add: issued_stamp_def life_of_def evidence_of_def)
  qed (simp add: issued(14))
qed (simp_all add: lives_on_same)

lemma life_activate:
  assumes "activate_batch env now i who d = Inr (n, d')" "system_ok env d" shows "lives_on d d'"
proof -
  have "db_stamps d' = update_where (\<lambda>s. st_batch_id s = i \<and> st_status s = SS_ISSUED)
        (\<lambda>s. s\<lparr>st_status := SS_ACTIVE, st_activated_at := Some now\<rparr>) (db_stamps d)"
    using activate_batch_effect [OF assms(1)] by auto
  then show ?thesis
  proof (rule lives_on_update)
    fix s assume s: "s \<in> set (db_stamps d)" "st_batch_id s = i \<and> st_status s = SS_ISSUED"
    have "st_first_scan_at s = None" using system_scan [OF assms(2) s(1)] s(2) by (simp add: scan_ok_def split: option.splits)
    with s(2) show "lives s (s\<lparr>st_status := SS_ACTIVE, st_activated_at := Some now\<rparr>)"
      by (intro lives_step) (simp_all add: life_of_def evidence_of_def same_stamp_def life.activated)
  qed
qed

lemma life_void:
  assumes "void_stamp env now serial reason who d = Inr (s', d')" "system_ok env d" shows "lives_on d d'"
  using assms(1)
proof (cases rule: void_stamp_cases)
  case (voided s d1 d2 m k)
  obtain rows where d2: "d2 = d1\<lparr>db_status_list_snapshots := rows\<rparr>" by (rule set_flag_fields [OF voided(6)])
  have s: "s \<in> set (db_stamps d)" using find_stamp_Some [OF voided(1)] by simp
  show ?thesis
  proof (rule lives_on_update [where P = "\<lambda>x. st_id x = st_id s" and f = "\<lambda>x. x\<lparr>st_status := SS_VOID\<rparr>"])
    fix x assume x: "x \<in> set (db_stamps d)" "st_id x = st_id s"
    have "x = s" by (rule system_unique [OF assms(2) x(1) s x(2)])
    with voided(2) show "lives x (x\<lparr>st_status := SS_VOID\<rparr>)"
      by (intro lives_step) (simp_all add: life_of_def evidence_of_def same_stamp_def life.voided)
  qed (simp add: voided(5,7) d2)
qed (simp add: lives_on_same)

lemma life_verify:
  assumes "verify_stamp env now serial sc sls d = Inr (r, d')" "system_ok env d" shows "lives_on d d'"
  using assms(1)
proof (cases rule: verify_stamp_cases)
  case (suspect s v d1 rows)
  have s: "s \<in> set (db_stamps d)" using find_stamp_Some [OF suspect(6)] by simp
  have ok: "scan_ok (db_verifications d) s" by (rule system_scan [OF assms(2) s])
  obtain at where seen: "st_first_scan_at s = Some at" "st_status s \<in> {SS_CONSUMED, SS_SUSPECT}"
    using ok suspect(7,9) by (auto simp: scan_ok_def split: option.splits)
  show ?thesis
  proof (rule lives_on_update [where P = "\<lambda>x. st_id x = st_id s" and f = "\<lambda>x. x\<lparr>st_status := SS_SUSPECT\<rparr>"])
    fix x assume x: "x \<in> set (db_stamps d)" "st_id x = st_id s"
    have "x = s" by (rule system_unique [OF assms(2) x(1) s x(2)])
    with seen show "lives x (x\<lparr>st_status := SS_SUSPECT\<rparr>)"
      by (intro lives_step) (simp_all add: life_of_def evidence_of_def same_stamp_def life.cloned)
  qed (simp add: suspect(3,5))
next
  case (consumed s v m k)
  have s: "s \<in> set (db_stamps d)" using find_stamp_Some [OF consumed(6)] by simp
  show ?thesis
  proof (rule lives_on_update [where P = "\<lambda>x. st_id x = st_id s" and f = "marked now sc"])
    fix x assume x: "x \<in> set (db_stamps d)" "st_id x = st_id s"
    have "x = s" by (rule system_unique [OF assms(2) x(1) s x(2)])
    with consumed(7,9) show "lives x (marked now sc x)"
      by (intro lives_step) (simp_all add: life_of_def evidence_of_def same_stamp_def marked_def life.scanned)
  qed (simp add: consumed(3))
qed (simp add: lives_on_same)

text \<open>The others touch no stamp.\<close>

lemma life_audit: "audit_record env now event_type payload d = Inr (ev, d') \<Longrightarrow> lives_on d d'"
  by (drule audit_record_rows(1)) (simp add: lives_on_same)

lemma life_enqueue: "enqueue env now event_type resource pid role corr d = Inr (msg, d') \<Longrightarrow> lives_on d d'"
  by (erule enqueue_effect) (simp add: lives_on_same)

lemma life_idempotency: "insert_idempotency_record row d = Inr d' \<Longrightarrow> lives_on d d'"
  by (drule insert_idempotency_record_ok) (simp add: lives_on_same)

lemma life_assessment:
  assumes "create_assessment now dc sub key on_date d = Inr (a, d')" shows "lives_on d d'"
proof (cases "key \<in> as_idempotency_key ` set (db_assessments d)")
  case True
  then have "find (\<lambda>a. as_idempotency_key a = key) (db_assessments d) \<noteq> None" by (auto simp: find_None_set)
  with assms have "d' = d" by (auto simp: create_assessment_def)
  then show ?thesis by (simp add: lives_on_same)
next
  case False
  with create_assessment_effect [OF assms] show ?thesis by (auto intro: lives_on_same)
qed

lemma life_decision: "record_decision now i who decision reason d = Inr (a', d') \<Longrightarrow> lives_on d d'"
  by (drule record_decision_effect) (auto intro: lives_on_same)

lemma life_intent:
  assumes "create_intent s now a d = Inr (p, d')" shows "lives_on d d'"
proof (cases "find (\<lambda>p. pi_assessment_id p = as_id a) (db_payment_intents d)")
  case None
  then have none: "as_id a \<notin> pi_assessment_id ` set (db_payment_intents d)" by (auto simp: find_None_set)
  from create_intent_effect [OF assms none] have "db_stamps d' = db_stamps d" by auto
  then show ?thesis by (rule lives_on_same)
next
  case (Some x)
  with assms have "d' = d" by (simp add: create_intent_def split: if_splits)
  then show ?thesis by (simp add: lives_on_same)
qed

lemma life_receipt: "record_receipt now i ref amount currency d = Inr (r, d') \<Longrightarrow> lives_on d d'"
  by (drule record_receipt_cases)
    (auto simp: receipt_replayed_def receipt_quarantined_def receipt_applied_def intro!: lives_on_same)

lemma life_batch:
  assumes "create_batch now a d = Inr (b, d')" "system_ok env d" "a \<in> set (db_assessments d)" shows "lives_on d d'"
  using create_batch_effect [OF assms(1) system_okD(5) [OF assms(2)] assms(3)] by (auto intro: lives_on_same)

lemma life_finalize: "finalize_batch env now i who d = Inr (b, d') \<Longrightarrow> lives_on d d'"
  by (drule finalize_batch_effect) (auto intro: lives_on_same)

lemma life_inspection: "record_inspection now i defectives who d = Inr (row, d') \<Longrightarrow> lives_on d d'"
  by (drule record_inspection_effect) (auto intro: lives_on_same)

interpretation life: service_relation env lives_on for env :: "'sk env"
proof
  show "lives_on d d" for d by (rule lives_on_same) simp
  show "lives_on d f" if "lives_on d e" "lives_on e f" for d e f
    using that by (rule lives_on_trans)
qed (erule life_audit life_enqueue life_idempotency lives_on_core life_assessment life_decision life_intent life_receipt life_finalize
    life_inspection | erule (2) life_batch | erule (1) life_chunk life_activate life_void life_verify)+

subsection \<open>Runs\<close>

text \<open>C5: Every stamp refines the machine of its life. Whatever requests, scans, messages and publishing runs a consistent
  database goes through, a stamp is still there afterwards - the same serial, credential, batch, duty and validity -
  and its status and first-scan evidence have moved along the machine's steps, while a stamp that is new has moved
  along them from being issued.\<close>

theorem stamps_refine_life:
  assumes "run env policy ops rf directory s es s'" "system_ok env (fst s)" "gzip_ok env" "0 < cf_issuance_chunk_size (en_settings env)"
  shows "(\<forall>st \<in> set (db_stamps (fst s)). \<exists>st' \<in> set (db_stamps (fst s')). same_stamp st st' \<and> life\<^sup>*\<^sup>* (life_of st) (life_of st')) \<and>
    (\<forall>st' \<in> set (db_stamps (fst s')). (\<exists>st \<in> set (db_stamps (fst s)). same_stamp st st' \<and> life\<^sup>*\<^sup>* (life_of st) (life_of st')) \<or>
       life\<^sup>*\<^sup>* (SS_ISSUED, None) (life_of st'))"
  using life.rel_run [OF assms] unfolding lives_on_def lives_def .

text \<open>C4: First scan wins and void is final, for good. Whatever happens after a stamp was first scanned, its evidence - time,
  device and place - stays and it is consumed, suspect or void: it is never active again, so no later scan of it is
  valid. Whatever happens after a stamp was voided, it stays void.\<close>

theorem scanned_and_void_forever:
  assumes "run env policy ops rf directory s es s'" "system_ok env (fst s)" "gzip_ok env" "0 < cf_issuance_chunk_size (en_settings env)"
    and "st \<in> set (db_stamps (fst s))"
  shows "\<exists>st' \<in> set (db_stamps (fst s')). st_serial st' = st_serial st \<and> st_credential st' = st_credential st \<and>
    (st_first_scan_at st \<noteq> None \<longrightarrow> st_status st' \<in> {SS_CONSUMED, SS_SUSPECT, SS_VOID} \<and> st_first_scan_at st' = st_first_scan_at st \<and>
       st_first_scan_verifier st' = st_first_scan_verifier st \<and> st_first_scan_lat_micros st' = st_first_scan_lat_micros st \<and>
       st_first_scan_long_micros st' = st_first_scan_long_micros st) \<and>
    (st_status st = SS_VOID \<longrightarrow> st_status st' = SS_VOID)"
proof -
  obtain st' where st': "st' \<in> set (db_stamps (fst s'))" "same_stamp st st'" "life\<^sup>*\<^sup>* (life_of st) (life_of st')"
    using life.rel_run [OF assms(1-4)] assms(5) unfolding lives_on_def lives_def by blast
  have same: "st_serial st' = st_serial st" "st_credential st' = st_credential st"
    using arg_cong [OF st'(2) [unfolded same_stamp_def], of st_serial] arg_cong [OF st'(2) [unfolded same_stamp_def], of st_credential]
    by simp_all
  have void: "st_status st' = SS_VOID" if "st_status st = SS_VOID"
    using void_stays [of "evidence_of st" "life_of st'"] st'(3) that by (simp add: life_of_def)
  have seen: "st_status st' \<in> {SS_CONSUMED, SS_SUSPECT, SS_VOID} \<and> st_first_scan_at st' = st_first_scan_at st \<and>
       st_first_scan_verifier st' = st_first_scan_verifier st \<and> st_first_scan_lat_micros st' = st_first_scan_lat_micros st \<and>
       st_first_scan_long_micros st' = st_first_scan_long_micros st" if at: "st_first_scan_at st = Some at" for at
  proof -
    let ?e = "(at, st_first_scan_verifier st, st_first_scan_lat_micros st, st_first_scan_long_micros st)"
    have l: "life_of st = (st_status st, Some ?e)" by (simp add: life_of_def evidence_of_def at)
    have "st_status st \<in> {SS_CONSUMED, SS_SUSPECT, SS_VOID}"
      using system_scan [OF assms(2,5)] by (simp add: scan_ok_def at)
    moreover have "snd (life_of st') = Some ?e \<and> fst (life_of st') \<in> {st_status st, SS_SUSPECT, SS_VOID}"
      by (rule evidence_stays [OF st'(3) [unfolded l]])
    ultimately show ?thesis by (auto simp: life_of_def evidence_of_def at)
  qed
  show ?thesis using st'(1) same void seen by (intro bexI [of _ st']) auto
qed

subsection \<open>Voided stamps\<close>

lemma lives_void:
  assumes "lives s s'" "st_status s = SS_VOID" shows "st_serial s' = st_serial s" "st_status s' = SS_VOID"
proof -
  have same: "same_stamp s s'" and l: "life\<^sup>*\<^sup>* (SS_VOID, evidence_of s) (life_of s')"
    using assms by (simp_all add: lives_def life_of_def)
  show "st_serial s' = st_serial s" using arg_cong [OF same [unfolded same_stamp_def], of st_serial] by simp
  show "st_status s' = SS_VOID" using void_stays [OF l] by (simp add: life_of_def)
qed

lemma void_request:
  assumes "step env policy ops rf directory t (Request ident (Void serial reason) (Inr resp)) u" "system_ok env (fst t)"
  obtains st where "st \<in> set (db_stamps (fst u))" "st_serial st = upper (strip serial)" "st_status st = SS_VOID"
  using assms(1)
proof cases
  case (request clock now d d' r)
  then have "void_stamp_route env policy now ident serial reason d = Inr (resp, d')" by (auto simp: answer_def split: sum.splits)
  then obtain s1 d1 ev where v: "void_stamp env now serial reason (subject_of ident) d = Inr (s1, d1)"
    and a: "audit_commit env now ''stamp.voided'' ev (JObj [(ucs_of ''serial'', jstr (st_serial s1)),
      (ucs_of ''status'', jstr (stamp_status_text (st_status s1)))]) d1 = Inr (resp, d')"
    by (auto simp: void_stamp_route_def rbind_eq_Inr map_error_eq_Inr)
  have ok: "system_ok env d" using assms(2) request by simp
  note s1 = voided_stamp [OF v system_okD(5) [OF ok]]
  have "s1 \<in> set (db_stamps d1)" "st_serial s1 = upper (strip serial)" using s1 find_stamp_Some by blast+
  moreover have "\<exists>s' \<in> set (db_stamps d'). lives s1 s'"
    using life.rel_audit_commit [OF a] calculation(1) unfolding lives_on_def by blast
  ultimately obtain s' where s': "s' \<in> set (db_stamps d')" "lives s1 s'" "st_serial s1 = upper (strip serial)" by blast
  with lives_void [OF s'(2)] s1 request show ?thesis using that by simp
qed

text \<open>C10: A void is final: once a request to void a serial was answered, then in whatever state the service is later, after
  whatever requests, scans, messages and publishing runs, the stamp is void, its index is flagged in the published void
  list, and every scan of the serial, however it is written, by whom and with what credential ever, answers \<open>void\<close> and
  changes no stamp.\<close>

theorem void_is_final:
  assumes "run env policy ops rf directory s es s'" "system_ok env (fst s)" "gzip_ok env" "0 < cf_issuance_chunk_size (en_settings env)"
    and "Request ident (Void serial reason) (Inr resp) \<in> set es"
  shows "\<exists>st. find_stamp (fst s') (upper (strip serial)) = Some st \<and> st_status st = SS_VOID \<and>
    flagged env (fst s') ''void'' (st_status_list_index st) \<and>
    (\<forall>now serial' sc sls r d'. upper (strip serial') = upper (strip serial) \<and> verify_stamp env now serial' sc sls (fst s') = Inr (r, d') \<longrightarrow>
       re_outcome r = O_void \<and> db_stamps d' = db_stamps (fst s'))"
proof -
  obtain es1 es2 t u where cut: "run env policy ops rf directory s es1 t" "run env policy ops rf directory u es2 s'"
    "step env policy ops rf directory t (Request ident (Void serial reason) (Inr resp)) u" by (rule run_event [OF assms(1,5)])
  have t: "system_ok env (fst t)" by (rule run_ok [OF cut(1) assms(2-4)])
  have u: "system_ok env (fst u)" by (rule run_ok [OF _ t assms(3,4)]) (rule run.more [OF run.start cut(3)])
  have s': "system_ok env (fst s')" by (rule run_ok [OF cut(2) u assms(3,4)])
  obtain st where st: "st \<in> set (db_stamps (fst u))" "st_serial st = upper (strip serial)" "st_status st = SS_VOID"
    by (rule void_request [OF cut(3) t])
  obtain st' where st': "st' \<in> set (db_stamps (fst s'))" "lives st st'"
    using life.rel_run [OF cut(2) u assms(3,4)] st(1) unfolding lives_on_def by blast
  have void: "st_status st' = SS_VOID" and serial: "st_serial st' = upper (strip serial)"
    using lives_void [OF st'(2) st(3)] st(2) by simp_all
  note ok = system_okD(5,6) [OF s']
  have "stamps_distinct (db_stamps (fst s'))" using ok(1) by (simp add: issuance_ok_def)
  from find_serial [OF this st'(1)] have "find_stamp (fst s') (upper (strip serial)) = Some st'" by (simp add: serial)
  moreover have "re_outcome r = O_void \<and> db_stamps d' = db_stamps (fst s')"
    if "upper (strip serial') = upper (strip serial) \<and> verify_stamp env now serial' sc sls (fst s') = Inr (r, d')" for now serial' sc sls r d'
    using that void_scan [OF ok(1) st'(1) void, of serial' env now sc sls r d'] serial by simp
  ultimately show ?thesis using void void_flagged [OF ok(2) st'(1) void] by blast
qed

end
