(* ===== verification/Retries.thy ===== *)
theory Retries
  imports Steps
begin

section \<open>Retried requests\<close>

text \<open>
  The two requests that take an idempotency key (\<open>api/routes_flow.py\<close>, \<open>api/deps.py\<close>): once one of them has been
  answered, repeating it is answered from the stored record.
\<close>

lemma stored_record:
  assumes "store_idempotency env now (Some k) sub body status resp d = Inr d'" "k \<noteq> []" "find_idempotency d k sub = None"
  obtains rec where "find_idempotency d' k sub = Some rec" "id_request_hash rec = request_hash (en_sha256 env) body" "id_response_body rec = resp"
proof -
  let ?row = "\<lparr>id_key = k, id_principal_sub = sub, id_request_hash = request_hash (en_sha256 env) body,
            id_response_status = status, id_response_body = resp, id_created_at = now\<rparr>"
  have "insert_idempotency_record ?row d = Inr d'" using assms(1,2) by (simp add: store_idempotency_def)
  then have "d' = d\<lparr>db_idempotency_records := db_idempotency_records d @ [?row]\<rparr>" by (rule insert_idempotency_record_ok)
  with assms(3) show ?thesis by (intro that [of ?row]) (simp_all add: find_idempotency_def find_snoc)
qed

lemma replay_answers:
  assumes "find_idempotency d k sub = Some rec" "k \<noteq> []"
  shows "idempotent_replay env (Some k) sub body d =
    (if id_request_hash rec = request_hash (en_sha256 env) body then Inr (Some rec) else Inl (HTTPException 409 ''idempotency-conflict''))"
  using assms by (simp add: idempotent_replay_def)

lemma replay_SomeD:
  assumes "idempotent_replay env (Some k) sub body d = Inr (Some rec)"
  shows "find_idempotency d k sub = Some rec" "id_request_hash rec = request_hash (en_sha256 env) body"
  using assms by (auto simp: idempotent_replay_def split: if_splits option.splits)

lemma replay_NoneD:
  assumes "idempotent_replay env (Some k) sub body d = Inr None" "k \<noteq> []"
  shows "find_idempotency d k sub = None"
  using assms by (auto simp: idempotent_replay_def split: if_splits option.splits)

lemma commit_same: "commit d = Inr d' \<Longrightarrow> d' = d"
  by (simp add: commit_def split: if_splits)

text \<open>The records table under the steps before the record is stored.\<close>

lemma records_audit: "audit_record env now et p d = Inr (ev, d') \<Longrightarrow> db_idempotency_records d' = db_idempotency_records d"
  by (drule audit_record_rows(1)) simp

lemma records_enqueue: "enqueue env now et r pid role corr d = Inr (m, d') \<Longrightarrow> db_idempotency_records d' = db_idempotency_records d"
  by (erule enqueue_effect) simp

lemma records_lines: "declared_lines u ls d = Inr d' \<Longrightarrow> db_idempotency_records d' = db_idempotency_records d"
proof (induction ls arbitrary: d)
  case (Cons l ls)
  obtain w d1 where w: "uuid4 d = (w, d1)" by fastforce
  obtain d2 row where d2: "insert_declaration_line row d1 = Inr d2" "declared_lines u ls d2 = Inr d'"
    using Cons.prems by (auto simp: w rbind_eq_Inr)
  then show ?case using Cons.IH uuid4_fields [OF w] insert_declaration_line_ok [OF d2(1)] by simp
qed simp

lemma records_declare:
  assumes "declare_goods env now subject body d = Inr d'"
  shows "db_idempotency_records d' = db_idempotency_records d"
proof -
  obtain u d0 where u: "uuid4 d = (u, d0)" by fastforce
  obtain dc d1 d2 where d: "insert_declaration dc d0 = Inr d1" "declared_lines u (di_lines body) d1 = Inr d2"
    and ev: "\<exists>p ev. audit_record env now ''declaration.received'' p d2 = Inr (ev, d')"
    using assms by (fastforce simp: declare_goods_def u rbind_eq_Inr Let_def)
  obtain p ev where "audit_record env now ''declaration.received'' p d2 = Inr (ev, d')" using ev by blast
  then show ?thesis using records_audit records_lines [OF d(2)] insert_declaration_ok [OF d(1)] uuid4_fields [OF u] by fastforce
qed

lemma records_assess:
  assumes "assess_declaration env now subject key dc d = Inr (a, d')"
  shows "db_idempotency_records d' = db_idempotency_records d"
proof -
  have created: "db_idempotency_records d1 = db_idempotency_records d" if c: "create_assessment now dc subject key None d = Inr (a, d1)" for a d1
  proof (cases "key \<in> as_idempotency_key ` set (db_assessments d)")
    case True
    then have "find (\<lambda>a. as_idempotency_key a = key) (db_assessments d) \<noteq> None" by (auto simp: find_None_set)
    with c show ?thesis by (auto simp: create_assessment_def)
  next
    case False
    with create_assessment_effect [OF c] show ?thesis by auto
  qed
  show ?thesis
    using assms unfolding assess_declaration_def
    by (elim runE) (hypsubst, drule created, drule records_audit, drule records_enqueue, simp)
qed

lemma find_idempotency_same: "db_idempotency_records d' = db_idempotency_records d \<Longrightarrow> find_idempotency d' k sub = find_idempotency d k sub"
  by (simp add: find_idempotency_def)

text \<open>An answered request has left a record of its answer.\<close>

lemma declared_recorded:
  assumes "create_declaration_route env policy now ident (Some k) body d = Inr (resp, d')" "k \<noteq> []"
  obtains rec where "find_idempotency d' k (subject_of ident) = Some rec" "id_response_body rec = resp"
    "id_request_hash rec = request_hash (en_sha256 env) (declaration_dump body)"
    "require_policy policy ident ''assessment'' ''create'' ''INTERNAL'' = Inr ()"
proof -
  obtain u replay where p: "require_policy policy ident ''assessment'' ''create'' ''INTERNAL'' = Inr u"
    and r: "idempotent_replay env (Some k) (subject_of ident) (declaration_dump body) d = Inr replay"
    using assms(1) unfolding create_declaration_route_def by (elim rbindE)
  show ?thesis
  proof (cases replay)
    case (Some rec)
    with assms(1) p r have "d' = d" "resp = id_response_body rec" by (simp_all add: create_declaration_route_def)
    with Some replay_SomeD [of env k "subject_of ident" "declaration_dump body" d rec] r p that show ?thesis by simp
  next
    case None
    obtain d1 d2 where d1: "declare_goods env now (subject_of ident) body d = Inr d1"
      "store_idempotency env now (Some k) (subject_of ident) (declaration_dump body) 201 resp d1 = Inr d2" "commit d2 = Inr d'"
      using assms(1) p r None by (auto simp: create_declaration_route_def rbind_eq_Inr Let_def split: if_splits)
    have "find_idempotency d1 k (subject_of ident) = None"
      using find_idempotency_same [OF records_declare [OF d1(1)]] replay_NoneD [OF r [unfolded None] assms(2)] by simp
    from stored_record [OF d1(2) assms(2) this] show ?thesis using that p commit_same [OF d1(3)] by (metis (full_types) old.unit.exhaust)
  qed
qed

lemma assessed_recorded:
  assumes "create_assessment_route env policy now ident (Some k) ref d = Inr (resp, d')" "k \<noteq> []"
  obtains rec where "find_idempotency d' k (subject_of ident) = Some rec" "id_response_body rec = resp"
    "id_request_hash rec = request_hash (en_sha256 env) (assessment_dump ref)"
    "require_policy policy ident ''assessment'' ''create'' ''CONFIDENTIAL'' = Inr ()"
proof -
  obtain u replay where p: "require_policy policy ident ''assessment'' ''create'' ''CONFIDENTIAL'' = Inr u"
    and r: "idempotent_replay env (Some k) (subject_of ident) (assessment_dump ref) d = Inr replay"
    using assms(1) unfolding create_assessment_route_def by (elim rbindE)
  show ?thesis
  proof (cases replay)
    case (Some rec)
    with assms(1) p r have "d' = d" "resp = id_response_body rec" by (simp_all add: create_assessment_route_def)
    with Some replay_SomeD [of env k "subject_of ident" "assessment_dump ref" d rec] r p that show ?thesis by simp
  next
    case None
    obtain dc a d1 d2 where d1: "assess_declaration env now (subject_of ident) k dc d = Inr (a, d1)"
      "store_idempotency env now (Some k) (subject_of ident) (assessment_dump ref) 201 resp d1 = Inr d2" "commit d2 = Inr d'"
      using assms p r None by (auto simp: create_assessment_route_def rbind_eq_Inr Let_def split: option.splits)
    have "find_idempotency d1 k (subject_of ident) = None"
      using find_idempotency_same [OF records_assess [OF d1(1)]] replay_NoneD [OF r [unfolded None] assms(2)] by simp
    from stored_record [OF d1(2) assms(2) this] show ?thesis using that p commit_same [OF d1(3)] by (metis (full_types) old.unit.exhaust)
  qed
qed

text \<open>C22: Retries are idempotent. Once a declaration or an assessment requested under an idempotency key has been answered,
  the same request by the same principal - whenever it comes - is given the same answer and changes nothing, and a
  request with the same key whose body has another hash is refused as a conflict.\<close>

theorem retry_same_answer:
  assumes "k \<noteq> []"
    and "create_declaration_route env policy now ident (Some k) body d = Inr (resp, d')"
    and "create_assessment_route env policy now ident (Some k') ref e = Inr (resp', e')" "k' \<noteq> []"
  shows "create_declaration_route env policy later ident (Some k) body d' = Inr (resp, d') \<and>
    create_assessment_route env policy later ident (Some k') ref e' = Inr (resp', e') \<and>
    (request_hash (en_sha256 env) (declaration_dump body2) \<noteq> request_hash (en_sha256 env) (declaration_dump body) \<longrightarrow>
       create_declaration_route env policy later ident (Some k) body2 d' = Inl (HTTPException 409 ''idempotency-conflict'')) \<and>
    (request_hash (en_sha256 env) (assessment_dump ref2) \<noteq> request_hash (en_sha256 env) (assessment_dump ref) \<longrightarrow>
       create_assessment_route env policy later ident (Some k') ref2 e' = Inl (HTTPException 409 ''idempotency-conflict''))"
proof -
  obtain rec where rec: "find_idempotency d' k (subject_of ident) = Some rec" "id_response_body rec = resp"
    "id_request_hash rec = request_hash (en_sha256 env) (declaration_dump body)"
    "require_policy policy ident ''assessment'' ''create'' ''INTERNAL'' = Inr ()"
    by (rule declared_recorded [OF assms(2,1)])
  obtain rec' where rec': "find_idempotency e' k' (subject_of ident) = Some rec'" "id_response_body rec' = resp'"
    "id_request_hash rec' = request_hash (en_sha256 env) (assessment_dump ref)"
    "require_policy policy ident ''assessment'' ''create'' ''CONFIDENTIAL'' = Inr ()"
    by (rule assessed_recorded [OF assms(3,4)])
  show ?thesis
    by (simp add: create_declaration_route_def create_assessment_route_def rec rec' replay_answers [OF rec(1) assms(1)] replay_answers [OF rec'(1) assms(4)])
qed

end
