(* ===== verification/Examples.thy ===== *)
theory Examples
  imports Attribution History Lifecycle Retries
begin

section \<open>Runs at concrete inputs\<close>

text \<open>
  The theorems on whole runs and requests, applied: a public check on a new deployment, the approval of an
  assessment by a second person, a stamp on the market with everything that backs it, an issue request and a retry.
\<close>

subsection \<open>A public check\<close>

definition toy_public :: public_verify_in where
  "toy_public = \<lparr>pv_serial = Some ''x'', pv_credential = None, pv_lat_micros = None, pv_long_micros = None\<rparr>"

lemma toy_precheck:
  assumes "db_uuids d (db_next_uuid d) \<notin> ve_id ` set (db_verifications d)" "ledger_ok d"
  obtains resp v where "step toy_env policy ops rf directory (d, r) (Precheck ip toy_public (Inr resp))
    (d\<lparr>db_verifications := db_verifications d @ [v], db_next_uuid := Suc (db_next_uuid d)\<rparr>, r)"
proof -
  let ?sc = "toy_scan [] JNull False" and ?err = "''serial does not match NG-<CAT3>-<YYYY>-<SEQ10>-<CHECK>''"
  have p: "parse_serial (upper (strip ''x'')) = Inl (SerialError ?err)" by code_simp
  have "succeeds (record_attempt 0 ?sc (take 64 (upper (strip ''x''))) None O_malformed_serial ?err d)"
    using assms(1) by (intro record_attempt_total) (simp_all add: toy_scan_def)
  then obtain d1 where d1: "record_attempt 0 ?sc (take 64 (upper (strip ''x''))) None O_malformed_serial ?err d = Inr d1" by (auto simp: succeeds_iff)
  then obtain res where v: "verify_stamp toy_env 0 ''x'' ?sc [] d = Inr (res, d1)"
    by (auto simp: verify_stamp_def Let_def p serial_error_text_def)
  obtain a where e: "d1 = d\<lparr>db_verifications := db_verifications d @ [a], db_next_uuid := Suc (db_next_uuid d)\<rparr>"
    by (rule record_attempt_effect [OF d1])
  have "ledger_ok d1" using assms(2) ledger_ok_same [of d1 d] by (simp add: e)
  then have "public_scan toy_env 0 toy_public d = Inr (JObj (scan_view res), d1)"
    using v ledger_ok_commit [of d1]
    by (simp add: public_scan_def claimed_serial_def toy_public_def credential_check_def toy_scan_def)
  then have route: "verify_public_route toy_env ops 0 0 ip toy_public d r = (Inr (JObj (scan_view res), d1), r)"
    by (simp add: verify_public_route_def public_guard_def redis_configured_def toy_settings_def default_settings_def)
  have "step toy_env policy ops rf directory (d, r) (Precheck ip toy_public (Inr (JObj (scan_view res)))) (d1, r)"
    by (rule step.precheck [OF _ route]) (simp_all add: answer_def valid_public_verify_in_def toy_public_def within_def)
  then show ?thesis using that e by simp
qed

lemma toy_chunk_size: "0 < cf_issuance_chunk_size (en_settings toy_env)"
  by (simp add: toy_settings_def default_settings_def)

theorem reachable_system_ok_witness:
  "\<exists>resp d. run toy_env (shipped_engine 0) toy_redis (\<lambda>_. FNan) toy_keys (new_system id [] (\<lambda>_. 0))
       [Precheck ''10.0.0.1'' toy_public (Inr resp)] (d, \<lambda>_. 0) \<and>
     length (db_verifications d) = 1 \<and> system_ok toy_env d \<and> commit d = Inr d"
proof -
  let ?d = "empty_db id :: db"
  have new: "new_system id [] (\<lambda>_. 0) = (?d, \<lambda>_. 0)" by (simp add: new_system_def empty_db_def)
  have ok: "ledger_ok ?d" by (simp add: ledger_ok_def)
  obtain resp v where s: "step toy_env (shipped_engine 0) toy_redis (\<lambda>_. FNan) toy_keys (?d, \<lambda>_. 0) (Precheck ''10.0.0.1'' toy_public (Inr resp))
    (?d\<lparr>db_verifications := db_verifications ?d @ [v], db_next_uuid := Suc (db_next_uuid ?d)\<rparr>, \<lambda>_. 0)"
    by (rule toy_precheck [of ?d "shipped_engine 0" toy_redis "\<lambda>_. FNan" toy_keys "\<lambda>_. 0" "''10.0.0.1''"]) (use ok in simp_all)
  have "run toy_env (shipped_engine 0) toy_redis (\<lambda>_. FNan) toy_keys (new_system id [] (\<lambda>_. 0)) ([] @ [Precheck ''10.0.0.1'' toy_public (Inr resp)])
    (?d\<lparr>db_verifications := db_verifications ?d @ [v], db_next_uuid := Suc (db_next_uuid ?d)\<rparr>, \<lambda>_. 0)"
    unfolding new by (rule run.more [OF run.start s])
  from reachable_system_ok [OF this gzip_ok_toy toy_chunk_size] this show ?thesis by force
qed

subsection \<open>A stamp on the market\<close>

text \<open>The batch of one stamp, with the approval, the payment and the postings that led to it.\<close>

definition toy_receipt_row :: payment_receipt where
  "toy_receipt_row = \<lparr>pr_id = 201, pr_payment_intent_id = Some 200, pr_external_reference = ''ref'', pr_amount_kobo = 500, pr_currency = ''NGN'',
     pr_status = PR_APPLIED, pr_quarantine_reason = [], pr_received_at = 0\<rparr>"

definition toy_approval :: approval where
  "toy_approval = \<lparr>ap_id = 101, ap_assessment_id = 100, ap_principal_sub = ''c1'', ap_decision = APPROVE, ap_level = 1, ap_reason = [],
     ap_decided_at = 0\<rparr>"

definition toy_backing :: "db \<Rightarrow> db" where
  "toy_backing d = d\<lparr>db_approvals := [toy_approval], db_payment_intents := [toy_intent\<lparr>pi_status := PI_SETTLED, pi_settled_at := Some 0\<rparr>],
     db_payment_receipts := [toy_receipt_row],
     db_journals := [\<lparr>jn_id = 202, jn_reference = ''excise-settlement:ref'', jn_narration = [], jn_posted_at = 0\<rparr>],
     db_ledger_entries :=
       [\<lparr>le_id = 203, le_journal_id = 202, le_account = ''assets:financial-controls-clearing'', le_debit_kobo = 500, le_credit_kobo = 0\<rparr>,
        \<lparr>le_id = 204, le_journal_id = 202, le_account = ''revenue:excise-duty-payable'', le_debit_kobo = 0, le_credit_kobo = 500\<rparr>]\<rparr>"

lemma toy_backing_ok:
  assumes "db_assessments d = [(toy_assessment 500)\<lparr>as_status := AS_ISSUING, as_stamps_required := n\<rparr>]" "issuance_ok d" "field_ok toy_env d"
    "db_audit_events d = []"
  shows "system_ok toy_env (toy_backing d)"
proof -
  have "decisions_ok (toy_backing d)" "payments_ok (toy_backing d)" "ledger_ok (toy_backing d)" "ledger_matches (toy_backing d)"
    by (simp_all add: toy_backing_def assms(1) toy_assessment_def toy_approval_def toy_receipt_row_def toy_intent_def decisions_ok_def decided_ok_def
        approvals_of_def all_approve_def risk_tier_for_def LOW_THRESHOLD_KOBO_def STANDARD_THRESHOLD_KOBO_def payments_ok_def paid_ok_def intent_ok_def applied_to_def receipt_ok_def
        ledger_ok_def check_journal_balanced_def entries_of_def ledger_matches_def balances_of_def applied_total_def)
  moreover have "issuance_ok (toy_backing d)" "field_ok toy_env (toy_backing d)" "chain_ok toy_env (toy_backing d)"
    using assms(2-4) issuance_ok_same [of "toy_backing d" d] field_ok_same [of "toy_backing d" d toy_env]
    by (simp_all add: toy_backing_def chain_ok_def audit_rows_def)
  ultimately show ?thesis by (simp add: system_ok_def)
qed

lemma toy_market:
  obtains d st resp d' where "system_ok toy_env d" "db_approvals d = [toy_approval]" "db_payment_receipts d = [toy_receipt_row]"
    "db_stamps d' = [st]" "released st" "length (db_verifications d') = 1"
    "run toy_env (shipped_engine 0) toy_redis (\<lambda>_. FNan) toy_keys (d, \<lambda>_. 0) [Precheck ''10.0.0.1'' toy_public (Inr resp)] (d', \<lambda>_. 0)"
proof -
  obtain s0 where s0: "build_serial ''TBC'' 2026 0 = Inr (st_serial s0)" "st_batch_id s0 = 300" "st_category_code s0 = ''TBC''"
    "st_year s0 = 2026" "st_sequence s0 = 0" "st_first_scan_at s0 = None" "stamps_distinct [s0]" by (rule toy_issued_stamp)
  let ?d = "toy_backing (toy_field s0)"
  have ok: "system_ok toy_env ?d"
    by (rule toy_backing_ok [of _ 1]) (use toy_field_ok [OF s0] in \<open>simp_all add: toy_field_def toy_issuing_def\<close>)
  have d: "db_verifications ?d = []" "db_stamps ?d = [s0\<lparr>st_status := SS_ACTIVE\<rparr>]" "db_approvals ?d = [toy_approval]"
    "db_payment_receipts ?d = [toy_receipt_row]"
    by (simp_all add: toy_backing_def toy_field_def toy_issuing_def)
  obtain resp v where s: "step toy_env (shipped_engine 0) toy_redis (\<lambda>_. FNan) toy_keys (?d, \<lambda>_. 0) (Precheck ''10.0.0.1'' toy_public (Inr resp))
    (?d\<lparr>db_verifications := db_verifications ?d @ [v], db_next_uuid := Suc (db_next_uuid ?d)\<rparr>, \<lambda>_. 0)"
    by (rule toy_precheck [of ?d "shipped_engine 0" toy_redis "\<lambda>_. FNan" toy_keys "\<lambda>_. 0" "''10.0.0.1''"])
      (use system_okD(3) [OF ok] d in simp_all)
  let ?e = "?d\<lparr>db_verifications := db_verifications ?d @ [v], db_next_uuid := Suc (db_next_uuid ?d)\<rparr>"
  have "run toy_env (shipped_engine 0) toy_redis (\<lambda>_. FNan) toy_keys (?d, \<lambda>_. 0) ([] @ [Precheck ''10.0.0.1'' toy_public (Inr resp)]) (?e, \<lambda>_. 0)"
    by (rule run.more [OF run.start s])
  then show ?thesis using d by (intro that [OF ok d(3,4), of ?e "s0\<lparr>st_status := SS_ACTIVE\<rparr>" resp]) (simp_all add: released_def)
qed

theorem released_stamps_backed_witness:
  "\<exists>d resp d'. run toy_env (shipped_engine 0) toy_redis (\<lambda>_. FNan) toy_keys (d, \<lambda>_. 0)
       [Precheck ''10.0.0.1'' toy_public (Inr resp)] (d', \<lambda>_. 0) \<and>
     list_ex (\<lambda>st. released st \<and> backed d' st) (db_stamps d')"
proof -
  obtain d st resp d' where m: "system_ok toy_env d" "db_stamps d' = [st]" "released st"
    "run toy_env (shipped_engine 0) toy_redis (\<lambda>_. FNan) toy_keys (d, \<lambda>_. 0) [Precheck ''10.0.0.1'' toy_public (Inr resp)] (d', \<lambda>_. 0)"
    by (rule toy_market)
  have "list_all (\<lambda>st. released st \<longrightarrow> backed (fst (d', \<lambda>_::string. 0::int)) st) (db_stamps (fst (d', \<lambda>_::string. 0::int)))"
    by (rule released_stamps_backed [OF m(4) disjI2 gzip_ok_toy toy_chunk_size]) (simp only: fst_conv m(1))
  then have "list_ex (\<lambda>st. released st \<and> backed d' st) (db_stamps d')" using m(2,3) by simp
  with m(4) show ?thesis by (intro exI conjI)
qed

theorem evidence_append_only_witness:
  "\<exists>d resp d'. run toy_env (shipped_engine 0) toy_redis (\<lambda>_. FNan) toy_keys (d, \<lambda>_. 0)
       [Precheck ''10.0.0.1'' toy_public (Inr resp)] (d', \<lambda>_. 0) \<and>
     append_only d d' \<and> db_approvals d = [toy_approval] \<and> length (db_verifications d') = 1"
proof -
  obtain d st resp d' where m: "system_ok toy_env d" "db_approvals d = [toy_approval]" "length (db_verifications d') = 1"
    "run toy_env (shipped_engine 0) toy_redis (\<lambda>_. FNan) toy_keys (d, \<lambda>_. 0) [Precheck ''10.0.0.1'' toy_public (Inr resp)] (d', \<lambda>_. 0)"
    by (rule toy_market)
  have "append_only (fst (d, \<lambda>_::string. 0::int)) (fst (d', \<lambda>_::string. 0::int))"
    by (rule evidence_append_only [OF m(4) _ gzip_ok_toy toy_chunk_size]) (simp only: fst_conv m(1))
  then have "append_only d d'" by (simp only: fst_conv)
  with m(2-4) show ?thesis by (intro exI conjI)
qed

theorem stamps_refine_life_witness:
  "\<exists>d resp d' st'. run toy_env (shipped_engine 0) toy_redis (\<lambda>_. FNan) toy_keys (d, \<lambda>_. 0)
       [Precheck ''10.0.0.1'' toy_public (Inr resp)] (d', \<lambda>_. 0) \<and> db_stamps d' = [st'] \<and>
     (life\<^sup>*\<^sup>* (SS_ISSUED, None) (life_of st') \<or> (\<exists>st \<in> set (db_stamps d). same_stamp st st'))"
proof -
  obtain d st resp d' where m: "system_ok toy_env d" "db_stamps d' = [st]"
    "run toy_env (shipped_engine 0) toy_redis (\<lambda>_. FNan) toy_keys (d, \<lambda>_. 0) [Precheck ''10.0.0.1'' toy_public (Inr resp)] (d', \<lambda>_. 0)"
    by (rule toy_market)
  have "system_ok toy_env (fst (d, \<lambda>_::string. 0::int))" by (simp only: fst_conv m(1))
  from conjunct2 [OF stamps_refine_life [OF m(3) this gzip_ok_toy toy_chunk_size], unfolded fst_conv]
  have "life\<^sup>*\<^sup>* (SS_ISSUED, None) (life_of st) \<or> (\<exists>st' \<in> set (db_stamps d). same_stamp st' st)" using m(2) by auto
  with m(2,3) show ?thesis by (intro exI conjI)
qed

text \<open>A stamp scanned by the device \<open>a\<close>, and a run of the publisher after it.\<close>

lemma toy_scanned:
  obtains d s where "system_ok toy_env d" "s \<in> set (db_stamps d)" "st_first_scan_at s = Some 0" "st_first_scan_verifier s = ''a''"
proof -
  obtain s0 s d doc sls r1 d1 r2 d2 where t: "d = toy_field s0" "s \<in> set (db_stamps d)" "credential_ok toy_env s" "st_credential s = JObj doc"
    "load_status_lists toy_env d = Inr sls" "st_status s = SS_ACTIVE" "1 < st_valid_until s" "issuance_ok d" "field_ok toy_env d"
    "verify_stamp toy_env 0 (st_serial s) (toy_scan ''a'' (JObj doc) True) sls d = Inr (r1, d1)" by (rule toy_scans) (rule that)
  let ?sc = "toy_scan ''a'' (JObj doc) True"
  have ids: "distinct (map st_id (db_stamps d))" using t(8) by (simp add: issuance_ok_def stamps_distinct_def)
  have ok1: "field_ok toy_env d1" "issuance_ok d1"
    by (rule verify_stamp_field_ok [OF t(10,9) gzip_ok_toy ids], rule verify_stamp_issuance_ok [OF t(10,9,8)])
  have "consume_stamp toy_env 0 ?sc s d = Inr (r1, d1)"
    using genuine_consumed [OF t(9,8,2,3) _ t(4,6) _ _ t(5), of ?sc 0] t(7,10) by (simp add: toy_scan_def)
  then obtain v m k where d1: "d1 = d\<lparr>db_stamps := update_where (\<lambda>x. st_id x = st_id s) (marked 0 ?sc) (db_stamps d),
       db_verifications := db_verifications d @ [v], db_outbox_messages := db_outbox_messages d @ [m], db_next_uuid := k\<rparr>"
    by (rule consume_stamp_effect) (rule that)
  have "system_ok toy_env (toy_backing d1)"
    by (rule toy_backing_ok [of _ 1]) (use ok1 in \<open>simp_all add: d1 t(1) toy_field_def toy_issuing_def\<close>)
  moreover have "marked 0 ?sc s \<in> set (db_stamps (toy_backing d1))"
    using t(2) by (auto simp: toy_backing_def d1 set_update_where intro!: bexI [of _ s])
  ultimately show ?thesis by (rule that) (simp_all add: marked_def toy_scan_def)
qed

theorem scanned_and_void_forever_witness:
  "\<exists>d sent d' st. run toy_env (shipped_engine 0) toy_redis (\<lambda>_. FNan) toy_keys (d, \<lambda>_. 0) [Publish sent] (d', \<lambda>_. 0) \<and>
     st \<in> set (db_stamps d') \<and> st_first_scan_at st = Some 0 \<and> st_first_scan_verifier st = ''a''"
proof -
  obtain d s where d: "system_ok toy_env d" "s \<in> set (db_stamps d)" "st_first_scan_at s = Some 0" "st_first_scan_verifier s = ''a''"
    by (rule toy_scanned)
  obtain sent out where p: "publish_once (\<lambda>_. True) 1 d = (sent, out)" by fastforce
  let ?d = "case out of Inl e \<Rightarrow> d | Inr (n, d1) \<Rightarrow> d1"
  have "step toy_env (shipped_engine 0) toy_redis (\<lambda>_. FNan) toy_keys (d, \<lambda>_. 0) (Publish sent) (?d, \<lambda>_. 0)"
    by (rule step.publish [OF p refl])
  then have r: "run toy_env (shipped_engine 0) toy_redis (\<lambda>_. FNan) toy_keys (d, \<lambda>_. 0) ([] @ [Publish sent]) (?d, \<lambda>_::string. 0::int)"
    by (rule run.more [OF run.start])
  have "system_ok toy_env (fst (d, \<lambda>_::string. 0::int))" "s \<in> set (db_stamps (fst (d, \<lambda>_::string. 0::int)))"
    by (simp_all only: fst_conv d(1,2))
  from scanned_and_void_forever [OF r this(1) gzip_ok_toy toy_chunk_size this(2), unfolded fst_conv]
  obtain st where "st \<in> set (db_stamps ?d)" "st_first_scan_at st = Some 0" "st_first_scan_verifier st = ''a''" using d(3,4) by auto
  with r [unfolded append_Nil] show ?thesis by (intro exI conjI)
qed

subsection \<open>An issue request\<close>

definition toy_officer :: identity where
  "toy_officer = \<lparr>idn_subject = ucs_of ''olu'', idn_roles = {jstr ''excise-officer''}, idn_tenant = [], idn_clearance = []\<rparr>"

lemma toy_issuing_system_ok: "system_ok toy_env (toy_backing toy_issuing)"
proof (rule toy_backing_ok [of _ 2])
  have none: "db_status_list_snapshots toy_issuing = []" "db_verifications toy_issuing = []" "db_stamps toy_issuing = []"
    by (simp_all add: toy_issuing_def)
  show "field_ok toy_env toy_issuing"
    by (simp add: flagged_empty [OF none(1)] field_ok_def lists_ok_def list_ok_empty none list_all_iff scans_ok_def flags_ok_def indices_def)
qed (use toy_issuing_ok in \<open>simp_all add: toy_issuing_def toy_assessment_def\<close>)

theorem issue_request_ends_witness:
  "permitted toy_officer ''batch'' ''issue'' ''CONFIDENTIAL'' \<and> find_batch (toy_backing toy_issuing) 300 = Some toy_batch \<and>
   (\<exists>d' res. issue_batch_route toy_env (shipped_engine 0) (\<lambda>_. 0) 0 toy_officer 300 \<lparr>ii_chunk_size = Some 1, ii_run_to_completion = True\<rparr>
       (toy_backing toy_issuing) = Some (d', res) \<and> system_ok toy_env d' \<and>
     (succeeds res \<longrightarrow> (\<exists>b. find_batch d' 300 = Some b \<and> ba_issued_count b = ba_quantity b)))"
proof -
  have "permitted toy_officer ''batch'' ''issue'' ''CONFIDENTIAL''" by (simp add: shipped_decisions toy_officer_def holds_role_def)
  moreover have "find_batch (toy_backing toy_issuing) 300 = Some toy_batch"
    using toy_issuing_ok(2) by (simp add: find_batch_def toy_backing_def)
  moreover have "valid_issue_in \<lparr>ii_chunk_size = Some 1, ii_run_to_completion = True\<rparr>" by (simp add: valid_issue_in_def)
  note issue_request_ends [OF toy_issuing_system_ok this toy_chunk_size, of "shipped_engine 0" "\<lambda>_. 0" 0 toy_officer 300]
  ultimately show ?thesis by auto
qed

subsection \<open>A second person approves\<close>

definition toy_approver :: identity where
  "toy_approver = \<lparr>idn_subject = ucs_of ''c1'', idn_roles = {jstr ''excise-approver''}, idn_tenant = [], idn_clearance = []\<rparr>"

lemma toy_db_system_ok: "system_ok toy_env (toy_db 5)"
proof -
  have none: "db_status_list_snapshots (toy_db 5) = []" "db_verifications (toy_db 5) = []" "db_stamps (toy_db 5) = []" "db_assessments (toy_db 5) = [toy_assessment 5]"
    by (simp_all add: toy_db_def)
  have "field_ok toy_env (toy_db 5)"
    by (simp add: flagged_empty [OF none(1)] field_ok_def lists_ok_def list_ok_empty none list_all_iff scans_ok_def flags_ok_def indices_def)
  then show ?thesis
    using toy_db_ok(1) [of 5]
    by (simp add: system_ok_def payments_ok_def paid_ok_def ledger_ok_def ledger_matches_def balances_of_def applied_total_def issuance_ok_def
        stamps_distinct_def chain_ok_def audit_rows_def none) (simp add: toy_db_def toy_assessment_def)
qed

lemma shipped_allows: "permitted ident resource action classification \<Longrightarrow> require_policy (shipped_engine 0) ident resource action classification = Inr ()"
  by (simp add: require_policy_def permitted_def)

lemma toy_decide:
  obtains resp d' where "decide_assessment_route toy_env (shipped_engine 0) 1 toy_approver 100 \<lparr>de_decision = ''APPROVE'', de_reason = []\<rparr> (toy_db 5) = Inr (resp, d')"
    "db_approvals d' \<noteq> []"
proof -
  have a: "toy_assessment 5 \<in> set (db_assessments (toy_db 5))" "as_id (toy_assessment 5) = 100" "as_declaration_id (toy_assessment 5) = 0"
    by (simp_all add: toy_db_def toy_assessment_def)
  obtain a' d1 where r: "record_decision 1 100 ''c1'' ''APPROVE'' [] (toy_db 5) = Inr (a', d1)"
    using approve_step [OF a(1), of "''c1''" 1] toy_db_ok by (auto simp: toy_assessment_def)
  obtain p asms dec n x where x: "find_assessment (toy_db 5) 100 = Some x" "a' = decide 1 dec n x"
    and d1: "d1 = (toy_db 5)\<lparr>db_approvals := db_approvals (toy_db 5) @ [p], db_assessments := asms, db_next_uuid := Suc (db_next_uuid (toy_db 5))\<rparr>"
    using record_decision_effect [OF r] by blast
  let ?payload = "JObj [(ucs_of ''assessmentId'', jstr (uuid_str 100)), (ucs_of ''decision'', jstr ''APPROVE''),
        (ucs_of ''principal'', jstr ''c1''), (ucs_of ''resultingStatus'', jstr (assessment_status_text (as_status a')))]"
  have "db_audit_events d1 = []" by (simp add: d1 toy_db_def)
  then obtain e d2 where d2: "audit_record toy_env 1 ''assessment.decision'' ?payload d1 = Inr (e, d2)"
    using toy_audit_record [of ?payload d1 "''assessment.decision''" 1] by auto
  have e2: "d2 = d1\<lparr>db_audit_events := db_audit_events d1 @ [e]\<rparr>" by (rule audit_record_rows(1) [OF d2])
  let ?resource = "[(ucs_of ''assessmentId'', jstr (uuid_str (as_id a'))), (ucs_of ''approvalsRequired'', JInt (as_approvals_required a'))]"
  have "x = toy_assessment 5" using x(1) by (auto simp: find_assessment_def toy_db_def split: if_splits)
  then have n: "\<bar>as_approvals_required a'\<bar> \<le> max_safe_integer"
    by (simp add: x(2) decide_def toy_assessment_def risk_tier_for_def max_safe_integer_def)
  have "uuid_str (as_id a') \<noteq> []" using length_uuid_str [of "as_id a'"] by auto
  then have key: "length (message_key ?resource) \<le> 128"
    by (simp add: message_key_def jobj_get_def json_truthy_def json_str_def text_of_def ucs_of_def comp_def List.map_filter_def length_uuid_str)
  have "succeeds (enqueue toy_env 1 ''stamps.approved.v1'' ?resource ''c1'' ''excise-approver'' (Some (uuid_str (as_declaration_id a'))) d2)"
    using n key by (intro enqueue_total [of _ "''stamps.approved''"]) (simp_all add: TOPIC_BY_EVENT_def e2 d1 toy_db_def)
  then have "succeeds (announce_approval toy_env 1 ''c1'' a' d2)"
    by (auto simp: announce_approval_def succeeds_iff)
  then obtain d3 where d3: "announce_approval toy_env 1 ''c1'' a' d2 = Inr d3" by (auto simp: succeeds_iff)
  have "quiet toy_env d2 d3" by (rule quiet_announce [OF d3])
  then have same: "db_journals d3 = []" "db_ledger_entries d3 = []" "db_approvals d3 \<noteq> []" by (simp_all add: quiet_def same_core_def e2 d1 toy_db_def)
  then have "commit d3 = Inr d3" by (intro ledger_ok_commit) (simp add: ledger_ok_def)
  moreover have "require_policy (shipped_engine 0) toy_approver ''assessment'' ''approve'' ''CONFIDENTIAL'' = Inr ()" "subject_of toy_approver = ''c1''"
    by (simp_all add: shipped_allows shipped_decisions toy_approver_def holds_role_def subject_of_def)
  ultimately have "decide_assessment_route toy_env (shipped_engine 0) 1 toy_approver 100 \<lparr>de_decision = ''APPROVE'', de_reason = []\<rparr> (toy_db 5) =
      Inr (assessment_view a', d3)"
    by (simp add: decide_assessment_route_def r d2 d3)
  then show ?thesis using that same(3) by blast
qed

theorem records_attributed_witness:
  "\<exists>resp d' p. run toy_env (shipped_engine 0) toy_redis (\<lambda>_. FNan) toy_keys (toy_db 5, \<lambda>_. 0)
       [Request toy_approver (Decide 100 \<lparr>de_decision = ''APPROVE'', de_reason = []\<rparr>) (Inr resp)] (d', \<lambda>_. 0) \<and>
     p \<in> set (db_approvals d') \<and> ap_principal_sub p = ''c1'' \<and> ap_assessment_id p = 100"
proof -
  let ?q = "Decide 100 \<lparr>de_decision = ''APPROVE'', de_reason = []\<rparr>"
  obtain resp d' where r: "decide_assessment_route toy_env (shipped_engine 0) 1 toy_approver 100 \<lparr>de_decision = ''APPROVE'', de_reason = []\<rparr> (toy_db 5) = Inr (resp, d')"
    "db_approvals d' \<noteq> []" by (rule toy_decide)
  have "step toy_env (shipped_engine 0) toy_redis (\<lambda>_. FNan) toy_keys (toy_db 5, \<lambda>_. 0) (Request toy_approver ?q (Inr resp)) (d', \<lambda>_. 0)"
    by (rule step.request [where clock = "\<lambda>_. 0" and now = 1]) (simp_all add: valid_decision_in_def r answer_def)
  then have run: "run toy_env (shipped_engine 0) toy_redis (\<lambda>_. FNan) toy_keys (toy_db 5, \<lambda>_. 0) ([] @ [Request toy_approver ?q (Inr resp)]) (d', \<lambda>_::string. 0::int)"
    by (rule run.more [OF run.start])
  obtain p where p: "p \<in> set (db_approvals d')" using r(2) by (cases "db_approvals d'") auto
  have none: "db_approvals (toy_db 5) = []" by (simp add: toy_db_def)
  have "list_ex (decided_by (shipped_engine 0) p) ([] @ [Request toy_approver ?q (Inr resp)])"
    using conjunct1 [OF records_attributed [OF run _ gzip_ok_toy toy_chunk_size]] toy_db_system_ok p none by simp
  then have by_approver: "ap_principal_sub p = ''c1''" "ap_assessment_id p = 100" by (simp_all add: subject_of_def toy_approver_def)
  show ?thesis by (intro exI conjI) (rule run [unfolded append_Nil], rule p, rule by_approver, rule by_approver)
qed

subsection \<open>A stamp is voided\<close>

lemma toy_void_request:
  obtains d serial resp d' where "system_ok toy_env d"
    "step toy_env (shipped_engine 0) toy_redis (\<lambda>_. FNan) toy_keys (d, \<lambda>_. 0) (Request toy_approver (Void serial ''lost'') (Inr resp)) (d', \<lambda>_. 0)"
proof -
  obtain s1 where s1: "build_serial ''TBC'' 2026 0 = Inr (st_serial s1)" "st_batch_id s1 = 300" "st_category_code s1 = ''TBC''"
    "st_year s1 = 2026" "st_sequence s1 = 0" "st_first_scan_at s1 = None" "st_first_scan_verifier s1 = []" "stamps_distinct [s1]"
    by (rule toy_issued_stamp) (rule that)
  obtain s0 where z: "s0 = s1\<lparr>st_first_scan_lat_micros := None, st_first_scan_long_micros := None\<rparr>" by blast
  have s0: "build_serial ''TBC'' 2026 0 = Inr (st_serial s0)" "st_batch_id s0 = 300" "st_category_code s0 = ''TBC''"
    "st_year s0 = 2026" "st_sequence s0 = 0" "st_first_scan_at s0 = None" "stamps_distinct [s0]"
    "st_first_scan_verifier s0 = []" "st_first_scan_lat_micros s0 = None" "st_first_scan_long_micros s0 = None"
    using s1 by (simp_all add: z stamps_distinct_def)
  let ?d = "toy_backing (toy_field s0)"
  have ok: "system_ok toy_env ?d"
    by (rule toy_backing_ok [of _ 1]) (use toy_field_ok [OF s0(1-7)] in \<open>simp_all add: toy_field_def toy_issuing_def\<close>)
  have d: "db_stamps ?d = [s0\<lparr>st_status := SS_ACTIVE\<rparr>]" "db_outbox_messages ?d = []" "db_status_list_snapshots ?d = []" "db_audit_events ?d = []"
    by (simp_all add: toy_backing_def toy_field_def toy_issuing_def)
  obtain s' d1 where v: "void_stamp toy_env 0 (st_serial s0) ''lost'' ''c1'' ?d = Inr (s', d1)" "db_audit_events d1 = db_audit_events ?d"
    by (rule toy_voids [OF system_okD(5) [OF ok] d(1-3) s0(8-10,7)])
  let ?payload = "JObj [(ucs_of ''serial'', jstr (st_serial s')), (ucs_of ''reason'', jstr ''lost''), (ucs_of ''principal'', jstr ''c1'')]"
  obtain e d2 where a: "audit_record toy_env 0 ''stamp.voided'' ?payload d1 = Inr (e, d2)"
    using toy_audit_record [of ?payload d1 "''stamp.voided''" 0] v(2) d(4) by auto
  have "system_ok toy_env d1" using keeps_void [OF v(1) gzip_ok_toy] ok by (simp add: keeps_def)
  then have "ledger_ok d2" using system_okD(3) ledger_ok_same [of d2 d1] by (simp add: audit_record_rows(1) [OF a])
  then have "commit d2 = Inr d2" by (rule ledger_ok_commit)
  moreover have "require_policy (shipped_engine 0) toy_approver ''stamp'' ''void'' ''CONFIDENTIAL'' = Inr ()" "subject_of toy_approver = ''c1''"
    by (simp_all add: shipped_allows shipped_decisions toy_approver_def holds_role_def subject_of_def)
  ultimately have route: "\<exists>resp. void_stamp_route toy_env (shipped_engine 0) 0 toy_approver (st_serial s0) ''lost'' ?d = Inr (resp, d2)"
    using v(1) a by (simp add: void_stamp_route_def audit_commit_def)
  then obtain resp where "void_stamp_route toy_env (shipped_engine 0) 0 toy_approver (st_serial s0) ''lost'' ?d = Inr (resp, d2)" by blast
  then have "step toy_env (shipped_engine 0) toy_redis (\<lambda>_. FNan) toy_keys (?d, \<lambda>_. 0)
      (Request toy_approver (Void (st_serial s0) ''lost'') (Inr resp)) (d2, \<lambda>_. 0)"
    by (intro step.request [where clock = "\<lambda>_. 0" and now = 0]) (simp_all add: valid_void_in_def answer_def)
  then show ?thesis by (rule that [OF ok])
qed

theorem void_is_final_witness:
  "\<exists>d serial resp sent d' st. run toy_env (shipped_engine 0) toy_redis (\<lambda>_. FNan) toy_keys (d, \<lambda>_. 0)
       [Request toy_approver (Void serial ''lost'') (Inr resp), Publish sent] (d', \<lambda>_. 0) \<and>
     find_stamp d' (upper (strip serial)) = Some st \<and> st_status st = SS_VOID \<and> flagged toy_env d' ''void'' (st_status_list_index st)"
proof -
  obtain d serial resp d1 where v: "system_ok toy_env d"
    "step toy_env (shipped_engine 0) toy_redis (\<lambda>_. FNan) toy_keys (d, \<lambda>_. 0) (Request toy_approver (Void serial ''lost'') (Inr resp)) (d1, \<lambda>_. 0)"
    by (rule toy_void_request)
  obtain sent out where p: "publish_once (\<lambda>_. True) 1 d1 = (sent, out)" by fastforce
  let ?d = "case out of Inl e \<Rightarrow> d1 | Inr (n, d2) \<Rightarrow> d2"
  have "step toy_env (shipped_engine 0) toy_redis (\<lambda>_. FNan) toy_keys (d1, \<lambda>_. 0) (Publish sent) (?d, \<lambda>_. 0)"
    by (rule step.publish [OF p refl])
  then have r: "run toy_env (shipped_engine 0) toy_redis (\<lambda>_. FNan) toy_keys (d, \<lambda>_. 0)
      (([] @ [Request toy_approver (Void serial ''lost'') (Inr resp)]) @ [Publish sent]) (?d, \<lambda>_::string. 0::int)"
    by (rule run.more [OF run.more [OF run.start v(2)]])
  have "system_ok toy_env (fst (d, \<lambda>_::string. 0::int))" by (simp only: fst_conv v(1))
  from void_is_final [OF r this gzip_ok_toy toy_chunk_size, of toy_approver serial "''lost''" resp, unfolded fst_conv]
  obtain st where "find_stamp ?d (upper (strip serial)) = Some st" "st_status st = SS_VOID" "flagged toy_env ?d ''void'' (st_status_list_index st)"
    by auto
  with r [unfolded append_Nil append_Cons] show ?thesis by blast
qed

subsection \<open>A retry\<close>

text \<open>Declarations and assessments answered before, under the keys \<open>k1\<close> and \<open>k2\<close>.\<close>

definition toy_body :: declaration_in where
  "toy_body = \<lparr>di_declaration_ref = ''D-1'', di_consignee_tin = ''T-00001'', di_consignee_name = ''N'',
     di_lines = [\<lparr>li_hs_code = ''2402'', li_description = [], li_quantity = 1, li_unit = ''STICK'', li_customs_value_kobo = 0, li_stamps_required = 1\<rparr>]\<rparr>"

definition toy_answered :: "string \<Rightarrow> json \<Rightarrow> idempotency_record" where
  "toy_answered k body = \<lparr>id_key = k, id_principal_sub = ''olu'', id_request_hash = request_hash toy_hash body, id_response_status = 201,
     id_response_body = JObj [(ucs_of ''declarationRef'', jstr ''D-1'')], id_created_at = 0\<rparr>"

definition toy_answers :: db where
  "toy_answers = (empty_db id)\<lparr>db_idempotency_records := [toy_answered ''k1'' (declaration_dump toy_body), toy_answered ''k2'' (assessment_dump ''D-1'')]\<rparr>"

theorem retry_same_answer_witness:
  "create_declaration_route toy_env (shipped_engine 0) 7 toy_officer (Some ''k1'') toy_body toy_answers =
     Inr (JObj [(ucs_of ''declarationRef'', jstr ''D-1'')], toy_answers) \<and>
   create_assessment_route toy_env (shipped_engine 0) 7 toy_officer (Some ''k2'') ''D-1'' toy_answers =
     Inr (JObj [(ucs_of ''declarationRef'', jstr ''D-1'')], toy_answers)"
proof -
  have p: "require_policy (shipped_engine 0) toy_officer ''assessment'' ''create'' ''INTERNAL'' = Inr ()"
    "require_policy (shipped_engine 0) toy_officer ''assessment'' ''create'' ''CONFIDENTIAL'' = Inr ()" "subject_of toy_officer = ''olu''"
    by (simp_all add: shipped_allows shipped_decisions toy_officer_def holds_role_def subject_of_def)
  have d: "create_declaration_route toy_env (shipped_engine 0) 0 toy_officer (Some ''k1'') toy_body toy_answers =
     Inr (JObj [(ucs_of ''declarationRef'', jstr ''D-1'')], toy_answers)"
    by (simp add: create_declaration_route_def p idempotent_replay_def find_idempotency_def toy_answers_def toy_answered_def)
  have a: "create_assessment_route toy_env (shipped_engine 0) 0 toy_officer (Some ''k2'') ''D-1'' toy_answers =
     Inr (JObj [(ucs_of ''declarationRef'', jstr ''D-1'')], toy_answers)"
    by (simp add: create_assessment_route_def p idempotent_replay_def find_idempotency_def toy_answers_def toy_answered_def)
  show ?thesis using retry_same_answer [OF _ d a, of 7 toy_body "''D-1''"] by simp
qed

end
