(* ===== verification/Spec2Isabelle.thy ===== *)
theory Spec2Isabelle
  imports Serials Quality Merkle Boot Examples
begin

text \<open>
  Excise tax stamps: a verification development of the Python service under \<open>src/src/taxstamps\<close> and of the database
  schema under \<open>src/migrations\<close>.

  \<^bold>\<open>The program.\<close> Importers declare goods (\<open>api/routes_flow.py\<close>, or the Kafka topic read by
  \<open>events/consumer.py\<close>); an officer has a declaration assessed by the tariff in force (\<open>services/assessments.py\<close>,
  \<open>domain/tariff.py\<close>, \<open>domain/money.py\<close>); other people approve the assessment; the duty is paid and
  posted to a double-entry ledger (\<open>services/payments.py\<close>, \<open>services/journal.py\<close>); a batch of stamps with printed
  serials and signed credentials is issued in chunks, finalised under a Merkle root, inspected by sampling and activated
  (\<open>services/issuance.py\<close>, \<open>domain/serials.py\<close>, \<open>domain/merkle.py\<close>, \<open>domain/quality.py\<close>); field devices and
  the public scan stamps, the first scan wins, and clones and voided stamps are published in status lists
  (\<open>services/verification.py\<close>, \<open>services/statuslists.py\<close>, \<open>crypto/statuslist.py\<close>). Every change is an event of a
  hash-chained audit log (\<open>services/audit.py\<close>) and, where other systems care, a signed message of an outbox
  (\<open>services/outbox.py\<close>, \<open>events/envelope.py\<close>, \<open>events/outbox_publisher.py\<close>). Bearer tokens, a policy file,
  idempotency keys, nonces and rate limits stand before the handlers (\<open>api/auth.py\<close>, \<open>api/pbac.py\<close>, \<open>api/deps.py\<close>,
  \<open>services/redis_guard.py\<close>).

  \<^bold>\<open>State.\<close> \<open>Db.db\<close> is a record with one list of rows per table of \<open>models.py\<close>, in insertion order, and a source of
  identifiers for \<open>uuid.uuid4\<close>; an insert checks the constraints of the migrations (keys, checks, lengths, ranges,
  references) and gives \<open>IntegrityError\<close> or \<open>DataError\<close> where PostgreSQL does. \<open>Config.env\<close> holds the settings, the
  signing key and the libraries. An exception is a value of \<open>Prelude.exn\<close>; an operation that may raise returns
  \<open>exn + 'a\<close>, and one that changes the database returns the new database with its result, so an exception leaves
  the old one: the rollback of the request. The clock is an argument (\<open>PyTime\<close>: microseconds since day 0). Python's integers are
  \<open>int\<close>, bytes are \<open>8 word\<close>, JSON text and tokens are lists of code points (\<open>Jcs.json\<close>), service text is a HOL
  \<open>string\<close>.

  \<^bold>\<open>Theories, in the order of the calls.\<close>
  \<^item> \<open>Prelude\<close>, \<open>PyText\<close>, \<open>PyTime\<close>, \<open>PyJson\<close>: sequencing of fallible steps, the string, date and JSON operations of the
    standard library that the service uses, the interface \<open>codec\<close> of every encoder with its decoder.
  \<^item> \<open>Money\<close>, \<open>Tariff\<close>, \<open>Serials\<close>, \<open>Quality\<close>, \<open>Merkle\<close>: the domain modules. The rate lookup is the statutory schedule on
    every date; serials parse to their parts and a changed character is caught, unless only the case
    of a letter changed; the sampling plan is tabulated;
    the root binds the leaves.
  \<^item> \<open>Jcs\<close>, \<open>Eddsa\<close>, \<open>Vc\<close>, \<open>StatusList\<close>, \<open>Envelope\<close>: canonical JSON is faithful, signatures and proofs verify and bind what they
    sign, flags survive publication, signed envelopes are accepted by the consumer.
  \<^item> \<open>Db\<close>, \<open>Config\<close>, \<open>AuditChain\<close>, \<open>JournalPosting\<close>, \<open>Outbox\<close>, \<open>StatusPublishing\<close>: the schema with its triggers, and the four
    records kept beside the business tables. The chain verifies and shows tampering; posting adds legs to balances; the
    outbox holds accepted envelopes; raising a flag adds one index to the published set.
  \<^item> \<open>Assessments\<close>, \<open>Payments\<close>, \<open>Issuance\<close>, \<open>BatchInvariant\<close>: pricing, maker and checker, settlement, batches. The
    invariants \<open>decisions_ok\<close>, \<open>payments_ok\<close>, \<open>ledger_matches\<close> and \<open>issuance_ok\<close> tie the tables together, and serial blocks
    claimed in any order are disjoint (interface \<open>block_allocator\<close>).
  \<^item> \<open>FieldVerification\<close>, \<open>Scans\<close>, \<open>FieldSafety\<close>, \<open>Genuine\<close>, \<open>FieldProperties\<close>: scans, voids and offline checks; the invariant
    \<open>field_ok\<close> of scans and published flags; what a scan is told, and that what was issued is accepted once.
  \<^item> \<open>Bearer\<close>, \<open>Policy\<close>, \<open>Guards\<close>, \<open>Consumer\<close>, \<open>FlowRoutes\<close>, \<open>StampRoutes\<close>, \<open>VerifyRoutes\<close>, \<open>Boot\<close>: everything around the services,
    handler by handler: authentication, the policy engine with the shipped policy, Redis guards, idempotency, capabilities,
    the consumer of declarations, all routes, and what must hold before the service starts.
  \<^item> \<open>Steps\<close>, \<open>System\<close>, \<open>Relations\<close>: the invariant \<open>system_ok\<close> of the whole database and every operation and handler that keeps
    it; the service as a step relation over requests, scans, messages and publishing runs; the interface
    \<open>service_relation\<close>, which lifts a relation that all operations respect to every run.
  \<^item> \<open>Attribution\<close>, \<open>History\<close>, \<open>Lifecycle\<close>, \<open>Retries\<close>: what holds of every run: records name the people whose allowed requests
    wrote them, evidence is only appended to, stamps refine an abstract machine of their life, retries change nothing.
  \<^item> \<open>Examples\<close>: the theorems on runs applied to concrete databases and requests.

  \<^bold>\<open>Parameters.\<close> Not under \<open>src\<close>, and so arguments of the definitions: SHA-256, Ed25519 and RSA (with the law that a
  signature verifies under the public key of its private key, where a theorem needs it), gzip (decompression undoes
  compression: \<open>gzip_ok\<close>), the PEM parser, the values of float literals, the Redis client (any state with four commands, a theorem
  that counts assumes that INCR counts, and where it is exact, that no command fails), the delivery of Kafka messages, and the sequence of random identifiers. Where a digest must not
  collide, the theorem assumes so for the byte strings it names; for the audit chain also that none of them
  hashes to the zeros the chain starts from. Values under a hash or a signature are JSON without floats, since \<open>1\<close>
  and \<open>1.0\<close> have the same canonical text.

  \<^bold>\<open>Loops.\<close> There is no fuel. The issuing loop of \<open>api/routes_stamps.py\<close> is a \<open>partial_function\<close> whose end is
  proved for every valid chunk size from the batch's remaining stamps; every other loop is structural recursion or has a
  measure.

  \<^bold>\<open>Limits.\<close> Transitions happen one after the other: interleavings within a request, and so what row locks and advisory
  locks are for, are outside the model. Text in service columns is Latin-1, upper case that of Unicode
  restricted to it. The number of denials the policy engine counts is not threaded through the handlers, since nothing
  reads it.

  \<^bold>\<open>Not modelled.\<close> \<open>db.py\<close> (connection pool), the routing, parsing and wording of errors of FastAPI and pydantic (their
  constraints on bodies are the \<open>valid_\<close> predicates), \<open>/healthz\<close> and \<open>/readyz\<close> (constants), the polling loops and clients of Kafka,
  uvicorn, reading settings from the environment, \<open>generate_pkcs8_pem\<close> (random key for operators), indexes and the
  downgrades of the migrations: input and output, libraries, or no state.
\<close>

end
